(* ===== verification/Prelude.thy ===== *)
theory Prelude
  imports Complex_Main "HOL-Library.Word" "HOL-Library.Monad_Syntax"
begin

text \<open>
  Shared vocabulary of the development: the C integer types of the RV32 target as words, checked
  array accesses (an access out of range is undefined behaviour and is the value \<open>None\<close>), the
  truncating division of C, and the list and word lemmas that several components use.
\<close>

section \<open>Types and fact collections\<close>

type_synonym i8 = "8 word"
type_synonym i16 = "16 word"
type_synonym i32 = "32 word"
type_synonym i64 = "64 word"

named_theorems fx_bounds
  \<comment> \<open>range facts of the fixed-point operations, read with \<open>sint\<close>\<close>

named_theorems fx_sint
  \<comment> \<open>equations that push \<open>sint\<close> through the fixed-point operations\<close>

named_theorems io_frame
  \<comment> \<open>which fields of a state an operation leaves alone\<close>

section \<open>Checked array accesses\<close>

text \<open>A C array of known extent is a list; \<open>None\<close> stands for undefined behaviour.\<close>

definition rd :: "'a list \<Rightarrow> nat \<Rightarrow> 'a option" where
  "rd xs n = (if n < length xs then Some (xs ! n) else None)"

definition wr :: "'a list \<Rightarrow> nat \<Rightarrow> 'a \<Rightarrow> 'a list option" where
  "wr xs n v = (if n < length xs then Some (xs[n := v]) else None)"

lemma rd_Some [simp]: "n < length xs \<Longrightarrow> rd xs n = Some (xs ! n)"
  by (simp add: rd_def)

lemma wr_Some [simp]: "n < length xs \<Longrightarrow> wr xs n v = Some (xs[n := v])"
  by (simp add: wr_def)

lemma rd_None_iff: "rd xs n = None \<longleftrightarrow> length xs \<le> n"
  by (auto simp: rd_def)

lemma wr_None_iff: "wr xs n v = None \<longleftrightarrow> length xs \<le> n"
  by (auto simp: wr_def)

lemma rd_eq_Some: "rd xs n = Some v \<longleftrightarrow> n < length xs \<and> v = xs ! n"
  by (auto simp: rd_def)

lemma wr_eq_Some: "wr xs n v = Some ys \<longleftrightarrow> n < length xs \<and> ys = xs[n := v]"
  by (auto simp: wr_def)

lemma wr_length: "wr xs n v = Some ys \<Longrightarrow> length ys = length xs"
  by (auto simp: wr_def split: if_splits)

section \<open>Division as C has it\<close>

text \<open>C truncates towards zero; the remainder has the sign of the dividend.\<close>

definition cdiv :: "int \<Rightarrow> int \<Rightarrow> int" where
  "cdiv a b = sgn a * sgn b * (\<bar>a\<bar> div \<bar>b\<bar>)"

definition crem :: "int \<Rightarrow> int \<Rightarrow> int" where
  "crem a b = a - cdiv a b * b"

lemma cdiv_nonneg [simp]: "0 \<le> a \<Longrightarrow> 0 < b \<Longrightarrow> cdiv a b = a div b"
  by (cases "a = 0") (auto simp: cdiv_def sgn_if)

lemma crem_nonneg [simp]: "0 \<le> a \<Longrightarrow> 0 < b \<Longrightarrow> crem a b = a mod b"
  by (simp add: crem_def minus_div_mult_eq_mod)

lemma cdiv_zero [simp]: "cdiv 0 b = 0"
  by (simp add: cdiv_def)

lemma crem_zero [simp]: "crem 0 b = 0"
  by (simp add: crem_def)

section \<open>Words\<close>

text \<open>The value of a signed 16-bit or 32-bit machine integer that an \<open>int\<close> wraps to.\<close>

definition wrap16 :: "int \<Rightarrow> int" where
  "wrap16 x = (x + 32768) mod 65536 - 32768"

definition wrap32 :: "int \<Rightarrow> int" where
  "wrap32 x = (x + 2147483648) mod 4294967296 - 2147483648"

lemma signed_take_bit_wrap16: "signed_take_bit 15 x = wrap16 x"
  by (simp add: signed_take_bit_eq_take_bit_shift take_bit_eq_mod wrap16_def)

lemma signed_take_bit_wrap32: "signed_take_bit 31 x = wrap32 x"
  by (simp add: signed_take_bit_eq_take_bit_shift take_bit_eq_mod wrap32_def)

lemma wrap16_id: "-32768 \<le> x \<Longrightarrow> x \<le> 32767 \<Longrightarrow> wrap16 x = x"
  by (simp add: wrap16_def)

lemma wrap32_id: "-2147483648 \<le> x \<Longrightarrow> x \<le> 2147483647 \<Longrightarrow> wrap32 x = x"
  by (simp add: wrap32_def)

lemma wrap16_range: "-32768 \<le> wrap16 x \<and> wrap16 x \<le> 32767"
  unfolding wrap16_def using pos_mod_bound [of 65536 "x + 32768"] pos_mod_sign [of 65536 "x + 32768"]
  by linarith

lemma wrap32_range: "-2147483648 \<le> wrap32 x \<and> wrap32 x \<le> 2147483647"
  unfolding wrap32_def using pos_mod_bound [of 4294967296 "x + 2147483648"]
    pos_mod_sign [of 4294967296 "x + 2147483648"]
  by linarith

lemma sint16_range: "-32768 \<le> sint (w :: i16) \<and> sint w \<le> 32767"
  using sint_ge [of w] sint_lt [of w] by simp

lemma sint32_range: "-2147483648 \<le> sint (w :: i32) \<and> sint w \<le> 2147483647"
  using sint_ge [of w] sint_lt [of w] by simp

lemma sint16_of_int: "sint (word_of_int x :: i16) = wrap16 x"
  by (simp add: sint_sbintrunc' signed_take_bit_wrap16)

lemma sint32_of_int: "sint (word_of_int x :: i32) = wrap32 x"
  by (simp add: sint_sbintrunc' signed_take_bit_wrap32)

lemma sint16_add: "sint (a + b :: i16) = wrap16 (sint a + sint b)"
  by (simp add: sint_word_ariths signed_take_bit_wrap16)

lemma sint16_sub: "sint (a - b :: i16) = wrap16 (sint a - sint b)"
  by (simp add: sint_word_ariths signed_take_bit_wrap16)

lemma sint32_add: "sint (a + b :: i32) = wrap32 (sint a + sint b)"
  by (simp add: sint_word_ariths signed_take_bit_wrap32)

lemma sint32_sub: "sint (a - b :: i32) = wrap32 (sint a - sint b)"
  by (simp add: sint_word_ariths signed_take_bit_wrap32)

lemma sint32_mult: "sint (a * b :: i32) = wrap32 (sint a * sint b)"
  by (simp add: sint_word_ariths signed_take_bit_wrap32)

lemma unat_of_nat32: "n < 4294967296 \<Longrightarrow> unat (of_nat n :: i32) = n"
  by (simp add: unat_of_nat take_bit_nat_eq_self)

section \<open>Lists\<close>

lemma distinct_map_filter_le: "distinct (map f xs) \<Longrightarrow> length (filter (\<lambda>e. f e = x) xs) \<le> 1"
  by (induction xs) (auto simp: filter_empty_conv, metis imageI)

section \<open>Counted loops\<close>

text \<open>
  \<open>for (i = lo; i < lo + n; i++) body\<close> on a state, where the body may be undefined.
\<close>

fun for_loop :: "nat \<Rightarrow> nat \<Rightarrow> (nat \<Rightarrow> 's \<Rightarrow> 's option) \<Rightarrow> 's \<Rightarrow> 's option" where
  "for_loop i 0 body s = Some s"
| "for_loop i (Suc n) body s = Option.bind (body i s) (for_loop (Suc i) n body)"

lemma for_loop_inv:
  assumes "P lo s" and step: "\<And>i s. lo \<le> i \<Longrightarrow> i < lo + n \<Longrightarrow> P i s \<Longrightarrow> \<exists>s'. body i s = Some s' \<and> P (Suc i) s'"
  shows "\<exists>s'. for_loop lo n body s = Some s' \<and> P (lo + n) s'"
  using assms
proof (induction n arbitrary: lo s)
  case 0
  then show ?case by simp
next
  case (Suc n)
  obtain s1 where s1: "body lo s = Some s1" "P (Suc lo) s1" using Suc.prems(2) [of lo s] Suc.prems(1) by auto
  have "\<exists>s'. for_loop (Suc lo) n body s1 = Some s' \<and> P (Suc lo + n) s'"
    by (rule Suc.IH [OF s1(2)]) (use Suc.prems(2) in auto)
  with s1(1) show ?case by auto
qed

lemma for_loop_fold:
  assumes "P s" and "\<And>i s. lo \<le> i \<Longrightarrow> i < lo + n \<Longrightarrow> P s \<Longrightarrow> body i s = Some (f i s) \<and> P (f i s)"
  shows "for_loop lo n body s = Some (fold f [lo..<lo + n] s) \<and> P (fold f [lo..<lo + n] s)"
  using assms
proof (induction n arbitrary: lo s)
  case 0
  then show ?case by simp
next
  case (Suc n)
  have b: "body lo s = Some (f lo s)" "P (f lo s)" using Suc.prems by auto
  have "for_loop (Suc lo) n body (f lo s) = Some (fold f [Suc lo..<Suc lo + n] (f lo s))
      \<and> P (fold f [Suc lo..<Suc lo + n] (f lo s))"
    by (rule Suc.IH [OF b(2)]) (use Suc.prems(2) in auto)
  moreover have "[lo..<lo + Suc n] = lo # [Suc lo..<Suc lo + n]" by (simp add: upt_conv_Cons del: upt_Suc)
  ultimately show ?case using b(1) by (simp only: for_loop.simps bind.bind_lunit fold.simps o_apply)
qed

end
