(* ===== verification/Copro.thy ===== *)
theory Copro
  imports Prelude
begin

unbundle bit_operations_syntax

text \<open>
  The FFT coprocessor behind the custom-3 instructions that the FFT application executes:
  the instruction decoder (\<open>core/cvxif_example/instr_decoder.sv\<close> over the table of
  \<open>cvxif_instr_pkg.sv\<close>), the ALU and the register file of the coprocessor
  (\<open>copro_alu.sv\<close>, \<open>cvxif_example_coprocessor.sv\<close>), and the C intrinsics of
  \<open>kissfft_lib/instr_copro.h\<close> that issue the instructions. One instruction is one step on the
  coprocessor's registers; the pipeline register between the ALU and the core delays the result by
  a cycle and is invisible to software, so a step returns the value that ends in \<open>rd\<close>.
\<close>

section \<open>Samples\<close>

text \<open>A complex sample is two 16-bit halves of a 32-bit register, real part on top.\<close>

datatype cpx = Cpx (re: i16) (im: i16)

definition unpack_r :: "i32 \<Rightarrow> i16" where
  "unpack_r c = ucast (signed_drop_bit 16 c)"

definition unpack_i :: "i32 \<Rightarrow> i16" where
  "unpack_i c = ucast (signed_drop_bit 16 (push_bit 16 c))"

definition CX :: "int \<Rightarrow> int \<Rightarrow> i32" where
  "CX r i = (push_bit 16 (ucast (word_of_int r :: i16))) OR ucast (word_of_int i :: i16)"

definition unpack :: "i32 \<Rightarrow> cpx" where
  "unpack c = Cpx (unpack_r c) (unpack_i c)"

text \<open>The concatenation \<open>{r, i}\<close> of the hardware.\<close>

definition concat16 :: "i16 \<Rightarrow> i16 \<Rightarrow> i32" where
  "concat16 r i = push_bit 16 (ucast r) OR ucast i"

section \<open>Opcodes and decoding\<close>

datatype opcode = ILLEGAL | NOP | BUF_RADIX_C | BUF_RADIX_R | R4_PUSH_2IN | R4_PUSH_MULT
  | R4_PUSH_READ_1 | R4_PUSH_READ_2 | R4_PUSH_READ_3 | R4_PUSH_READ_4

record copro_issue_resp =
  instr :: i32
  mask_bits :: i32
  writeback :: bool
  reads_rs1 :: bool
  reads_rs2 :: bool
  op :: opcode

text \<open>
  \<open>0xFE00707F\<close> is the mask that every entry has: \<open>funct7\<close>, \<open>funct3\<close> and the major
  opcode; \<open>0x7B\<close> is custom-3.
\<close>

definition entry :: "nat \<Rightarrow> nat \<Rightarrow> bool \<Rightarrow> bool \<Rightarrow> bool \<Rightarrow> opcode \<Rightarrow> copro_issue_resp" where
  "entry f7 f3 wb r1 r2 oc =
     \<lparr>instr = push_bit 25 (of_nat f7) OR push_bit 12 (of_nat f3) OR 0x7B, mask_bits = 0xFE00707F,
      writeback = wb, reads_rs1 = r1, reads_rs2 = r2, op = oc\<rparr>"

definition CoproInstr :: "copro_issue_resp list" where
  "CoproInstr =
     [entry 0 0 False False False NOP,
      entry 1 0 True True True BUF_RADIX_C,
      entry 1 1 True False False BUF_RADIX_R,
      entry 2 0 False True True R4_PUSH_2IN,
      entry 2 2 False True True R4_PUSH_MULT,
      entry 2 3 True True False R4_PUSH_READ_1,
      entry 2 4 True True True R4_PUSH_READ_2,
      entry 2 5 True True True R4_PUSH_READ_3,
      entry 2 6 True True True R4_PUSH_READ_4]"

definition sel :: "copro_issue_resp \<Rightarrow> i32 \<Rightarrow> bool" where
  "sel e w \<longleftrightarrow> mask_bits e AND w = instr e"

text \<open>The \<open>for\<close> loop of the decoder: a later matching entry overrides an earlier one.\<close>

definition instr_decode :: "i32 \<Rightarrow> copro_issue_resp option" where
  "instr_decode w = fold (\<lambda>e r. if sel e w then Some e else r) CoproInstr None"

text \<open>The operands that reach the ALU: a register the entry does not read is \<open>0\<close>.\<close>

definition issue_registers :: "copro_issue_resp \<Rightarrow> i32 \<Rightarrow> i32 \<Rightarrow> i32 \<times> i32" where
  "issue_registers e rs1 rs2 = (if reads_rs1 e then rs1 else 0, if reads_rs2 e then rs2 else 0)"

text \<open>The R-type word that the assembler emits for \<open>.insn r 0x7B, funct3, funct7, rd, rs1, rs2\<close>.\<close>

definition insn_r :: "nat \<Rightarrow> nat \<Rightarrow> 5 word \<Rightarrow> 5 word \<Rightarrow> 5 word \<Rightarrow> i32" where
  "insn_r f3 f7 rdn rs1n rs2n =
     push_bit 25 (of_nat f7) OR push_bit 20 (ucast rs2n) OR push_bit 15 (ucast rs1n)
       OR push_bit 12 (of_nat f3) OR push_bit 7 (ucast rdn) OR 0x7B"

section \<open>Fixed-point arithmetic of the coprocessor\<close>

text \<open>\<open>round\<close> of the ALU: half of a sample, \<open>round4\<close>: a quarter, both as Q15 products.\<close>

definition round2 :: "i16 \<Rightarrow> i16" where
  "round2 a = ucast (signed_drop_bit 15 (push_bit 14 (scast a) - scast a + push_bit 14 1 :: i32))"

definition round4 :: "i16 \<Rightarrow> i16" where
  "round4 a = ucast (signed_drop_bit 15 (push_bit 13 (scast a) - scast a + push_bit 14 1 :: i32))"

definition q15_clip :: "i32 \<Rightarrow> i16" where
  "q15_clip rounded =
     (if 32767 <s rounded then 32767
      else if rounded <s -32767 then -32767
      else ucast rounded)"

definition q15_mul_r :: "i16 \<Rightarrow> i16 \<Rightarrow> i16 \<Rightarrow> i16 \<Rightarrow> i16" where
  "q15_mul_r a b c d =
     (let prod = scast a * scast c - scast b * scast d :: i32
      in q15_clip (signed_drop_bit 15 (prod + push_bit 14 1)))"

definition q15_mul_i :: "i16 \<Rightarrow> i16 \<Rightarrow> i16 \<Rightarrow> i16 \<Rightarrow> i16" where
  "q15_mul_i a b c d =
     (let prod = scast a * scast d + scast b * scast c :: i32
      in q15_clip (signed_drop_bit 15 (prod + push_bit 14 1)))"

section \<open>Registers and steps\<close>

record copro =
  radix_mem :: i32
  buffer_r :: "i16 list"
  buffer_i :: "i16 list"
  buffer_coeff_r :: "i16 list"
  buffer_coeff_i :: "i16 list"

definition copro_reset :: copro where
  "copro_reset = \<lparr>radix_mem = 0, buffer_r = replicate 4 0, buffer_i = replicate 4 0,
     buffer_coeff_r = replicate 3 0, buffer_coeff_i = replicate 3 0\<rparr>"

definition copro_wf :: "copro \<Rightarrow> bool" where
  "copro_wf s \<longleftrightarrow> length (buffer_r s) = 4 \<and> length (buffer_i s) = 4
     \<and> length (buffer_coeff_r s) = 3 \<and> length (buffer_coeff_i s) = 3"

text \<open>The four sums that \<open>R4_PUSH_MULT\<close> and \<open>R4_PUSH_READ_1\<close> write back, on 16-bit registers.\<close>

definition bfly_regs ::
  "i16 \<times> i16 \<times> i16 \<times> i16 \<Rightarrow> i16 \<times> i16 \<times> i16 \<times> i16 \<Rightarrow> copro \<Rightarrow> copro" where
  "bfly_regs = (\<lambda>(t0_r, t1_r, t2_r, t3_r) (t0_i, t1_i, t2_i, t3_i) s.
     s\<lparr>buffer_r := [t0_r + t1_r + t2_r + t3_r,
                    t0_r + t1_i - t2_r - t3_i,
                    t0_r - t1_r + t2_r - t3_r,
                    t0_r - t1_i - t2_r + t3_i],
       buffer_i := [t0_i + t1_i + t2_i + t3_i,
                    t0_i - t1_r - t2_i + t3_r,
                    t0_i - t1_i + t2_i - t3_i,
                    t0_i + t1_r - t2_i - t3_r]\<rparr>)"

text \<open>The \<open>R4_PUSH_READ_2/3/4\<close> register writes: sample \<open>k\<close> rounded, coefficient \<open>k - 1\<close> raw.\<close>

definition load_regs :: "nat \<Rightarrow> i32 \<Rightarrow> i32 \<Rightarrow> copro \<Rightarrow> copro" where
  "load_regs k a w s =
     s\<lparr>buffer_i := (buffer_i s)[k := round4 (unpack_i a)],
       buffer_r := (buffer_r s)[k := round4 (unpack_r a)],
       buffer_coeff_i := (buffer_coeff_i s)[k - 1 := unpack_i w],
       buffer_coeff_r := (buffer_coeff_r s)[k - 1 := unpack_r w]\<rparr>"

definition coeff_mul :: "copro \<Rightarrow> nat \<Rightarrow> i16 \<times> i16" where
  "coeff_mul s k =
     (q15_mul_r (buffer_r s ! k) (buffer_i s ! k) (buffer_coeff_r s ! (k - 1)) (buffer_coeff_i s ! (k - 1)),
      q15_mul_i (buffer_r s ! k) (buffer_i s ! k) (buffer_coeff_r s ! (k - 1)) (buffer_coeff_i s ! (k - 1)))"

text \<open>
  One accepted instruction: the value that the ALU writes to \<open>rd\<close> (read from the registers before
  the clock edge) and the registers after the edge.
\<close>

fun copro_exec :: "opcode \<Rightarrow> i32 \<Rightarrow> i32 \<Rightarrow> copro \<Rightarrow> i32 \<times> copro" where
  "copro_exec BUF_RADIX_C a b s =
     (concat16 (round2 (unpack_r a) + round2 (unpack_r b)) (round2 (unpack_i a) + round2 (unpack_i b)),
      s\<lparr>radix_mem := concat16 (round2 (unpack_r a) - round2 (unpack_r b))
                             (round2 (unpack_i a) - round2 (unpack_i b))\<rparr>)"
| "copro_exec BUF_RADIX_R a b s = (radix_mem s, s)"
| "copro_exec R4_PUSH_2IN a b s =
     (0, s\<lparr>buffer_i := (buffer_i s)[0 := round4 (unpack_i a), 1 := round4 (unpack_i b)],
           buffer_r := (buffer_r s)[0 := round4 (unpack_r a), 1 := round4 (unpack_r b)]\<rparr>)"
| "copro_exec R4_PUSH_MULT a b s =
     (0, bfly_regs
           (buffer_r s ! 0, buffer_r s ! 1, round4 (unpack_r a), round4 (unpack_r b))
           (buffer_i s ! 0, buffer_i s ! 1, round4 (unpack_i a), round4 (unpack_i b)) s)"
| "copro_exec R4_PUSH_READ_1 a b s =
     (concat16 (buffer_r s ! 0) (buffer_i s ! 0),
      bfly_regs
        (round4 (unpack_r a), fst (coeff_mul s 1), fst (coeff_mul s 2), fst (coeff_mul s 3))
        (round4 (unpack_i a), snd (coeff_mul s 1), snd (coeff_mul s 2), snd (coeff_mul s 3)) s)"
| "copro_exec R4_PUSH_READ_2 a b s = (concat16 (buffer_r s ! 1) (buffer_i s ! 1), load_regs 1 a b s)"
| "copro_exec R4_PUSH_READ_3 a b s = (concat16 (buffer_r s ! 2) (buffer_i s ! 2), load_regs 2 a b s)"
| "copro_exec R4_PUSH_READ_4 a b s = (concat16 (buffer_r s ! 3) (buffer_i s ! 3), load_regs 3 a b s)"
| "copro_exec NOP a b s = (0, s)"
| "copro_exec ILLEGAL a b s = (0, s)"

section \<open>The C intrinsics\<close>

text \<open>
  Each \<open>static inline\<close> function of \<open>instr_copro.h\<close> is one \<open>asm volatile\<close> with its own
  \<open>funct3\<close> and \<open>funct7\<close>; \<open>issue\<close> is the offloading of that word: \<open>None\<close> is the illegal
  instruction trap of an instruction the coprocessor does not accept.
\<close>

definition issue :: "nat \<Rightarrow> nat \<Rightarrow> i32 \<Rightarrow> i32 \<Rightarrow> copro \<Rightarrow> (i32 \<times> copro) option" where
  "issue f3 f7 rs1 rs2 s =
     (case instr_decode (insn_r f3 f7 0 0 0) of
        None \<Rightarrow> None
      | Some e \<Rightarrow> (let (a, b) = issue_registers e rs1 rs2 in Some (copro_exec (op e) a b s)))"

definition coproc_radix_c :: "i32 \<Rightarrow> i32 \<Rightarrow> copro \<Rightarrow> (i32 \<times> copro) option" where
  "coproc_radix_c a b = issue 0 1 a b"

definition coproc_radix_r :: "copro \<Rightarrow> (i32 \<times> copro) option" where
  "coproc_radix_r = issue 1 1 0 0"

definition coproc_r4_push_2in :: "i32 \<Rightarrow> i32 \<Rightarrow> copro \<Rightarrow> (i32 \<times> copro) option" where
  "coproc_r4_push_2in in1 in2 = issue 0 2 in1 in2"

definition coproc_r4_push_mult :: "i32 \<Rightarrow> i32 \<Rightarrow> copro \<Rightarrow> (i32 \<times> copro) option" where
  "coproc_r4_push_mult in3 in4 = issue 2 2 in3 in4"

definition coproc_r4_push_read_1 :: "i32 \<Rightarrow> copro \<Rightarrow> (i32 \<times> copro) option" where
  "coproc_r4_push_read_1 in1 = issue 3 2 in1 0"

definition coproc_r4_push_read_2 :: "i32 \<Rightarrow> i32 \<Rightarrow> copro \<Rightarrow> (i32 \<times> copro) option" where
  "coproc_r4_push_read_2 in2 in_co2 = issue 4 2 in2 in_co2"

definition coproc_r4_push_read_3 :: "i32 \<Rightarrow> i32 \<Rightarrow> copro \<Rightarrow> (i32 \<times> copro) option" where
  "coproc_r4_push_read_3 in3 in_co3 = issue 5 2 in3 in_co3"

definition coproc_r4_push_read_4 :: "i32 \<Rightarrow> i32 \<Rightarrow> copro \<Rightarrow> (i32 \<times> copro) option" where
  "coproc_r4_push_read_4 in4 in_co4 = issue 6 2 in4 in_co4"


section \<open>Packing\<close>

definition pack :: "cpx \<Rightarrow> i32" where
  "pack z = concat16 (re z) (im z)"

lemma unpack_r_concat16 [simp]: "unpack_r (concat16 r i) = r"
  by (rule bit_word_eqI) (auto simp: unpack_r_def concat16_def bit_simps bit_signed_drop_bit_iff dest: bit_imp_le_length)

lemma unpack_i_concat16 [simp]: "unpack_i (concat16 r i) = i"
  by (rule bit_word_eqI) (auto simp: unpack_i_def concat16_def bit_simps bit_signed_drop_bit_iff)

lemma concat16_unpack [simp]: "concat16 (unpack_r c) (unpack_i c) = c"
  by (rule bit_word_eqI) (auto simp: unpack_i_def unpack_r_def concat16_def bit_simps bit_signed_drop_bit_iff)

lemma unpack_pack [simp]: "unpack (pack z) = z"
  by (simp add: unpack_def pack_def)

lemma pack_unpack [simp]: "pack (unpack c) = c"
  by (simp add: unpack_def pack_def)

lemma unpack_CX: "unpack (CX r i) = Cpx (word_of_int r) (word_of_int i)"
  using unpack_r_concat16 [of "word_of_int r" "word_of_int i"]
    unpack_i_concat16 [of "word_of_int r" "word_of_int i"]
  by (simp add: unpack_def CX_def concat16_def)

lemma unpack_zero: "unpack 0 = Cpx 0 0"
  by (simp add: unpack_def unpack_r_def unpack_i_def)

section \<open>Decoding is by \<open>funct7\<close> and \<open>funct3\<close> alone\<close>

lemma custom3_bits: "bit (0x7B :: i32) n \<Longrightarrow> n < 7"
proof -
  assume "bit (0x7B :: i32) n"
  moreover have "take_bit 7 (0x7B :: i32) = 0x7B" by simp
  ultimately show "n < 7" by (metis bit_take_bit_iff)
qed

lemma of_nat_bits:
  assumes "f < 2 ^ k" "bit (of_nat f :: i32) n"
  shows "n < k"
proof -
  have "take_bit k (of_nat f :: i32) = of_nat f"
    using assms(1) by (simp add: take_bit_of_nat take_bit_nat_eq_self)
  with assms(2) show ?thesis by (metis bit_take_bit_iff)
qed

lemma reg_bits: "bit (ucast (r :: 5 word) :: i32) n \<Longrightarrow> n < 5"
  by (auto simp: bit_simps dest: bit_imp_le_length)

lemma decoder_mask: "(0xFE00707F :: i32) = push_bit 25 (mask 7) OR (push_bit 12 (mask 3) OR mask 7)"
  by (simp add: mask_eq_exp_minus_1)

lemma mask_insn_r:
  assumes "f7 < 128" "f3 < 8"
  shows "0xFE00707F AND insn_r f3 f7 rdn rs1n rs2n = push_bit 25 (of_nat f7) OR push_bit 12 (of_nat f3) OR 0x7B"
    (is "?l = ?r")
proof (rule bit_word_eqI)
  fix n assume n: "n < LENGTH(32)"
  have f7: "bit (of_nat f7 :: i32) m \<Longrightarrow> m < 7" for m using of_nat_bits [of f7 7] assms by simp
  have f3: "bit (of_nat f3 :: i32) m \<Longrightarrow> m < 3" for m using of_nat_bits [of f3 3] assms by simp
  have regs: "bit (ucast r :: i32) m \<Longrightarrow> m < 5" for r :: "5 word" and m by (rule reg_bits)
  show "bit ?l n = bit ?r n"
    unfolding insn_r_def decoder_mask using n
    apply (simp only: bit_and_iff bit_or_iff bit_push_bit_iff bit_mask_iff)
    apply auto
    using f7 f3 regs custom3_bits apply force+
    done
qed


lemma sel_insn_r:
  assumes "f7 < 128" "f3 < 8" "e \<in> set CoproInstr"
  shows "sel e (insn_r f3 f7 rdn rs1n rs2n) \<longleftrightarrow> instr e = push_bit 25 (of_nat f7) OR push_bit 12 (of_nat f3) OR 0x7B"
proof -
  have "mask_bits e = 0xFE00707F"
    using assms(3) by (auto simp: CoproInstr_def entry_def)
  then show ?thesis
    using mask_insn_r [OF assms(1,2)] by (auto simp: sel_def)
qed

lemma instr_decode_insn_r:
  assumes "f7 < 128" "f3 < 8"
  shows "instr_decode (insn_r f3 f7 rdn rs1n rs2n) = instr_decode (insn_r f3 f7 0 0 0)"
  unfolding instr_decode_def
  by (rule fold_cong) (auto simp: sel_insn_r [OF assms])

lemma CoproInstr_distinct: "distinct (map instr CoproInstr)"
  by (simp add: CoproInstr_def entry_def)

lemma filter_sel_le_1: "length (filter (\<lambda>e. sel e w) CoproInstr) \<le> 1"
proof -
  have m: "mask_bits e = 0xFE00707F" if "e \<in> set CoproInstr" for e
    using that by (auto simp: CoproInstr_def entry_def)
  have "filter (\<lambda>e. sel e w) CoproInstr = filter (\<lambda>e. instr e = 0xFE00707F AND w) CoproInstr"
    by (rule filter_cong) (auto simp: sel_def m)
  also have "length \<dots> \<le> 1"
    by (rule distinct_map_filter_le [OF CoproInstr_distinct])
  finally show ?thesis .
qed

lemma instr_decode_table:
  "instr_decode (insn_r 0 1 0 0 0) = Some (entry 1 0 True True True BUF_RADIX_C)"
  "instr_decode (insn_r 1 1 0 0 0) = Some (entry 1 1 True False False BUF_RADIX_R)"
  "instr_decode (insn_r 0 2 0 0 0) = Some (entry 2 0 False True True R4_PUSH_2IN)"
  "instr_decode (insn_r 2 2 0 0 0) = Some (entry 2 2 False True True R4_PUSH_MULT)"
  "instr_decode (insn_r 3 2 0 0 0) = Some (entry 2 3 True True False R4_PUSH_READ_1)"
  "instr_decode (insn_r 4 2 0 0 0) = Some (entry 2 4 True True True R4_PUSH_READ_2)"
  "instr_decode (insn_r 5 2 0 0 0) = Some (entry 2 5 True True True R4_PUSH_READ_3)"
  "instr_decode (insn_r 6 2 0 0 0) = Some (entry 2 6 True True True R4_PUSH_READ_4)"
  by (simp_all add: instr_decode_def CoproInstr_def entry_def sel_def insn_r_def)

section \<open>The samples as a group, and the butterflies on them\<close>

instantiation cpx :: ab_group_add
begin

definition zero_cpx :: cpx where
  "0 = Cpx 0 0"

definition plus_cpx :: "cpx \<Rightarrow> cpx \<Rightarrow> cpx" where
  "x + y = Cpx (re x + re y) (im x + im y)"

definition minus_cpx :: "cpx \<Rightarrow> cpx \<Rightarrow> cpx" where
  "x - y = Cpx (re x - re y) (im x - im y)"

definition uminus_cpx :: "cpx \<Rightarrow> cpx" where
  "- x = Cpx (- re x) (- im x)"

instance
  by standard (auto simp: zero_cpx_def plus_cpx_def minus_cpx_def uminus_cpx_def intro: cpx.expand)

end

definition half :: "cpx \<Rightarrow> cpx" where
  "half z = Cpx (round2 (re z)) (round2 (im z))"

definition quarter :: "cpx \<Rightarrow> cpx" where
  "quarter z = Cpx (round4 (re z)) (round4 (im z))"

definition cmulq :: "cpx \<Rightarrow> cpx \<Rightarrow> cpx" where
  "cmulq z w = Cpx (q15_mul_r (re z) (im z) (re w) (im w)) (q15_mul_i (re z) (im z) (re w) (im w))"

text \<open>Multiplication by \<open>-j\<close>, which swaps the halves and negates one.\<close>

definition rotn :: "cpx \<Rightarrow> cpx" where
  "rotn z = Cpx (im z) (- re z)"

definition bfly4 :: "cpx \<Rightarrow> cpx \<Rightarrow> cpx \<Rightarrow> cpx \<Rightarrow> cpx list" where
  "bfly4 t0 t1 t2 t3 =
     [t0 + t1 + t2 + t3, t0 + rotn t1 - t2 - rotn t3, t0 - t1 + t2 - t3, t0 - rotn t1 - t2 + rotn t3]"

lemma length_bfly4 [simp]: "length (bfly4 a b c d) = 4"
  by (simp add: bfly4_def)

definition bufs :: "copro \<Rightarrow> cpx list" where
  "bufs s = map2 Cpx (buffer_r s) (buffer_i s)"

definition coeffs :: "copro \<Rightarrow> cpx list" where
  "coeffs s = map2 Cpx (buffer_coeff_r s) (buffer_coeff_i s)"

lemma bufs_nth:
  assumes "copro_wf s" "k < 4"
  shows "Cpx (buffer_r s ! k) (buffer_i s ! k) = bufs s ! k"
    "buffer_r s ! k = re (bufs s ! k)" "buffer_i s ! k = im (bufs s ! k)"
  using assms by (simp_all add: bufs_def copro_wf_def)

lemma coeffs_nth:
  assumes "copro_wf s" "k < 3"
  shows "buffer_coeff_r s ! k = re (coeffs s ! k)" "buffer_coeff_i s ! k = im (coeffs s ! k)"
  using assms by (simp_all add: coeffs_def copro_wf_def)

lemma length_bufs: "copro_wf s \<Longrightarrow> length (bufs s) = 4"
  by (simp add: bufs_def copro_wf_def)

lemma length_coeffs: "copro_wf s \<Longrightarrow> length (coeffs s) = 3"
  by (simp add: coeffs_def copro_wf_def)

lemma copro_wf_exec: "copro_wf s \<Longrightarrow> copro_wf (snd (copro_exec oc a b s))"
  by (cases oc) (auto simp: copro_wf_def bfly_regs_def load_regs_def)

lemma bufs_bfly_regs:
  "bufs (bfly_regs (t0r, t1r, t2r, t3r) (t0i, t1i, t2i, t3i) s)
     = bfly4 (Cpx t0r t0i) (Cpx t1r t1i) (Cpx t2r t2i) (Cpx t3r t3i)"
  by (simp add: bufs_def bfly_regs_def bfly4_def rotn_def plus_cpx_def minus_cpx_def)

lemma coeffs_bfly_regs: "coeffs (bfly_regs ts us s) = coeffs s"
  by (simp add: coeffs_def bfly_regs_def split: prod.split)

lemma map2_update: "(map2 Cpx xs ys)[k := Cpx x y] = map2 Cpx (xs[k := x]) (ys[k := y])"
  by (simp add: zip_update map_update)

lemma bufs_load_regs: "bufs (load_regs k a w s) = (bufs s)[k := quarter (unpack a)]"
  by (simp add: bufs_def load_regs_def quarter_def unpack_def map2_update)

lemma coeffs_load_regs: "coeffs (load_regs k a w s) = (coeffs s)[k - 1 := unpack w]"
  by (simp add: coeffs_def load_regs_def unpack_def map2_update)

lemma coeff_mul_cmulq:
  assumes "copro_wf s" "k < 4" "0 < k"
  shows "coeff_mul s k = (re (cmulq (bufs s ! k) (coeffs s ! (k - 1))), im (cmulq (bufs s ! k) (coeffs s ! (k - 1))))"
  using assms by (simp add: coeff_mul_def cmulq_def bufs_nth coeffs_nth)

section \<open>What each intrinsic does, on samples\<close>

lemma intrinsic_exec:
  "coproc_radix_c a b s = Some (copro_exec BUF_RADIX_C a b s)"
  "coproc_radix_r s = Some (copro_exec BUF_RADIX_R 0 0 s)"
  "coproc_r4_push_2in a b s = Some (copro_exec R4_PUSH_2IN a b s)"
  "coproc_r4_push_mult a b s = Some (copro_exec R4_PUSH_MULT a b s)"
  "coproc_r4_push_read_1 a s = Some (copro_exec R4_PUSH_READ_1 a 0 s)"
  "coproc_r4_push_read_2 a b s = Some (copro_exec R4_PUSH_READ_2 a b s)"
  "coproc_r4_push_read_3 a b s = Some (copro_exec R4_PUSH_READ_3 a b s)"
  "coproc_r4_push_read_4 a b s = Some (copro_exec R4_PUSH_READ_4 a b s)"
  by (simp_all add: coproc_radix_c_def coproc_radix_r_def coproc_r4_push_2in_def
      coproc_r4_push_mult_def coproc_r4_push_read_1_def coproc_r4_push_read_2_def
      coproc_r4_push_read_3_def coproc_r4_push_read_4_def issue_def instr_decode_table
      issue_registers_def entry_def del: One_nat_def)

lemma radix_pair:
  "fst (copro_exec BUF_RADIX_C a b s) = pack (half (unpack a) + half (unpack b))"
  "radix_mem (snd (copro_exec BUF_RADIX_C a b s)) = pack (half (unpack a) - half (unpack b))"
  by (simp_all add: pack_def half_def unpack_def plus_cpx_def minus_cpx_def)

lemma exec_2in:
  "bufs (snd (copro_exec R4_PUSH_2IN a b s)) = (bufs s)[0 := quarter (unpack a), 1 := quarter (unpack b)]"
  by (simp add: bufs_def quarter_def unpack_def map2_update [symmetric])

lemma exec_mult:
  assumes "copro_wf s"
  shows "bufs (snd (copro_exec R4_PUSH_MULT a b s))
    = bfly4 (bufs s ! 0) (bufs s ! 1) (quarter (unpack a)) (quarter (unpack b))"
  using assms by (simp add: bufs_bfly_regs bufs_nth quarter_def unpack_def)

lemma exec_read_1:
  assumes "copro_wf s"
  shows "fst (copro_exec R4_PUSH_READ_1 a b s) = pack (bufs s ! 0)"
    "bufs (snd (copro_exec R4_PUSH_READ_1 a b s))
      = bfly4 (quarter (unpack a)) (cmulq (bufs s ! 1) (coeffs s ! 0))
          (cmulq (bufs s ! 2) (coeffs s ! 1)) (cmulq (bufs s ! 3) (coeffs s ! 2))"
  using assms
  by (simp_all add: pack_def bufs_nth bufs_bfly_regs coeff_mul_cmulq quarter_def unpack_def)

lemma exec_read_k:
  assumes "copro_wf s"
  shows "copro_exec R4_PUSH_READ_2 a b s = (pack (bufs s ! 1), load_regs 1 a b s)"
    "copro_exec R4_PUSH_READ_3 a b s = (pack (bufs s ! 2), load_regs 2 a b s)"
    "copro_exec R4_PUSH_READ_4 a b s = (pack (bufs s ! 3), load_regs 3 a b s)"
  using assms by (simp_all add: pack_def bufs_nth)

lemma copro_wf_load_regs: "copro_wf s \<Longrightarrow> copro_wf (load_regs k a w s)"
  by (simp add: copro_wf_def load_regs_def)

declare copro_exec.simps [simp del]

section \<open>Properties\<close>

lemma key_inj:
  assumes "f7 < 128" "f3 < 8" "g7 < 128" "g3 < 8"
    and eq: "push_bit 25 (of_nat f7) OR push_bit 12 (of_nat f3) OR 0x7B
      = (push_bit 25 (of_nat g7) OR push_bit 12 (of_nat g3) OR 0x7B :: i32)"
  shows "f7 = g7" "f3 = g3"
proof -
  have lim: "bit (of_nat f7 :: i32) n \<Longrightarrow> n < 7" "bit (of_nat g7 :: i32) n \<Longrightarrow> n < 7"
    "bit (of_nat f3 :: i32) n \<Longrightarrow> n < 3" "bit (of_nat g3 :: i32) n \<Longrightarrow> n < 3" for n
    using of_nat_bits [of f7 7 n] of_nat_bits [of g7 7 n] of_nat_bits [of f3 3 n] of_nat_bits [of g3 3 n] assms(1-4)
    by simp_all
  have hi: "bit (of_nat f7 :: i32) n \<longleftrightarrow> bit (of_nat g7 :: i32) n" for n
  proof (cases "n < 7")
    case True
    have "bit (0x7B :: i32) (25 + n) = False" using custom3_bits [of "25 + n"] by auto
    with arg_cong [OF eq, of "\<lambda>w. bit w (25 + n)"] True lim(3,4) [of "n + 13"] show ?thesis
      by (auto simp: bit_simps add.commute)
  qed (use lim in auto)
  have lo: "bit (of_nat f3 :: i32) n \<longleftrightarrow> bit (of_nat g3 :: i32) n" for n
  proof (cases "n < 3")
    case True
    have "bit (0x7B :: i32) (12 + n) = False" using custom3_bits [of "12 + n"] by auto
    with arg_cong [OF eq, of "\<lambda>w. bit w (12 + n)"] True show ?thesis
      by (auto simp: bit_simps)
  qed (use lim in auto)
  have eqs: "(of_nat f7 :: i32) = of_nat g7" "(of_nat f3 :: i32) = of_nat g3"
    by (rule bit_word_eqI, simp add: hi, rule bit_word_eqI, simp add: lo)
  have nat_eq: "a = b" if "a < 128" "b < 128" "(of_nat a :: i32) = of_nat b" for a b
  proof -
    have "unat (of_nat a :: i32) = a" "unat (of_nat b :: i32) = b"
      using that(1,2) by (simp_all add: unat_of_nat)
    then show ?thesis using that(3) by metis
  qed
  show "f7 = g7" by (rule nat_eq) (use assms eqs in auto)
  show "f3 = g3" by (rule nat_eq) (use assms eqs in auto)
qed

text \<open>
  C33: the decoder accepts a custom-3 R-type word exactly when its \<open>funct7\<close> and \<open>funct3\<close> are in the
  table, whatever the register numbers, and with the opcode that the intrinsic of
  \<open>instr_copro.h\<close> with these fields stands for.
\<close>

theorem decode_by_funct:
  assumes "f7 < 128" "f3 < 8"
  shows "map_option op (instr_decode (insn_r f3 f7 rdn rs1n rs2n)) =
    map_of [((0, 0), NOP), ((1, 0), BUF_RADIX_C), ((1, 1), BUF_RADIX_R), ((2, 0), R4_PUSH_2IN),
      ((2, 2), R4_PUSH_MULT), ((2, 3), R4_PUSH_READ_1), ((2, 4), R4_PUSH_READ_2),
      ((2, 5), R4_PUSH_READ_3), ((2, 6), R4_PUSH_READ_4)] (f7, f3)"
proof -
  let ?w = "insn_r f3 f7 rdn rs1n rs2n"
  have sel: "sel (entry g7 g3 wb r1 r2 oc) ?w \<longleftrightarrow> f7 = g7 \<and> f3 = g3"
    if "entry g7 g3 wb r1 r2 oc \<in> set CoproInstr" "g7 < 128" "g3 < 8" for g7 g3 wb r1 r2 oc
    using key_inj [OF that(2,3) assms] unfolding sel_insn_r [OF assms that(1)]
    by (auto simp: entry_def)
  have mem: "entry 0 0 False False False NOP \<in> set CoproInstr"
    "entry 1 0 True True True BUF_RADIX_C \<in> set CoproInstr"
    "entry 1 1 True False False BUF_RADIX_R \<in> set CoproInstr"
    "entry 2 0 False True True R4_PUSH_2IN \<in> set CoproInstr"
    "entry 2 2 False True True R4_PUSH_MULT \<in> set CoproInstr"
    "entry 2 3 True True False R4_PUSH_READ_1 \<in> set CoproInstr"
    "entry 2 4 True True True R4_PUSH_READ_2 \<in> set CoproInstr"
    "entry 2 5 True True True R4_PUSH_READ_3 \<in> set CoproInstr"
    "entry 2 6 True True True R4_PUSH_READ_4 \<in> set CoproInstr"
    by (simp_all only: CoproInstr_def list.set insert_iff simp_thms)
  have oc: "op (entry g7 g3 wb r1 r2 c) = c" for g7 g3 wb r1 r2 c
    by (simp add: entry_def)
  note sels = mem [THEN sel]
  show ?thesis
    unfolding instr_decode_def CoproInstr_def
    by (simp only: fold.simps o_def id_def sels map_of.simps fst_conv snd_conv prod.inject) (auto simp: oc)
qed

lemma decode_by_funct_witness:
  "map_option op (instr_decode (insn_r 4 2 10 11 12)) = Some R4_PUSH_READ_2"
  using decode_by_funct [of 2 4 10 11 12] by simp

text \<open>
  No offloaded word selects two entries of the instruction table (the decoder's own
  \<open>$onehot0(sel)\<close> assertion), so the order of the table does not matter.
\<close>

theorem decoder_onehot: "length (filter (\<lambda>e. sel e w) CoproInstr) \<le> 1"
  by (rule filter_sel_le_1)

end
