(* ===== verification/FixedPoint.thy ===== *)
theory FixedPoint
  imports Copro
begin

text \<open>
  The fixed-point operations of the coprocessor read as integer arithmetic: the value of each
  rounding and multiplication, its range, and the conditions under which a butterfly does not wrap
  around its 16-bit registers. The integer versions at the end evaluate quickly in the kernel.
\<close>

section \<open>Values\<close>

lemma sint_scast32: "sint (scast (a :: i16) :: i32) = sint a"
  by (simp add: signed_scast_eq signed_take_bit_wrap32 wrap32_id order_trans [OF _ sint16_range [THEN conjunct1]]
      order_trans [OF sint16_range [THEN conjunct2]])

lemma sint_ucast16: "sint (ucast (w :: i32) :: i16) = wrap16 (sint w)"
proof -
  have "sint (ucast w :: i16) = signed_take_bit 15 (uint w)"
    by (simp add: signed_ucast_eq)
  also have "\<dots> = signed_take_bit 15 (sint w)"
    by (rule signed_take_bit_eq_iff_take_bit_eq [THEN iffD2]) (simp add: take_bit_signed_take_bit uint_sint)
  finally show ?thesis by (simp add: signed_take_bit_wrap16)
qed

lemma sint_drop15: "sint (signed_drop_bit 15 (w :: i32)) = sint w div 32768"
  by (simp add: sint_signed_drop_bit_eq drop_bit_eq_div)

lemma push_bit_mult32: "push_bit n (w :: i32) = w * 2 ^ n"
  by (simp add: push_bit_eq_mult)

lemma sint_round2 [fx_sint]: "sint (round2 a) = (sint a * 16383 + 16384) div 32768"
proof -
  have r: "-32768 \<le> sint a" "sint a \<le> 32767" using sint16_range [of a] by auto
  have "sint (push_bit 14 (scast a) - scast a + push_bit 14 1 :: i32) = sint a * 16383 + 16384"
    using r by (simp add: push_bit_mult32 sint32_add sint32_sub sint32_mult sint_scast32 wrap32_id)
  moreover have "-32768 \<le> (sint a * 16383 + 16384) div 32768" "(sint a * 16383 + 16384) div 32768 \<le> 32767"
    using r by linarith+
  ultimately show ?thesis
    by (simp add: round2_def sint_ucast16 sint_drop15 wrap16_id)
qed

lemma sint_round4 [fx_sint]: "sint (round4 a) = (sint a * 8191 + 16384) div 32768"
proof -
  have r: "-32768 \<le> sint a" "sint a \<le> 32767" using sint16_range [of a] by auto
  have "sint (push_bit 13 (scast a) - scast a + push_bit 14 1 :: i32) = sint a * 8191 + 16384"
    using r by (simp add: push_bit_mult32 sint32_add sint32_sub sint32_mult sint_scast32 wrap32_id)
  moreover have "-32768 \<le> (sint a * 8191 + 16384) div 32768" "(sint a * 8191 + 16384) div 32768 \<le> 32767"
    using r by linarith+
  ultimately show ?thesis
    by (simp add: round4_def sint_ucast16 sint_drop15 wrap16_id)
qed

definition clip16 :: "int \<Rightarrow> int" where
  "clip16 x = max (-32767) (min 32767 x)"

lemma sint_q15_clip: "sint (q15_clip w) = clip16 (sint w)"
proof -
  have "wrap16 (sint w) = sint w" if "\<not> 32767 < sint w" "\<not> sint w < -32767"
    using that by (simp add: wrap16_id)
  then show ?thesis
    by (auto simp: q15_clip_def clip16_def word_sless_alt sint_ucast16)
qed

lemma sint_prod_bound:
  fixes a b :: i16
  shows "\<bar>sint a * sint b\<bar> \<le> 1073741824"
proof -
  have "\<bar>sint a\<bar> \<le> 32768" "\<bar>sint b\<bar> \<le> 32768"
    using sint16_range [of a] sint16_range [of b] by auto
  then have "\<bar>sint a\<bar> * \<bar>sint b\<bar> \<le> 32768 * 32768" by (intro mult_mono) auto
  then show ?thesis by (simp add: abs_mult)
qed

lemma sint_q15_mul_r [fx_sint]:
  "sint (q15_mul_r a b c d) = clip16 (wrap32 (wrap32 (sint a * sint c - sint b * sint d) + 16384) div 32768)"
proof -
  have "wrap32 (sint a * sint c) = sint a * sint c" "wrap32 (sint b * sint d) = sint b * sint d"
    using sint_prod_bound [of a c] sint_prod_bound [of b d] by (simp_all add: wrap32_id abs_le_iff)
  then show ?thesis
    by (simp add: q15_mul_r_def Let_def sint_q15_clip sint_drop15 sint32_add sint32_sub sint32_mult
        sint_scast32 push_bit_mult32)
qed

lemma sint_q15_mul_i [fx_sint]:
  "sint (q15_mul_i a b c d) = clip16 (wrap32 (wrap32 (sint a * sint d + sint b * sint c) + 16384) div 32768)"
proof -
  have "wrap32 (sint a * sint d) = sint a * sint d" "wrap32 (sint b * sint c) = sint b * sint c"
    using sint_prod_bound [of a d] sint_prod_bound [of b c] by (simp_all add: wrap32_id abs_le_iff)
  then show ?thesis
    by (simp add: q15_mul_i_def Let_def sint_q15_clip sint_drop15 sint32_add sint32_mult
        sint_scast32 push_bit_mult32)
qed

section \<open>Ranges\<close>

lemma round2_range [fx_bounds]: "-16383 \<le> sint (round2 a) \<and> sint (round2 a) \<le> 16383"
  using sint16_range [of a] unfolding sint_round2 by linarith

lemma round4_range [fx_bounds]: "-8191 \<le> sint (round4 a) \<and> sint (round4 a) \<le> 8191"
  using sint16_range [of a] unfolding sint_round4 by linarith

lemma round4_abs: "32768 * \<bar>sint (round4 a)\<bar> \<le> 8191 * \<bar>sint a\<bar> + 16384"
  unfolding sint_round4 by linarith

text \<open>The radix-2 step never wraps: the two halves fit.\<close>

lemma radix2_exact:
  "sint (round2 a + round2 b) = sint (round2 a) + sint (round2 b)"
  "sint (round2 a - round2 b) = sint (round2 a) - sint (round2 b)"
  using round2_range [of a] round2_range [of b]
  by (simp_all add: sint16_add sint16_sub wrap16_id)

lemma fourfold_exact:
  assumes "\<bar>sint a\<bar> + \<bar>sint b\<bar> + \<bar>sint c\<bar> + \<bar>sint (d :: i16)\<bar> \<le> 32767"
  shows "sint (a + b + c + d) = sint a + sint b + sint c + sint d"
    "sint (a + b - c - d) = sint a + sint b - sint c - sint d"
    "sint (a - b + c - d) = sint a - sint b + sint c - sint d"
    "sint (a - b - c + d) = sint a - sint b - sint c + sint d"
  using assms by (simp_all add: sint16_add sint16_sub wrap16_id abs_if split: if_splits)

section \<open>Properties\<close>

text \<open>
  The pair of instructions of the radix-2 step. \<open>coproc_radix_c\<close> returns the sum of the rounded
  halves of its operands and \<open>coproc_radix_r\<close> the difference, in both components as integers: for
  no operands does the 16-bit result wrap around.
\<close>

theorem radix2_pair_exact:
  fixes a b :: i32
  defines "h \<equiv> \<lambda>x :: i16. (sint x * 16383 + 16384) div 32768"
  shows "\<exists>v s1 w. coproc_radix_c a b s = Some (v, s1) \<and> coproc_radix_r s1 = Some (w, s1)
    \<and> sint (unpack_r v) = h (unpack_r a) + h (unpack_r b) \<and> sint (unpack_i v) = h (unpack_i a) + h (unpack_i b)
    \<and> sint (unpack_r w) = h (unpack_r a) - h (unpack_r b) \<and> sint (unpack_i w) = h (unpack_i a) - h (unpack_i b)"
  by (simp add: intrinsic_exec copro_exec.simps radix2_exact sint_round2 h_def)

text \<open>
  C34: the coprocessor's Q15 multiplication is the exact complex product, scaled by \<open>2^-15\<close> and
  rounded to nearest in each component, whenever the magnitudes of the components of one factor add
  up to at most \<open>32766\<close>; then it neither saturates nor overflows its 32-bit intermediate.
\<close>

theorem q15_mul_rounds:
  assumes "\<bar>sint a\<bar> + \<bar>sint b\<bar> \<le> 32766"
  shows "sint (q15_mul_r a b c d) = (sint a * sint c - sint b * sint d + 16384) div 32768
    \<and> sint (q15_mul_i a b c d) = (sint a * sint d + sint b * sint c + 16384) div 32768"
proof -
  have small: "\<bar>x * y\<bar> \<le> \<bar>x\<bar> * 32768" if "\<bar>y\<bar> \<le> 32768" for x y :: int
    unfolding abs_mult by (intro mult_left_mono that) simp
  have c: "\<bar>sint c\<bar> \<le> 32768" "\<bar>sint d\<bar> \<le> 32768" using sint16_range [of c] sint16_range [of d] by auto
  have exact: "clip16 (wrap32 (wrap32 p + 16384) div 32768) = (p + 16384) div 32768"
    if "\<bar>p\<bar> \<le> 32766 * 32768" for p
  proof -
    have "wrap32 p = p" "wrap32 (p + 16384) = p + 16384" using that by (simp_all add: wrap32_id)
    moreover have "-32767 \<le> (p + 16384) div 32768" "(p + 16384) div 32768 \<le> 32767" using that by linarith+
    ultimately show ?thesis by (simp add: clip16_def)
  qed
  have "\<bar>sint a * sint c - sint b * sint d\<bar> \<le> 32766 * 32768" "\<bar>sint a * sint d + sint b * sint c\<bar> \<le> 32766 * 32768"
    using small [OF c(1), of "sint a"] small [OF c(2), of "sint b"] small [OF c(2), of "sint a"]
      small [OF c(1), of "sint b"] assms by linarith+
  then show ?thesis
    by (simp_all only: sint_q15_mul_r sint_q15_mul_i exact)
qed

lemma q15_mul_rounds_witness:
  "sint (q15_mul_r 16000 (- 16000) 32767 1) = 16000 \<and> sint (q15_mul_i 16000 (- 16000) 32767 1) = -15999"
  using q15_mul_rounds [of 16000 "- 16000" 32767 1] by simp

end
