(* ===== verification/Radix4.thy ===== *)
theory Radix4
  imports Copro
begin

text \<open>
  \<open>copro_radix4\<close> of \<open>kissfft_lib/kiss_fft.c\<close>: one radix-4 combination stage of the FFT, software
  pipelined over the coprocessor. The loop reads the results of butterfly \<open>k\<close> with the same four
  instructions that push the operands of butterfly \<open>k + 1\<close>. The main result of the theory is that
  the pipelined, in-place loop computes, for every \<open>k < m\<close>, the butterfly of the four samples
  \<open>Fout[k]\<close>, \<open>Fout[k+m]\<close>, \<open>Fout[k+2m]\<close>, \<open>Fout[k+3m]\<close> with the twiddles \<open>k*fstride\<close>,
  \<open>2*k*fstride\<close> and \<open>3*k*fstride\<close>, and writes nothing else.
\<close>

section \<open>The code\<close>

text \<open>
  \<open>kiss_fft_state\<close>, with the arrays its pointers refer to. The element type of \<open>twiddles\<close> is the
  packed sample.
\<close>

record kiss_fft_state =
  nfft :: int
  inverse :: int
  factors :: "int list"
  twiddles :: "i32 list"

text \<open>
  The body of the \<open>do\<close> loop. \<open>Fout\<close> and \<open>Fout_in\<close> are offsets into the array \<open>F\<close>; the
  \<open>itw\<close> counters are \<open>uint16_t\<close>, so they are reduced modulo \<open>65536\<close> at each assignment.
\<close>

definition radix4_body ::
  "nat \<Rightarrow> kiss_fft_state \<Rightarrow> nat \<Rightarrow> nat \<times> nat \<times> nat \<times> nat \<times> nat \<times> i32 list \<times> copro
     \<Rightarrow> (nat \<times> nat \<times> nat \<times> nat \<times> nat \<times> i32 list \<times> copro) option" where
  "radix4_body fstride st m = (\<lambda>(Fout, Fout_in, itw1, itw2, itw3, F, s). do {
     let Fout_in = Fout_in + 1;
     let itw1 = (itw1 + fstride) mod 65536;
     let itw2 = (itw2 + fstride * 2) mod 65536;
     let itw3 = (itw3 + fstride * 3) mod 65536;
     a2 \<leftarrow> rd F (Fout_in + m);
     w1 \<leftarrow> rd (twiddles st) itw1;
     (v2, s) \<leftarrow> coproc_r4_push_read_2 a2 w1 s;
     F \<leftarrow> wr F (Fout + m) v2;
     a3 \<leftarrow> rd F (Fout_in + 2 * m);
     w2 \<leftarrow> rd (twiddles st) itw2;
     (v3, s) \<leftarrow> coproc_r4_push_read_3 a3 w2 s;
     F \<leftarrow> wr F (Fout + 2 * m) v3;
     a4 \<leftarrow> rd F (Fout_in + 3 * m);
     w3 \<leftarrow> rd (twiddles st) itw3;
     (v4, s) \<leftarrow> coproc_r4_push_read_4 a4 w3 s;
     F \<leftarrow> wr F (Fout + 3 * m) v4;
     a1 \<leftarrow> rd F Fout_in;
     (v1, s) \<leftarrow> coproc_r4_push_read_1 a1 s;
     F \<leftarrow> wr F Fout v1;
     Some (Fout + 1, Fout_in, itw1, itw2, itw3, F, s)
   })"

text \<open>
  \<open>do ... while (--k)\<close>. For \<open>k = 0\<close> the decrement wraps to \<open>SIZE_MAX\<close> and the loop would run
  off every array: undefined behaviour.
\<close>

fun radix4_loop ::
  "nat \<Rightarrow> nat \<Rightarrow> kiss_fft_state \<Rightarrow> nat \<Rightarrow> nat \<times> nat \<times> nat \<times> nat \<times> nat \<times> i32 list \<times> copro
     \<Rightarrow> (nat \<times> nat \<times> nat \<times> nat \<times> nat \<times> i32 list \<times> copro) option" where
  "radix4_loop 0 fstride st m x = None"
| "radix4_loop (Suc 0) fstride st m x = radix4_body fstride st m x"
| "radix4_loop (Suc (Suc k)) fstride st m x =
     Option.bind (radix4_body fstride st m x) (radix4_loop (Suc k) fstride st m)"

definition copro_radix4 ::
  "i32 list \<Rightarrow> nat \<Rightarrow> nat \<Rightarrow> kiss_fft_state \<Rightarrow> nat \<Rightarrow> copro \<Rightarrow> (i32 list \<times> copro) option" where
  "copro_radix4 F Fout fstride st m s = do {
     a0 \<leftarrow> rd F Fout;
     a1 \<leftarrow> rd F (Fout + m);
     (_, s) \<leftarrow> coproc_r4_push_2in a0 a1 s;
     a2 \<leftarrow> rd F (Fout + 2 * m);
     a3 \<leftarrow> rd F (Fout + 3 * m);
     (_, s) \<leftarrow> coproc_r4_push_mult a2 a3 s;
     (Fout, Fout_in, itw1, itw2, itw3, F, s) \<leftarrow> radix4_loop (m - 1) fstride st m (Fout, Fout, 0, 0, 0, F, s);
     (v2, s) \<leftarrow> coproc_r4_push_read_2 0 0 s;
     F \<leftarrow> wr F (Fout + m) v2;
     (v3, s) \<leftarrow> coproc_r4_push_read_3 0 0 s;
     F \<leftarrow> wr F (Fout + 2 * m) v3;
     (v4, s) \<leftarrow> coproc_r4_push_read_4 0 0 s;
     F \<leftarrow> wr F (Fout + 3 * m) v4;
     (v1, s) \<leftarrow> coproc_r4_push_read_1 0 s;
     F \<leftarrow> wr F Fout v1;
     Some (F, s)
   }"

section \<open>The reference: one butterfly per column\<close>

text \<open>
  \<open>r4_col W k\<close> is the butterfly of column \<open>k\<close>: the first column has no twiddle multiplication, the
  others multiply by \<open>W 1\<close>, \<open>W 2\<close>, \<open>W 3\<close>.
\<close>

definition r4_col :: "(nat \<Rightarrow> cpx) \<Rightarrow> nat \<Rightarrow> cpx \<Rightarrow> cpx \<Rightarrow> cpx \<Rightarrow> cpx \<Rightarrow> cpx list" where
  "r4_col W k x0 x1 x2 x3 =
     (if k = 0 then bfly4 (quarter x0) (quarter x1) (quarter x2) (quarter x3)
      else bfly4 (quarter x0) (cmulq (quarter x1) (W k)) (cmulq (quarter x2) (W (2 * k)))
             (cmulq (quarter x3) (W (3 * k))))"

text \<open>The twiddle of the stage with stride \<open>fs\<close>.\<close>

definition tw_at :: "kiss_fft_state \<Rightarrow> nat \<Rightarrow> nat \<Rightarrow> cpx" where
  "tw_at st fs k = unpack (twiddles st ! (k * fs))"

definition col_of :: "kiss_fft_state \<Rightarrow> nat \<Rightarrow> i32 list \<Rightarrow> nat \<Rightarrow> nat \<Rightarrow> nat \<Rightarrow> cpx list" where
  "col_of st fs F off m k =
     r4_col (tw_at st fs) k (unpack (F ! (off + k))) (unpack (F ! (off + m + k)))
       (unpack (F ! (off + 2 * m + k))) (unpack (F ! (off + 3 * m + k)))"

text \<open>The array with the first \<open>j\<close> columns combined.\<close>

definition r4_upto :: "kiss_fft_state \<Rightarrow> nat \<Rightarrow> i32 list \<Rightarrow> nat \<Rightarrow> nat \<Rightarrow> nat \<Rightarrow> i32 list" where
  "r4_upto st fs F off m j = map (\<lambda>n.
     if off \<le> n \<and> n < off + 4 * m \<and> (n - off) mod m < j
     then pack (col_of st fs F off m ((n - off) mod m) ! ((n - off) div m)) else F ! n) [0..<length F]"

lemma length_r4_upto [simp]: "length (r4_upto st fs F off m j) = length F"
  by (simp add: r4_upto_def)

lemma r4_upto_0 [simp]: "r4_upto st fs F off m 0 = F"
  by (simp add: r4_upto_def map_nth)

lemma r4_upto_nth: "n < length F \<Longrightarrow> r4_upto st fs F off m j ! n =
    (if off \<le> n \<and> n < off + 4 * m \<and> (n - off) mod m < j
     then pack (col_of st fs F off m ((n - off) mod m) ! ((n - off) div m)) else F ! n)"
  by (simp add: r4_upto_def)

lemma r4_upto_later:
  assumes "j \<le> c" "c < m" "q < 4" "off + 4 * m \<le> length F"
  shows "r4_upto st fs F off m j ! (off + q * m + c) = F ! (off + q * m + c)"
proof -
  have "q * m + c < 4 * m"
  proof -
    have "q * m \<le> 3 * m" using assms(3) by simp
    then show ?thesis using assms(2) by linarith
  qed
  then have "off + q * m + c < length F" using assms(4) by linarith
  moreover have "(off + q * m + c - off) mod m = c"
    using assms(2) by (simp add: add.assoc)
  ultimately show ?thesis using assms(1) by (simp add: r4_upto_nth)
qed

lemma r4_upto_Suc:
  assumes "j < m" "off + 4 * m \<le> length F"
    and c: "c = col_of st fs F off m j"
  shows "(r4_upto st fs F off m j)[off + m + j := pack (c ! 1), off + 2 * m + j := pack (c ! 2),
      off + 3 * m + j := pack (c ! 3), off + j := pack (c ! 0)] = r4_upto st fs F off m (Suc j)"
proof (rule nth_equalityI)
  show "length ((r4_upto st fs F off m j)[off + m + j := pack (c ! 1), off + 2 * m + j := pack (c ! 2),
      off + 3 * m + j := pack (c ! 3), off + j := pack (c ! 0)]) = length (r4_upto st fs F off m (Suc j))"
    by simp
next
  fix n assume "n < length ((r4_upto st fs F off m j)[off + m + j := pack (c ! 1),
      off + 2 * m + j := pack (c ! 2), off + 3 * m + j := pack (c ! 3), off + j := pack (c ! 0)])"
  then have n: "n < length F" by simp
  let ?l = "(r4_upto st fs F off m j)[off + m + j := pack (c ! 1), off + 2 * m + j := pack (c ! 2),
      off + 3 * m + j := pack (c ! 3), off + j := pack (c ! 0)]"
  show "?l ! n = r4_upto st fs F off m (Suc j) ! n"
  proof (cases "off \<le> n \<and> n < off + 4 * m \<and> (n - off) mod m = j")
    case True
    define q where "q = (n - off) div m"
    have "n - off = q * m + j" using True by (metis div_mult_mod_eq q_def)
    then have nq: "n = off + q * m + j" using True by (metis add.assoc le_add_diff_inverse)
    have "q < 4" using True assms(1) by (simp add: q_def div_less_iff_less_mult) linarith
    then consider "q = 0" | "q = 1" | "q = 2" | "q = 3" by linarith
    then show ?thesis
      using True n assms(1) nq by cases (simp_all add: r4_upto_nth nth_list_update c)
  next
    case False
    have ne: "n \<noteq> off + q * m + j" if "q < 4" for q
    proof
      assume e: "n = off + q * m + j"
      have "q * m \<le> 3 * m" using that by simp
      with e False assms(1) show False by (auto simp: add.assoc)
    qed
    have "n \<noteq> off + j" "n \<noteq> off + m + j" "n \<noteq> off + 2 * m + j" "n \<noteq> off + 3 * m + j"
      using ne [of 0] ne [of 1] ne [of 2] ne [of 3] by simp_all
    then show ?thesis using False n by (auto simp: r4_upto_nth less_Suc_eq)
  qed
qed


section \<open>The pipelined loop computes it\<close>

text \<open>
  The state of the loop before the iteration for column \<open>j + 1\<close>: the coprocessor holds the finished
  butterfly of column \<open>j\<close>, columns before \<open>j\<close> are written, columns from \<open>j\<close> on are untouched.
\<close>

definition r4_inv ::
  "nat \<Rightarrow> kiss_fft_state \<Rightarrow> nat \<Rightarrow> i32 list \<Rightarrow> nat \<Rightarrow> i32 \<Rightarrow> nat
     \<Rightarrow> nat \<times> nat \<times> nat \<times> nat \<times> nat \<times> i32 list \<times> copro \<Rightarrow> bool" where
  "r4_inv fs st m F off rm j = (\<lambda>(Fout, Fout_in, itw1, itw2, itw3, G, s).
     Fout = off + j \<and> Fout_in = off + j \<and> itw1 = j * fs \<and> itw2 = 2 * (j * fs) \<and> itw3 = 3 * (j * fs)
     \<and> G = r4_upto st fs F off m j \<and> copro_wf s \<and> bufs s = col_of st fs F off m j \<and> radix_mem s = rm)"

lemma radix_mem_load_regs [simp]: "radix_mem (load_regs k a w s) = radix_mem s"
  by (simp add: load_regs_def)

lemma radix_mem_bfly_regs [simp]: "radix_mem (bfly_regs t u s) = radix_mem s"
  by (simp add: bfly_regs_def split: prod.split)

lemma length_col_of [simp]: "length (col_of st fs F off m j) = 4"
  by (simp add: col_of_def r4_col_def)

lemma four_regs: "length xs = 4 \<Longrightarrow> xs[1 := a, 2 := b, 3 := c] ! 1 = a
    \<and> xs[1 := a, 2 := b, 3 := c] ! 2 = b \<and> xs[1 := a, 2 := b, 3 := c] ! 3 = c"
  by simp

lemma read_1_after_loads:
  assumes "copro_wf s"
    and t_def: "t = load_regs 3 a4 w3 (load_regs 2 a3 w2 (load_regs 1 a2 w1 s))"
  shows "coproc_r4_push_read_1 a1 t = Some (pack (bufs s ! 0), snd (copro_exec R4_PUSH_READ_1 a1 0 t))"
    "bufs (snd (copro_exec R4_PUSH_READ_1 a1 0 t)) = bfly4 (quarter (unpack a1))
       (cmulq (quarter (unpack a2)) (unpack w1)) (cmulq (quarter (unpack a3)) (unpack w2))
       (cmulq (quarter (unpack a4)) (unpack w3))"
    "copro_wf (snd (copro_exec R4_PUSH_READ_1 a1 0 t))"
    "radix_mem (snd (copro_exec R4_PUSH_READ_1 a1 0 t)) = radix_mem s"
proof -
  have wf: "copro_wf t" using assms by (simp add: copro_wf_load_regs)
  have b: "bufs t = (bufs s)[1 := quarter (unpack a2), 2 := quarter (unpack a3), 3 := quarter (unpack a4)]"
    by (simp add: t_def bufs_load_regs)
  have c: "coeffs t = (coeffs s)[0 := unpack w1, 1 := unpack w2, 2 := unpack w3]"
    by (simp add: t_def coeffs_load_regs)
  have lb: "length (bufs s) = 4" and lc: "length (coeffs s) = 3"
    using assms(1) by (simp_all add: length_bufs length_coeffs)
  show "coproc_r4_push_read_1 a1 t = Some (pack (bufs s ! 0), snd (copro_exec R4_PUSH_READ_1 a1 0 t))"
    using exec_read_1(1) [OF wf, of a1 0] lb b
    by (simp add: intrinsic_exec prod_eq_iff)
  show "bufs (snd (copro_exec R4_PUSH_READ_1 a1 0 t)) = bfly4 (quarter (unpack a1))
       (cmulq (quarter (unpack a2)) (unpack w1)) (cmulq (quarter (unpack a3)) (unpack w2))
       (cmulq (quarter (unpack a4)) (unpack w3))"
    unfolding exec_read_1(2) [OF wf] b c using lb lc by simp
  show "copro_wf (snd (copro_exec R4_PUSH_READ_1 a1 0 t))" by (rule copro_wf_exec [OF wf])
  show "radix_mem (snd (copro_exec R4_PUSH_READ_1 a1 0 t)) = radix_mem s"
    by (simp add: t_def copro_exec.simps)
qed

lemma col_of_Suc:
  "col_of st fs F off m (Suc j) = bfly4 (quarter (unpack (F ! (off + Suc j))))
     (cmulq (quarter (unpack (F ! (off + m + Suc j)))) (unpack (twiddles st ! (Suc j * fs))))
     (cmulq (quarter (unpack (F ! (off + 2 * m + Suc j)))) (unpack (twiddles st ! (2 * Suc j * fs))))
     (cmulq (quarter (unpack (F ! (off + 3 * m + Suc j)))) (unpack (twiddles st ! (3 * Suc j * fs))))"
  by (simp add: col_of_def r4_col_def tw_at_def)


lemma radix4_body_inv:
  assumes inv: "r4_inv fs st m F off rm j x" and j: "Suc j < m"
    and F: "off + 4 * m \<le> length F"
    and tw: "3 * (m - 1) * fs < length (twiddles st)" "3 * (m - 1) * fs < 65536"
  shows "\<exists>y. radix4_body fs st m x = Some y \<and> r4_inv fs st m F off rm (Suc j) y"
proof -
  obtain s where x: "x = (off + j, off + j, j * fs, 2 * (j * fs), 3 * (j * fs), r4_upto st fs F off m j, s)"
    and s: "copro_wf s" "bufs s = col_of st fs F off m j" "radix_mem s = rm"
    using inv by (cases x) (auto simp: r4_inv_def)
  have i3: "3 * (Suc j * fs) \<le> 3 * (m - 1) * fs"
  proof -
    have "Suc j \<le> m - 1" using j by simp
    then have "Suc j * fs \<le> (m - 1) * fs" by (rule mult_le_mono1)
    then show ?thesis by simp
  qed
  have itw: "(j * fs + fs) mod 65536 = Suc j * fs"
    "(2 * (j * fs) + fs * 2) mod 65536 = 2 * (Suc j * fs)"
    "(3 * (j * fs) + fs * 3) mod 65536 = 3 * (Suc j * fs)"
    using i3 tw(2) by simp_all
  have itw_rd: "rd (twiddles st) (Suc j * fs) = Some (twiddles st ! (Suc j * fs))"
    "rd (twiddles st) (2 * (Suc j * fs)) = Some (twiddles st ! (2 * (Suc j * fs)))"
    "rd (twiddles st) (3 * (Suc j * fs)) = Some (twiddles st ! (3 * (Suc j * fs)))"
    using i3 tw(1) by simp_all
  let ?G = "r4_upto st fs F off m j" and ?c = "col_of st fs F off m j"
  have col: "off + j < length F" "off + j + m < length F" "off + j + 2 * m < length F" "off + j + 3 * m < length F"
    "off + j + 1 < length F" "off + j + 1 + m < length F" "off + j + 1 + 2 * m < length F"
    "off + j + 1 + 3 * m < length F"
    using j F by linarith+
  have orig: "?G ! (off + q * m + Suc j) = F ! (off + q * m + Suc j)" if "q < 4" for q
    using r4_upto_later [of j "Suc j" m q off F st fs] that j F by simp
  have ahead: "?G ! (off + j + 1) = F ! (off + Suc j)" "?G ! (off + j + 1 + m) = F ! (off + m + Suc j)"
    "?G ! (off + j + 1 + 2 * m) = F ! (off + 2 * m + Suc j)"
    "?G ! (off + j + 1 + 3 * m) = F ! (off + 3 * m + Suc j)"
    using orig [of 0] orig [of 1] orig [of 2] orig [of 3] by (simp_all add: ac_simps)
  have apart: "off + j + m \<noteq> off + j + 1 + 2 * m" "off + j + m \<noteq> off + j + 1 + 3 * m"
    "off + j + 2 * m \<noteq> off + j + 1 + 3 * m" "off + j + 2 * m \<noteq> off + j + 1"
    "off + j + 3 * m \<noteq> off + j + 1"
    using j by linarith+
  have apart1: "H[off + j + m := z] ! (off + j + 1) = H ! (off + j + 1)" for H :: "i32 list" and z
    using j by (intro nth_list_update_neq) linarith
  define t where "t = load_regs 3 (F ! (off + 3 * m + Suc j)) (twiddles st ! (3 * (Suc j * fs)))
    (load_regs 2 (F ! (off + 2 * m + Suc j)) (twiddles st ! (2 * (Suc j * fs)))
      (load_regs 1 (F ! (off + m + Suc j)) (twiddles st ! (Suc j * fs)) s))"
  note r1 = read_1_after_loads [OF s(1) t_def, where ?a1.0 = "F ! (off + Suc j)"]
  have wf: "copro_wf (load_regs 1 a w s)" "copro_wf (load_regs 2 a' w' (load_regs 1 a w s))" for a w a' w'
    using s(1) by (simp_all add: copro_wf_load_regs)
  have b: "bufs (load_regs 1 a w s) ! 2 = ?c ! 2" "bufs (load_regs 2 a' w' (load_regs 1 a w s)) ! 3 = ?c ! 3"
    for a w a' w'
    by (simp_all add: bufs_load_regs s(2))
  let ?y = "(off + j + 1, off + j + 1, Suc j * fs, 2 * (Suc j * fs), 3 * (Suc j * fs),
      r4_upto st fs F off m (Suc j), snd (copro_exec R4_PUSH_READ_1 (F ! (off + Suc j)) 0 t))"
  have G': "?G[off + j + m := pack (?c ! 1), off + j + 2 * m := pack (?c ! 2),
      off + j + 3 * m := pack (?c ! 3), off + j := pack (?c ! 0)] = r4_upto st fs F off m (Suc j)"
    using r4_upto_Suc [OF _ F refl, of j st fs] j by (simp add: ac_simps)
  have "radix4_body fs st m x = Some ?y"
    unfolding radix4_body_def x
    by (simp add: Let_def itw itw_rd col ahead apart apart1 intrinsic_exec(6-8) exec_read_k s(1) s(2) wf b
        t_def [symmetric] r1(1) G' nth_list_update_neq
        del: One_nat_def mult_Suc mult_Suc_right add_Suc_right)
  moreover have "r4_inv fs st m F off rm (Suc j) ?y"
    using r1(2-4) s(3)
    by (simp add: r4_inv_def col_of_Suc mult.assoc del: mult_Suc mult_Suc_right add_Suc_right)
  ultimately show ?thesis by blast
qed

lemma radix4_loop_inv:
  assumes "r4_inv fs st m F off rm j x" "j + k = m - 1" "0 < k" "off + 4 * m \<le> length F"
    and tw: "3 * (m - 1) * fs < length (twiddles st)" "3 * (m - 1) * fs < 65536"
  shows "\<exists>y. radix4_loop k fs st m x = Some y \<and> r4_inv fs st m F off rm (m - 1) y"
  using assms
proof (induction k arbitrary: j x)
  case 0
  then show ?case by simp
next
  case (Suc k)
  have "Suc j < m" using Suc.prems(2) by simp
  then obtain y where y: "radix4_body fs st m x = Some y" "r4_inv fs st m F off rm (Suc j) y"
    using radix4_body_inv [OF Suc.prems(1) _ Suc.prems(4) tw] by blast
  show ?case
  proof (cases k)
    case 0
    with y Suc.prems(2) show ?thesis by simp
  next
    case (Suc k')
    then have "0 < k" "Suc j + k = m - 1" using Suc.prems(2) by simp_all
    with Suc.IH [OF y(2)] Suc.prems(4) tw y(1) Suc show ?thesis by simp
  qed
qed

lemma copro_radix4_upto:
  assumes m: "2 \<le> m" and F: "off + 4 * m \<le> length F" and s: "copro_wf s"
    and tw: "3 * (m - 1) * fs < length (twiddles st)" "3 * (m - 1) * fs < 65536"
  shows "\<exists>s'. copro_radix4 F off fs st m s = Some (r4_upto st fs F off m m, s')
    \<and> copro_wf s' \<and> radix_mem s' = radix_mem s"
proof -
  let ?s1 = "snd (copro_exec R4_PUSH_2IN (F ! off) (F ! (off + m)) s)"
  let ?s2 = "snd (copro_exec R4_PUSH_MULT (F ! (off + 2 * m)) (F ! (off + 3 * m)) ?s1)"
  have wf: "copro_wf ?s1" "copro_wf ?s2" using s by (simp_all add: copro_wf_exec)
  have rm: "radix_mem ?s2 = radix_mem s" by (simp add: copro_exec.simps)
  have b2: "bufs ?s2 = col_of st fs F off m 0"
    using length_bufs [OF s] by (simp add: exec_mult [OF wf(1)] exec_2in col_of_def r4_col_def)
  have col: "off < length F" "off + m < length F" "off + 2 * m < length F" "off + 3 * m < length F"
    using m F by linarith+
  have i0: "r4_inv fs st m F off (radix_mem s) 0 (off, off, 0, 0, 0, F, ?s2)"
    using wf(2) rm b2 by (simp add: r4_inv_def)
  obtain itw1 itw2 itw3 t where
    loop: "radix4_loop (m - 1) fs st m (off, off, 0, 0, 0, F, ?s2)
        = Some (off + (m - 1), off + (m - 1), itw1, itw2, itw3, r4_upto st fs F off m (m - 1), t)"
    and t: "copro_wf t" "bufs t = col_of st fs F off m (m - 1)" "radix_mem t = radix_mem s"
    using radix4_loop_inv [OF i0 _ _ F tw] m by (auto simp: r4_inv_def split_paired_all)
  define u where "u = load_regs 3 0 0 (load_regs 2 0 0 (load_regs 1 0 0 t))"
  note r1 = read_1_after_loads [OF t(1) u_def, where ?a1.0 = 0]
  have wf: "copro_wf (load_regs 1 0 0 t)" "copro_wf (load_regs 2 0 0 (load_regs 1 0 0 t))"
    using t(1) by (simp_all add: copro_wf_load_regs)
  let ?c = "col_of st fs F off m (m - 1)"
  have b: "bufs (load_regs 1 0 0 t) ! 2 = ?c ! 2" "bufs (load_regs 2 0 0 (load_regs 1 0 0 t)) ! 3 = ?c ! 3"
    by (simp_all add: bufs_load_regs t(2))
  have last: "off + (m - 1) < length F" "off + (m - 1) + m < length F" "off + (m - 1) + 2 * m < length F"
    "off + (m - 1) + 3 * m < length F"
    using m F by linarith+
  have G': "(r4_upto st fs F off m (m - 1))[off + (m - 1) + m := pack (?c ! 1),
      off + (m - 1) + 2 * m := pack (?c ! 2), off + (m - 1) + 3 * m := pack (?c ! 3),
      off + (m - 1) := pack (?c ! 0)] = r4_upto st fs F off m m"
    using r4_upto_Suc [OF _ F refl, of "m - 1" st fs] m by (simp add: ac_simps)
  have "copro_radix4 F off fs st m s
      = Some (r4_upto st fs F off m m, snd (copro_exec R4_PUSH_READ_1 0 0 u))"
    unfolding copro_radix4_def
    by (simp add: col intrinsic_exec(3,4,6-8) loop exec_read_k t(1,2) wf b last u_def [symmetric] r1(1) G'
        case_prod_beta
        del: One_nat_def mult_Suc mult_Suc_right add_Suc_right)
  then show ?thesis using r1(3,4) t(3) by simp
qed

section \<open>Properties\<close>

text \<open>
  C10: \<open>copro_radix4\<close>, software-pipelined over the coprocessor and in place, computes every column of
  the stage: for \<open>2 \<le> m\<close> and arrays that hold what the indices need it returns, the four outputs of
  column \<open>r\<close> (at \<open>r\<close>, \<open>m + r\<close>, \<open>2*m + r\<close>, \<open>3*m + r\<close>) are the radix-4 butterfly of the four
  inputs of column \<open>r\<close> and the twiddles \<open>r*fstride\<close>, \<open>2*r*fstride\<close>, \<open>3*r*fstride\<close>, whatever the
  coprocessor held before, and nothing outside the \<open>4*m\<close> samples changes.
\<close>

theorem copro_radix4_columns:
  assumes "2 \<le> m" "off + 4 * m \<le> length F" "copro_wf s"
    and "3 * (m - 1) * fs < length (twiddles st)" "3 * (m - 1) * fs < 65536"
  shows "\<exists>G s'. copro_radix4 F off fs st m s = Some (G, s') \<and> copro_wf s' \<and> length G = length F
    \<and> (\<forall>q r. q < 4 \<longrightarrow> r < m \<longrightarrow> unpack (G ! (off + q * m + r)) =
          r4_col (tw_at st fs) r (unpack (F ! (off + r))) (unpack (F ! (off + m + r)))
            (unpack (F ! (off + 2 * m + r))) (unpack (F ! (off + 3 * m + r))) ! q)
    \<and> (\<forall>n < length F. n < off \<or> off + 4 * m \<le> n \<longrightarrow> G ! n = F ! n)"
proof -
  let ?G = "r4_upto st fs F off m m"
  obtain s' where "copro_radix4 F off fs st m s = Some (?G, s')" "copro_wf s'"
    using copro_radix4_upto [OF assms] by blast
  moreover have "unpack (?G ! (off + q * m + r)) = col_of st fs F off m r ! q" if "q < 4" "r < m" for q r
  proof -
    have "q * m \<le> 3 * m" using that(1) by simp
    then have "off + q * m + r < off + 4 * m" using that(2) by linarith
    moreover have "(off + q * m + r - off) mod m = r" "(off + q * m + r - off) div m = q"
      using that by (simp_all add: add.assoc)
    ultimately show ?thesis using assms(2) that(2) by (simp add: r4_upto_nth)
  qed
  ultimately show ?thesis by (auto simp: col_of_def r4_upto_nth)
qed

definition small_state :: kiss_fft_state where
  "small_state = \<lparr>nfft = 8, inverse = 0, factors = [4, 2, 2, 1], twiddles = map (\<lambda>k. CX (32767 - 9 * k) (- 5 * k)) [0, 1, 2, 3, 4, 5, 6, 7]\<rparr>"

lemma copro_radix4_columns_witness:
  "\<exists>G s'. copro_radix4 (map (\<lambda>k. CX (100 * k) 7) [0, 1, 2, 3, 4, 5, 6, 7]) 0 1 small_state 2 copro_reset = Some (G, s')
    \<and> copro_wf s' \<and> length G = 8"
  using copro_radix4_columns [of 2 0 "map (\<lambda>k. CX (100 * k) 7) [0, 1, 2, 3, 4, 5, 6, 7]" copro_reset 1 small_state]
  by (auto simp: copro_wf_def copro_reset_def small_state_def)

end
