(* ===== verification/KissFFT.thy ===== *)
theory KissFFT
  imports Radix4
begin

text \<open>
  \<open>kissfft_lib/kiss_fft.c\<close>: the recursion \<open>kf_work\<close> over the factor list, the configuration
  (\<open>kiss_fft_alloc\<close>) and the entry points (\<open>kiss_fft_stride\<close>, \<open>kiss_fft\<close>). The main result is that \<open>kf_work\<close>, run over
  the factor list \<open>4, 2*4^(d-1), ..., 4, 2, 2, 1\<close>, writes exactly the decimation-in-time transform
  \<open>fft_spec\<close> of its input.
\<close>

section \<open>The recursion\<close>

text \<open>
  The \<open>do ... while ((Fout += m) != Fout_end)\<close> loop runs \<open>p\<close> times for positive \<open>p\<close> and \<open>m\<close>;
  \<open>unit_work\<close> is the recursive call.
\<close>

fun work_units ::
  "nat \<Rightarrow> (i32 list \<Rightarrow> nat \<Rightarrow> nat \<Rightarrow> copro \<Rightarrow> (i32 list \<times> copro) option) \<Rightarrow> nat \<Rightarrow> nat
     \<Rightarrow> i32 list \<Rightarrow> nat \<Rightarrow> nat \<Rightarrow> copro \<Rightarrow> (i32 list \<times> copro) option" where
  "work_units 0 unit_work m step F Fout fi s = Some (F, s)"
| "work_units (Suc n) unit_work m step F Fout fi s = do {
     (F, s) \<leftarrow> unit_work F Fout fi s;
     work_units n unit_work m step F (Fout + m) (fi + step) s
   }"

text \<open>
  \<open>Fout\<close> and \<open>fi\<close> are offsets into the output array \<open>F\<close> and the input array \<open>f\<close>. A factor list
  that ends early is a read past its array; for a factor pair that is not positive the loop bound
  is never met inside the array. Both are undefined behaviour.
\<close>

fun kf_work ::
  "i32 list \<Rightarrow> nat \<Rightarrow> i32 list \<Rightarrow> nat \<Rightarrow> nat \<Rightarrow> nat \<Rightarrow> int list \<Rightarrow> kiss_fft_state \<Rightarrow> copro
     \<Rightarrow> (i32 list \<times> copro) option" where
  "kf_work F Fout f fi fstride in_stride (p # m # facs) st s =
     (if m = 1 then do {
        a \<leftarrow> rd f fi;
        b \<leftarrow> rd f (fi + fstride);
        (v0, s) \<leftarrow> coproc_radix_c a b s;
        F \<leftarrow> wr F Fout v0;
        (v1, s) \<leftarrow> coproc_radix_r s;
        F \<leftarrow> wr F (Fout + 1) v1;
        Some (F, s)
      }
      else if p < 1 \<or> m < 1 then None
      else do {
        (F, s) \<leftarrow> work_units (nat p)
          (\<lambda>F Fout fi s. kf_work F Fout f fi (fstride * nat p) in_stride facs st s)
          (nat m) (fstride * in_stride) F Fout fi s;
        copro_radix4 F Fout fstride st (nat m) s
      })"
| "kf_work F Fout f fi fstride in_stride _ st s = None"

section \<open>Configuration and entry points\<close>

text \<open>
  \<open>kiss_fft_alloc\<close>: \<open>malloc_ok\<close> says whether \<open>malloc\<close> of a size succeeds, \<open>mem\<close> whether the
  caller passed a buffer, \<open>lenmem\<close> is \<open>None\<close> for a null pointer. The structure takes 16 bytes on
  RV32. \<open>g_twiddles\<close> and \<open>g_factors\<close> are the external tables, the same for every \<open>nfft\<close>.
\<close>

definition kiss_fft_alloc ::
  "i32 list \<Rightarrow> int list \<Rightarrow> (i32 \<Rightarrow> bool) \<Rightarrow> int \<Rightarrow> int \<Rightarrow> bool \<Rightarrow> i32 option
     \<Rightarrow> kiss_fft_state option \<times> i32 option" where
  "kiss_fft_alloc g_twiddles g_factors malloc_ok n inverse_fft mem lenmem =
     (let memneeded = 16 + 4 * word_of_int (n - 1) :: i32;
          (got, lenmem') =
            (case lenmem of
               None \<Rightarrow> (malloc_ok memneeded, None)
             | Some len \<Rightarrow> (mem \<and> memneeded \<le> len, Some memneeded))
      in (if got then Some \<lparr>nfft = n, inverse = inverse_fft, factors = g_factors, twiddles = g_twiddles\<rparr>
          else None, lenmem'))"

text \<open>
  \<open>kiss_fft_stride\<close> on a heap of arrays: pointers are array names, \<open>None\<close> is \<open>NULL\<close>. The
  temporary buffer of the in-place case has arbitrary contents \<open>junk\<close>. The two error exits print
  a message and return with the arrays as they were.
\<close>

type_synonym heap = "nat \<Rightarrow> i32 list option"

definition kiss_fft_stride ::
  "(i32 \<Rightarrow> bool) \<Rightarrow> (nat \<Rightarrow> i32) \<Rightarrow> kiss_fft_state \<Rightarrow> nat option \<Rightarrow> nat option \<Rightarrow> nat
     \<Rightarrow> heap \<times> copro \<Rightarrow> (heap \<times> copro) option" where
  "kiss_fft_stride malloc_ok junk st fin fout in_stride = (\<lambda>(h, s).
     if fin = fout then
       (case fout of
          None \<Rightarrow> Some (h, s)
        | Some b \<Rightarrow>
            if \<not> malloc_ok (4 * word_of_int (nfft st)) then Some (h, s)
            else do {
              f \<leftarrow> h b;
              (tmpbuf, s) \<leftarrow> kf_work (map junk [0..<nat (nfft st)]) 0 f 0 1 in_stride (factors st) st s;
              (if length f < nat (nfft st) then None
               else Some (h(b \<mapsto> tmpbuf @ drop (nat (nfft st)) f), s))
            })
     else do {
       a \<leftarrow> fin;
       f \<leftarrow> h a;
       b \<leftarrow> fout;
       F \<leftarrow> h b;
       (F, s) \<leftarrow> kf_work F 0 f 0 1 in_stride (factors st) st s;
       Some (h(b \<mapsto> F), s)
     })"

definition kiss_fft ::
  "(i32 \<Rightarrow> bool) \<Rightarrow> (nat \<Rightarrow> i32) \<Rightarrow> kiss_fft_state \<Rightarrow> nat option \<Rightarrow> nat option
     \<Rightarrow> heap \<times> copro \<Rightarrow> (heap \<times> copro) option" where
  "kiss_fft malloc_ok junk cfg fin fout = kiss_fft_stride malloc_ok junk cfg fin fout 1"

section \<open>The transform that the recursion computes\<close>

text \<open>
  \<open>fft_spec b2 b4 d fs x\<close>: the decimation-in-time recursion of depth \<open>d\<close> on the \<open>2 * 4^d\<close> samples
  \<open>x 0, x fs, x (2 * fs), ...\<close>, over any radix-2 step \<open>b2\<close> and radix-4 column \<open>b4 fs k\<close>: the four parts are the
  transforms of every fourth sample, from the first, second, third and fourth on.
\<close>

fun fft_spec ::
  "('a \<Rightarrow> 'a \<Rightarrow> 'a list) \<Rightarrow> (nat \<Rightarrow> nat \<Rightarrow> 'a \<Rightarrow> 'a \<Rightarrow> 'a \<Rightarrow> 'a \<Rightarrow> 'a list)
     \<Rightarrow> nat \<Rightarrow> nat \<Rightarrow> (nat \<Rightarrow> 'a) \<Rightarrow> 'a list" where
  "fft_spec b2 b4 0 fs x = b2 (x 0) (x fs)"
| "fft_spec b2 b4 (Suc d) fs x =
     (let m = 2 * 4 ^ d;
          y = (\<lambda>q. fft_spec b2 b4 d (fs * 4) (\<lambda>n. x (q * fs + n)))
      in map (\<lambda>n. b4 fs (n mod m) (y 0 ! (n mod m)) (y 1 ! (n mod m)) (y 2 ! (n mod m)) (y 3 ! (n mod m))
                   ! (n div m)) [0..<4 * m])"

fun fft_facs :: "nat \<Rightarrow> int list" where
  "fft_facs 0 = [2, 1]"
| "fft_facs (Suc d) = 4 # 2 * 4 ^ d # fft_facs d"

definition bfly2 :: "cpx \<Rightarrow> cpx \<Rightarrow> cpx list" where
  "bfly2 a b = [half a + half b, half a - half b]"

definition fft_fixed :: "kiss_fft_state \<Rightarrow> nat \<Rightarrow> nat \<Rightarrow> (nat \<Rightarrow> cpx) \<Rightarrow> cpx list" where
  "fft_fixed st = fft_spec bfly2 (\<lambda>fs. r4_col (tw_at st fs))"

lemma length_fft_fixed [simp]: "length (fft_fixed st d fs x) = 2 * 4 ^ d"
  by (cases d) (simp_all add: fft_fixed_def bfly2_def Let_def)

section \<open>Refinement\<close>

definition blit :: "'a list \<Rightarrow> nat \<Rightarrow> 'a list \<Rightarrow> 'a list" where
  "blit F off ys = take off F @ ys @ drop (off + length ys) F"

lemma length_blit [simp]: "off + length ys \<le> length F \<Longrightarrow> length (blit F off ys) = length F"
  by (simp add: blit_def)

lemma blit_append:
  "off + length ys + length zs \<le> length F \<Longrightarrow>
   blit (blit F off ys) (off + length ys) zs = blit F off (ys @ zs)"
  by (simp add: blit_def ac_simps)

lemma blit_nth:
  "off + length ys \<le> length F \<Longrightarrow> n < length F \<Longrightarrow>
   blit F off ys ! n = (if off \<le> n \<and> n < off + length ys then ys ! (n - off) else F ! n)"
  by (auto simp: blit_def nth_append min_def)

lemma blit_two: "off + 1 < length F \<Longrightarrow> F[off := a, Suc off := b] = blit F off [a, b]"
  by (rule nth_equalityI) (auto simp: blit_nth nth_list_update less_Suc_eq)


lemma work_units_4:
  assumes "\<And>F q s. q < 4 \<Longrightarrow> copro_wf s \<Longrightarrow> length F = N \<Longrightarrow>
      \<exists>s'. rec F (off + q * m) (fi + q * step) s = Some (blit F (off + q * m) (Y q), s') \<and> copro_wf s'"
    and len: "\<And>q. q < 4 \<Longrightarrow> length (Y q) = m"
    and "copro_wf s" "length F = N" "off + 4 * m \<le> N"
  shows "\<exists>s'. work_units 4 rec m step F off fi s
      = Some (blit F off (Y 0 @ Y 1 @ Y 2 @ Y 3), s') \<and> copro_wf s'"
proof -
  let ?F1 = "blit F off (Y 0)" let ?F2 = "blit F off (Y 0 @ Y 1)"
  let ?F3 = "blit F off (Y 0 @ Y 1 @ Y 2)"
  have l: "length (Y 0) = m" "length (Y 1) = m" "length (Y 2) = m" "length (Y 3) = m"
    using len by simp_all
  have lF: "length ?F1 = N" "length ?F2 = N" "length ?F3 = N"
    using assms(4,5) l by simp_all
  obtain s1 where s1: "rec F off fi s = Some (?F1, s1)" "copro_wf s1"
    using assms(1) [of 0 s F] assms(3,4) by auto
  have f2: "blit ?F1 (off + m) (Y 1) = ?F2"
    using blit_append [of off "Y 0" "Y 1" F] assms(4,5) l by simp
  obtain s2 where s2: "rec ?F1 (off + m) (fi + step) s1 = Some (?F2, s2)" "copro_wf s2"
    using assms(1) [of 1 s1 ?F1] s1(2) lF f2 by auto
  have f3: "blit ?F2 (off + 2 * m) (Y 2) = ?F3"
    using blit_append [of off "Y 0 @ Y 1" "Y 2" F] assms(4,5) l by (simp add: mult_2)
  obtain s3 where s3: "rec ?F2 (off + 2 * m) (fi + 2 * step) s2 = Some (?F3, s3)" "copro_wf s3"
    using assms(1) [of 2 s2 ?F2] s2(2) lF f3 by auto
  have f4: "blit ?F3 (off + 3 * m) (Y 3) = blit F off (Y 0 @ Y 1 @ Y 2 @ Y 3)"
  proof -
    have e: "off + length (Y 0 @ Y 1 @ Y 2) = off + 3 * m" using l by simp
    show ?thesis
      using blit_append [of off "Y 0 @ Y 1 @ Y 2" "Y 3" F] assms(4,5) l unfolding e by simp
  qed
  obtain s4 where s4: "rec ?F3 (off + 3 * m) (fi + 3 * step) s3
      = Some (blit F off (Y 0 @ Y 1 @ Y 2 @ Y 3), s4)" "copro_wf s4"
    using assms(1) [of 3 s3 ?F3] s3(2) lF f4 by auto
  have a: "off + m + m = off + 2 * m" "off + 2 * m + m = off + 3 * m"
    "fi + step + step = fi + 2 * step" "fi + 2 * step + step = fi + 3 * step" by simp_all
  have four: "(4 :: nat) = Suc (Suc (Suc (Suc 0)))" by simp
  have "work_units 4 rec m step F off fi s = Some (blit F off (Y 0 @ Y 1 @ Y 2 @ Y 3), s4)"
    unfolding four by (simp only: work_units.simps s1(1) s2(1) s3(1) s4(1) a bind.bind_lunit prod.case)
  with s4(2) show ?thesis by blast
qed

lemma append4_nth:
  assumes "length a = m" "length b = m" "length c = m" "length d = m" "r < m"
  shows "(a @ b @ c @ d) ! r = a ! r" "(a @ b @ c @ d) ! (m + r) = b ! r"
    "(a @ b @ c @ d) ! (2 * m + r) = c ! r" "(a @ b @ c @ d) ! (3 * m + r) = d ! r"
  using assms by (simp_all add: nth_append)

lemma r4_upto_blit:
  fixes Y :: "nat \<Rightarrow> cpx list"
  assumes Y: "\<And>q. q < 4 \<Longrightarrow> length (Y q) = m" and F: "off + 4 * m \<le> length F" and m: "0 < m"
  shows "r4_upto st fs (blit F off (map pack (Y 0 @ Y 1 @ Y 2 @ Y 3))) off m m
    = blit F off (map pack (map (\<lambda>n. r4_col (tw_at st fs) (n mod m) (Y 0 ! (n mod m)) (Y 1 ! (n mod m))
        (Y 2 ! (n mod m)) (Y 3 ! (n mod m)) ! (n div m)) [0..<4 * m]))" (is "?l = ?r")
proof (rule nth_equalityI)
  let ?Z = "map pack (Y 0 @ Y 1 @ Y 2 @ Y 3)"
  have l: "length (Y 0) = m" "length (Y 1) = m" "length (Y 2) = m" "length (Y 3) = m"
    using Y by simp_all
  have lZ: "length ?Z = 4 * m" using l by simp
  have lG: "length (blit F off ?Z) = length F" using F lZ by (intro length_blit) simp
  show "length ?l = length ?r" using lG F by simp
  fix n assume "n < length ?l"
  then have n: "n < length F" using lG by simp
  have G: "blit F off ?Z ! (off + q * m + r) = pack (Y q ! r)" if "q < 4" "r < m" for q r
  proof -
    have "q * m + r < 4 * m" using mult_le_mono1 [of q 3 m] that by linarith
    then have "blit F off ?Z ! (off + (q * m + r)) = ?Z ! (q * m + r)"
      using F lZ by (simp add: blit_nth)
    also have "\<dots> = pack (Y q ! r)"
    proof -
      from that(1) consider "q = 0" | "q = 1" | "q = 2" | "q = 3" by linarith
      then show ?thesis
        using append4_nth [where r = r, of "map pack (Y 0)" m "map pack (Y 1)" "map pack (Y 2)" "map pack (Y 3)"] l that(2)
        by cases simp_all
    qed
    finally show ?thesis by (simp add: add.assoc)
  qed
  have col: "col_of st fs (blit F off ?Z) off m r
      = r4_col (tw_at st fs) r (Y 0 ! r) (Y 1 ! r) (Y 2 ! r) (Y 3 ! r)" if "r < m" for r
    unfolding col_of_def using G [of 0 r] G [of 1 r] G [of 2 r] G [of 3 r] that by simp
  show "?l ! n = ?r ! n"
    using n lG lZ F m col [of "(n - off) mod m"]
    by (auto simp: r4_upto_nth blit_nth)
qed


lemma fft_fixed_Suc:
  fixes x :: "nat \<Rightarrow> cpx"
  assumes m: "m = 2 * 4 ^ d"
    and Y: "\<And>q. Y q = fft_fixed st d (fs * 4) (\<lambda>n. x (q * fs + n))"
  shows "fft_fixed st (Suc d) fs x = map (\<lambda>n. r4_col (tw_at st fs) (n mod m) (Y 0 ! (n mod m))
     (Y 1 ! (n mod m)) (Y 2 ! (n mod m)) (Y 3 ! (n mod m)) ! (n div m)) [0..<4 * m]"
  by (simp add: fft_fixed_def Let_def m Y)

lemma kf_work_fixed:
  assumes "copro_wf s" "off + 2 * 4 ^ d \<le> length F" "0 < fs"
    and "fi + fs * (4 ^ d - 1) + fs * 4 ^ d < length f"
    and "fs * (2 * 4 ^ d) \<le> length (twiddles st)" "fs * (2 * 4 ^ d) \<le> 65536"
  shows "\<exists>s'. kf_work F off f fi fs 1 (fft_facs d) st s
     = Some (blit F off (map pack (fft_fixed st d fs (\<lambda>n. unpack (f ! (fi + n))))), s') \<and> copro_wf s'"
  using assms
proof (induction d arbitrary: F off fi fs s)
  case 0
  let ?s = "snd (copro_exec BUF_RADIX_C (f ! fi) (f ! (fi + fs)) s)"
  have "copro_wf ?s" using 0 by (simp add: copro_wf_exec)
  moreover have "rd f fi = Some (f ! fi)" "rd f (fi + fs) = Some (f ! (fi + fs))"
    using 0 by simp_all
  ultimately show ?case
    using 0 radix_pair [of "f ! fi" "f ! (fi + fs)" s]
    by (simp add: intrinsic_exec case_prod_beta fft_fixed_def bfly2_def blit_two
        copro_exec.simps(2))
next
  case (Suc d)
  define m where "m = 2 * (4 :: nat) ^ d"
  define Y where "Y q = fft_fixed st d (fs * 4) (\<lambda>n. unpack (f ! (fi + q * fs + n)))" for q
  have m2: "2 \<le> m" by (simp add: m_def)
  have F: "off + 4 * m \<le> length F" using Suc.prems(2) by (simp add: m_def)
  have lY: "length (Y q) = m" for q by (simp add: Y_def m_def)
  let ?rec = "\<lambda>F Fout fi s. kf_work F Fout f fi (fs * 4) 1 (fft_facs d) st s"
  have sub: "\<exists>s'. ?rec G (off + q * m) (fi + q * fs) t
      = Some (blit G (off + q * m) (map pack (Y q)), s') \<and> copro_wf s'"
    if q: "q < 4" and t: "copro_wf t" and G: "length G = length F" for G q t
    unfolding Y_def
  proof (rule Suc.IH [OF t])
    have "q * m \<le> 3 * m" using q by simp
    then show "off + q * m + 2 * 4 ^ d \<le> length G"
      unfolding G m_def [symmetric] using F by linarith
    show "fs * 4 * (2 * 4 ^ d) \<le> length (twiddles st)" "fs * 4 * (2 * 4 ^ d) \<le> 65536"
      using Suc.prems(5,6) by (simp_all add: mult.assoc)
    show "0 < fs * 4" using Suc.prems(3) by simp
    have "q * fs + fs * 4 * (4 ^ d - 1) \<le> fs * (4 ^ Suc d - 1)"
    proof -
      have "1 \<le> (4 :: nat) ^ d" by simp
      then have "q + 4 * (4 ^ d - 1) \<le> (4 ^ Suc d - 1 :: nat)"
        using q unfolding power_Suc by linarith
      then have "(q + 4 * (4 ^ d - 1)) * fs \<le> (4 ^ Suc d - 1) * fs" by (rule mult_le_mono1)
      then show ?thesis by (simp add: algebra_simps)
    qed
    with Suc.prems(4) show "fi + q * fs + fs * 4 * (4 ^ d - 1) + fs * 4 * 4 ^ d < length f"
      by simp
  qed
  obtain s1 where s1: "work_units 4 ?rec m fs F off fi s
      = Some (blit F off (map pack (Y 0) @ map pack (Y 1) @ map pack (Y 2) @ map pack (Y 3)), s1)"
    "copro_wf s1"
    using work_units_4 [of "length F" ?rec off m fi "fs" "\<lambda>q. map pack (Y q)" s F]
      sub lY Suc.prems(1) F by auto
  let ?G = "blit F off (map pack (Y 0 @ Y 1 @ Y 2 @ Y 3))"
  have lG: "length ?G = length F" using F lY by simp
  have tw: "3 * (m - 1) * fs < length (twiddles st)" "3 * (m - 1) * fs < 65536"
  proof -
    have "3 * (m - 1) < 4 * m" using m2 by simp
    then have "3 * (m - 1) * fs < 4 * m * fs" using Suc.prems(3) by simp
    also have "4 * m * fs = fs * (2 * 4 ^ Suc d)" by (simp add: m_def)
    finally have "3 * (m - 1) * fs < fs * (2 * 4 ^ Suc d)" .
    then show "3 * (m - 1) * fs < length (twiddles st)" "3 * (m - 1) * fs < 65536"
      using Suc.prems(5,6) by linarith+
  qed
  obtain s2 where s2: "copro_radix4 ?G off fs st m s1 = Some (r4_upto st fs ?G off m m, s2)" "copro_wf s2"
    using copro_radix4_upto [OF m2 _ s1(2) tw, of off ?G] F lG by auto
  have r4: "r4_upto st fs ?G off m m = blit F off (map pack (fft_fixed st (Suc d) fs (\<lambda>n. unpack (f ! (fi + n)))))"
    using r4_upto_blit [of Y m off F st fs] lY F m2
      fft_fixed_Suc [OF m_def, of Y st fs "\<lambda>n. unpack (f ! (fi + n))"]
    by (simp add: Y_def add.assoc)
  have nm: "nat (2 * 4 ^ d) = m" by (simp add: m_def nat_mult_distrib nat_power_eq)
  have dm: "\<not> 2 * 4 ^ d < (1 :: int)" "2 * 4 ^ d \<noteq> (1 :: int)"
    using zero_less_power [of "4 :: int" d] by linarith+
  have "kf_work F off f fi fs 1 (fft_facs (Suc d)) st s = copro_radix4 ?G off fs st m s1"
    using s1(1) nm dm by (simp add: m_def)
  then show ?case using s2 r4 by simp
qed


section \<open>How much the recursion writes\<close>

text \<open>
  A run over the factor list of \<open>2 * 4^d\<close> points that does not leave its arrays has an output array
  of at least that size, whatever length the configuration was allocated for.
\<close>

lemma bind_eq_SomeE:
  assumes "Option.bind x f = Some y"
  obtains z where "x = Some z" "f z = Some y"
  using assms by (cases x) auto

lemma radix4_body_length:
  "radix4_body fs st m x = Some y \<Longrightarrow> length (fst (snd (snd (snd (snd (snd y)))))) = length (fst (snd (snd (snd (snd (snd x))))))"
  by (cases x) (auto simp: radix4_body_def Let_def wr_eq_Some elim!: bind_eq_SomeE)

lemma radix4_loop_length:
  "radix4_loop k fs st m x = Some y \<Longrightarrow> length (fst (snd (snd (snd (snd (snd y)))))) = length (fst (snd (snd (snd (snd (snd x))))))"
proof (induction k arbitrary: x)
  case 0
  then show ?case by simp
next
  case (Suc k)
  show ?case
  proof (cases k)
    case 0
    with Suc.prems radix4_body_length show ?thesis by simp
  next
    case (Suc k')
    with Suc.prems obtain z where "radix4_body fs st m x = Some z" "radix4_loop k fs st m z = Some y"
      by (auto simp del: split_paired_All split_paired_Ex elim!: bind_eq_SomeE)
    with Suc.IH radix4_body_length show ?thesis by metis
  qed
qed

lemma copro_radix4_length: "copro_radix4 F off fs st m s = Some (G, t) \<Longrightarrow> length G = length F"
  by (auto simp: copro_radix4_def wr_eq_Some elim!: bind_eq_SomeE dest!: radix4_loop_length)

lemma work_units_length:
  assumes "\<And>F off fi s G t. rec F off fi s = Some (G, t) \<Longrightarrow> length G = length F \<and> off + m \<le> length F"
  shows "work_units n rec m step F off fi s = Some (G, t) \<Longrightarrow> length G = length F \<and> (0 < n \<longrightarrow> off + n * m \<le> length F)"
proof (induction n arbitrary: F off fi s)
  case 0
  then show ?case by simp
next
  case (Suc n)
  then obtain F1 s1 where 1: "rec F off fi s = Some (F1, s1)"
    "work_units n rec m step F1 (off + m) (fi + step) s1 = Some (G, t)"
    by (auto elim!: bind_eq_SomeE)
  from assms [OF 1(1)] Suc.IH [OF 1(2)] show ?case by (cases "n = 0") auto
qed

lemma kf_work_length:
  "kf_work F off f fi fs ins (fft_facs d) st s = Some (G, t) \<Longrightarrow> length G = length F \<and> off + 2 * 4 ^ d \<le> length F"
proof (induction d arbitrary: F off fi fs s G t)
  case 0
  then show ?case by (auto simp: wr_eq_Some elim!: bind_eq_SomeE)
next
  case (Suc d)
  have dm: "\<not> 2 * 4 ^ d < (1 :: int)" "2 * 4 ^ d \<noteq> (1 :: int)" "nat (2 * 4 ^ d) = 2 * 4 ^ d"
    using zero_less_power [of "4 :: int" d] by (linarith, linarith, simp add: nat_mult_distrib nat_power_eq)
  from Suc.prems obtain F1 s1 where
    1: "work_units 4 (\<lambda>F Fout fi s. kf_work F Fout f fi (fs * 4) ins (fft_facs d) st s)
          (2 * 4 ^ d) (fs * ins) F off fi s = Some (F1, s1)"
    and 2: "copro_radix4 F1 off fs st (2 * 4 ^ d) s1 = Some (G, t)"
    using dm by (auto elim!: bind_eq_SomeE split: if_splits)
  have "length F1 = length F \<and> off + 4 * (2 * 4 ^ d) \<le> length F"
    using work_units_length [OF _ 1] Suc.IH by simp
  then show ?case using copro_radix4_length [OF 2] by simp
qed

section \<open>Properties\<close>

text \<open>
  C9: \<open>kf_work\<close> with input stride 1, over the factor list of \<open>2 * 4^d\<close> points, returns, for every \<open>d\<close> and \<open>fstride\<close>, and
  writes exactly the fixed-point decimation-in-time transform \<open>fft_fixed\<close> of every \<open>fstride\<close>-th sample of its input at its
  output offset: every sample of the block, nothing outside it, independent of what the array and the coprocessor held
  before. The bounds are those of the input array and of the twiddle table, and the range of the \<open>uint16_t\<close> twiddle
  counters. (For another input stride the code does not read the samples it documents.)
\<close>

theorem kf_work_transform:
  assumes "copro_wf s" "off + 2 * 4 ^ d \<le> length F" "0 < fs" "fi + fs * (2 * 4 ^ d - 1) < length f"
    and "fs * (2 * 4 ^ d) \<le> length (twiddles st)" "fs * (2 * 4 ^ d) \<le> 65536"
  shows "\<exists>s'. kf_work F off f fi fs 1 (fft_facs d) st s
     = Some (take off F @ map pack (fft_fixed st d fs (\<lambda>n. unpack (f ! (fi + n)))) @ drop (off + 2 * 4 ^ d) F, s')
     \<and> copro_wf s'"
proof -
  have "(4 ^ d - 1) + 4 ^ d = (2 * 4 ^ d - 1 :: nat)" by (induction d) auto
  then have "fs * (4 ^ d - 1) + fs * 4 ^ d = fs * (2 * 4 ^ d - 1)" by (metis distrib_left)
  then show ?thesis using kf_work_fixed [OF assms(1-3) _ assms(5,6), of fi f] assms(4) by (simp add: blit_def)
qed

text \<open>
  The base case reads the sample \<open>fstride\<close> after the first, not the one \<open>fstride * in_stride\<close> after it, so two samples are
  transformed as with input stride 1.
\<close>

lemma kf_work_base_ignores_stride: "kf_work F off f fi fs ins [p, 1] st s = kf_work F off f fi fs 1 [p, 1] st s"
  by simp

lemma kf_work_transform_witness:
  "\<exists>s'. kf_work (replicate 8 0) 0 (map (\<lambda>k. CX (100 * k) 7) [0, 1, 2, 3, 4, 5, 6, 7]) 0 1 1 [4, 2, 2, 1] small_state copro_reset
     = Some (map pack (fft_fixed small_state 1 1 (\<lambda>n. unpack (map (\<lambda>k. CX (100 * k) 7) [0, 1, 2, 3, 4, 5, 6, 7] ! n))), s')
     \<and> copro_wf s'"
proof -
  have "fft_facs 1 = [4, 2, 2, 1]" by (simp add: numeral_eq_Suc)
  then show ?thesis
    using kf_work_transform [of copro_reset 0 1 "replicate 8 0" 1 0 "map (\<lambda>k. CX (100 * k) 7) [0, 1, 2, 3, 4, 5, 6, 7]" small_state]
    by (simp add: copro_wf_def copro_reset_def small_state_def)
qed

end
