(* ===== verification/FFTEval.thy ===== *)
theory FFTEval
  imports FixedPoint KissFFT
begin

text \<open>
  A second implementation of the fixed-point transform, on lists of integer pairs, with a proof that
  it agrees with \<open>fft_fixed\<close>. It decimates by list traversal instead of by index, so the kernel can
  run it on a whole input; the theory of the FFT application uses it for the 512-point run.
\<close>

section \<open>Morphisms of the recursion\<close>

text \<open>
  Two arithmetics for \<open>fft_spec\<close> related by a map \<open>h\<close> of their samples: if \<open>h\<close> commutes with
  the radix-2 step and with every radix-4 column, it commutes with the whole transform.
\<close>

locale fft_morphism =
  fixes h :: "'a \<Rightarrow> 'b"
    and b2 :: "'a \<Rightarrow> 'a \<Rightarrow> 'a list" and b2' :: "'b \<Rightarrow> 'b \<Rightarrow> 'b list"
    and b4 :: "nat \<Rightarrow> nat \<Rightarrow> 'a \<Rightarrow> 'a \<Rightarrow> 'a \<Rightarrow> 'a \<Rightarrow> 'a list"
    and b4' :: "nat \<Rightarrow> nat \<Rightarrow> 'b \<Rightarrow> 'b \<Rightarrow> 'b \<Rightarrow> 'b \<Rightarrow> 'b list"
  assumes h_b2: "map h (b2 x y) = b2' (h x) (h y)"
    and h_b4: "map h (b4 fs k x0 x1 x2 x3) = b4' fs k (h x0) (h x1) (h x2) (h x3)"
    and length_b2: "length (b2 x y) = 2"
    and length_b4: "length (b4 fs k x0 x1 x2 x3) = 4"
begin

lemma length_fft_spec: "length (fft_spec b2 b4 d fs x) = 2 * 4 ^ d"
  by (cases d) (simp_all add: length_b2 Let_def)

lemma map_fft_spec: "map h (fft_spec b2 b4 d fs x) = fft_spec b2' b4' d fs (\<lambda>n. h (x n))"
proof (induction d arbitrary: fs x)
  case 0
  show ?case by (simp add: h_b2)
next
  case (Suc d)
  define m where "m = 2 * (4 :: nat) ^ d"
  have m: "0 < m" by (simp add: m_def)
  define y where "y q = fft_spec b2 b4 d (fs * 4) (\<lambda>n. x (q * fs + n))" for q
  define y' where "y' q = fft_spec b2' b4' d (fs * 4) (\<lambda>n. h (x (q * fs + n)))" for q
  have y': "h (y q ! r) = y' q ! r" if "r < m" for q r
    using Suc.IH [of "fs * 4" "\<lambda>n. x (q * fs + n)"] length_fft_spec [of d "fs * 4"] that
    unfolding y_def y'_def m_def by (metis nth_map)
  have b4: "h (b4 fs k x0 x1 x2 x3 ! q) = b4' fs k (h x0) (h x1) (h x2) (h x3) ! q" if "q < 4" for k x0 x1 x2 x3 q
    using h_b4 [of fs k x0 x1 x2 x3] length_b4 that by (metis nth_map)
  have "map h (fft_spec b2 b4 (Suc d) fs x) = map (\<lambda>n. h (b4 fs (n mod m) (y 0 ! (n mod m)) (y 1 ! (n mod m))
      (y 2 ! (n mod m)) (y 3 ! (n mod m)) ! (n div m))) [0..<4 * m]"
    by (simp add: Let_def m_def y_def)
  also have "\<dots> = map (\<lambda>n. b4' fs (n mod m) (y' 0 ! (n mod m)) (y' 1 ! (n mod m))
      (y' 2 ! (n mod m)) (y' 3 ! (n mod m)) ! (n div m)) [0..<4 * m]"
    using m by (intro map_cong) (auto simp: b4 y' div_less_iff_less_mult)
  finally show ?case by (simp add: Let_def m_def y'_def)
qed

end

section \<open>Integer arithmetic\<close>

type_synonym icpx = "int \<times> int"

definition icpx :: "cpx \<Rightarrow> icpx" where
  "icpx z = (sint (re z), sint (im z))"

lemma icpx_inj: "icpx z = icpx w \<Longrightarrow> z = w"
  by (cases z; cases w) (auto simp: icpx_def intro: signed_word_eqI)

text \<open>Wrap-around that tests the range first, which is cheaper to evaluate.\<close>

definition wr16 :: "int \<Rightarrow> int" where
  "wr16 x = (if -32768 \<le> x \<and> x \<le> 32767 then x else wrap16 x)"

definition wr32 :: "int \<Rightarrow> int" where
  "wr32 x = (if -2147483648 \<le> x \<and> x \<le> 2147483647 then x else wrap32 x)"

lemma wr16_eq: "wr16 x = wrap16 x"
  by (simp add: wr16_def wrap16_id)

lemma wr32_eq: "wr32 x = wrap32 x"
  by (simp add: wr32_def wrap32_id)

fun ihalf :: "icpx \<Rightarrow> icpx" where
  "ihalf (x, y) = ((x * 16383 + 16384) div 32768, (y * 16383 + 16384) div 32768)"

fun iquarter :: "icpx \<Rightarrow> icpx" where
  "iquarter (x, y) = ((x * 8191 + 16384) div 32768, (y * 8191 + 16384) div 32768)"

fun imul :: "icpx \<Rightarrow> icpx \<Rightarrow> icpx" where
  "imul (a, b) (c, d) =
     (clip16 (wr32 (wr32 (a * c - b * d) + 16384) div 32768), clip16 (wr32 (wr32 (a * d + b * c) + 16384) div 32768))"

fun ibfly4 :: "icpx \<Rightarrow> icpx \<Rightarrow> icpx \<Rightarrow> icpx \<Rightarrow> icpx list" where
  "ibfly4 (ar, ai) (br, bi) (cr, ci) (dr, di) =
     [(wr16 (ar + br + cr + dr), wr16 (ai + bi + ci + di)),
      (wr16 (ar + bi - cr - di), wr16 (ai - br - ci + dr)),
      (wr16 (ar - br + cr - dr), wr16 (ai - bi + ci - di)),
      (wr16 (ar - bi - cr + di), wr16 (ai + br - ci - dr))]"

fun ibfly2 :: "icpx \<Rightarrow> icpx \<Rightarrow> icpx list" where
  "ibfly2 (a, b) (c, d) = [(wr16 (a + c), wr16 (b + d)), (wr16 (a - c), wr16 (b - d))]"

definition icol :: "(nat \<Rightarrow> icpx) \<Rightarrow> nat \<Rightarrow> nat \<Rightarrow> icpx \<Rightarrow> icpx \<Rightarrow> icpx \<Rightarrow> icpx \<Rightarrow> icpx list" where
  "icol W fs k x0 x1 x2 x3 =
     (if k = 0 then ibfly4 (iquarter x0) (iquarter x1) (iquarter x2) (iquarter x3)
      else ibfly4 (iquarter x0) (imul (iquarter x1) (W (k * fs))) (imul (iquarter x2) (W (2 * k * fs)))
             (imul (iquarter x3) (W (3 * k * fs))))"

lemma wrap16_wrap16_add: "wrap16 (wrap16 x + y) = wrap16 (x + y)"
  unfolding wrap16_def by (simp add: mod_simps ac_simps)

lemma wrap16_wrap16_sub: "wrap16 (wrap16 x - y) = wrap16 (x - y)"
  using wrap16_wrap16_add [of x "- y"] by simp

lemma wrap16_uminus: "sint (- a :: i16) = wrap16 (- sint a)"
  by (simp add: sint_word_ariths signed_take_bit_wrap16)

lemma icpx_half: "icpx (half z) = ihalf (icpx z)"
  by (simp add: icpx_def half_def sint_round2)

lemma icpx_quarter: "icpx (quarter z) = iquarter (icpx z)"
  by (simp add: icpx_def quarter_def sint_round4)

lemma icpx_cmulq: "icpx (cmulq z w) = imul (icpx z) (icpx w)"
  by (simp add: icpx_def cmulq_def sint_q15_mul_r sint_q15_mul_i wr32_eq)

lemma icpx_bfly4: "map icpx (bfly4 t0 t1 t2 t3) = ibfly4 (icpx t0) (icpx t1) (icpx t2) (icpx t3)"
  by (simp add: bfly4_def icpx_def rotn_def plus_cpx_def minus_cpx_def sint16_add sint16_sub
      wrap16_wrap16_add wrap16_wrap16_sub wr16_eq)

lemma icpx_bfly2: "map icpx (bfly2 a b) = ibfly2 (ihalf (icpx a)) (ihalf (icpx b))"
  by (simp add: bfly2_def half_def sint_round2 icpx_def plus_cpx_def minus_cpx_def sint16_add
      sint16_sub wr16_eq)

interpretation fixed_int: fft_morphism icpx bfly2 "\<lambda>x y. ibfly2 (ihalf x) (ihalf y)"
  "\<lambda>fs. r4_col (tw_at st fs)" "icol (\<lambda>n. icpx (unpack (twiddles st ! n)))" for st
  by unfold_locales
    (simp_all only: icpx_bfly2, auto simp: r4_col_def icol_def icpx_bfly4 icpx_quarter icpx_cmulq tw_at_def bfly2_def)


section \<open>Evaluation on lists\<close>

text \<open>Every second and every third element, from the first.\<close>

fun halve :: "'a list \<Rightarrow> 'a list" where
  "halve (x # y # xs) = x # halve xs"
| "halve [x] = [x]"
| "halve [] = []"

fun third :: "'a list \<Rightarrow> 'a list" where
  "third (x # y # z # xs) = x # third xs"
| "third [x, y] = [x]"
| "third [x] = [x]"
| "third [] = []"

lemma length_halve: "length (halve xs) = (length xs + 1) div 2"
  by (induction xs rule: halve.induct) auto

lemma length_third: "length (third xs) = (length xs + 2) div 3"
  by (induction xs rule: third.induct) auto

lemma halve_nth: "2 * j < length xs \<Longrightarrow> halve xs ! j = xs ! (2 * j)"
  by (induction xs arbitrary: j rule: halve.induct) (auto simp: nth_Cons split: nat.split)

lemma third_nth: "3 * j < length xs \<Longrightarrow> third xs ! j = xs ! (3 * j)"
  by (induction xs arbitrary: j rule: third.induct) (auto simp: nth_Cons split: nat.split)

type_synonym tw3 = "icpx list \<times> icpx list \<times> icpx list"

text \<open>
  The twiddles of one stage of \<open>4 * m\<close> points, and of all stages: the stage below takes every
  fourth twiddle.
\<close>

definition stage_tw :: "nat \<Rightarrow> icpx list \<Rightarrow> tw3" where
  "stage_tw m tw = (tl (take m tw), tl (take m (halve tw)), tl (take m (third tw)))"

fun dec4 :: "'a list \<Rightarrow> 'a list \<times> 'a list \<times> 'a list \<times> 'a list" where
  "dec4 (a # b # c # d # xs) = (case dec4 xs of (p, q, r, s) \<Rightarrow> (a # p, b # q, c # r, d # s))"
| "dec4 _ = ([], [], [], [])"

text \<open>The columns of a stage, one output list per quarter of the result.\<close>

fun icols :: "icpx list \<Rightarrow> icpx list \<Rightarrow> icpx list \<Rightarrow> icpx list \<Rightarrow> icpx list \<Rightarrow> icpx list \<Rightarrow> icpx list
    \<Rightarrow> icpx list \<times> icpx list \<times> icpx list \<times> icpx list" where
  "icols (w1 # u1) (w2 # u2) (w3 # u3) (a # as) (b # bs) (c # cs) (d # ds) =
     (case ibfly4 (iquarter a) (imul (iquarter b) w1) (imul (iquarter c) w2) (imul (iquarter d) w3) of
        [p, q, r, s] \<Rightarrow> (case icols u1 u2 u3 as bs cs ds of (ps, qs, rs, ss) \<Rightarrow> (p # ps, q # qs, r # rs, s # ss))
      | _ \<Rightarrow> ([], [], [], []))"
| "icols _ _ _ _ _ _ _ = ([], [], [], [])"

fun istage :: "tw3 \<Rightarrow> icpx list \<Rightarrow> icpx list \<Rightarrow> icpx list \<Rightarrow> icpx list \<Rightarrow> icpx list" where
  "istage (u1, u2, u3) (a # as) (b # bs) (c # cs) (d # ds) =
     (case ibfly4 (iquarter a) (iquarter b) (iquarter c) (iquarter d) of
        [p, q, r, s] \<Rightarrow> (case icols u1 u2 u3 as bs cs ds of
          (ps, qs, rs, ss) \<Rightarrow> (p # ps) @ (q # qs) @ (r # rs) @ (s # ss))
      | _ \<Rightarrow> [])"
| "istage _ _ _ _ _ = []"

fun ifft :: "tw3 list \<Rightarrow> icpx list \<Rightarrow> icpx list" where
  "ifft [] xs = (case xs of [x, y] \<Rightarrow> ibfly2 (ihalf x) (ihalf y) | _ \<Rightarrow> [])"
| "ifft (w # ws) xs = (case dec4 xs of (p, q, r, s) \<Rightarrow> istage w (ifft ws p) (ifft ws q) (ifft ws r) (ifft ws s))"

fun stages :: "icpx list \<Rightarrow> nat \<Rightarrow> tw3 list" where
  "stages tw 0 = []"
| "stages tw (Suc d) = stage_tw (2 * 4 ^ d) tw # stages (halve (halve tw)) d"


section \<open>Agreement\<close>

lemma length_4_cases: "length xs = 4 \<Longrightarrow> xs = [xs ! 0, xs ! 1, xs ! 2, xs ! 3]"
  by (rule nth_equalityI) (auto simp: less_Suc_eq numeral_eq_Suc)

lemma length_ibfly4 [simp]: "length (ibfly4 a b c d) = 4"
  by (cases a; cases b; cases c; cases d) simp

lemma case_ibfly4:
  "(case ibfly4 a b c d of [p, q, r, s] \<Rightarrow> f p q r s | _ \<Rightarrow> z)
     = f (ibfly4 a b c d ! 0) (ibfly4 a b c d ! 1) (ibfly4 a b c d ! 2) (ibfly4 a b c d ! 3)"
  by (cases a; cases b; cases c; cases d) simp

definition icol_tw :: "icpx list \<Rightarrow> icpx list \<Rightarrow> icpx list \<Rightarrow> icpx list \<Rightarrow> icpx list \<Rightarrow> icpx list \<Rightarrow> icpx list
    \<Rightarrow> nat \<Rightarrow> icpx list" where
  "icol_tw u1 u2 u3 as bs cs ds k =
     ibfly4 (iquarter (as ! k)) (imul (iquarter (bs ! k)) (u1 ! k)) (imul (iquarter (cs ! k)) (u2 ! k))
       (imul (iquarter (ds ! k)) (u3 ! k))"

lemma icol_tw_Suc [simp]:
  "icol_tw (w1 # u1) (w2 # u2) (w3 # u3) (a # as) (b # bs) (c # cs) (d # ds) (Suc k) = icol_tw u1 u2 u3 as bs cs ds k"
  by (simp add: icol_tw_def)

lemma map_upt_0_Suc: "map f [0..<Suc n] = f 0 # map (\<lambda>k. f (Suc k)) [0..<n]"
  by (simp add: upt_conv_Cons map_Suc_upt [symmetric] o_def del: upt_Suc)

lemma icols_map:
  "length u1 = n \<Longrightarrow> length u2 = n \<Longrightarrow> length u3 = n \<Longrightarrow> length as = n \<Longrightarrow> length bs = n \<Longrightarrow> length cs = n
    \<Longrightarrow> length ds = n \<Longrightarrow> icols u1 u2 u3 as bs cs ds
      = (map (\<lambda>k. icol_tw u1 u2 u3 as bs cs ds k ! 0) [0..<n], map (\<lambda>k. icol_tw u1 u2 u3 as bs cs ds k ! 1) [0..<n],
         map (\<lambda>k. icol_tw u1 u2 u3 as bs cs ds k ! 2) [0..<n], map (\<lambda>k. icol_tw u1 u2 u3 as bs cs ds k ! 3) [0..<n])"
proof (induction n arbitrary: u1 u2 u3 as bs cs ds)
  case 0
  then show ?case by simp
next
  case (Suc n)
  then obtain w1 v1 w2 v2 w3 v3 a as' b bs' c cs' d ds' where
    e: "u1 = w1 # v1" "u2 = w2 # v2" "u3 = w3 # v3" "as = a # as'" "bs = b # bs'" "cs = c # cs'" "ds = d # ds'"
    by (auto simp: length_Suc_conv)
  with Suc show ?case
    unfolding map_upt_0_Suc by (simp add: case_ibfly4) (simp add: icol_tw_def)
qed

lemma map_upt_quarters:
  assumes "0 < m"
  shows "map f [0..<4 * m] = map f [0..<m] @ map (\<lambda>k. f (m + k)) [0..<m] @ map (\<lambda>k. f (2 * m + k)) [0..<m]
    @ map (\<lambda>k. f (3 * m + k)) [0..<m]"
proof -
  have shift: "map (\<lambda>k. f (c + k)) [0..<m] = map f [c..<c + m]" for c
    by (rule nth_equalityI) auto
  have "[0..<4 * m] = [0..<m] @ [m..<m + m] @ [2 * m..<2 * m + m] @ [3 * m..<3 * m + m]"
    using upt_add_eq_append [of 0 m m] upt_add_eq_append [of 0 "2 * m" m] upt_add_eq_append [of 0 "3 * m" m]
    by (simp add: mult_2 numeral_eq_Suc add.assoc)
  then show ?thesis by (simp add: shift)
qed

lemma istage_map:
  assumes m: "0 < m" and len: "length u1 = m - 1" "length u2 = m - 1" "length u3 = m - 1"
    "length as = m" "length bs = m" "length cs = m" "length ds = m"
    and W: "\<And>k. Suc k < m \<Longrightarrow> u1 ! k = W (Suc k * fs) \<and> u2 ! k = W (2 * Suc k * fs) \<and> u3 ! k = W (3 * Suc k * fs)"
  shows "istage (u1, u2, u3) as bs cs ds
    = map (\<lambda>n. icol W fs (n mod m) (as ! (n mod m)) (bs ! (n mod m)) (cs ! (n mod m)) (ds ! (n mod m)) ! (n div m)) [0..<4 * m]"
    (is "_ = map ?f _")
proof -
  obtain n where n: "m = Suc n" using m by (cases m) auto
  with len obtain a as' b bs' c cs' d ds' where
    e: "as = a # as'" "bs = b # bs'" "cs = c # cs'" "ds = d # ds'"
    by (auto simp: length_Suc_conv)
  have l: "length as' = n" "length bs' = n" "length cs' = n" "length ds' = n"
    "length u1 = n" "length u2 = n" "length u3 = n"
    using len e n by simp_all
  have c: "icol W fs k (as ! k) (bs ! k) (cs ! k) (ds ! k) = (case k of 0 \<Rightarrow> ibfly4 (iquarter a) (iquarter b) (iquarter c) (iquarter d)
      | Suc k \<Rightarrow> icol_tw u1 u2 u3 as' bs' cs' ds' k)" if "k < m" for k
    using that W [of "k - 1"] e by (cases k) (simp_all add: icol_def icol_tw_def)
  have quarter: "map (\<lambda>k. ?f (q * m + k)) [0..<m] = ibfly4 (iquarter a) (iquarter b) (iquarter c) (iquarter d) ! q
      # map (\<lambda>k. icol_tw u1 u2 u3 as' bs' cs' ds' k ! q) [0..<n]" for q
  proof -
    have "map (\<lambda>k. ?f (q * m + k)) [0..<m] = map (\<lambda>k. (case k of 0 \<Rightarrow> ibfly4 (iquarter a) (iquarter b) (iquarter c) (iquarter d)
      | Suc k \<Rightarrow> icol_tw u1 u2 u3 as' bs' cs' ds' k) ! q) [0..<m]"
      using c m by (intro map_cong) auto
    then show ?thesis unfolding n map_upt_0_Suc by simp
  qed
  show ?thesis
    unfolding map_upt_quarters [OF m]
    using quarter [of 0] quarter [of 1] quarter [of 2] quarter [of 3] icols_map [OF l(5-7,1-4)]
    by (simp add: e case_ibfly4)
qed

lemma dec4_map: "dec4 (map f [0..<4 * m]) = (map (\<lambda>k. f (4 * k)) [0..<m], map (\<lambda>k. f (4 * k + 1)) [0..<m],
    map (\<lambda>k. f (4 * k + 2)) [0..<m], map (\<lambda>k. f (4 * k + 3)) [0..<m])"
proof (induction m arbitrary: f)
  case 0
  then show ?case by simp
next
  case (Suc m)
  have "4 * Suc m = Suc (Suc (Suc (Suc (4 * m))))" by simp
  then have "map f [0..<4 * Suc m] = f 0 # f 1 # f 2 # f 3 # map (\<lambda>k. f (k + 4)) [0..<4 * m]"
    by (simp only: map_upt_0_Suc) (simp add: numeral_eq_Suc)
  then show ?case using Suc.IH [of "\<lambda>k. f (k + 4)"] by (simp add: map_upt_0_Suc ac_simps numeral_2_eq_2 del: upt_Suc)
qed


lemma stage_tw_nth:
  assumes "4 * m \<le> length tw" "0 < m"
  shows "\<exists>u1 u2 u3. stage_tw m tw = (u1, u2, u3) \<and> length u1 = m - 1 \<and> length u2 = m - 1 \<and> length u3 = m - 1
    \<and> (\<forall>k. Suc k < m \<longrightarrow> u1 ! k = tw ! Suc k \<and> u2 ! k = tw ! (2 * Suc k) \<and> u3 ! k = tw ! (3 * Suc k))"
proof -
  have "halve tw ! Suc k = tw ! (2 * Suc k) \<and> third tw ! Suc k = tw ! (3 * Suc k)" if "Suc k < m" for k
    using that assms halve_nth [of "Suc k" tw] third_nth [of "Suc k" tw] by simp
  then show ?thesis
    using assms by (simp add: stage_tw_def nth_tl length_halve length_third del: mult_Suc_right)
qed

lemma length_int_spec: "length (fft_spec (\<lambda>x y. ibfly2 (ihalf x) (ihalf y)) b4 d fs x) = 2 * 4 ^ d"
proof -
  have "length (ibfly2 a b) = 2" for a b by (cases a; cases b) simp
  then show ?thesis by (cases d) (simp_all add: Let_def)
qed

lemma ifft_spec:
  assumes "2 * 4 ^ d \<le> length tw" and "\<And>n. n < length tw \<Longrightarrow> tw ! n = W (n * fs)"
  shows "ifft (stages tw d) (map (\<lambda>j. x (j * fs)) [0..<2 * 4 ^ d])
    = fft_spec (\<lambda>x y. ibfly2 (ihalf x) (ihalf y)) (icol W) d fs x"
  using assms
proof (induction d arbitrary: fs x tw)
  case 0
  show ?case by (simp add: numeral_2_eq_2)
next
  case (Suc d)
  define m where "m = 2 * (4 :: nat) ^ d"
  have m: "0 < m" by (simp add: m_def)
  define Y where "Y q = fft_spec (\<lambda>x y. ibfly2 (ihalf x) (ihalf y)) (icol W) d (fs * 4) (\<lambda>n. x (q * fs + n))" for q
  have lY: "length (Y q) = m" for q
    unfolding Y_def m_def by (rule length_int_spec)
  let ?tw = "halve (halve tw)"
  have sub0: "ifft (stages ?tw d) (map (\<lambda>j. x (q * fs + j * (fs * 4))) [0..<2 * 4 ^ d]) = Y q" for q
    unfolding Y_def
  proof (rule Suc.IH)
    show "2 * 4 ^ d \<le> length ?tw" using Suc.prems(1) by (simp add: length_halve)
    fix n assume "n < length ?tw"
    then have "4 * n < length tw" by (simp add: length_halve)
    then show "?tw ! n = W (n * (fs * 4))"
      using Suc.prems(2) [of "4 * n"] by (simp add: halve_nth length_halve ac_simps)
  qed
  have sub: "ifft (stages ?tw d) (map (\<lambda>k. x ((4 * k + q) * fs)) [0..<m]) = Y q" for q
  proof -
    have "(\<lambda>k. x ((4 * k + q) * fs)) = (\<lambda>j. x (q * fs + j * (fs * 4)))"
      by (simp add: algebra_simps)
    then show ?thesis using sub0 [of q] by (simp only: m_def)
  qed
  have tw: "4 * m \<le> length tw" using Suc.prems(1) by (simp add: m_def)
  then obtain u1 u2 u3 where u: "stage_tw m tw = (u1, u2, u3)" "length u1 = m - 1" "length u2 = m - 1" "length u3 = m - 1"
    "\<And>k. Suc k < m \<Longrightarrow> u1 ! k = tw ! Suc k \<and> u2 ! k = tw ! (2 * Suc k) \<and> u3 ! k = tw ! (3 * Suc k)"
    using stage_tw_nth [of m tw] m by blast
  have n: "2 * 4 ^ Suc d = 4 * m" by (simp add: m_def)
  have "ifft (stages tw (Suc d)) (map (\<lambda>j. x (j * fs)) [0..<4 * m]) = istage (u1, u2, u3) (Y 0) (Y 1) (Y 2) (Y 3)"
  proof -
    have rec: "ifft (stages tw (Suc d)) zs = (case dec4 zs of (p, q, r, s) \<Rightarrow>
        istage (u1, u2, u3) (ifft (stages ?tw d) p) (ifft (stages ?tw d) q)
          (ifft (stages ?tw d) r) (ifft (stages ?tw d) s))" for zs
      using u(1) by (simp add: m_def)
    show ?thesis
      unfolding rec dec4_map [where f = "\<lambda>j. x (j * fs)"] prod.case
      using sub [of 0] sub [of 1] sub [of 2] sub [of 3] by simp
  qed
  also have "\<dots> = map (\<lambda>n. icol W fs (n mod m) (Y 0 ! (n mod m)) (Y 1 ! (n mod m)) (Y 2 ! (n mod m))
      (Y 3 ! (n mod m)) ! (n div m)) [0..<4 * m]"
  proof (rule istage_map [OF m u(2-4) lY lY lY lY])
    fix k assume k: "Suc k < m"
    then have "Suc k < length tw" "2 * Suc k < length tw" "3 * Suc k < length tw"
      using tw by simp_all
    then show "u1 ! k = W (Suc k * fs) \<and> u2 ! k = W (2 * Suc k * fs) \<and> u3 ! k = W (3 * Suc k * fs)"
      using u(5) [OF k] Suc.prems(2) [of "Suc k"] Suc.prems(2) [of "2 * Suc k"] Suc.prems(2) [of "3 * Suc k"]
      by simp
  qed
  finally show ?case
    by (simp add: n Let_def Y_def m_def del: stages.simps)
qed

text \<open>The bridge to the model: the fixed-point transform of a whole array, evaluated on lists.\<close>

lemma fft_fixed_eval:
  assumes "tws = map (icpx \<circ> unpack) (twiddles st)" "xs = map (icpx \<circ> unpack) f"
    and "length f = 2 * 4 ^ d" "2 * 4 ^ d \<le> length (twiddles st)"
  shows "map icpx (fft_fixed st d 1 (\<lambda>n. unpack (f ! n))) = ifft (stages tws d) xs"
proof -
  have W: "tws ! n = icpx (unpack (twiddles st ! n))" if "n < length tws" for n
    using that by (simp add: assms(1))
  have xs: "xs = map (\<lambda>j. icpx (unpack (f ! (j * 1)))) [0..<2 * 4 ^ d]"
    using assms(3) by (intro nth_equalityI) (simp_all add: assms(2))
  have "map icpx (fft_fixed st d 1 (\<lambda>n. unpack (f ! n)))
      = fft_spec (\<lambda>x y. ibfly2 (ihalf x) (ihalf y)) (icol (\<lambda>n. icpx (unpack (twiddles st ! n)))) d 1
          (\<lambda>n. icpx (unpack (f ! n)))"
    unfolding fft_fixed_def by (rule fixed_int.map_fft_spec)
  also have "\<dots> = ifft (stages tws d) xs"
    unfolding xs by (rule ifft_spec [symmetric]) (use assms(1,4) W in simp_all)
  finally show ?thesis .
qed

end
