(* ===== verification/FFTTables.thy ===== *)
theory FFTTables
  imports Copro
begin

text \<open>
  The tables of \<open>sw/app/fft/fft_int16_main.h\<close>: the twiddles, the reference result and the input
  samples of the 512-point transform, each as the arguments of the header's \<open>CX\<close> macro in four
  blocks of 128, and the factor list.
\<close>

section \<open>Factors and packing\<close>

definition g_factors :: "int list" where
  "g_factors = [4, 128, 4, 32, 4, 8, 4, 2, 2, 1]"

definition CXs :: "(int \<times> int) list \<Rightarrow> i32 list" where
  "CXs = map (\<lambda>(r, i). CX r i)"

section \<open>\<open>g_twiddles\<close>\<close>

definition g_twiddles_0 :: "(int \<times> int) list" where
  "g_twiddles_0 = [
     (32767, 0), (32765, -402), (32757, -804), (32745, -1206), (32728, -1608), (32705, -2009),
     (32678, -2410), (32646, -2811), (32609, -3212), (32567, -3612), (32521, -4011), (32469, -4410),
     (32412, -4808), (32351, -5205), (32285, -5602), (32213, -5998), (32137, -6393), (32057, -6786),
     (31971, -7179), (31880, -7571), (31785, -7962), (31685, -8351), (31580, -8739), (31470, -9126),
     (31356, -9512), (31237, -9896), (31113, -10278), (30985, -10659), (30852, -11039), (30714, -11417),
     (30571, -11793), (30424, -12167), (30273, -12539), (30117, -12910), (29956, -13279), (29791, -13645),
     (29621, -14010), (29447, -14372), (29268, -14732), (29085, -15090), (28898, -15446), (28706, -15800),
     (28510, -16151), (28310, -16499), (28105, -16846), (27896, -17189), (27683, -17530), (27466, -17869),
     (27245, -18204), (27019, -18537), (26790, -18868), (26556, -19195), (26319, -19519), (26077, -19841),
     (25832, -20159), (25582, -20475), (25329, -20787), (25072, -21096), (24811, -21403), (24547, -21705),
     (24279, -22005), (24007, -22301), (23731, -22594), (23452, -22884), (23170, -23170), (22884, -23452),
     (22594, -23731), (22301, -24007), (22005, -24279), (21705, -24547), (21403, -24811), (21096, -25072),
     (20787, -25329), (20475, -25582), (20159, -25832), (19841, -26077), (19519, -26319), (19195, -26556),
     (18868, -26790), (18537, -27019), (18204, -27245), (17869, -27466), (17530, -27683), (17189, -27896),
     (16846, -28105), (16499, -28310), (16151, -28510), (15800, -28706), (15446, -28898), (15090, -29085),
     (14732, -29268), (14372, -29447), (14010, -29621), (13645, -29791), (13279, -29956), (12910, -30117),
     (12539, -30273), (12167, -30424), (11793, -30571), (11417, -30714), (11039, -30852), (10659, -30985),
     (10278, -31113), (9896, -31237), (9512, -31356), (9126, -31470), (8739, -31580), (8351, -31685),
     (7962, -31785), (7571, -31880), (7179, -31971), (6786, -32057), (6393, -32137), (5998, -32213),
     (5602, -32285), (5205, -32351), (4808, -32412), (4410, -32469), (4011, -32521), (3612, -32567),
     (3212, -32609), (2811, -32646), (2410, -32678), (2009, -32705), (1608, -32728), (1206, -32745),
     (804, -32757), (402, -32765)]"

definition g_twiddles_1 :: "(int \<times> int) list" where
  "g_twiddles_1 = [
     (0, -32767), (-402, -32765), (-804, -32757), (-1206, -32745), (-1608, -32728), (-2009, -32705),
     (-2410, -32678), (-2811, -32646), (-3212, -32609), (-3612, -32567), (-4011, -32521), (-4410, -32469),
     (-4808, -32412), (-5205, -32351), (-5602, -32285), (-5998, -32213), (-6393, -32137), (-6786, -32057),
     (-7179, -31971), (-7571, -31880), (-7962, -31785), (-8351, -31685), (-8739, -31580), (-9126, -31470),
     (-9512, -31356), (-9896, -31237), (-10278, -31113), (-10659, -30985), (-11039, -30852), (-11417, -30714),
     (-11793, -30571), (-12167, -30424), (-12539, -30273), (-12910, -30117), (-13279, -29956), (-13645, -29791),
     (-14010, -29621), (-14372, -29447), (-14732, -29268), (-15090, -29085), (-15446, -28898), (-15800, -28706),
     (-16151, -28510), (-16499, -28310), (-16846, -28105), (-17189, -27896), (-17530, -27683), (-17869, -27466),
     (-18204, -27245), (-18537, -27019), (-18868, -26790), (-19195, -26556), (-19519, -26319), (-19841, -26077),
     (-20159, -25832), (-20475, -25582), (-20787, -25329), (-21096, -25072), (-21403, -24811), (-21705, -24547),
     (-22005, -24279), (-22301, -24007), (-22594, -23731), (-22884, -23452), (-23170, -23170), (-23452, -22884),
     (-23731, -22594), (-24007, -22301), (-24279, -22005), (-24547, -21705), (-24811, -21403), (-25072, -21096),
     (-25329, -20787), (-25582, -20475), (-25832, -20159), (-26077, -19841), (-26319, -19519), (-26556, -19195),
     (-26790, -18868), (-27019, -18537), (-27245, -18204), (-27466, -17869), (-27683, -17530), (-27896, -17189),
     (-28105, -16846), (-28310, -16499), (-28510, -16151), (-28706, -15800), (-28898, -15446), (-29085, -15090),
     (-29268, -14732), (-29447, -14372), (-29621, -14010), (-29791, -13645), (-29956, -13279), (-30117, -12910),
     (-30273, -12539), (-30424, -12167), (-30571, -11793), (-30714, -11417), (-30852, -11039), (-30985, -10659),
     (-31113, -10278), (-31237, -9896), (-31356, -9512), (-31470, -9126), (-31580, -8739), (-31685, -8351),
     (-31785, -7962), (-31880, -7571), (-31971, -7179), (-32057, -6786), (-32137, -6393), (-32213, -5998),
     (-32285, -5602), (-32351, -5205), (-32412, -4808), (-32469, -4410), (-32521, -4011), (-32567, -3612),
     (-32609, -3212), (-32646, -2811), (-32678, -2410), (-32705, -2009), (-32728, -1608), (-32745, -1206),
     (-32757, -804), (-32765, -402)]"

definition g_twiddles_2 :: "(int \<times> int) list" where
  "g_twiddles_2 = [
     (-32767, 0), (-32765, 402), (-32757, 804), (-32745, 1206), (-32728, 1608), (-32705, 2009),
     (-32678, 2410), (-32646, 2811), (-32609, 3212), (-32567, 3612), (-32521, 4011), (-32469, 4410),
     (-32412, 4808), (-32351, 5205), (-32285, 5602), (-32213, 5998), (-32137, 6393), (-32057, 6786),
     (-31971, 7179), (-31880, 7571), (-31785, 7962), (-31685, 8351), (-31580, 8739), (-31470, 9126),
     (-31356, 9512), (-31237, 9896), (-31113, 10278), (-30985, 10659), (-30852, 11039), (-30714, 11417),
     (-30571, 11793), (-30424, 12167), (-30273, 12539), (-30117, 12910), (-29956, 13279), (-29791, 13645),
     (-29621, 14010), (-29447, 14372), (-29268, 14732), (-29085, 15090), (-28898, 15446), (-28706, 15800),
     (-28510, 16151), (-28310, 16499), (-28105, 16846), (-27896, 17189), (-27683, 17530), (-27466, 17869),
     (-27245, 18204), (-27019, 18537), (-26790, 18868), (-26556, 19195), (-26319, 19519), (-26077, 19841),
     (-25832, 20159), (-25582, 20475), (-25329, 20787), (-25072, 21096), (-24811, 21403), (-24547, 21705),
     (-24279, 22005), (-24007, 22301), (-23731, 22594), (-23452, 22884), (-23170, 23170), (-22884, 23452),
     (-22594, 23731), (-22301, 24007), (-22005, 24279), (-21705, 24547), (-21403, 24811), (-21096, 25072),
     (-20787, 25329), (-20475, 25582), (-20159, 25832), (-19841, 26077), (-19519, 26319), (-19195, 26556),
     (-18868, 26790), (-18537, 27019), (-18204, 27245), (-17869, 27466), (-17530, 27683), (-17189, 27896),
     (-16846, 28105), (-16499, 28310), (-16151, 28510), (-15800, 28706), (-15446, 28898), (-15090, 29085),
     (-14732, 29268), (-14372, 29447), (-14010, 29621), (-13645, 29791), (-13279, 29956), (-12910, 30117),
     (-12539, 30273), (-12167, 30424), (-11793, 30571), (-11417, 30714), (-11039, 30852), (-10659, 30985),
     (-10278, 31113), (-9896, 31237), (-9512, 31356), (-9126, 31470), (-8739, 31580), (-8351, 31685),
     (-7962, 31785), (-7571, 31880), (-7179, 31971), (-6786, 32057), (-6393, 32137), (-5998, 32213),
     (-5602, 32285), (-5205, 32351), (-4808, 32412), (-4410, 32469), (-4011, 32521), (-3612, 32567),
     (-3212, 32609), (-2811, 32646), (-2410, 32678), (-2009, 32705), (-1608, 32728), (-1206, 32745),
     (-804, 32757), (-402, 32765)]"

definition g_twiddles_3 :: "(int \<times> int) list" where
  "g_twiddles_3 = [
     (0, 32767), (402, 32765), (804, 32757), (1206, 32745), (1608, 32728), (2009, 32705),
     (2410, 32678), (2811, 32646), (3212, 32609), (3612, 32567), (4011, 32521), (4410, 32469),
     (4808, 32412), (5205, 32351), (5602, 32285), (5998, 32213), (6393, 32137), (6786, 32057),
     (7179, 31971), (7571, 31880), (7962, 31785), (8351, 31685), (8739, 31580), (9126, 31470),
     (9512, 31356), (9896, 31237), (10278, 31113), (10659, 30985), (11039, 30852), (11417, 30714),
     (11793, 30571), (12167, 30424), (12539, 30273), (12910, 30117), (13279, 29956), (13645, 29791),
     (14010, 29621), (14372, 29447), (14732, 29268), (15090, 29085), (15446, 28898), (15800, 28706),
     (16151, 28510), (16499, 28310), (16846, 28105), (17189, 27896), (17530, 27683), (17869, 27466),
     (18204, 27245), (18537, 27019), (18868, 26790), (19195, 26556), (19519, 26319), (19841, 26077),
     (20159, 25832), (20475, 25582), (20787, 25329), (21096, 25072), (21403, 24811), (21705, 24547),
     (22005, 24279), (22301, 24007), (22594, 23731), (22884, 23452), (23170, 23170), (23452, 22884),
     (23731, 22594), (24007, 22301), (24279, 22005), (24547, 21705), (24811, 21403), (25072, 21096),
     (25329, 20787), (25582, 20475), (25832, 20159), (26077, 19841), (26319, 19519), (26556, 19195),
     (26790, 18868), (27019, 18537), (27245, 18204), (27466, 17869), (27683, 17530), (27896, 17189),
     (28105, 16846), (28310, 16499), (28510, 16151), (28706, 15800), (28898, 15446), (29085, 15090),
     (29268, 14732), (29447, 14372), (29621, 14010), (29791, 13645), (29956, 13279), (30117, 12910),
     (30273, 12539), (30424, 12167), (30571, 11793), (30714, 11417), (30852, 11039), (30985, 10659),
     (31113, 10278), (31237, 9896), (31356, 9512), (31470, 9126), (31580, 8739), (31685, 8351),
     (31785, 7962), (31880, 7571), (31971, 7179), (32057, 6786), (32137, 6393), (32213, 5998),
     (32285, 5602), (32351, 5205), (32412, 4808), (32469, 4410), (32521, 4011), (32567, 3612),
     (32609, 3212), (32646, 2811), (32678, 2410), (32705, 2009), (32728, 1608), (32745, 1206),
     (32757, 804), (32765, 402)]"

definition g_twiddles :: "i32 list" where
  "g_twiddles = CXs (g_twiddles_0 @ g_twiddles_1 @ g_twiddles_2 @ g_twiddles_3)"

section \<open>\<open>g_gold\<close>\<close>

definition g_gold_0 :: "(int \<times> int) list" where
  "g_gold_0 = [
     (672, 2720), (68, -3), (47, 4), (17, 12), (-26, 28), (-94, 57),
     (-246, 126), (-958, 458), (1332, -638), (500, -247), (335, -177), (263, -147),
     (215, -129), (178, -109), (131, -48), (-516, 2453), (155, -409), (98, -364),
     (43, -397), (-42, -481), (-187, -647), (-529, -1038), (-2084, -2787), (4041, 3971),
     (1545, 1155), (1170, 670), (1082, 462), (1127, 331), (1343, 210), (2062, 1),
     (15544, -3228), (-1560, 835), (-486, 593), (-135, 540), (65, 554), (245, 635),
     (508, 865), (1385, 1886), (-2482, -2985), (-587, -677), (-277, -345), (-132, -224),
     (-32, -170), (74, -166), (261, -245), (2154, -1582), (-481, 391), (-199, 228),
     (-100, 199), (-37, 211), (22, 250), (104, 360), (340, 797), (-885, -1762),
     (-187, -372), (-81, -197), (-22, -134), (28, -105), (93, -101), (231, -138),
     (1404, -655), (-458, 218), (-197, 117), (-118, 101), (-73, 107), (-40, 129),
     (-5, 186), (66, 394), (-328, -1174), (-59, -204), (-16, -102), (13, -62),
     (47, -43), (97, -34), (210, -36), (1046, -136), (-466, 71), (-201, 45),
     (-126, 45), (-90, 53), (-68, 70), (-52, 100), (-38, 205), (-13, -861),
     (-10, -111), (3, -45), (16, -19), (38, -3), (73, 10), (153, 32),
     (670, 129), (-399, -56), (-167, -10), (-108, 8), (-79, 18), (-64, 33),
     (-57, 52), (-63, 112), (221, -746), (14, -62), (12, -19), (21, -1),
     (37, 14), (62, 31), (124, 65), (476, 236), (-363, -158), (-142, -51),
     (-92, -23), (-68, -9), (-56, 2), (-48, 14), (-52, 38), (357, -555),
     (8, -19), (5, 2), (12, 15), (22, 28), (40, 45), (85, 81),
     (300, 259), (-296, -223), (-110, -71), (-70, -39), (-52, -23), (-41, -13),
     (-32, -6), (-25, 1)]"

definition g_gold_1 :: "(int \<times> int) list" where
  "g_gold_1 = [
     (407, -351), (-17, 12), (-10, 19), (-4, 27), (3, 39), (16, 57),
     (40, 96), (151, 279), (-201, -307), (-72, -93), (-44, -52), (-32, -34),
     (-23, -23), (-12, -17), (4, -15), (438, -199), (-46, 20), (-27, 23),
     (-18, 26), (-11, 38), (-5, 53), (7, 90), (49, 244), (-106, -342),
     (-36, -96), (-23, -53), (-15, -35), (-5, -23), (3, -16), (28, -13),
     (439, -53), (-76, 13), (-43, 14), (-31, 20), (-26, 29), (-24, 44),
     (-20, 75), (-21, 194), (4, -355), (-4, -90), (-2, -48), (2, -30),
     (6, -18), (18, -10), (48, 2), (401, 63), (-103, -13), (-55, 2),
     (-41, 12), (-35, 17), (-35, 31), (-37, 55), (-58, 141), (93, -338),
     (16, -73), (7, -35), (8, -20), (12, -7), (23, 3), (49, 22),
     (318, 155), (-117, -49), (-58, -16), (-45, -4), (-39, 5), (-38, 17),
     (-46, 35), (-79, 93), (197, -313), (30, -55), (16, -24), (13, -10),
     (15, 1), (23, 16), (47, 41), (238, 216), (-115, -94), (-56, -38),
     (-41, -20), (-36, -7), (-36, 2), (-43, 15), (-72, 47), (262, -246),
     (32, -35), (16, -12), (12, -1), (12, 9), (18, 23), (36, 53),
     (158, 235), (-101, -136), (-47, -54), (-37, -33), (-32, -19), (-32, -13),
     (-36, -3), (-56, 11), (311, -146), (22, -14), (9, -2), (5, 9),
     (5, 16), (8, 33), (17, 66), (82, 248), (-74, -181), (-34, -67),
     (-25, -40), (-23, -28), (-22, -20), (-24, -14), (-36, -6), (321, -69),
     (7, -4), (-4, 3), (-6, 11), (-8, 18), (-8, 33), (-9, 65),
     (-13, 222), (-6, -209), (-9, -74), (-9, -44), (-9, -30), (-10, -22),
     (-11, -15), (-11, -9)]"

definition g_gold_2 :: "(int \<times> int) list" where
  "g_gold_2 = [
     (326, 32), (-12, -1), (-13, 2), (-15, 10), (-18, 18), (-20, 31),
     (-28, 60), (-70, 192), (62, -226), (14, -73), (7, -43), (1, -31),
     (1, -23), (2, -13), (7, -6), (302, 131), (-29, -11), (-22, -2),
     (-23, 3), (-24, 11), (-29, 23), (-41, 46), (-100, 143), (125, -219),
     (31, -65), (16, -38), (10, -24), (9, -15), (11, -6), (20, 11),
     (248, 218), (-46, -35), (-30, -17), (-29, -6), (-29, 2), (-37, 11),
     (-52, 29), (-121, 96), (202, -197), (47, -53), (25, -29), (16, -16),
     (12, -6), (14, 6), (23, 27), (176, 266), (-51, -67), (-31, -32),
     (-30, -21), (-31, -11), (-38, 0), (-56, 10), (-124, 45), (273, -140),
     (57, -34), (31, -17), (18, -6), (14, 1), (13, 15), (17, 44),
     (92, 293), (-38, -104), (-23, -47), (-24, -31), (-27, -23), (-34, -13),
     (-51, -6), (-110, 8), (330, -70), (57, -14), (28, -6), (17, 2),
     (11, 9), (7, 24), (6, 58), (26, 308), (-16, -145), (-13, -65),
     (-16, -43), (-20, -33), (-24, -26), (-36, -22), (-78, -19), (319, 17),
     (40, -1), (15, 1), (4, 5), (0, 15), (-9, 30), (-21, 64),
     (-80, 283), (35, -174), (9, -74), (0, -50), (-9, -38), (-14, -33),
     (-25, -30), (-49, -36), (333, 122), (26, 6), (6, 5), (-3, 7),
     (-11, 14), (-22, 27), (-42, 57), (-150, 230), (97, -184), (30, -75),
     (14, -51), (4, -39), (-2, -32), (-8, -30), (-22, -32), (309, 225),
     (8, 3), (-5, 2), (-14, 5), (-22, 12), (-36, 21), (-63, 45),
     (-206, 171), (178, -177), (58, -69), (30, -45), (20, -33), (11, -27),
     (4, -24), (-1, -19)]"

definition g_gold_3 :: "(int \<times> int) list" where
  "g_gold_3 = [
     (231, 351), (-11, -12), (-16, -9), (-22, -5), (-31, 3), (-46, 11),
     (-82, 30), (-239, 115), (267, -157), (82, -59), (46, -36), (28, -28),
     (19, -21), (12, -13), (10, 1), (120, 415), (-16, -44), (-17, -29),
     (-26, -20), (-35, -16), (-55, -9), (-93, -2), (-253, 24), (364, -74),
     (104, -30), (57, -19), (39, -11), (25, -5), (15, 8), (10, 33),
     (9, 499), (-6, -89), (-13, -50), (-21, -38), (-34, -33), (-52, -30),
     (-92, -29), (-243, -40), (452, 25), (116, 0), (62, -2), (38, 2),
     (22, 10), (10, 26), (-8, 68), (-147, 585), (35, -155), (9, -86),
     (-5, -66), (-17, -57), (-37, -57), (-71, -61), (-186, -103), (463, 164),
     (102, 23), (51, 9), (28, 8), (10, 15), (-9, 27), (-45, 68),
     (-322, 475), (109, -185), (42, -102), (19, -78), (-1, -73), (-20, -73),
     (-50, -87), (-145, -147), (513, 341), (96, 45), (44, 16), (17, 10),
     (-5, 13), (-35, 22), (-99, 61), (-550, 372), (261, -212), (118, -114),
     (75, -94), (54, -89), (36, -94), (19, -113), (-8, -193), (192, 618),
     (38, 51), (18, 4), (4, -13), (-14, -25), (-38, -35), (-92, -45),
     (-428, -83), (265, -22), (113, -42), (73, -57), (56, -69), (50, -91),
     (54, -131), (100, -255), (-897, 1666), (-138, 138), (-115, 44), (-127, 5),
     (-163, -28), (-232, -71), (-403, -160), (-1396, -638), (976, 499), (354, 201),
     (207, 134), (135, 104), (84, 86), (32, 78), (-62, 76), (2309, -57),
     (165, 56), (84, 61), (36, 65), (-8, 74), (-72, 93), (-205, 141),
     (-865, 400), (936, -323), (373, -102), (249, -56), (193, -38), (156, -26),
     (131, -19), (109, -13)]"

definition g_gold :: "i32 list" where
  "g_gold = CXs (g_gold_0 @ g_gold_1 @ g_gold_2 @ g_gold_3)"

section \<open>\<open>g_cx_in\<close>\<close>

definition g_cx_in_0 :: "(int \<times> int) list" where
  "g_cx_in_0 = [
     (32767, 0), (31174, 10914), (26004, 20251), (18067, 26724), (8415, 29467), (-207, 28192),
     (-8247, 23247), (-14354, 15532), (-17978, 6235), (-18825, -3348), (-17085, -11532), (-13205, -18057),
     (-7885, -22232), (-1532, -23550), (4892, -21809), (10567, -17093), (14850, -9863), (17153, -1972),
     (17246, 6584), (15141, 14424), (11082, 20662), (5488, 24748), (-786, 26257), (-7280, 25006),
     (-12748, 21083), (-16428, 14853), (-18034, 6941), (-17434, -176), (-14793, -6860), (-10483, -12032),
     (-5012, -15428), (1153, -16908), (7201, -16455), (12555, -14174), (16620, -10264), (18859, -5103),
     (19136, 747), (17501, 6381), (14078, 10684), (9197, 13609), (3211, 14925), (-3149, 14589),
     (-9243, 12644), (-14512, 9291), (-18318, 4611), (-20231, -124), (-20052, -4933), (-17875, -8842),
     (-14012, -11428), (-8888, -12663), (-3338, -12600), (2149, -11288), (7110, -8781), (11042, -5113),
     (13645, -711), (14836, 3971), (14681, 8273), (13283, 11591), (10853, 13913), (7645, 15010),
     (4043, 14769), (247, 13164), (-3479, 10331), (-6892, 6558), (-9852, 2097), (-12205, -2443),
     (-13653, -6669), (-14204, -10202), (32767, 0), (31174, 10914), (26004, 20251), (18067, 26724),
     (8415, 29467), (-207, 28192), (-8247, 23247), (-14354, 15532), (-17978, 6235), (-18825, -3348),
     (-17085, -11532), (-13205, -18057), (-7885, -22232), (-1532, -23550), (4892, -21809), (10567, -17093),
     (14850, -9863), (17153, -1972), (17246, 6584), (15141, 14424), (11082, 20662), (5488, 24748),
     (-786, 26257), (-7280, 25006), (-12748, 21083), (-16428, 14853), (-18034, 6941), (-17434, -176),
     (-14793, -6860), (-10483, -12032), (-5012, -15428), (1153, -16908), (7201, -16455), (12555, -14174),
     (16620, -10264), (18859, -5103), (19136, 747), (17501, 6381), (14078, 10684), (9197, 13609),
     (3211, 14925), (-3149, 14589), (-9243, 12644), (-14512, 9291), (-18318, 4611), (-20231, -124),
     (-20052, -4933), (-17875, -8842), (-14012, -11428), (-8888, -12663), (-3338, -12600), (2149, -11288),
     (7110, -8781), (11042, -5113), (13645, -711), (14836, 3971), (14681, 8273), (13283, 11591),
     (10853, 13913), (7645, 15010)]"

definition g_cx_in_1 :: "(int \<times> int) list" where
  "g_cx_in_1 = [
     (4043, 14769), (247, 13164), (-3479, 10331), (-6892, 6558), (-9852, 2097), (-12205, -2443),
     (-13653, -6669), (-14204, -10202), (32767, 0), (31174, 10914), (26004, 20251), (18067, 26724),
     (8415, 29467), (-207, 28192), (-8247, 23247), (-14354, 15532), (-17978, 6235), (-18825, -3348),
     (-17085, -11532), (-13205, -18057), (-7885, -22232), (-1532, -23550), (4892, -21809), (10567, -17093),
     (14850, -9863), (17153, -1972), (17246, 6584), (15141, 14424), (11082, 20662), (5488, 24748),
     (-786, 26257), (-7280, 25006), (-12748, 21083), (-16428, 14853), (-18034, 6941), (-17434, -176),
     (-14793, -6860), (-10483, -12032), (-5012, -15428), (1153, -16908), (7201, -16455), (12555, -14174),
     (16620, -10264), (18859, -5103), (19136, 747), (17501, 6381), (14078, 10684), (9197, 13609),
     (3211, 14925), (-3149, 14589), (-9243, 12644), (-14512, 9291), (-18318, 4611), (-20231, -124),
     (-20052, -4933), (-17875, -8842), (-14012, -11428), (-8888, -12663), (-3338, -12600), (2149, -11288),
     (7110, -8781), (11042, -5113), (13645, -711), (14836, 3971), (14681, 8273), (13283, 11591),
     (10853, 13913), (7645, 15010), (4043, 14769), (247, 13164), (-3479, 10331), (-6892, 6558),
     (-9852, 2097), (-12205, -2443), (-13653, -6669), (-14204, -10202), (32767, 0), (31174, 10914),
     (26004, 20251), (18067, 26724), (8415, 29467), (-207, 28192), (-8247, 23247), (-14354, 15532),
     (-17978, 6235), (-18825, -3348), (-17085, -11532), (-13205, -18057), (-7885, -22232), (-1532, -23550),
     (4892, -21809), (10567, -17093), (14850, -9863), (17153, -1972), (17246, 6584), (15141, 14424),
     (11082, 20662), (5488, 24748), (-786, 26257), (-7280, 25006), (-12748, 21083), (-16428, 14853),
     (-18034, 6941), (-17434, -176), (-14793, -6860), (-10483, -12032), (-5012, -15428), (1153, -16908),
     (7201, -16455), (12555, -14174), (16620, -10264), (18859, -5103), (19136, 747), (17501, 6381),
     (14078, 10684), (9197, 13609), (3211, 14925), (-3149, 14589), (-9243, 12644), (-14512, 9291),
     (-18318, 4611), (-20231, -124), (-20052, -4933), (-17875, -8842), (-14012, -11428), (-8888, -12663),
     (-3338, -12600), (2149, -11288)]"

definition g_cx_in_2 :: "(int \<times> int) list" where
  "g_cx_in_2 = [
     (7110, -8781), (11042, -5113), (13645, -711), (14836, 3971), (14681, 8273), (13283, 11591),
     (10853, 13913), (7645, 15010), (4043, 14769), (247, 13164), (-3479, 10331), (-6892, 6558),
     (-9852, 2097), (-12205, -2443), (-13653, -6669), (-14204, -10202), (32767, 0), (31174, 10914),
     (26004, 20251), (18067, 26724), (8415, 29467), (-207, 28192), (-8247, 23247), (-14354, 15532),
     (-17978, 6235), (-18825, -3348), (-17085, -11532), (-13205, -18057), (-7885, -22232), (-1532, -23550),
     (4892, -21809), (10567, -17093), (14850, -9863), (17153, -1972), (17246, 6584), (15141, 14424),
     (11082, 20662), (5488, 24748), (-786, 26257), (-7280, 25006), (-12748, 21083), (-16428, 14853),
     (-18034, 6941), (-17434, -176), (-14793, -6860), (-10483, -12032), (-5012, -15428), (1153, -16908),
     (7201, -16455), (12555, -14174), (16620, -10264), (18859, -5103), (19136, 747), (17501, 6381),
     (14078, 10684), (9197, 13609), (3211, 14925), (-3149, 14589), (-9243, 12644), (-14512, 9291),
     (-18318, 4611), (-20231, -124), (-20052, -4933), (-17875, -8842), (-14012, -11428), (-8888, -12663),
     (-3338, -12600), (2149, -11288), (7110, -8781), (11042, -5113), (13645, -711), (14836, 3971),
     (14681, 8273), (13283, 11591), (10853, 13913), (7645, 15010), (4043, 14769), (247, 13164),
     (-3479, 10331), (-6892, 6558), (-9852, 2097), (-12205, -2443), (-13653, -6669), (-14204, -10202),
     (32767, 0), (31174, 10914), (26004, 20251), (18067, 26724), (8415, 29467), (-207, 28192),
     (-8247, 23247), (-14354, 15532), (-17978, 6235), (-18825, -3348), (-17085, -11532), (-13205, -18057),
     (-7885, -22232), (-1532, -23550), (4892, -21809), (10567, -17093), (14850, -9863), (17153, -1972),
     (17246, 6584), (15141, 14424), (11082, 20662), (5488, 24748), (-786, 26257), (-7280, 25006),
     (-12748, 21083), (-16428, 14853), (-18034, 6941), (-17434, -176), (-14793, -6860), (-10483, -12032),
     (-5012, -15428), (1153, -16908), (7201, -16455), (12555, -14174), (16620, -10264), (18859, -5103),
     (19136, 747), (17501, 6381), (14078, 10684), (9197, 13609), (3211, 14925), (-3149, 14589),
     (-9243, 12644), (-14512, 9291)]"

definition g_cx_in_3 :: "(int \<times> int) list" where
  "g_cx_in_3 = [
     (-18318, 4611), (-20231, -124), (-20052, -4933), (-17875, -8842), (-14012, -11428), (-8888, -12663),
     (-3338, -12600), (2149, -11288), (7110, -8781), (11042, -5113), (13645, -711), (14836, 3971),
     (14681, 8273), (13283, 11591), (10853, 13913), (7645, 15010), (4043, 14769), (247, 13164),
     (-3479, 10331), (-6892, 6558), (-9852, 2097), (-12205, -2443), (-13653, -6669), (-14204, -10202),
     (32767, 0), (31174, 10914), (26004, 20251), (18067, 26724), (8415, 29467), (-207, 28192),
     (-8247, 23247), (-14354, 15532), (-17978, 6235), (-18825, -3348), (-17085, -11532), (-13205, -18057),
     (-7885, -22232), (-1532, -23550), (4892, -21809), (10567, -17093), (14850, -9863), (17153, -1972),
     (17246, 6584), (15141, 14424), (11082, 20662), (5488, 24748), (-786, 26257), (-7280, 25006),
     (-12748, 21083), (-16428, 14853), (-18034, 6941), (-17434, -176), (-14793, -6860), (-10483, -12032),
     (-5012, -15428), (1153, -16908), (7201, -16455), (12555, -14174), (16620, -10264), (18859, -5103),
     (19136, 747), (17501, 6381), (14078, 10684), (9197, 13609), (3211, 14925), (-3149, 14589),
     (-9243, 12644), (-14512, 9291), (-18318, 4611), (-20231, -124), (-20052, -4933), (-17875, -8842),
     (-14012, -11428), (-8888, -12663), (-3338, -12600), (2149, -11288), (7110, -8781), (11042, -5113),
     (13645, -711), (14836, 3971), (14681, 8273), (13283, 11591), (10853, 13913), (7645, 15010),
     (4043, 14769), (247, 13164), (-3479, 10331), (-6892, 6558), (-9852, 2097), (-12205, -2443),
     (-13653, -6669), (-14204, -10202), (32767, 0), (31174, 10914), (26004, 20251), (18067, 26724),
     (8415, 29467), (-207, 28192), (-8247, 23247), (-14354, 15532), (-17978, 6235), (-18825, -3348),
     (-17085, -11532), (-13205, -18057), (-7885, -22232), (-1532, -23550), (4892, -21809), (10567, -17093),
     (14850, -9863), (17153, -1972), (17246, 6584), (15141, 14424), (11082, 20662), (5488, 24748),
     (-786, 26257), (-7280, 25006), (-12748, 21083), (-16428, 14853), (-18034, 6941), (-17434, -176),
     (-14793, -6860), (-10483, -12032), (-5012, -15428), (1153, -16908), (7201, -16455), (12555, -14174),
     (16620, -10264), (18859, -5103)]"

definition g_cx_in :: "i32 list" where
  "g_cx_in = CXs (g_cx_in_0 @ g_cx_in_1 @ g_cx_in_2 @ g_cx_in_3)"

end
