(* ===== verification/FFTRun.thy ===== *)
theory FFTRun
  imports FFTEval FFTTables
begin

text \<open>
  The 512-point transform of the application's input, evaluated in the kernel: the list evaluator
  of theory \<open>FFTEval\<close> on the tables of \<open>fft_int16_main.h\<close>.
\<close>

definition tw_pairs :: "icpx list" where
  "tw_pairs = g_twiddles_0 @ g_twiddles_1 @ g_twiddles_2 @ g_twiddles_3"

definition in_pairs :: "icpx list" where
  "in_pairs = g_cx_in_0 @ g_cx_in_1 @ g_cx_in_2 @ g_cx_in_3"

definition gold_pairs :: "icpx list" where
  "gold_pairs = g_gold_0 @ g_gold_1 @ g_gold_2 @ g_gold_3"

definition fits16 :: "icpx \<Rightarrow> bool" where
  "fits16 p \<longleftrightarrow> -32768 \<le> fst p \<and> fst p \<le> 32767 \<and> -32768 \<le> snd p \<and> snd p \<le> 32767"

lemma icpx_CXs: "list_all fits16 ps \<Longrightarrow> map (icpx \<circ> unpack) (CXs ps) = ps"
  by (induction ps)
    (auto simp: CXs_def icpx_def unpack_CX sint16_of_int wrap16_id fits16_def)

lemma tables_fit: "list_all fits16 tw_pairs" "list_all fits16 in_pairs" "list_all fits16 gold_pairs"
  by code_simp+

lemma tables_length: "length tw_pairs = 512" "length in_pairs = 512" "length gold_pairs = 512"
  by (simp_all add: tw_pairs_def in_pairs_def gold_pairs_def g_twiddles_0_def g_twiddles_1_def
      g_twiddles_2_def g_twiddles_3_def g_cx_in_0_def g_cx_in_1_def g_cx_in_2_def g_cx_in_3_def
      g_gold_0_def g_gold_1_def g_gold_2_def g_gold_3_def)

section \<open>The four 128-point transforms\<close>

text \<open>
  The values of the four sub-transforms of the input decimated by four. They only split the run
  into lemmas that are checked side by side.
\<close>

definition sub_0 :: "icpx list" where
  "sub_0 = [
     (1635, 2754), (30, -5), (7, 18), (-23, 46), (-72, 87), (-146, 156),
     (-316, 311), (-1116, 1043), (1459, -1330), (526, -473), (343, -309), (261, -239),
     (214, -195), (180, -152), (154, -67), (345, 2799), (64, -446), (31, -374),
     (-25, -388), (-113, -450), (-275, -582), (-656, -906), (-2388, -2376), (4423, 3335),
     (1643, 964), (1222, 561), (1115, 392), (1155, 289), (1374, 196), (2120, 32),
     (16241, -2564), (-1687, 723), (-571, 540), (-217, 516), (-23, 554), (134, 661),
     (343, 942), (1000, 2138), (-1826, -3511), (-429, -822), (-194, -423), (-78, -267),
     (10, -186), (115, -143), (324, -149), (2585, -669), (-602, 157), (-278, 112),
     (-175, 125), (-122, 161), (-87, 226), (-60, 363), (-30, 879), (-58, -2078),
     (-13, -457), (8, -242), (31, -152), (65, -98), (119, -56), (252, -6),
     (1493, 267), (-506, -120), (-238, -47), (-169, -13), (-141, 18), (-134, 61),
     (-151, 128), (-267, 348), (712, -1215), (124, -230), (72, -117), (62, -61),
     (67, -20), (92, 29), (165, 123), (759, 759), (-338, -379), (-154, -172),
     (-110, -111), (-93, -77), (-94, -50), (-111, -22), (-195, 42), (759, -472),
     (101, -96), (54, -52), (38, -28), (35, -3), (45, 30), (78, 103),
     (321, 566), (-201, -389), (-94, -182), (-72, -132), (-63, -110), (-59, -105),
     (-63, -112), (-67, -168), (-33, 896), (-76, 69), (-87, 30), (-106, 20),
     (-134, 17), (-185, 20), (-304, 29), (-988, 75), (638, -24), (209, 7),
     (104, 19), (49, 29), (6, 37), (-50, 50), (-171, 75), (3298, -457),
     (187, 36), (82, 67), (28, 95), (-16, 132), (-77, 193), (-194, 334),
     (-783, 1054), (811, -934), (313, -318), (202, -186), (151, -125), (118, -88),
     (92, -63), (71, -41)]"

definition sub_1 :: "icpx list" where
  "sub_1 = [
     (1048, 2864), (58, -8), (31, 8), (-1, 22), (-48, 42), (-125, 82),
     (-297, 167), (-1105, 565), (1499, -735), (554, -268), (370, -179), (288, -141),
     (237, -117), (197, -92), (149, -26), (-685, 2560), (202, -395), (146, -348),
     (103, -381), (41, -472), (-65, -657), (-308, -1102), (-1423, -3119), (2984, 4742),
     (1199, 1493), (945, 958), (903, 754), (973, 667), (1208, 649), (1953, 735),
     (15874, 2889), (-1797, 144), (-700, 336), (-365, 427), (-197, 526), (-84, 681),
     (23, 1015), (260, 2365), (-603, -3927), (-142, -914), (-47, -457), (15, -271),
     (75, -164), (163, -92), (372, -28), (2812, 205), (-658, -37), (-320, 25),
     (-224, 71), (-181, 123), (-170, 194), (-190, 337), (-347, 835), (683, -1985),
     (146, -426), (90, -216), (83, -121), (96, -57), (136, 3), (254, 108),
     (1416, 867), (-474, -308), (-233, -132), (-170, -69), (-152, -24), (-158, 18),
     (-197, 80), (-377, 260), (1050, -958), (179, -180), (93, -83), (65, -31),
     (57, 15), (60, 76), (98, 207), (436, 1145), (-207, -551), (-105, -252),
     (-85, -170), (-83, -128), (-96, -105), (-128, -88), (-245, -83), (969, 30),
     (119, -29), (46, -22), (17, -9), (-4, 10), (-21, 41), (-51, 112),
     (-193, 580), (83, -397), (16, -187), (-9, -141), (-22, -125), (-37, -126),
     (-56, -152), (-95, -265), (295, 1710), (-38, 165), (-77, 85), (-114, 61),
     (-161, 55), (-242, 56), (-429, 69), (-1497, 163), (1045, -60), (377, 0),
     (218, 16), (140, 27), (82, 37), (24, 47), (-86, 69), (2731, -447),
     (188, 30), (96, 53), (45, 75), (-5, 101), (-72, 146), (-206, 248),
     (-869, 771), (934, -673), (370, -225), (246, -130), (188, -89), (150, -62),
     (125, -44), (100, -29)]"

definition sub_2 :: "icpx list" where
  "sub_2 = [
     (361, 2754), (83, -1), (59, 0), (27, 5), (-15, 6), (-84, 10),
     (-241, 24), (-967, 93), (1381, -133), (530, -54), (362, -44), (288, -41),
     (240, -40), (199, -34), (134, 5), (-1573, 1931), (323, -298), (256, -280),
     (228, -335), (206, -447), (175, -663), (112, -1180), (-200, -3517), (1071, 5613),
     (580, 1850), (536, 1240), (570, 1026), (669, 959), (895, 1014), (1552, 1327),
     (13691, 7744), (-1707, -415), (-758, 109), (-477, 301), (-352, 447), (-294, 628),
     (-297, 976), (-499, 2329), (659, -3898), (149, -903), (96, -442), (96, -246),
     (122, -130), (185, -38), (369, 81), (2690, 973), (-643, -208), (-331, -57),
     (-250, 11), (-228, 72), (-242, 143), (-310, 265), (-638, 674), (1352, -1590),
     (286, -329), (159, -149), (118, -64), (111, 1), (128, 76), (213, 219),
     (1136, 1397), (-386, -461), (-198, -197), (-158, -112), (-153, -62), (-173, -21),
     (-231, 28), (-467, 145), (1335, -580), (222, -102), (105, -34), (59, 11),
     (35, 55), (20, 124), (12, 282), (34, 1443), (-40, -670), (-41, -304),
     (-52, -203), (-65, -161), (-91, -138), (-138, -134), (-284, -171), (1152, 411),
     (133, 25), (40, 4), (-6, 5), (-43, 19), (-88, 42), (-180, 106),
     (-722, 538), (379, -371), (131, -180), (62, -139), (23, -130), (-7, -141),
     (-42, -181), (-109, -339), (596, 2357), (2, 238), (-59, 126), (-107, 91),
     (-171, 76), (-273, 71), (-508, 80), (-1846, 156), (1340, -36), (505, 12),
     (307, 25), (212, 33), (149, 38), (93, 47), (6, 69), (1906, -518),
     (170, 11), (96, 31), (50, 44), (0, 58), (-68, 81), (-211, 129),
     (-918, 376), (1013, -307), (408, -96), (275, -51), (214, -31), (176, -19),
     (148, -13), (124, -8)]"

definition sub_3 :: "icpx list" where
  "sub_3 = [
     (-355, 2511), (106, 10), (87, 3), (64, -8), (33, -20), (-20, -41),
     (-135, -90), (-669, -306), (1056, 382), (431, 128), (310, 74), (255, 48),
     (219, 32), (183, 17), (112, 20), (-2271, 955), (413, -167), (346, -186),
     (340, -254), (361, -372), (414, -599), (546, -1123), (1123, -3510), (-1074, 5819),
     (-134, 1979), (54, 1370), (166, 1167), (286, 1128), (478, 1242), (989, 1735),
     (10094, 11431), (-1446, -891), (-739, -115), (-540, 150), (-470, 322), (-472, 508),
     (-581, 830), (-1173, 2030), (1780, -3421), (403, -784), (216, -374), (159, -192),
     (148, -76), (179, 28), (319, 188), (2265, 1657), (-558, -360), (-307, -133),
     (-252, -46), (-248, 14), (-282, 76), (-386, 169), (-826, 457), (1780, -1077),
     (369, -210), (192, -79), (128, -9), (98, 50), (95, 128), (134, 296),
     (686, 1744), (-249, -563), (-145, -242), (-131, -148), (-143, -97), (-174, -62),
     (-249, -31), (-524, 12), (1523, -150), (250, -21), (109, 12), (51, 42),
     (12, 78), (-23, 142), (-72, 296), (-343, 1466), (113, -670), (19, -303),
     (-20, -208), (-51, -169), (-85, -155), (-142, -166), (-312, -254), (1273, 846),
     (142, 97), (30, 45), (-25, 34), (-78, 39), (-148, 61), (-292, 120),
     (-1180, 547), (638, -360), (236, -172), (127, -135), (66, -131), (24, -147),
     (-23, -195), (-104, -382), (784, 2722), (32, 280), (-43, 148), (-101, 104),
     (-174, 83), (-293, 72), (-564, 70), (-2107, 102), (1570, 10), (605, 30),
     (381, 34), (277, 37), (210, 40), (161, 47), (100, 68), (1008, -666),
     (150, -16), (100, 1), (62, 5), (20, 3), (-43, -2), (-176, -15),
     (-830, -91), (960, 120), (399, 54), (278, 40), (220, 34), (185, 27),
     (161, 22), (141, 18)]"

definition part :: "nat \<Rightarrow> icpx list" where
  "part q = (case dec4 in_pairs of (a, b, c, d) \<Rightarrow> [a, b, c, d] ! q)"

lemma sub_0_run: "ifft (stages (halve (halve tw_pairs)) 3) (part 0) = sub_0"
  by code_simp

lemma sub_1_run: "ifft (stages (halve (halve tw_pairs)) 3) (part 1) = sub_1"
  by code_simp

lemma sub_2_run: "ifft (stages (halve (halve tw_pairs)) 3) (part 2) = sub_2"
  by code_simp

lemma sub_3_run: "ifft (stages (halve (halve tw_pairs)) 3) (part 3) = sub_3"
  by code_simp

lemma final_run: "istage (stage_tw 128 tw_pairs) sub_0 sub_1 sub_2 sub_3 = gold_pairs"
  by code_simp

lemma ifft_run: "ifft (stages tw_pairs 4) in_pairs = gold_pairs"
proof -
  have four: "stages tw_pairs 4 = stage_tw 128 tw_pairs # stages (halve (halve tw_pairs)) 3"
    using stages.simps(2) [of tw_pairs 3] by simp
  have "ifft (stages tw_pairs 4) in_pairs = istage (stage_tw 128 tw_pairs)
      (ifft (stages (halve (halve tw_pairs)) 3) (part 0)) (ifft (stages (halve (halve tw_pairs)) 3) (part 1))
      (ifft (stages (halve (halve tw_pairs)) 3) (part 2)) (ifft (stages (halve (halve tw_pairs)) 3) (part 3))"
    unfolding four by (simp add: part_def split: prod.split)
  also have "\<dots> = gold_pairs"
    unfolding sub_0_run sub_1_run sub_2_run sub_3_run by (rule final_run)
  finally show ?thesis .
qed

end
