(* ===== verification/DFT.thy ===== *)
theory DFT
  imports KissFFT
begin

text \<open>
  What the recursion of \<open>kf_work\<close> means. Over exact complex arithmetic, with the twiddles equal to
  the roots of unity and the same scaling (a half per radix-2 step, a quarter per radix-4 column),
  the decimation-in-time recursion \<open>fft_spec\<close> is the discrete Fourier transform divided by its
  length. The indexing of the recursion and of the butterflies is the part of the code this checks:
  which sample goes where, which twiddle multiplies it, which sign each term has.
\<close>

section \<open>Roots of unity\<close>

definition root_of :: "nat \<Rightarrow> nat \<Rightarrow> complex" where
  "root_of n t = cis (- (2 * pi * real t / real n))"

lemma root_of_add: "root_of n (a + b) = root_of n a * root_of n b"
  by (simp add: root_of_def cis_mult distrib_left add_divide_distrib)

lemma root_of_scale: "0 < c \<Longrightarrow> root_of (n * c) (t * c) = root_of n t"
  by (simp add: root_of_def mult.assoc)

lemma root_of_full: "0 < n \<Longrightarrow> root_of n (n * t) = 1"
proof -
  assume "0 < n"
  then have "root_of n (n * t) = cis (- (2 * pi * real t))" by (simp add: root_of_def mult.assoc)
  also have "\<dots> = 1" by (simp flip: cis_cnj add: cis_multiple_2pi)
  finally show ?thesis .
qed

lemma root_of_4: "root_of 4 0 = 1" "root_of 4 1 = - \<i>" "root_of 4 2 = -1" "root_of 4 3 = \<i>"
proof -
  show z: "root_of 4 0 = 1" by (simp add: root_of_def)
  show o: "root_of 4 1 = - \<i>"
    by (simp add: root_of_def complex_eq_iff)
  have "root_of 4 2 = root_of 4 1 * root_of 4 1" using root_of_add [of 4 1 1] by (simp del: One_nat_def)
  then show w: "root_of 4 2 = -1" unfolding o by simp
  have "root_of 4 3 = root_of 4 2 * root_of 4 1" using root_of_add [of 4 2 1] by (simp del: One_nat_def)
  then show "root_of 4 3 = \<i>" unfolding o w by simp
qed

section \<open>Exact butterflies\<close>

definition exact2 :: "complex \<Rightarrow> complex \<Rightarrow> complex list" where
  "exact2 a b = [(a + b) / 2, (a - b) / 2]"

text \<open>The column \<open>k\<close> of the stage with stride \<open>fs\<close> of a transform of length \<open>n\<close>.\<close>

definition exact4 ::
  "nat \<Rightarrow> nat \<Rightarrow> nat \<Rightarrow> complex \<Rightarrow> complex \<Rightarrow> complex \<Rightarrow> complex \<Rightarrow> complex list" where
  "exact4 n fs k x0 x1 x2 x3 =
     (let t0 = x0 / 4; t1 = x1 / 4 * root_of n (k * fs); t2 = x2 / 4 * root_of n (2 * k * fs);
          t3 = x3 / 4 * root_of n (3 * k * fs)
      in [t0 + t1 + t2 + t3, t0 + (- \<i>) * t1 - t2 - (- \<i>) * t3, t0 - t1 + t2 - t3,
          t0 - (- \<i>) * t1 - t2 + (- \<i>) * t3])"

definition dft :: "nat \<Rightarrow> (nat \<Rightarrow> complex) \<Rightarrow> nat \<Rightarrow> complex" where
  "dft n x k = (\<Sum>j<n. x j * root_of n (j * k))"

lemma sum_mod_4:
  fixes f :: "nat \<Rightarrow> 'a::comm_monoid_add"
  shows "(\<Sum>j<4 * m. f j) = (\<Sum>j<m. f (4 * j)) + (\<Sum>j<m. f (4 * j + 1)) + (\<Sum>j<m. f (4 * j + 2)) + (\<Sum>j<m. f (4 * j + 3))"
  by (induction m) (simp_all add: numeral_eq_Suc ac_simps)

lemma dft_decimate:
  assumes "0 < m" "q < 4"
  shows "dft (4 * m) x (q * m + k) =
    (\<Sum>r<4. root_of 4 (r * q) * (root_of (4 * m) (r * k) * dft m (\<lambda>j. x (4 * j + r)) k))"
proof -
  have tm: "x (4 * j + r) * root_of (4 * m) ((4 * j + r) * (q * m + k))
      = root_of 4 (r * q) * (root_of (4 * m) (r * k) * (x (4 * j + r) * root_of m (j * k)))" for j r
  proof -
    have "(4 * j + r) * (q * m + k) = (4 * m) * (j * q) + ((r * q) * m + (r * k + (j * k) * 4))"
      by (simp add: algebra_simps)
    moreover have "root_of (4 * m) ((r * q) * m) = root_of 4 (r * q)"
      using root_of_scale [of m 4 "r * q"] assms(1) by simp
    moreover have "root_of (4 * m) ((j * k) * 4) = root_of m (j * k)"
      using root_of_scale [of 4 m "j * k"] by (simp add: mult.commute)
    ultimately show ?thesis
      using root_of_full [of "4 * m" "j * q"] assms(1) by (simp only: root_of_add) simp
  qed
  have part: "(\<Sum>j<m. x (4 * j + r) * root_of (4 * m) ((4 * j + r) * (q * m + k)))
      = root_of 4 (r * q) * (root_of (4 * m) (r * k) * dft m (\<lambda>j. x (4 * j + r)) k)" for r
    unfolding tm dft_def by (simp add: sum_distrib_left)
  have "{..<4 :: nat} = {0, 1, 2, 3}" by auto
  then show ?thesis
    using part [of 0] part [of 1] part [of 2] part [of 3]
    unfolding dft_def sum_mod_4 [where f = "\<lambda>j. x j * root_of (4 * m) (j * (q * m + k))"]
    by (simp add: add.assoc)
qed

lemma exact4_dft:
  assumes m: "0 < m" and fs: "0 < fs" and q: "q < 4"
    and y: "\<And>r. r < 4 \<Longrightarrow> y r = dft m (\<lambda>j. x (4 * j + r)) k / of_nat m"
  shows "exact4 (4 * m * fs) fs k (y 0) (y 1) (y 2) (y 3) ! q = dft (4 * m) x (q * m + k) / of_nat (4 * m)"
proof -
  have w: "root_of (4 * m * fs) (c * k * fs) = root_of (4 * m) (c * k)" for c
    using root_of_scale [OF fs, of "4 * m" "c * k"] by simp
  have y4: "y r / 4 = dft m (\<lambda>j. x (4 * j + r)) k / of_nat (4 * m)" if "r < 4" for r
    using y [OF that] by simp
  have root1: "root_of n 0 = 1" for n by (simp add: root_of_def)
  have set4: "{..<4 :: nat} = {0, 1, 2, 3}" by auto
  have big: "root_of 4 4 = 1" "root_of 4 6 = -1" "root_of 4 9 = - \<i>"
    using root_of_add [of 4 4 2] root_of_add [of 4 8 1] root_of_full [of 4 1] root_of_full [of 4 2]
    by (simp_all add: root_of_4 del: One_nat_def)
  from q consider "q = 0" | "q = 1" | "q = 2" | "q = 3" by linarith
  then show ?thesis
    unfolding dft_decimate [OF m q]
    using w [of 1] w [of 2] w [of 3] y4 [of 0] y4 [of 1] y4 [of 2] y4 [of 3]
    by cases (simp_all add: exact4_def Let_def set4 root_of_4 root1 big add_divide_distrib diff_divide_distrib
        algebra_simps del: One_nat_def)
qed


definition fft_exact :: "nat \<Rightarrow> nat \<Rightarrow> nat \<Rightarrow> (nat \<Rightarrow> complex) \<Rightarrow> complex list" where
  "fft_exact n = fft_spec exact2 (exact4 n)"

lemma fft_exact_dft:
  assumes "0 < fs" "n = 2 * 4 ^ d * fs"
  shows "fft_exact n d fs x = map (\<lambda>k. dft (2 * 4 ^ d) (\<lambda>j. x (j * fs)) k / of_nat (2 * 4 ^ d)) [0..<2 * 4 ^ d]"
  using assms
proof (induction d arbitrary: fs x)
  case 0
  have "root_of 2 1 = -1" by (simp add: root_of_def complex_eq_iff)
  moreover have "root_of 2 0 = 1" by (simp add: root_of_def)
  ultimately show ?case
    by (simp add: fft_exact_def exact2_def dft_def numeral_2_eq_2 add_divide_distrib diff_divide_distrib)
next
  case (Suc d)
  define m where "m = 2 * (4 :: nat) ^ d"
  define Y where "Y q = fft_exact n d (fs * 4) (\<lambda>j. x (q * fs + j))" for q
  have m: "0 < m" by (simp add: m_def)
  have Y: "Y q ! k = dft m (\<lambda>j. x ((4 * j + q) * fs)) k / of_nat m" if "k < m" for q k
    using Suc.IH [of "fs * 4" "\<lambda>j. x (q * fs + j)"] Suc.prems that
    by (simp add: Y_def m_def algebra_simps)
  have n: "n = 4 * m * fs" using Suc.prems(2) by (simp add: m_def)
  have col: "exact4 n fs (k mod m) (Y 0 ! (k mod m)) (Y 1 ! (k mod m)) (Y 2 ! (k mod m)) (Y 3 ! (k mod m)) ! (k div m)
      = dft (4 * m) (\<lambda>j. x (j * fs)) k / of_nat (4 * m)" if "k < 4 * m" for k
  proof -
    have "k div m < 4" using that m by (simp add: div_less_iff_less_mult)
    moreover have "k mod m < m" using m by simp
    ultimately show ?thesis
      unfolding n using exact4_dft [OF m Suc.prems(1), of "k div m" "\<lambda>q. Y q ! (k mod m)" "\<lambda>j. x (j * fs)" "k mod m"] Y
      by simp
  qed
  have "fft_exact n (Suc d) fs x = map (\<lambda>k. exact4 n fs (k mod m) (Y 0 ! (k mod m)) (Y 1 ! (k mod m))
      (Y 2 ! (k mod m)) (Y 3 ! (k mod m)) ! (k div m)) [0..<4 * m]"
    by (simp add: fft_exact_def Let_def m_def Y_def)
  also have "\<dots> = map (\<lambda>k. dft (4 * m) (\<lambda>j. x (j * fs)) k / of_nat (4 * m)) [0..<4 * m]"
    by (rule map_cong) (use col in auto)
  finally show ?case by (simp add: m_def)
qed

end
