(* ===== verification/ErrorBound.thy ===== *)
theory ErrorBound
  imports FFTEval DFT
begin

text \<open>
  How far the fixed-point transform is from the exact one. Samples are read as complex numbers;
  every operation of the coprocessor is an exact operation plus a rounding error of at most \<open>3/4\<close>,
  as long as no register wraps around. For samples of magnitude at most \<open>32700\<close> nothing wraps in
  the radix-2 step nor in any of up to four radix-4 stages, and the errors add up to at most \<open>11\<close>
  units per radix-4 stage.
\<close>

section \<open>Samples as complex numbers\<close>

definition smp :: "cpx \<Rightarrow> complex" where
  "smp z = Complex (of_int (sint (re z))) (of_int (sint (im z)))"

lemma Re_smp [simp]: "Re (smp z) = of_int (sint (re z))"
  and Im_smp [simp]: "Im (smp z) = of_int (sint (im z))"
  by (simp_all add: smp_def)

lemma sint_le_smp: "real_of_int \<bar>sint (re z)\<bar> \<le> cmod (smp z)" "real_of_int \<bar>sint (im z)\<bar> \<le> cmod (smp z)"
  using abs_Re_le_cmod [of "smp z"] abs_Im_le_cmod [of "smp z"] by simp_all

lemma smp_add:
  assumes "\<bar>sint (re z) + sint (re w)\<bar> \<le> 32767" "\<bar>sint (im z) + sint (im w)\<bar> \<le> 32767"
  shows "smp (z + w) = smp z + smp w"
  using assms by (simp add: complex_eq_iff plus_cpx_def sint16_add wrap16_id)

section \<open>Rounding\<close>

lemma div_round: "\<bar>real_of_int ((x + 16384) div 32768) - real_of_int x / 32768\<bar> \<le> 1 / 2"
proof -
  have "32768 * ((x + 16384) div 32768) \<le> x + 16384" "x + 16384 < 32768 * ((x + 16384) div 32768) + 32768"
    by linarith+
  then have "32768 * real_of_int ((x + 16384) div 32768) \<le> real_of_int x + 16384"
    "real_of_int x + 16384 < 32768 * real_of_int ((x + 16384) div 32768) + 32768"
    by linarith+
  then show ?thesis by (simp add: abs_le_iff field_simps)
qed

lemma cmod_three_quarters:
  assumes "\<bar>Re z\<bar> \<le> 1 / 2" "\<bar>Im z\<bar> \<le> 1 / 2"
  shows "cmod z \<le> 3 / 4"
proof -
  have "(Re z)\<^sup>2 \<le> (1 / 2)\<^sup>2" "(Im z)\<^sup>2 \<le> (1 / 2)\<^sup>2"
    using assms by (metis abs_le_square_iff abs_of_nonneg zero_le_divide_1_iff zero_le_numeral)+
  then have "(Re z)\<^sup>2 + (Im z)\<^sup>2 \<le> (3 / 4)\<^sup>2" by (simp add: power2_eq_square)
  then show ?thesis unfolding cmod_def by (intro real_le_lsqrt) auto
qed

lemma quarter_err: "cmod (smp (quarter z) - of_real (8191 / 32768) * smp z) \<le> 3 / 4"
proof (rule cmod_three_quarters)
  show "\<bar>Re (smp (quarter z) - of_real (8191 / 32768) * smp z)\<bar> \<le> 1 / 2"
    using div_round [of "sint (re z) * 8191"] by (simp add: quarter_def sint_round4 mult.commute)
  show "\<bar>Im (smp (quarter z) - of_real (8191 / 32768) * smp z)\<bar> \<le> 1 / 2"
    using div_round [of "sint (im z) * 8191"] by (simp add: quarter_def sint_round4 mult.commute)
qed

lemma half_err: "cmod (smp (half z) - of_real (16383 / 32768) * smp z) \<le> 3 / 4"
proof (rule cmod_three_quarters)
  show "\<bar>Re (smp (half z) - of_real (16383 / 32768) * smp z)\<bar> \<le> 1 / 2"
    using div_round [of "sint (re z) * 16383"] by (simp add: half_def sint_round2 mult.commute)
  show "\<bar>Im (smp (half z) - of_real (16383 / 32768) * smp z)\<bar> \<le> 1 / 2"
    using div_round [of "sint (im z) * 16383"] by (simp add: half_def sint_round2 mult.commute)
qed

lemma q15_exact:
  assumes "\<bar>p\<bar> \<le> 300000000"
  shows "clip16 (wrap32 (wrap32 p + 16384) div 32768) = (p + 16384) div 32768"
proof -
  have "wrap32 p = p" "wrap32 (p + 16384) = p + 16384" using assms by (simp_all add: wrap32_id)
  moreover have "-32767 \<le> (p + 16384) div 32768" "(p + 16384) div 32768 \<le> 32767"
    using assms by linarith+
  ultimately show ?thesis by (simp add: clip16_def)
qed

lemma cmulq_err:
  assumes z: "cmod (smp z) \<le> 9000" and w: "cmod (smp w) \<le> 32768"
  shows "cmod (smp (cmulq z w) - smp z * smp w / 32768) \<le> 3 / 4"
proof -
  have "cmod (smp z * smp w) \<le> 9000 * 32768"
    unfolding norm_mult by (intro mult_mono z w) auto
  then have big: "\<bar>Re (smp z * smp w)\<bar> \<le> 9000 * 32768" "\<bar>Im (smp z * smp w)\<bar> \<le> 9000 * 32768"
    using abs_Re_le_cmod [of "smp z * smp w"] abs_Im_le_cmod [of "smp z * smp w"] by linarith+
  have r: "\<bar>sint (re z) * sint (re w) - sint (im z) * sint (im w)\<bar> \<le> 300000000"
    and i: "\<bar>sint (re z) * sint (im w) + sint (im z) * sint (re w)\<bar> \<le> 300000000"
  proof -
    have "real_of_int \<bar>sint (re z) * sint (re w) - sint (im z) * sint (im w)\<bar> \<le> 9000 * 32768"
      "real_of_int \<bar>sint (re z) * sint (im w) + sint (im z) * sint (re w)\<bar> \<le> 9000 * 32768"
      using big by simp_all
    then show "\<bar>sint (re z) * sint (re w) - sint (im z) * sint (im w)\<bar> \<le> 300000000"
      "\<bar>sint (re z) * sint (im w) + sint (im z) * sint (re w)\<bar> \<le> 300000000"
      by linarith+
  qed
  show ?thesis
    by (rule cmod_three_quarters)
      (use div_round [of "sint (re z) * sint (re w) - sint (im z) * sint (im w)"]
        div_round [of "sint (re z) * sint (im w) + sint (im z) * sint (re w)"] in
        \<open>simp_all add: cmulq_def sint_q15_mul_r sint_q15_mul_i q15_exact [OF r] q15_exact [OF i]
          Re_divide_numeral Im_divide_numeral del: wrap32_id\<close>)
qed

section \<open>Butterflies that do not wrap\<close>

lemma smp_bfly4:
  assumes "cmod (smp t0) + cmod (smp t1) + cmod (smp t2) + cmod (smp t3) \<le> 32767"
  shows "map smp (bfly4 t0 t1 t2 t3) =
    [smp t0 + smp t1 + smp t2 + smp t3, smp t0 + (- \<i>) * smp t1 - smp t2 - (- \<i>) * smp t3,
     smp t0 - smp t1 + smp t2 - smp t3, smp t0 - (- \<i>) * smp t1 - smp t2 + (- \<i>) * smp t3]"
proof -
  have bound: "\<bar>a\<bar> + \<bar>b\<bar> + \<bar>c\<bar> + \<bar>d\<bar> \<le> 32767"
    if "real_of_int \<bar>a\<bar> \<le> cmod (smp t0)" "real_of_int \<bar>b\<bar> \<le> cmod (smp t1)"
      "real_of_int \<bar>c\<bar> \<le> cmod (smp t2)" "real_of_int \<bar>d\<bar> \<le> cmod (smp t3)" for a b c d
    using that assms by linarith
  note same = fourfold_exact [OF bound [OF sint_le_smp(1) sint_le_smp(1) sint_le_smp(1) sint_le_smp(1)]]
    fourfold_exact [OF bound [OF sint_le_smp(2) sint_le_smp(2) sint_le_smp(2) sint_le_smp(2)]]
    fourfold_exact [OF bound [OF sint_le_smp(1) sint_le_smp(2) sint_le_smp(1) sint_le_smp(2)]]
    fourfold_exact [OF bound [OF sint_le_smp(2) sint_le_smp(1) sint_le_smp(2) sint_le_smp(1)]]
  show ?thesis
    by (simp add: bfly4_def complex_eq_iff rotn_def plus_cpx_def minus_cpx_def same)
qed

lemma cmod_col:
  fixes a b c d :: complex
  shows "cmod (a + b + c + d) \<le> cmod a + cmod b + cmod c + cmod d"
    "cmod (a + (- \<i>) * b - c - (- \<i>) * d) \<le> cmod a + cmod b + cmod c + cmod d"
    "cmod (a - b + c - d) \<le> cmod a + cmod b + cmod c + cmod d"
    "cmod (a - (- \<i>) * b - c + (- \<i>) * d) \<le> cmod a + cmod b + cmod c + cmod d"
proof -
  have t: "cmod (x + y + z + w) \<le> cmod x + cmod y + cmod z + cmod w" for x y z w
    using norm_triangle_ineq [of "x + y + z" w] norm_triangle_ineq [of "x + y" z] norm_triangle_ineq [of x y]
    by linarith
  show "cmod (a + b + c + d) \<le> cmod a + cmod b + cmod c + cmod d" by (rule t)
  show "cmod (a + (- \<i>) * b - c - (- \<i>) * d) \<le> cmod a + cmod b + cmod c + cmod d"
    using t [of a "(- \<i>) * b" "- c" "\<i> * d"] by (simp add: norm_mult)
  show "cmod (a - b + c - d) \<le> cmod a + cmod b + cmod c + cmod d"
    using t [of a "- b" c "- d"] by simp
  show "cmod (a - (- \<i>) * b - c + (- \<i>) * d) \<le> cmod a + cmod b + cmod c + cmod d"
    using t [of a "\<i> * b" "- c" "(- \<i>) * d"] by (simp add: norm_mult)
qed

text \<open>
  One column: the computed samples are \<open>y r\<close>, the exact ones \<open>x r\<close>, the exact operands of the
  butterfly after the twiddle multiplication \<open>u r\<close>.
\<close>

lemma quarter_col:
  assumes "cmod (smp y) \<le> 32740" "cmod (smp y - x) \<le> E"
  shows "cmod (smp (quarter y)) \<le> cmod (smp y) / 4 + 3 / 4" "cmod (smp (quarter y) - x / 4) \<le> E / 4 + 7 / 4"
proof -
  have "cmod (smp (quarter y)) \<le> cmod (of_real (8191 / 32768) * smp y) + 3 / 4"
    using quarter_err [of y] norm_triangle_ineq2 [of "smp (quarter y)" "of_real (8191 / 32768) * smp y"] by linarith
  also have "cmod (of_real (8191 / 32768) * smp y) \<le> cmod (smp y) / 4" by (simp add: norm_mult)
  finally show "cmod (smp (quarter y)) \<le> cmod (smp y) / 4 + 3 / 4" by simp
  have e: "smp (quarter y) - x / 4 = (smp (quarter y) - of_real (8191 / 32768) * smp y)
      + of_real (- 1 / 32768) * smp y + (smp y - x) / 4"
    by (simp add: field_simps)
  have "cmod (of_real (- 1 / 32768) * smp y) \<le> 1" using assms(1) by (simp add: norm_mult)
  moreover have "cmod ((smp y - x) / 4) \<le> E / 4" using assms(2) by (simp add: norm_divide)
  ultimately show "cmod (smp (quarter y) - x / 4) \<le> E / 4 + 7 / 4"
    unfolding e using quarter_err [of y]
      norm_triangle_ineq [of "smp (quarter y) - of_real (8191 / 32768) * smp y + of_real (- 1 / 32768) * smp y" "(smp y - x) / 4"]
      norm_triangle_ineq [of "smp (quarter y) - of_real (8191 / 32768) * smp y" "of_real (- 1 / 32768) * smp y"]
    by linarith
qed

lemma twiddle_col:
  assumes y: "cmod (smp y) \<le> 32740" "cmod (smp y - x) \<le> E"
    and w: "cmod (smp w) \<le> 32768" "cmod (smp w - 32768 * r) \<le> 2" "cmod r = 1"
  shows "cmod (smp (cmulq (quarter y) w)) \<le> cmod (smp y) / 4 + 3 / 2"
    "cmod (smp (cmulq (quarter y) w) - x / 4 * r) \<le> E / 4 + 3"
proof -
  let ?q = "quarter y"
  have q: "cmod (smp ?q) \<le> cmod (smp y) / 4 + 3 / 4" "cmod (smp ?q - x / 4) \<le> E / 4 + 7 / 4"
    using quarter_col [OF y] by blast+
  have q9: "cmod (smp ?q) \<le> 8190" using q(1) y(1) by linarith
  have m: "cmod (smp (cmulq ?q w) - smp ?q * smp w / 32768) \<le> 3 / 4"
    by (rule cmulq_err) (use q9 w(1) in auto)
  have "cmod (smp ?q * smp w / 32768) \<le> cmod (smp ?q)"
    using w(1) mult_left_mono [OF w(1), of "cmod (smp ?q)"] by (simp add: norm_mult norm_divide)
  then show "cmod (smp (cmulq ?q w)) \<le> cmod (smp y) / 4 + 3 / 2"
    using m q(1) norm_triangle_ineq2 [of "smp (cmulq ?q w)" "smp ?q * smp w / 32768"] by linarith
  have e: "smp (cmulq ?q w) - x / 4 * r = (smp (cmulq ?q w) - smp ?q * smp w / 32768)
      + smp ?q * (smp w - 32768 * r) / 32768 + (smp ?q - x / 4) * r"
    by (simp add: field_simps)
  have "cmod (smp ?q * (smp w - 32768 * r)) \<le> 8192 * 2"
    unfolding norm_mult by (intro mult_mono) (use q9 w(2) in auto)
  then have "cmod (smp ?q * (smp w - 32768 * r) / 32768) \<le> 1 / 2" by (simp add: norm_divide)
  moreover have "cmod ((smp ?q - x / 4) * r) \<le> E / 4 + 7 / 4" using q(2) w(3) by (simp add: norm_mult)
  ultimately show "cmod (smp (cmulq ?q w) - x / 4 * r) \<le> E / 4 + 3"
    unfolding e using m norm_triangle_ineq [of "smp (cmulq ?q w) - smp ?q * smp w / 32768
        + smp ?q * (smp w - 32768 * r) / 32768" "(smp ?q - x / 4) * r"]
      norm_triangle_ineq [of "smp (cmulq ?q w) - smp ?q * smp w / 32768" "smp ?q * (smp w - 32768 * r) / 32768"]
    by linarith
qed

lemma four_cases: "q < (4 :: nat) \<Longrightarrow> q = 0 \<or> q = 1 \<or> q = 2 \<or> q = 3"
  by linarith

lemma bfly_err:
  assumes b: "cmod (smp t0) \<le> b" "cmod (smp t1) \<le> b" "cmod (smp t2) \<le> b" "cmod (smp t3) \<le> b" "4 * b \<le> 32767"
    and e: "cmod (smp t0 - s0) \<le> e0" "cmod (smp t1 - s1) \<le> e" "cmod (smp t2 - s2) \<le> e" "cmod (smp t3 - s3) \<le> e"
    and q: "q < 4"
  shows "cmod (smp (bfly4 t0 t1 t2 t3 ! q)) \<le> 4 * b"
    "cmod (smp (bfly4 t0 t1 t2 t3 ! q) - [s0 + s1 + s2 + s3, s0 + (- \<i>) * s1 - s2 - (- \<i>) * s3,
       s0 - s1 + s2 - s3, s0 - (- \<i>) * s1 - s2 + (- \<i>) * s3] ! q) \<le> e0 + 3 * e"
proof -
  have "map smp (bfly4 t0 t1 t2 t3) ! q = smp (bfly4 t0 t1 t2 t3 ! q)" using q by simp
  then have out: "smp (bfly4 t0 t1 t2 t3 ! q) =
    [smp t0 + smp t1 + smp t2 + smp t3, smp t0 + (- \<i>) * smp t1 - smp t2 - (- \<i>) * smp t3,
     smp t0 - smp t1 + smp t2 - smp t3, smp t0 - (- \<i>) * smp t1 - smp t2 + (- \<i>) * smp t3] ! q"
    using smp_bfly4 [of t0 t1 t2 t3] b by simp
  note size = cmod_col [of "smp t0" "smp t1" "smp t2" "smp t3"]
  note err = cmod_col [of "smp t0 - s0" "smp t1 - s1" "smp t2 - s2" "smp t3 - s3"]
  show "cmod (smp (bfly4 t0 t1 t2 t3 ! q)) \<le> 4 * b"
    unfolding out using four_cases [OF q] size b by auto
  have d: "(a + b + c + d) - (a' + b' + c' + d') = (a - a') + (b - b') + (c - c') + (d - d')"
    "(a + (- \<i>) * b - c - (- \<i>) * d) - (a' + (- \<i>) * b' - c' - (- \<i>) * d')
      = (a - a') + (- \<i>) * (b - b') - (c - c') - (- \<i>) * (d - d')"
    "(a - b + c - d) - (a' - b' + c' - d') = (a - a') - (b - b') + (c - c') - (d - d')"
    "(a - (- \<i>) * b - c + (- \<i>) * d) - (a' - (- \<i>) * b' - c' + (- \<i>) * d')
      = (a - a') - (- \<i>) * (b - b') - (c - c') + (- \<i>) * (d - d')" for a b c d a' b' c' d' :: complex
    by (simp_all add: algebra_simps)
  show "cmod (smp (bfly4 t0 t1 t2 t3 ! q) - [s0 + s1 + s2 + s3, s0 + (- \<i>) * s1 - s2 - (- \<i>) * s3,
       s0 - s1 + s2 - s3, s0 - (- \<i>) * s1 - s2 + (- \<i>) * s3] ! q) \<le> e0 + 3 * e"
    unfolding out using four_cases [OF q] err e
    by (elim disjE) (simp only: One_nat_def numeral_2_eq_2 numeral_3_eq_3 nth_Cons_0 nth_Cons_Suc d; linarith)+
qed

section \<open>All stages\<close>

text \<open>
  The error of a transform of \<open>2 * 4^d\<close> points, \<open>d \<le> 4\<close>, whose twiddles are within \<open>2\<close> units
  of \<open>32768\<close> times the roots of unity.
\<close>

definition twiddles_ok :: "nat \<Rightarrow> kiss_fft_state \<Rightarrow> bool" where
  "twiddles_ok n st \<longleftrightarrow> (\<forall>k < n. cmod (smp (unpack (twiddles st ! k))) \<le> 32768
     \<and> cmod (smp (unpack (twiddles st ! k)) - 32768 * root_of n k) \<le> 2)"

lemma cmod_root_of [simp]: "cmod (root_of n k) = 1"
  by (simp add: root_of_def)

lemma radix2_err:
  assumes x: "cmod (smp x) \<le> 32700" "cmod (smp y) \<le> 32700" and q: "q < 2"
  shows "cmod (smp (bfly2 x y ! q)) \<le> 32702" "cmod (smp (bfly2 x y ! q) - exact2 (smp x) (smp y) ! q) \<le> 7 / 2"
proof -
  have half: "cmod (smp (half z)) \<le> 16351" "cmod (smp (half z) - smp z / 2) \<le> 7 / 4" if "cmod (smp z) \<le> 32700" for z
  proof -
    have "cmod (of_real (16383 / 32768) * smp z) \<le> 16350" using that by (simp add: norm_mult)
    then show "cmod (smp (half z)) \<le> 16351"
      using half_err [of z] norm_triangle_ineq2 [of "smp (half z)" "of_real (16383 / 32768) * smp z"] by linarith
    have e: "smp (half z) - smp z / 2 = (smp (half z) - of_real (16383 / 32768) * smp z) + of_real (- 1 / 32768) * smp z"
      by (simp add: field_simps)
    have "cmod (of_real (- 1 / 32768) * smp z) \<le> 1" using that by (simp add: norm_mult)
    then show "cmod (smp (half z) - smp z / 2) \<le> 7 / 4"
      unfolding e using half_err [of z]
        norm_triangle_ineq [of "smp (half z) - of_real (16383 / 32768) * smp z" "of_real (- 1 / 32768) * smp z"]
      by linarith
  qed
  note hx = half [OF x(1)] and hy = half [OF x(2)]
  have out: "smp (bfly2 x y ! q) = [smp (half x) + smp (half y), smp (half x) - smp (half y)] ! q"
    using q by (auto simp: bfly2_def less_2_cases_iff complex_eq_iff plus_cpx_def minus_cpx_def half_def
        radix2_exact simp del: of_int_sint)
  show "cmod (smp (bfly2 x y ! q)) \<le> 32702"
    using q hx(1) hy(1) norm_triangle_ineq [of "smp (half x)" "smp (half y)"]
      norm_triangle_ineq4 [of "smp (half x)" "smp (half y)"]
    unfolding out less_2_cases_iff by auto
  have d: "smp (half x) + smp (half y) - (smp x + smp y) / 2 = (smp (half x) - smp x / 2) + (smp (half y) - smp y / 2)"
    "smp (half x) - smp (half y) - (smp x - smp y) / 2 = (smp (half x) - smp x / 2) - (smp (half y) - smp y / 2)"
    by (simp_all add: field_simps)
  show "cmod (smp (bfly2 x y ! q) - exact2 (smp x) (smp y) ! q) \<le> 7 / 2"
    using q hx(2) hy(2) norm_triangle_ineq [of "smp (half x) - smp x / 2" "smp (half y) - smp y / 2"]
      norm_triangle_ineq4 [of "smp (half x) - smp x / 2" "smp (half y) - smp y / 2"]
    unfolding out exact2_def less_2_cases_iff by (auto simp: d)
qed

lemma r4_col_err:
  fixes y :: "nat \<Rightarrow> cpx" and x :: "nat \<Rightarrow> complex"
  assumes y: "\<And>r. r < 4 \<Longrightarrow> cmod (smp (y r)) \<le> B \<and> cmod (smp (y r) - x r) \<le> E" and B: "B \<le> 32740"
    and tw: "twiddles_ok n st" and k: "3 * k * fs < n" and q: "q < 4"
  shows "cmod (smp (r4_col (tw_at st fs) k (y 0) (y 1) (y 2) (y 3) ! q)) \<le> B + 6"
    "cmod (smp (r4_col (tw_at st fs) k (y 0) (y 1) (y 2) (y 3) ! q) - exact4 n fs k (x 0) (x 1) (x 2) (x 3) ! q)
       \<le> E + 43 / 4"
proof -
  define t where "t r = (if r = 0 \<or> k = 0 then quarter (y r) else cmulq (quarter (y r)) (tw_at st fs (r * k)))" for r :: nat
  define s where "s r = (if r = 0 then x r / 4 else x r / 4 * root_of n (r * k * fs))" for r :: nat
  have root0: "root_of n 0 = 1" by (simp add: root_of_def)
  have E: "0 \<le> E" using y [of 0] norm_ge_zero [of "smp (y 0) - x 0"] by linarith
  have t: "cmod (smp (t r)) \<le> B / 4 + 3 / 2" "cmod (smp (t r) - s r) \<le> (if r = 0 then E / 4 + 7 / 4 else E / 4 + 3)"
    if r: "r < 4" for r
  proof -
    have yr: "cmod (smp (y r)) \<le> 32740" "cmod (smp (y r) - x r) \<le> E" "cmod (smp (y r)) / 4 \<le> B / 4"
      using y [OF r] B by auto
    have "r * k * fs \<le> 3 * k * fs" using r by simp
    then have "r * k * fs < n" using k by linarith
    then have w: "cmod (smp (tw_at st fs (r * k))) \<le> 32768" "cmod (smp (tw_at st fs (r * k)) - 32768 * root_of n (r * k * fs)) \<le> 2"
      using tw by (simp_all add: twiddles_ok_def tw_at_def)
    show "cmod (smp (t r)) \<le> B / 4 + 3 / 2" "cmod (smp (t r) - s r) \<le> (if r = 0 then E / 4 + 7 / 4 else E / 4 + 3)"
      using quarter_col [OF yr(1,2)] twiddle_col [OF yr(1,2) w] yr(3)
      by (auto simp: t_def s_def root0)
  qed
  have out: "r4_col (tw_at st fs) k (y 0) (y 1) (y 2) (y 3) = bfly4 (t 0) (t 1) (t 2) (t 3)"
    by (simp add: r4_col_def t_def)
  have ex: "exact4 n fs k (x 0) (x 1) (x 2) (x 3) = [s 0 + s 1 + s 2 + s 3, s 0 + (- \<i>) * s 1 - s 2 - (- \<i>) * s 3,
       s 0 - s 1 + s 2 - s 3, s 0 - (- \<i>) * s 1 - s 2 + (- \<i>) * s 3]"
    by (simp add: exact4_def s_def Let_def)
  have b4: "4 * (B / 4 + 3 / 2) \<le> 32767" using B by simp
  note err = bfly_err [OF t(1) t(1) t(1) t(1) b4, of 0 1 2 3 "s 0" "E / 4 + 7 / 4" "s 1" "E / 4 + 3" "s 2" "s 3" q]
  show "cmod (smp (r4_col (tw_at st fs) k (y 0) (y 1) (y 2) (y 3) ! q)) \<le> B + 6"
    unfolding out using err(1) t(2) [of 0] t(2) [of 1] t(2) [of 2] t(2) [of 3] q by simp
  show "cmod (smp (r4_col (tw_at st fs) k (y 0) (y 1) (y 2) (y 3) ! q) - exact4 n fs k (x 0) (x 1) (x 2) (x 3) ! q)
       \<le> E + 43 / 4"
    unfolding out ex using err(2) t(2) [of 0] t(2) [of 1] t(2) [of 2] t(2) [of 3] q by simp
qed

lemma fft_fixed_err:
  assumes "twiddles_ok n st" "n = 2 * 4 ^ d * fs" "0 < fs" "d \<le> 4" "\<And>j. j < 2 * 4 ^ d \<Longrightarrow> cmod (smp (x (j * fs))) \<le> 32700"
    and "k < 2 * 4 ^ d"
  shows "cmod (smp (fft_fixed st d fs x ! k)) \<le> 32702 + 6 * real d
    \<and> cmod (smp (fft_fixed st d fs x ! k) - fft_exact n d fs (smp \<circ> x) ! k) \<le> 7 / 2 + 43 / 4 * real d"
  using assms
proof (induction d arbitrary: fs x k)
  case 0
  then show ?case
    using radix2_err [of "x 0" "x fs" k] 0(5) [of 0] 0(5) [of 1] by (simp add: fft_fixed_def fft_exact_def)
next
  case (Suc d)
  define m where "m = 2 * (4 :: nat) ^ d"
  have m: "0 < m" by (simp add: m_def)
  define Y where "Y q = fft_fixed st d (fs * 4) (\<lambda>j. x (q * fs + j))" for q
  define X where "X q = fft_exact n d (fs * 4) (\<lambda>j. smp (x (q * fs + j)))" for q
  let ?r = "k mod m" and ?q = "k div m"
  have r: "?r < m" using m by simp
  have q: "?q < 4" using Suc.prems(6) m by (simp add: m_def div_less_iff_less_mult mult.commute)
  have sub: "cmod (smp (Y p ! ?r)) \<le> 32702 + 6 * real d \<and> cmod (smp (Y p ! ?r) - X p ! ?r) \<le> 7 / 2 + 43 / 4 * real d"
    if p: "p < 4" for p
  proof -
    have "cmod (smp (x (p * fs + j * (fs * 4)))) \<le> 32700" if "j < 2 * 4 ^ d" for j
    proof -
      have "p + 4 * j < 2 * 4 ^ Suc d" using p that by simp
      moreover have "p * fs + j * (fs * 4) = (p + 4 * j) * fs" by (simp add: algebra_simps)
      ultimately show ?thesis using Suc.prems(5) [of "p + 4 * j"] by metis
    qed
    then show ?thesis
      using Suc.IH [of "fs * 4" "\<lambda>j. x (p * fs + j)" ?r] Suc.prems r
      by (simp add: Y_def X_def m_def o_def)
  qed
  have B: "32702 + 6 * real d \<le> 32740" using Suc.prems(4) by simp
  have tw: "3 * ?r * fs < n"
  proof -
    have "3 * ?r < 4 * m" using r by linarith
    then have "3 * ?r * fs < 4 * m * fs" using Suc.prems(3) by simp
    then show ?thesis using Suc.prems(2) by (simp add: m_def)
  qed
  have k: "k < 4 * m" using Suc.prems(6) by (simp add: m_def)
  have fx: "fft_fixed st (Suc d) fs x ! k = r4_col (tw_at st fs) ?r (Y 0 ! ?r) (Y 1 ! ?r) (Y 2 ! ?r) (Y 3 ! ?r) ! ?q"
    using fft_fixed_Suc [OF m_def, of Y st fs x] k by (simp add: Y_def)
  have ex: "fft_exact n (Suc d) fs (smp \<circ> x) ! k = exact4 n fs ?r (X 0 ! ?r) (X 1 ! ?r) (X 2 ! ?r) (X 3 ! ?r) ! ?q"
    using k by (simp add: fft_exact_def Let_def m_def X_def)
  show ?case
    using r4_col_err [of "\<lambda>p. Y p ! ?r" "32702 + 6 * real d" "\<lambda>p. X p ! ?r" "7 / 2 + 43 / 4 * real d" n st ?r fs ?q] sub B
      Suc.prems(1) tw q
    unfolding fx ex by (auto simp: algebra_simps add_divide_distrib)
qed

text \<open>The error against the discrete Fourier transform itself.\<close>

lemma fft_fixed_dft:
  assumes "twiddles_ok (2 * 4 ^ d) st" "d \<le> 4" "\<And>j. j < 2 * 4 ^ d \<Longrightarrow> cmod (smp (x j)) \<le> 32700" "k < 2 * 4 ^ d"
  shows "cmod (smp (fft_fixed st d 1 x ! k) - dft (2 * 4 ^ d) (\<lambda>j. smp (x j)) k / of_nat (2 * 4 ^ d))
    \<le> 7 / 2 + 43 / 4 * real d"
  using fft_fixed_err [of "2 * 4 ^ d" st d 1 x k] fft_exact_dft [of 1 "2 * 4 ^ d" d "smp \<circ> x"] assms
  by simp

end
