(* ===== verification/Twiddles.thy ===== *)
theory Twiddles
  imports FFTRun ErrorBound
begin

text \<open>
  The twiddle table of the application against the roots of unity: every entry of \<open>g_twiddles\<close> is
  within two units of \<open>32768 * exp(-2 pi i k / 512)\<close>. The root \<open>exp(-2 pi i / 512)\<close> is enclosed by
  halving the angle \<open>pi/4\<close> six times; its powers are followed in \<open>30\<close>-bit fixed point through
  the table.
\<close>

section \<open>The first root\<close>

text \<open>Bounds of a cosine in units of \<open>1 / S\<close>, from bounds of the cosine of the double angle.\<close>

lemma cos_half_bounds:
  fixes S :: real
  assumes "0 < S" "0 \<le> x" "x \<le> pi / 2" "0 \<le> l" "0 \<le> u" "L \<le> S * cos (2 * x) \<and> S * cos (2 * x) \<le> U"
    and "2 * (l * l) \<le> (L + S) * S" "(U + S) * S \<le> 2 * (u * u)"
  shows "l \<le> S * cos x \<and> S * cos x \<le> u"
proof -
  have "0 \<le> S * cos x" using assms(1-3) by (intro mult_nonneg_nonneg cos_ge_zero) auto
  have sq: "2 * (S * cos x)\<^sup>2 = (S * cos (2 * x) + S) * S"
    unfolding cos_double_cos by (simp add: power2_eq_square algebra_simps)
  have "(L + S) * S \<le> (S * cos (2 * x) + S) * S" "(S * cos (2 * x) + S) * S \<le> (U + S) * S"
    using assms(1,6) by simp_all
  then have "l\<^sup>2 \<le> (S * cos x)\<^sup>2" "(S * cos x)\<^sup>2 \<le> u\<^sup>2"
    using assms(7,8) sq unfolding power2_eq_square by linarith+
  then show ?thesis using assms(4,5) \<open>0 \<le> S * cos x\<close> by (auto intro: power2_le_imp_le)
qed

lemma cos_pi_4: "707106781186547523 \<le> 1000000000000000000 * cos (pi / 4) \<and> 1000000000000000000 * cos (pi / 4) \<le> 707106781186547526"
proof -
  have c: "0 \<le> cos (pi / 4)" "cos (pi / 4) * cos (pi / 4) = 1 / 2" by (simp_all add: cos_45)
  have sq: "(S * cos (pi / 4))\<^sup>2 = S * S / 2" for S
  proof -
    have "(S * cos (pi / 4))\<^sup>2 = S * S * (cos (pi / 4) * cos (pi / 4))"
      by (simp only: power2_eq_square mult.assoc mult.left_commute)
    then show ?thesis unfolding c(2) by simp
  qed
  have "707106781186547523 \<le> 1000000000000000000 * cos (pi / 4)"
    by (rule power2_le_imp_le) (unfold sq, simp add: power2_eq_square, use c(1) in linarith)
  moreover have "1000000000000000000 * cos (pi / 4) \<le> 707106781186547526"
    by (rule power2_le_imp_le) (unfold sq, simp_all add: power2_eq_square)
  ultimately show ?thesis by (rule conjI)
qed

lemma cos_pi_8: "923879532511286754 \<le> 1000000000000000000 * cos (pi / 8) \<and> 1000000000000000000 * cos (pi / 8) \<le> 923879532511286758"
  by (rule cos_half_bounds [of 1000000000000000000 _ _ _ 707106781186547523 707106781186547526])
    (use cos_pi_4 in simp_all)

lemma cos_pi_16: "980785280403230447 \<le> 1000000000000000000 * cos (pi / 16) \<and> 1000000000000000000 * cos (pi / 16) \<le> 980785280403230451"
  by (rule cos_half_bounds [of 1000000000000000000 _ _ _ 923879532511286754 923879532511286758])
    (use cos_pi_8 in simp_all)

lemma cos_pi_32: "995184726672196884 \<le> 1000000000000000000 * cos (pi / 32) \<and> 1000000000000000000 * cos (pi / 32) \<le> 995184726672196888"
  by (rule cos_half_bounds [of 1000000000000000000 _ _ _ 980785280403230447 980785280403230451])
    (use cos_pi_16 in simp_all)

lemma cos_pi_64: "998795456205172391 \<le> 1000000000000000000 * cos (pi / 64) \<and> 1000000000000000000 * cos (pi / 64) \<le> 998795456205172395"
  by (rule cos_half_bounds [of 1000000000000000000 _ _ _ 995184726672196884 995184726672196888])
    (use cos_pi_32 in simp_all)

lemma cos_pi_128: "999698818696204218 \<le> 1000000000000000000 * cos (pi / 128) \<and> 1000000000000000000 * cos (pi / 128) \<le> 999698818696204222"
  by (rule cos_half_bounds [of 1000000000000000000 _ _ _ 998795456205172391 998795456205172395])
    (use cos_pi_64 in simp_all)

lemma cos_pi_256: "999924701839144539 \<le> 1000000000000000000 * cos (pi / 256) \<and> 1000000000000000000 * cos (pi / 256) \<le> 999924701839144543"
  by (rule cos_half_bounds [of 1000000000000000000 _ _ _ 999698818696204218 999698818696204222])
    (use cos_pi_128 in simp_all)

lemma root_1_approx: "cmod (Complex (1073660973 / 1073741824) (- 13176464 / 1073741824) - root_of 512 1) \<le> 1 / 10 ^ 9"
proof -
  let ?S = "1000000000000000000 :: real"
  let ?c = "cos (pi / 256)" and ?s = "sin (pi / 256)"
  note c = cos_pi_256
  have s0: "0 \<le> ?s" by (rule sin_ge_zero) auto
  have "(?S * ?s)\<^sup>2 = ?S * ?S - (?S * ?c) * (?S * ?c)"
    unfolding power_mult_distrib sin_squared_eq by (simp add: power2_eq_square algebra_simps)
  moreover have "999924701839144539 * 999924701839144539 \<le> (?S * ?c) * (?S * ?c)"
    "(?S * ?c) * (?S * ?c) \<le> 999924701839144543 * 999924701839144543"
    using c by (intro mult_mono; simp)+
  ultimately have "12271538285000000\<^sup>2 \<le> (?S * ?s)\<^sup>2" "(?S * ?s)\<^sup>2 \<le> 12271538286000000\<^sup>2"
    by (simp_all add: power2_eq_square)
  then have s: "12271538285000000 \<le> ?S * ?s" "?S * ?s \<le> 12271538286000000"
    using s0 by (auto intro: power2_le_imp_le)
  have r: "root_of 512 1 = Complex ?c (- ?s)"
    by (simp add: root_of_def complex_eq_iff)
  have "cmod (Complex (1073660973 / 1073741824) (- 13176464 / 1073741824) - root_of 512 1)
      \<le> \<bar>1073660973 / 1073741824 - ?c\<bar> + \<bar>?s - 13176464 / 1073741824\<bar>"
    unfolding r by (rule order_trans [OF cmod_le]) simp
  also have "\<dots> \<le> 1 / 10 ^ 9"
    using c s by (simp add: abs_le_iff field_simps)
  finally show ?thesis .
qed

section \<open>The powers, and the table\<close>

definition cz :: "icpx \<Rightarrow> complex" where
  "cz p = Complex (of_int (fst p)) (of_int (snd p))"

text \<open>The next power in units of \<open>2^-30\<close>.\<close>

fun next_root :: "icpx \<Rightarrow> icpx" where
  "next_root (a, b) = ((a * 1073660973 + b * 13176464) div 1073741824, (b * 1073660973 - a * 13176464) div 1073741824)"

fun near_root :: "icpx \<Rightarrow> icpx \<Rightarrow> bool" where
  "near_root (a, b) (r, i) \<longleftrightarrow>
     r * r + i * i \<le> 1073741824
     \<and> (r * 32768 - a) * (r * 32768 - a) + (i * 32768 - b) * (i * 32768 - b) \<le> 2500000000"

fun table_ok :: "icpx \<Rightarrow> icpx list \<Rightarrow> bool" where
  "table_ok t [] \<longleftrightarrow> True"
| "table_ok t (w # ws) \<longleftrightarrow> near_root t w \<and> table_ok (next_root t) ws"

lemma div_floor: "\<bar>real_of_int (x div 1073741824) - real_of_int x / 1073741824\<bar> \<le> 1"
proof -
  have "1073741824 * (x div 1073741824) \<le> x" "x < 1073741824 * (x div 1073741824) + 1073741824"
    by linarith+
  then have "1073741824 * real_of_int (x div 1073741824) \<le> real_of_int x"
    "real_of_int x < 1073741824 * real_of_int (x div 1073741824) + 1073741824"
    by linarith+
  then show ?thesis by (simp add: abs_le_iff field_simps)
qed

lemma next_root_err:
  assumes "cmod (cz t / 1073741824 - root_of 512 k) \<le> e" "e \<le> 1"
  shows "cmod (cz (next_root t) / 1073741824 - root_of 512 (Suc k)) \<le> e + 1 / 10 ^ 8"
proof -
  let ?S = "1073741824 :: complex" and ?w = "Complex (1073660973 / 1073741824) (- 13176464 / 1073741824)"
  obtain a b where t: "t = (a, b)" by (cases t)
  define u where "u = cz t / ?S"
  have rnd: "cmod (cz (next_root t) - cz t * ?w) \<le> 2"
  proof -
    have "\<bar>Re (cz (next_root t) - cz t * ?w)\<bar> \<le> 1" "\<bar>Im (cz (next_root t) - cz t * ?w)\<bar> \<le> 1"
      using div_floor [of "a * 1073660973 + b * 13176464"] div_floor [of "b * 1073660973 - a * 13176464"]
      by (simp_all add: t cz_def field_simps)
    then show ?thesis using cmod_le [of "cz (next_root t) - cz t * ?w"] by linarith
  qed
  have u2: "cmod u \<le> 2"
    using assms norm_triangle_ineq2 [of u "root_of 512 k"] by (simp add: u_def)
  have e: "cz (next_root t) / ?S - root_of 512 (Suc k) = (cz (next_root t) - cz t * ?w) / ?S
      + u * (?w - root_of 512 1) + (u - root_of 512 k) * root_of 512 1"
    using root_of_add [of 512 k 1] by (simp add: u_def field_simps)
  have "cmod ((cz (next_root t) - cz t * ?w) / ?S) \<le> 2 / 1073741824" using rnd by (simp add: norm_divide)
  moreover have "cmod (u * (?w - root_of 512 1)) \<le> 2 * (1 / 10 ^ 9)"
    unfolding norm_mult by (rule mult_mono [OF u2 root_1_approx]) auto
  moreover have "cmod ((u - root_of 512 k) * root_of 512 1) \<le> e"
    using assms(1) by (simp add: norm_mult u_def)
  ultimately show ?thesis
    unfolding e using norm_triangle_ineq [of "(cz (next_root t) - cz t * ?w) / ?S + u * (?w - root_of 512 1)" "(u - root_of 512 k) * root_of 512 1"]
      norm_triangle_ineq [of "(cz (next_root t) - cz t * ?w) / ?S" "u * (?w - root_of 512 1)"]
    by simp
qed

lemma cmod_cz_le:
  assumes "fst p * fst p + snd p * snd p \<le> c * c" "0 \<le> c"
  shows "cmod (cz p) \<le> of_int c"
proof -
  have "real_of_int (fst p * fst p + snd p * snd p) \<le> real_of_int (c * c)" using assms(1) of_int_le_iff by blast
  then show ?thesis
    using assms(2) unfolding cmod_def cz_def by (intro real_le_lsqrt) (simp_all add: power2_eq_square)
qed

lemma near_root_err:
  assumes "near_root t w" "cmod (cz t / 1073741824 - root_of 512 k) \<le> 1 / 10 ^ 5"
  shows "cmod (cz w) \<le> 32768" "cmod (cz w - 32768 * root_of 512 k) \<le> 2"
proof -
  obtain a b r i where tw: "t = (a, b)" "w = (r, i)" by (cases t; cases w)
  show "cmod (cz w) \<le> 32768" using cmod_cz_le [of w 32768] assms(1) by (simp add: tw)
  have "cmod (cz (r * 32768 - a, i * 32768 - b)) \<le> 50000"
    using cmod_cz_le [of "(r * 32768 - a, i * 32768 - b)" 50000] assms(1) by (simp add: tw)
  moreover have "cz (r * 32768 - a, i * 32768 - b) = 32768 * cz w - cz t"
    by (simp add: cz_def tw complex_eq_iff)
  ultimately have 1: "cmod (32768 * cz w - cz t) \<le> 50000" by simp
  have e: "32768 * (cz w - 32768 * root_of 512 k) = (32768 * cz w - cz t) + 1073741824 * (cz t / 1073741824 - root_of 512 k)"
    by (simp add: field_simps)
  have "cmod (1073741824 * (cz t / 1073741824 - root_of 512 k)) \<le> 1073741824 * (1 / 10 ^ 5)"
    unfolding norm_mult using assms(2) by simp
  then have "cmod (32768 * (cz w - 32768 * root_of 512 k)) \<le> 50000 + 1073741824 * (1 / 10 ^ 5)"
    unfolding e using 1 norm_triangle_ineq [of "32768 * cz w - cz t" "1073741824 * (cz t / 1073741824 - root_of 512 k)"]
    by linarith
  then show "cmod (cz w - 32768 * root_of 512 k) \<le> 2"
    unfolding norm_mult by simp
qed

lemma table_ok_err:
  assumes "table_ok t ws" "cmod (cz t / 1073741824 - root_of 512 k) \<le> real k / 10 ^ 8"
    and "k + length ws \<le> 1000" "j < length ws"
  shows "cmod (cz (ws ! j)) \<le> 32768 \<and> cmod (cz (ws ! j) - 32768 * root_of 512 (k + j)) \<le> 2"
  using assms
proof (induction ws arbitrary: t k j)
  case Nil
  then show ?case by simp
next
  case (Cons w ws)
  have "real k / 10 ^ 8 \<le> 1 / 10 ^ 5" using Cons.prems(3) by simp
  then have k: "cmod (cz t / 1073741824 - root_of 512 k) \<le> 1 / 10 ^ 5" using Cons.prems(2) by linarith
  have nxt: "cmod (cz (next_root t) / 1073741824 - root_of 512 (Suc k)) \<le> real (Suc k) / 10 ^ 8"
    using next_root_err [of t k "real k / 10 ^ 8"] Cons.prems(2,3) by (simp add: add_divide_distrib)
  show ?case
  proof (cases j)
    case 0
    then show ?thesis using near_root_err [OF _ k, of w] Cons.prems(1) by simp
  next
    case (Suc j')
    then show ?thesis using Cons.IH [OF _ nxt, of j'] Cons.prems by simp
  qed
qed

lemma table_ok_tw: "table_ok (1073741824, 0) tw_pairs"
  by code_simp

lemma twiddles_tw_pairs:
  assumes "map (icpx \<circ> unpack) (twiddles st) = tw_pairs"
  shows "twiddles_ok 512 st"
proof -
  have cz_smp: "cz (icpx z) = smp z" for z
    by (simp add: cz_def icpx_def smp_def)
  have len: "length (twiddles st) = 512" using assms tables_length(1) by (metis length_map)
  have "smp (unpack (twiddles st ! k)) = cz (tw_pairs ! k)" if "k < 512" for k
    using that len assms cz_smp by (metis comp_apply nth_map)
  moreover have "cmod (cz (tw_pairs ! k)) \<le> 32768 \<and> cmod (cz (tw_pairs ! k) - 32768 * root_of 512 (0 + k)) \<le> 2"
    if "k < 512" for k
    by (rule table_ok_err [OF table_ok_tw])
      (use that in \<open>simp_all add: tables_length cz_def root_of_def complex_eq_iff\<close>)
  ultimately show ?thesis by (simp add: twiddles_ok_def)
qed

end
