(* ===== verification/KissFactor.thy ===== *)
theory KissFactor
  imports Prelude
begin

text \<open>
  The integer helpers of \<open>kissfft_lib/kiss_fft.c\<close>: \<open>kf_factor\<close>, which fills the factor buffer
  \<open>p1, m1, p2, m2, ...\<close>, and \<open>kiss_fft_next_fast_size\<close>. Neither is called by the application, whose
  factor list is a table; the theory shows that the table is what \<open>kf_factor\<close> computes.
\<close>

section \<open>\<open>kf_factor\<close>\<close>

text \<open>
  The inner \<open>while (n % p)\<close> loop. \<open>floor_sqrt\<close> is the floor of the square root of the first \<open>n\<close>;
  it is not updated. \<open>p = 0\<close> never occurs (a division by zero), it only ends the recursion.
\<close>

function next_factor :: "nat \<Rightarrow> nat \<Rightarrow> nat \<Rightarrow> nat" where
  "next_factor n floor_sqrt p =
     (if p = 0 \<or> n mod p = 0 then p
      else let p' = (if p = 4 then 2 else if p = 2 then 3 else p + 2)
           in next_factor n floor_sqrt (if floor_sqrt < p' then n else p'))"
  by pat_completeness auto
termination
proof (relation "measure (\<lambda>(n, fs, p). if n mod p = 0 then 0 else if p = 4 then fs + 5
    else if p = 2 then fs + 4 else Suc (Suc fs - p))")
  fix n fs p p' :: nat
  assume p: "\<not> (p = 0 \<or> n mod p = 0)" and p': "p' = (if p = 4 then 2 else if p = 2 then 3 else p + 2)"
  show "((n, fs, if fs < p' then n else p'), n, fs, p) \<in> measure (\<lambda>(n, fs, p). if n mod p = 0 then 0
    else if p = 4 then fs + 5 else if p = 2 then fs + 4 else Suc (Suc fs - p))"
    using p unfolding p' by auto
qed simp

declare next_factor.simps [simp del]

text \<open>The outer \<open>do ... while (n > 1)\<close>. The result is what is written to \<open>facbuf\<close>.\<close>

partial_function (option) kf_factor_loop :: "nat \<Rightarrow> nat \<Rightarrow> nat \<Rightarrow> nat list option" where
  "kf_factor_loop floor_sqrt n p =
     (let p = next_factor n floor_sqrt p; n = n div p
      in if 1 < n then Option.bind (kf_factor_loop floor_sqrt n p) (\<lambda>fs. Some (p # n # fs))
         else Some [p, n])"

definition kf_factor :: "nat \<Rightarrow> nat list option" where
  "kf_factor n = kf_factor_loop (nat \<lfloor>sqrt (real n)\<rfloor>) n 4"

text \<open>The documented shape: \<open>p[i] * m[i] = m[i-1]\<close> with \<open>m0 = n\<close>, down to \<open>1\<close>.\<close>

fun factor_chain :: "nat \<Rightarrow> nat list \<Rightarrow> bool" where
  "factor_chain n (p # m # fs) \<longleftrightarrow> p * m = n \<and> (if fs = [] then m = 1 else 1 < m \<and> 2 \<le> p \<and> factor_chain m fs)"
| "factor_chain n _ \<longleftrightarrow> False"

lemma next_factor_dvd: "0 < n \<Longrightarrow> 0 < p \<Longrightarrow> next_factor n fs p dvd n \<and> 0 < next_factor n fs p"
proof (induction n fs p rule: next_factor.induct)
  case (1 n fs p)
  show ?case
  proof (cases "n mod p = 0")
    case True
    with 1 show ?thesis by (simp add: next_factor.simps [of n fs p] mod_eq_0_iff_dvd)
  next
    case False
    let ?p' = "if p = 4 then 2 else if p = 2 then 3 else p + 2"
    from False 1 have "next_factor n fs (if fs < ?p' then n else ?p') dvd n
        \<and> 0 < next_factor n fs (if fs < ?p' then n else ?p')"
      by (simp add: Let_def)
    with False 1 show ?thesis by (simp add: next_factor.simps [of n fs p] Let_def)
  qed
qed

lemma next_factor_ge_2: "2 \<le> n \<Longrightarrow> 2 \<le> p \<Longrightarrow> 2 \<le> next_factor n fs p"
proof (induction n fs p rule: next_factor.induct)
  case (1 n fs p)
  show ?case
  proof (cases "n mod p = 0")
    case True
    with 1 show ?thesis by (simp add: next_factor.simps [of n fs p])
  next
    case False
    let ?p' = "if p = 4 then 2 else if p = 2 then 3 else p + 2"
    from False 1 have "2 \<le> next_factor n fs (if fs < ?p' then n else ?p')"
      by (simp add: Let_def)
    with False 1 show ?thesis by (simp add: next_factor.simps [of n fs p] Let_def)
  qed
qed

lemma kf_factor_loop_chain:
  assumes "2 \<le> n" "2 \<le> p"
  shows "\<exists>fs. kf_factor_loop floor_sqrt n p = Some fs \<and> factor_chain n fs"
  using assms
proof (induction n arbitrary: p rule: less_induct)
  case (less n)
  let ?p = "next_factor n floor_sqrt p"
  have d: "?p dvd n" "2 \<le> ?p"
    using next_factor_dvd [of n p floor_sqrt] next_factor_ge_2 [of n p floor_sqrt] less.prems by auto
  then have pn: "?p * (n div ?p) = n" by simp
  have "n div ?p < n" using d(2) less.prems by (intro div_less_dividend) auto
  show ?case
  proof (cases "1 < n div ?p")
    case True
    then obtain fs where "kf_factor_loop floor_sqrt (n div ?p) ?p = Some fs" "factor_chain (n div ?p) fs"
      using less.IH [of "n div ?p" ?p] \<open>n div ?p < n\<close> d(2) by auto
    with True pn d(2) show ?thesis by (subst kf_factor_loop.simps) (cases fs; auto simp: Let_def)
  next
    case False
    have "n div ?p \<noteq> 0" using pn less.prems(1) by (metis mult_0_right not_numeral_le_zero)
    with False have "n div ?p = 1" by simp
    with pn show ?thesis by (subst kf_factor_loop.simps) (simp add: Let_def)
  qed
qed

lemma kf_factor_1: "kf_factor 1 = Some [1, 1]"
proof -
  have "next_factor 1 1 4 = 1"
    by (simp add: next_factor.simps)
  then show ?thesis by (simp add: kf_factor_def kf_factor_loop.simps)
qed

lemma next_factor_stop: "p \<noteq> 0 \<Longrightarrow> n mod p = 0 \<Longrightarrow> next_factor n fs p = p"
  by (simp add: next_factor.simps)

lemma kf_factor_512: "kf_factor 512 = Some [4, 128, 4, 32, 4, 8, 4, 2, 2, 1]"
proof -
  have "nat \<lfloor>sqrt 512 :: real\<rfloor> = 22"
  proof -
    have "(22 :: real) \<le> sqrt 512" "sqrt 512 < (23 :: real)"
      by (simp_all add: real_le_rsqrt real_less_lsqrt power2_eq_square)
    then have "\<lfloor>sqrt 512 :: real\<rfloor> = 22" by (simp add: floor_eq_iff)
    then show ?thesis by simp
  qed
  moreover have "next_factor 2 22 4 = 2"
    by (simp add: next_factor.simps [of 2 22 4] next_factor_stop)
  ultimately show ?thesis
    unfolding kf_factor_def by (simp add: kf_factor_loop.simps Let_def next_factor_stop)
qed

section \<open>\<open>kiss_fft_next_fast_size\<close>\<close>

text \<open>
  The inner \<open>while (m % q == 0) m /= q\<close>: on \<open>m = 0\<close> it never ends, which is \<open>None\<close>. C division
  and remainder are those of theory \<open>Prelude\<close>.
\<close>

partial_function (option) strip :: "int \<Rightarrow> int \<Rightarrow> int option" where
  "strip q m = (if crem m q = 0 then strip q (cdiv m q) else Some m)"

text \<open>The outer loop; \<open>n++\<close> past \<open>INT_MAX\<close> is undefined behaviour, \<open>None\<close> as well.\<close>

partial_function (option) kiss_fft_next_fast_size :: "int \<Rightarrow> int option" where
  "kiss_fft_next_fast_size n =
     Option.bind (strip 2 n) (\<lambda>m. Option.bind (strip 3 m) (\<lambda>m. Option.bind (strip 5 m) (\<lambda>m.
       if m \<le> 1 then Some n
       else if 2147483647 \<le> n then None
       else kiss_fft_next_fast_size (n + 1))))"

text \<open>A fast size: a product of twos, threes and fives.\<close>

definition smooth5 :: "int \<Rightarrow> bool" where
  "smooth5 n \<longleftrightarrow> (\<exists>a b c. n = 2 ^ a * 3 ^ b * 5 ^ c)"

lemma strip_zero: "strip q 0 = None"
proof -
  have "m \<noteq> 0" if "strip q m = Some r" for m r
  proof (rule strip.raw_induct [where P = "\<lambda>q m r. m \<noteq> 0", OF _ that])
    fix f q m r
    assume IH: "\<And>q m r. f q m = Some r \<Longrightarrow> m \<noteq> (0 :: int)"
      and eq: "(if crem m q = 0 then f q (cdiv m q) else Some m) = Some r"
    show "m \<noteq> 0"
    proof
      assume "m = 0"
      with eq have "f q 0 = Some r" by simp
      then show False using IH by blast
    qed
  qed
  then show ?thesis by (metis not_Some_eq)
qed

lemma strip_pos:
  assumes "0 < m" "2 \<le> q"
  shows "\<exists>r k. strip q m = Some r \<and> m = r * q ^ k \<and> \<not> q dvd r \<and> 0 < r"
  using assms(1)
proof (induction "nat m" arbitrary: m rule: less_induct)
  case less
  show ?case
  proof (cases "crem m q = 0")
    case False
    then have "strip q m = Some m" by (simp add: strip.simps)
    moreover have "\<not> q dvd m" using False less.prems assms(2) by (simp add: dvd_eq_mod_eq_0)
    ultimately show ?thesis using less.prems by (intro exI [of _ m] exI [of _ 0]) simp
  next
    case True
    then have d: "q dvd m" using less.prems assms(2) by (simp add: dvd_eq_mod_eq_0)
    have "0 < m div q" "m div q < m"
      using d less.prems assms(2) by (auto simp: pos_imp_zdiv_pos_iff zdvd_imp_le int_div_less_self)
    then obtain r k where r: "strip q (m div q) = Some r" "m div q = r * q ^ k" "\<not> q dvd r" "0 < r"
      using less.hyps [of "m div q"] by auto
    have "strip q m = Some r"
      using True r(1) less.prems assms(2) by (simp add: strip.simps [of q m])
    moreover have "m = r * q ^ Suc k"
      using d r(2) by (metis dvd_div_mult_self mult.assoc power_Suc2)
    ultimately show ?thesis using r(3,4) by blast
  qed
qed


lemma coprime_small:
  assumes "\<not> q dvd (m :: int)" "q \<in> {2, 3, 5}"
  shows "coprime m q"
proof -
  let ?d = "gcd m q"
  have d: "?d dvd q" "0 < ?d" "?d dvd m" using assms(2) by auto
  have le: "?d \<le> q" using d(1) assms(2) by (auto intro!: zdvd_imp_le)
  have "?d \<noteq> q" using assms(1) by (metis gcd_dvd1)
  have "e = 1" if "e dvd q" "0 < e" "e \<le> q" "e \<noteq> q" for e
  proof -
    have "e = 1 \<or> e = 2 \<or> e = 3 \<or> e = 4" using that assms(2) by auto
    with that assms(2) show ?thesis by auto
  qed
  then have "?d = 1" using d le \<open>?d \<noteq> q\<close> by blast
  then show ?thesis by (simp add: coprime_iff_gcd_eq_1)
qed

text \<open>The three inner loops decide smoothness.\<close>

lemma strips_decide:
  assumes "0 < n"
  shows "\<exists>m2 m3 m. strip 2 n = Some m2 \<and> strip 3 m2 = Some m3 \<and> strip 5 m3 = Some m \<and> (m \<le> 1 \<longleftrightarrow> smooth5 n)"
proof -
  obtain m2 a where m2: "strip 2 n = Some m2" "n = m2 * 2 ^ a" "\<not> 2 dvd m2" "0 < m2"
    using strip_pos [OF assms, of 2] by auto
  obtain m3 b where m3: "strip 3 m2 = Some m3" "m2 = m3 * 3 ^ b" "\<not> 3 dvd m3" "0 < m3"
    using strip_pos [OF m2(4), of 3] by auto
  obtain m c where m: "strip 5 m3 = Some m" "m3 = m * 5 ^ c" "\<not> 5 dvd m" "0 < m"
    using strip_pos [OF m3(4), of 5] by auto
  have n: "n = m * 2 ^ a * 3 ^ b * 5 ^ c" using m2(2) m3(2) m(2) by (simp add: ac_simps)
  have "m = 1" if smooth: "smooth5 n"
  proof -
    obtain a' b' c' where e: "n = 2 ^ a' * 3 ^ b' * 5 ^ c'" using smooth by (auto simp: smooth5_def)
    have "m dvd 2 ^ a' * 3 ^ b' * 5 ^ c'" using n e by (metis dvd_triv_left mult.assoc)
    moreover have "coprime m (2 ^ a' * 3 ^ b' * 5 ^ c')"
    proof -
      have "\<not> 2 dvd m" "\<not> 3 dvd m" using m2(2,3) m3(2,3) m(2) by (auto simp: ac_simps)
      then have "coprime m 2" "coprime m 3" "coprime m 5"
        using m(3) by (auto intro: coprime_small)
      then show ?thesis by simp
    qed
    ultimately have "is_unit m" by (metis coprime_common_divisor dvd_refl)
    with m(4) show ?thesis by auto
  qed
  moreover have "smooth5 n" if "m \<le> 1"
    using n m(4) that unfolding smooth5_def
    by (intro exI [of _ a] exI [of _ b] exI [of _ c]) simp
  ultimately show ?thesis using m2(1) m3(1) m(1) by auto
qed

lemma smooth5_power2: "smooth5 (2 ^ k)"
  unfolding smooth5_def by (intro exI [of _ k] exI [of _ 0]) simp

lemma next_fast_size_least:
  assumes "1 \<le> n" "n \<le> 2 ^ 30"
  shows "\<exists>r. kiss_fft_next_fast_size n = Some r \<and> n \<le> r \<and> smooth5 r \<and> (\<forall>k. n \<le> k \<and> k < r \<longrightarrow> \<not> smooth5 k)"
  using assms
proof (induction "nat (2 ^ 30 - n)" arbitrary: n rule: less_induct)
  case less
  obtain m2 m3 m where m: "strip 2 n = Some m2" "strip 3 m2 = Some m3" "strip 5 m3 = Some m"
    "m \<le> 1 \<longleftrightarrow> smooth5 n"
    using strips_decide [of n] less.prems by auto
  show ?case
  proof (cases "smooth5 n")
    case True
    then have "kiss_fft_next_fast_size n = Some n"
      using m by (simp add: kiss_fft_next_fast_size.simps [of n])
    with True show ?thesis by (intro exI [of _ n]) auto
  next
    case False
    then have "n \<noteq> 2 ^ 30" using smooth5_power2 [of 30] by metis
    with less.prems have n: "n + 1 \<le> 2 ^ 30" by simp
    then obtain r where r: "kiss_fft_next_fast_size (n + 1) = Some r" "n + 1 \<le> r" "smooth5 r"
      "\<forall>k. n + 1 \<le> k \<and> k < r \<longrightarrow> \<not> smooth5 k"
      using less.hyps [of "n + 1"] less.prems by auto
    have "kiss_fft_next_fast_size n = Some r"
      using m False n r(1) by (simp add: kiss_fft_next_fast_size.simps [of n])
    moreover have "\<not> smooth5 k" if "n \<le> k" "k < r" for k
      using that r(4) False by (cases "k = n") auto
    ultimately show ?thesis using r(2,3) by (intro exI [of _ r]) auto
  qed
qed

section \<open>Properties\<close>

text \<open>
  C30: \<open>kf_factor\<close> ends for every length of two or more, and fills its
  buffer with the documented chain: each stage length times its radix is the stage length before it,
  every radix is at least two, and the last stage length is one.
\<close>

theorem kf_factor_chain:
  assumes "2 \<le> n"
  shows "\<exists>fs. kf_factor n = Some fs \<and> factor_chain n fs"
  using kf_factor_loop_chain [of n 4 "nat \<lfloor>sqrt (real n)\<rfloor>"] assms by (simp add: kf_factor_def)

lemma kf_factor_chain_witness: "\<exists>fs. kf_factor 720 = Some fs \<and> factor_chain 720 fs"
  using kf_factor_chain [of 720] by simp

text \<open>
  C29: \<open>kiss_fft_next_fast_size\<close> returns, for every length from 1 to \<open>2^30\<close>, the smallest length not
  below it that has no prime factor above five.
\<close>

theorem kiss_fft_next_fast_size_least:
  assumes "1 \<le> n" "n \<le> 2 ^ 30"
  shows "\<exists>r. kiss_fft_next_fast_size n = Some r \<and> n \<le> r \<and> smooth5 r \<and> (\<forall>k. n \<le> k \<and> k < r \<longrightarrow> \<not> smooth5 k)"
  using assms by (rule next_fast_size_least)

lemma kiss_fft_next_fast_size_least_witness:
  "\<exists>r. kiss_fft_next_fast_size 7 = Some r \<and> 7 \<le> r \<and> smooth5 r \<and> (\<forall>k. 7 \<le> k \<and> k < r \<longrightarrow> \<not> smooth5 k)"
  using kiss_fft_next_fast_size_least [of 7] by simp

text \<open>For length zero \<open>kiss_fft_next_fast_size\<close> never returns: its first inner loop divides zero by two for ever.\<close>

theorem kiss_fft_next_fast_size_zero: "kiss_fft_next_fast_size 0 = None"
  by (simp add: kiss_fft_next_fast_size.simps [of 0] strip_zero)

end
