(* ===== verification/FFTMain.thy ===== *)
theory FFTMain
  imports Twiddles KissFactor
begin

text \<open>
  The FFT application: \<open>main\<close> of \<open>sw/app/fft/fft_int16_main.c\<close>, and the entry points of kissfft at
  the arguments it and its callers use. \<open>main\<close> compares the transform of the input table with the
  reference table of the header; the result that it prints \<open>SUCCESS\<close> and returns \<open>0\<close> rests on the
  refinement of theory \<open>KissFFT\<close> and the evaluation of theory \<open>FFTRun\<close>.
\<close>

section \<open>The entry points\<close>

lemma fft_facs_4: "fft_facs 4 = g_factors"
  by (simp add: g_factors_def numeral_eq_Suc)

text \<open>A configuration whose factor list is that of \<open>2 * 4^d\<close> points.\<close>

definition cfg_for :: "nat \<Rightarrow> kiss_fft_state \<Rightarrow> bool" where
  "cfg_for d st \<longleftrightarrow> factors st = fft_facs d \<and> 2 * 4 ^ d \<le> length (twiddles st) \<and> 2 * 4 ^ d \<le> (65536 :: nat)"

definition fft_packed :: "kiss_fft_state \<Rightarrow> nat \<Rightarrow> i32 list \<Rightarrow> i32 list" where
  "fft_packed st d f = map pack (fft_fixed st d 1 (\<lambda>n. unpack (f ! n)))"

lemma length_fft_packed [simp]: "length (fft_packed st d f) = 2 * 4 ^ d"
  by (simp add: fft_packed_def)

lemma blit_0: "blit F 0 ys = ys @ drop (length ys) F"
  by (simp add: blit_def)

lemma kf_work_top:
  assumes "cfg_for d st" "copro_wf s" "2 * 4 ^ d \<le> length F" "2 * 4 ^ d \<le> length f"
  shows "\<exists>s'. kf_work F 0 f 0 1 1 (factors st) st s
    = Some (fft_packed st d f @ drop (2 * 4 ^ d) F, s') \<and> copro_wf s'"
proof -
  have "4 ^ d - 1 + 4 ^ d < length f"
    using assms(4) one_le_power [of "4 :: nat" d] by linarith
  then show ?thesis
    using kf_work_fixed [of s 0 d F 1 0 f st] assms
    by (simp add: cfg_for_def fft_packed_def blit_0)
qed

lemma kiss_fft_out_of_place:
  assumes "cfg_for d st" "copro_wf s" "a \<noteq> b" "h a = Some f" "h b = Some F"
    "2 * 4 ^ d \<le> length f" "2 * 4 ^ d \<le> length F"
  shows "\<exists>s'. kiss_fft malloc_ok junk st (Some a) (Some b) (h, s)
    = Some (h(b \<mapsto> fft_packed st d f @ drop (2 * 4 ^ d) F), s') \<and> copro_wf s'"
  using kf_work_top [OF assms(1,2,7,6)] assms(3-5)
  by (auto simp: kiss_fft_def kiss_fft_stride_def)

lemma kiss_fft_in_place:
  assumes "cfg_for d st" "copro_wf s" "nfft st = 2 * 4 ^ d" "malloc_ok (4 * word_of_int (nfft st))"
    "h b = Some F" "2 * 4 ^ d \<le> length F"
  shows "\<exists>s'. kiss_fft malloc_ok junk st (Some b) (Some b) (h, s)
    = Some (h(b \<mapsto> fft_packed st d F @ drop (2 * 4 ^ d) F), s') \<and> copro_wf s'"
proof -
  have n: "nat (nfft st) = 2 * 4 ^ d" using assms(3) by (simp add: nat_mult_distrib nat_power_eq)
  show ?thesis
    using kf_work_top [OF assms(1,2), of "map junk [0..<2 * 4 ^ d]" F] assms(4-6)
    by (auto simp: kiss_fft_def kiss_fft_stride_def n)
qed

section \<open>The application\<close>

datatype fft_out = Msg string | Took i32 i32 | Row i16 i16 i16 i16

text \<open>
  \<open>main\<close>: array \<open>0\<close> is \<open>g_cx_in\<close>, array \<open>1\<close> the local \<open>cx_out\<close> (its first contents are
  \<open>junk_out\<close>). The four \<open>read_csr\<close> values are arguments. The result is the exit code and the
  printed lines.
\<close>

definition fft_main ::
  "(i32 \<Rightarrow> bool) \<Rightarrow> (nat \<Rightarrow> i32) \<Rightarrow> (nat \<Rightarrow> i32) \<Rightarrow> i32 \<times> i32 \<Rightarrow> i32 \<times> i32 \<Rightarrow> copro
     \<Rightarrow> (int \<times> fft_out list) option" where
  "fft_main malloc_ok junk junk_out minstret mcycle s =
     (case fst (kiss_fft_alloc g_twiddles g_factors malloc_ok 512 0 False None) of
        None \<Rightarrow> Some (1, [Msg ''FFT alloc failed''])
      | Some cfg \<Rightarrow> do {
          let instret = - fst minstret;
          let cycles = - fst mcycle;
          (h, s) \<leftarrow> kiss_fft malloc_ok junk cfg (Some 0) (Some 1)
                     ([0 \<mapsto> g_cx_in, 1 \<mapsto> map junk_out [0..<512]], s);
          let instret = instret + snd minstret;
          let cycles = cycles + snd mcycle;
          cx_out \<leftarrow> h 1;
          let printed = [Msg ''FFT running...'', Msg ''FFT finished'', Took instret cycles];
          (if cx_out \<noteq> g_gold
           then Some (1, printed @ Msg ''FAIL : fft result values incorrect'' # Msg ''Your out values:''
                  # Msg (''Real'' @ [CHR 0x09] @ ''Imag'')
                  # map (\<lambda>n. Row (unpack_r (cx_out ! n)) (unpack_r (g_gold ! n))
                               (unpack_i (cx_out ! n)) (unpack_i (g_gold ! n))) [0..<512])
           else Some (0, printed @ [Msg ''SUCCESS : fft result values correct'']))
        })"

definition fft_cfg :: kiss_fft_state where
  "fft_cfg = \<lparr>nfft = 512, inverse = 0, factors = g_factors, twiddles = g_twiddles\<rparr>"

lemma table_pairs: "g_twiddles = CXs tw_pairs" "g_cx_in = CXs in_pairs" "g_gold = CXs gold_pairs"
  by (simp_all add: g_twiddles_def g_cx_in_def g_gold_def tw_pairs_def in_pairs_def gold_pairs_def)

lemma length_CXs [simp]: "length (CXs ps) = length ps"
  by (simp add: CXs_def)

lemma length_tables: "length g_twiddles = 512" "length g_cx_in = 512" "length g_gold = 512"
  by (simp_all add: table_pairs tables_length)

lemma cfg_for_fft: "cfg_for 4 fft_cfg"
  by (simp add: cfg_for_def fft_cfg_def fft_facs_4 length_tables)

lemma fft_gold: "fft_packed fft_cfg 4 g_cx_in = g_gold"
proof -
  let ?X = "fft_fixed fft_cfg 4 1 (\<lambda>n. unpack (g_cx_in ! n))"
  have "map icpx ?X = ifft (stages tw_pairs 4) in_pairs"
    by (rule fft_fixed_eval)
      (simp_all add: fft_cfg_def table_pairs icpx_CXs tables_fit tables_length del: map_map)
  also have "\<dots> = gold_pairs" by (rule ifft_run)
  also have "\<dots> = map icpx (map unpack g_gold)"
    using icpx_CXs [OF tables_fit(3)] by (simp add: table_pairs)
  finally have "map icpx ?X = map icpx (map unpack g_gold)" .
  then have "?X = map unpack g_gold"
    by (rule map_injective) (auto intro: injI icpx_inj)
  then show ?thesis by (simp add: fft_packed_def o_def)
qed


lemma fft_alloc: "kiss_fft_alloc g_twiddles g_factors malloc_ok 512 0 False None
    = (if malloc_ok 2060 then Some fft_cfg else None, None)"
  by (simp add: kiss_fft_alloc_def fft_cfg_def)

section \<open>Properties\<close>

lemma twiddles_ok_fft: "twiddles_ok 512 fft_cfg"
  by (rule twiddles_tw_pairs) (simp add: fft_cfg_def table_pairs icpx_CXs tables_fit)

text \<open>
  C1: \<open>main\<close> of the FFT application exits with \<open>0\<close> and prints \<open>SUCCESS\<close>, whatever the coprocessor
  registers, the uninitialised output array and the performance counters hold, provided \<open>malloc\<close>
  delivers the 2060 bytes of the configuration: the 512-point transform of \<open>g_cx_in\<close> is bit for bit
  the table \<open>g_gold\<close>.
\<close>

theorem fft_main_succeeds:
  assumes "malloc_ok 2060" "copro_wf s"
  shows "fft_main malloc_ok junk junk_out minstret mcycle s =
    Some (0, [Msg ''FFT running...'', Msg ''FFT finished'',
      Took (snd minstret - fst minstret) (snd mcycle - fst mcycle),
      Msg ''SUCCESS : fft result values correct''])"
proof -
  have cfg: "fst (kiss_fft_alloc g_twiddles g_factors malloc_ok 512 0 False None) = Some fft_cfg"
    by (simp add: fft_alloc assms(1))
  obtain s' where "kiss_fft malloc_ok junk fft_cfg (Some 0) (Some 1) ([0 \<mapsto> g_cx_in, 1 \<mapsto> map junk_out [0..<512]], s)
      = Some ([0 \<mapsto> g_cx_in, 1 \<mapsto> map junk_out [0..<512]](1 \<mapsto> g_gold), s')"
    using kiss_fft_out_of_place [OF cfg_for_fft assms(2), of 0 1 "[0 \<mapsto> g_cx_in, 1 \<mapsto> map junk_out [0..<512]]" g_cx_in
        "map junk_out [0..<512]" malloc_ok junk]
    by (auto simp: length_tables fft_gold)
  then show ?thesis
    unfolding fft_main_def cfg by simp
qed

lemma fft_main_succeeds_witness:
  "fft_main (\<lambda>n. n \<le> 4096) (\<lambda>_. 0) (\<lambda>n. of_nat n) (5, 105) (7, 1007) copro_reset =
    Some (0, [Msg ''FFT running...'', Msg ''FFT finished'', Took 100 1000, Msg ''SUCCESS : fft result values correct''])"
  using fft_main_succeeds [of "\<lambda>n. n \<le> 4096" copro_reset "\<lambda>_. 0" "\<lambda>n. of_nat n" "(5, 105)" "(7, 1007)"]
  by (simp add: copro_wf_def copro_reset_def)

text \<open>
  C4: accuracy. For every input of 512 samples of magnitude at most \<open>32700\<close>, \<open>kiss_fft\<close> with the
  application's configuration returns, and every one of the 512 output bins is within \<open>47\<close> units of
  the discrete Fourier transform of the input divided by \<open>512\<close>. The input array and all other arrays are unchanged.
\<close>

theorem kiss_fft_accuracy:
  assumes "copro_wf s" "a \<noteq> b" "h a = Some f" "h b = Some F" "512 \<le> length f" "512 \<le> length F"
    and "\<And>j. j < 512 \<Longrightarrow> cmod (smp (unpack (f ! j))) \<le> 32700"
  shows "\<exists>G s'. kiss_fft malloc_ok junk fft_cfg (Some a) (Some b) (h, s) = Some (h(b \<mapsto> G), s')
    \<and> length G = length F
    \<and> (\<forall>k < 512. cmod (smp (unpack (G ! k)) - dft 512 (\<lambda>j. smp (unpack (f ! j))) k / 512) \<le> 47)"
proof -
  let ?G = "fft_packed fft_cfg 4 f @ drop 512 F"
  obtain s' where "kiss_fft malloc_ok junk fft_cfg (Some a) (Some b) (h, s) = Some (h(b \<mapsto> ?G), s')"
    using kiss_fft_out_of_place [OF cfg_for_fft assms(1-4), of malloc_ok junk] assms(5,6) by auto
  moreover have "cmod (smp (unpack (?G ! k)) - dft 512 (\<lambda>j. smp (unpack (f ! j))) k / 512) \<le> 47" if k: "k < 512" for k
  proof -
    have "?G ! k = pack (fft_fixed fft_cfg 4 1 (\<lambda>n. unpack (f ! n)) ! k)"
      using k by (simp add: nth_append fft_packed_def)
    then show ?thesis
      using fft_fixed_dft [of 4 fft_cfg "\<lambda>n. unpack (f ! n)" k] twiddles_ok_fft assms(7) k by simp
  qed
  ultimately show ?thesis using assms(6) by (intro exI [of _ ?G] exI [of _ s']) simp
qed

lemma kiss_fft_accuracy_witness:
  "\<exists>G s'. kiss_fft (\<lambda>_. True) (\<lambda>_. 0) fft_cfg (Some 0) (Some 1)
      ([0 \<mapsto> replicate 512 (CX 23000 (- 23000)), 1 \<mapsto> replicate 600 0], copro_reset)
    = Some ([0 \<mapsto> replicate 512 (CX 23000 (- 23000)), 1 \<mapsto> replicate 600 0](1 \<mapsto> G), s')
    \<and> length G = 600
    \<and> (\<forall>k < 512. cmod (smp (unpack (G ! k))
          - dft 512 (\<lambda>j. smp (unpack (replicate 512 (CX 23000 (- 23000)) ! j))) k / 512) \<le> 47)"
proof -
  have "cmod (smp (unpack (CX 23000 (- 23000)))) \<le> 32700"
    by (simp add: unpack_CX smp_def cmod_def real_le_lsqrt)
  then show ?thesis
    using kiss_fft_accuracy [of copro_reset 0 1 "[0 \<mapsto> replicate 512 (CX 23000 (- 23000)), 1 \<mapsto> replicate 600 0]"
        "replicate 512 (CX 23000 (- 23000))" "replicate 600 0" "\<lambda>_. True" "\<lambda>_. 0"]
    by (simp add: copro_wf_def copro_reset_def)
qed

text \<open>
  The in-place call. With the temporary buffer allocated, \<open>kiss_fft\<close> on one array for input and
  output leaves in it what the call on two arrays writes to its output, whatever the fresh
  buffer contained; all other arrays are unchanged.
\<close>

theorem kiss_fft_in_place_same:
  assumes "cfg_for d st" "copro_wf s" "copro_wf t" "nfft st = 2 * 4 ^ d" "malloc_ok (4 * word_of_int (nfft st))"
    and "h b = Some f" "h c = Some F" "b \<noteq> c" "2 * 4 ^ d \<le> length f" "2 * 4 ^ d \<le> length F"
  shows "\<exists>X s' t'. kiss_fft malloc_ok junk st (Some b) (Some b) (h, s) = Some (h(b \<mapsto> X @ drop (2 * 4 ^ d) f), s')
    \<and> kiss_fft malloc_ok junk' st (Some b) (Some c) (h, t) = Some (h(c \<mapsto> X @ drop (2 * 4 ^ d) F), t')
    \<and> length X = 2 * 4 ^ d"
  using kiss_fft_in_place [of d st s malloc_ok h b f junk, OF assms(1,2,4,5,6,9)]
    kiss_fft_out_of_place [OF assms(1,3,8,6,7,9,10), of malloc_ok junk']
  by (metis length_fft_packed)

lemma kiss_fft_in_place_same_witness:
  "\<exists>X s' t'. kiss_fft (\<lambda>_. True) (\<lambda>n. 9) fft_cfg (Some 3) (Some 3) ([3 \<mapsto> g_cx_in, 4 \<mapsto> replicate 512 1], copro_reset)
      = Some ([3 \<mapsto> g_cx_in, 4 \<mapsto> replicate 512 1](3 \<mapsto> X), s')
    \<and> kiss_fft (\<lambda>_. True) (\<lambda>n. 0) fft_cfg (Some 3) (Some 4) ([3 \<mapsto> g_cx_in, 4 \<mapsto> replicate 512 1], copro_reset)
      = Some ([3 \<mapsto> g_cx_in, 4 \<mapsto> replicate 512 1](4 \<mapsto> X), t')"
proof -
  have "copro_wf copro_reset" by (simp add: copro_wf_def copro_reset_def)
  then show ?thesis
    using kiss_fft_in_place_same [OF cfg_for_fft, of copro_reset copro_reset "\<lambda>_. True" "[3 \<mapsto> g_cx_in, 4 \<mapsto> replicate 512 1]" 3
        g_cx_in 4 "replicate 512 1" "\<lambda>n. 9" "\<lambda>n. 0"]
    by (auto simp: fft_cfg_def length_tables)
qed

text \<open>
  \<open>kiss_fft_alloc\<close> takes the tables of 512 points for every length, so a configuration made for
  fewer points makes \<open>kiss_fft\<close> write past an output array of that length: no run of it on an
  output array shorter than 512 samples is defined.
\<close>

theorem kiss_fft_short_output_undefined:
  assumes "fst (kiss_fft_alloc g_twiddles g_factors malloc_ok n iv mem lenmem) = Some cfg"
    and "a \<noteq> b" "h b = Some F" "length F < 512"
  shows "kiss_fft malloc_ok' junk cfg (Some a) (Some b) (h, s) = None"
proof -
  have f: "factors cfg = fft_facs 4"
    using assms(1) by (auto simp: kiss_fft_alloc_def Let_def fft_facs_4 split: if_splits option.splits)
  have "kf_work F 0 g 0 1 1 (factors cfg) cfg s = None" for g
  proof (cases "kf_work F 0 g 0 1 1 (factors cfg) cfg s")
    case (Some r)
    then have "512 \<le> length F" unfolding f using kf_work_length [of F 0 g 0 1 1 4 cfg s "fst r" "snd r"] by simp
    with assms(4) show ?thesis by simp
  qed
  with assms(2,3) show ?thesis
    by (cases "h a") (simp_all add: kiss_fft_def kiss_fft_stride_def)
qed

lemma kiss_fft_short_output_undefined_witness:
  "kiss_fft (\<lambda>_. True) (\<lambda>_. 0) \<lparr>nfft = 8, inverse = 0, factors = g_factors, twiddles = g_twiddles\<rparr> (Some 0) (Some 1)
     ([0 \<mapsto> replicate 8 0, 1 \<mapsto> replicate 8 0], copro_reset) = None"
  using kiss_fft_short_output_undefined [of "\<lambda>_. True" 8 0 False None
      "\<lparr>nfft = 8, inverse = 0, factors = g_factors, twiddles = g_twiddles\<rparr>" 0 1 "[0 \<mapsto> replicate 8 0, 1 \<mapsto> replicate 8 0]"
      "replicate 8 0" "\<lambda>_. True" "\<lambda>_. 0" copro_reset]
  by (simp add: kiss_fft_alloc_def)

text \<open>The constant factor list \<open>g_factors\<close> is what \<open>kf_factor\<close> computes for 512 points.\<close>

theorem g_factors_from_kf_factor: "kf_factor 512 = Some (map nat g_factors)"
  by (simp add: kf_factor_512 g_factors_def)

end
