(* ===== verification/Kfc.thy ===== *)
theory Kfc
  imports KissFFT
begin

text \<open>
  \<open>kissfft_lib/kfc.c\<close>: the cache of FFT configurations. The chain of \<open>cached_fft\<close> nodes that
  starts at \<open>cache_root\<close> is a list of nodes in chain order; new nodes go to its end. The cache
  relies on two calls of \<open>kiss_fft_alloc\<close>, one that only asks for the size and one that fills the
  memory after the node; the locale \<open>fft_config\<close> states what it relies on and the theory
  interprets it on the model of \<open>kiss_fft_alloc\<close>.
\<close>

section \<open>The code\<close>

record 'cfg cached_fft =
  c_nfft :: int
  c_inverse :: int
  c_cfg :: 'cfg

record 'cfg kfc_state =
  cache_root :: "'cfg cached_fft list"
  ncached :: int

definition kfc_init :: "'cfg kfc_state" where
  "kfc_init = \<lparr>cache_root = [], ncached = 0\<rparr>"

text \<open>The \<open>while (cur)\<close> search of \<open>find_cached_fft\<close>.\<close>

fun find_node :: "int \<Rightarrow> int \<Rightarrow> 'cfg cached_fft list \<Rightarrow> 'cfg cached_fft option" where
  "find_node n iv [] = None"
| "find_node n iv (cur # rest) =
     (if c_nfft cur = n \<and> iv = c_inverse cur then Some cur else find_node n iv rest)"

text \<open>
  \<open>alloc n inverse mem lenmem\<close> is \<open>kiss_fft_alloc\<close>; \<open>junk\<close> is the uninitialised \<open>len\<close>. The node
  takes 16 bytes. The result of the second call is not looked at: the node's configuration is the memory behind the node,
  and if that call did not fill it, it is what fresh memory holds, \<open>raw\<close>.
\<close>

definition find_cached_fft ::
  "(int \<Rightarrow> int \<Rightarrow> bool \<Rightarrow> i32 option \<Rightarrow> 'cfg option \<times> i32 option) \<Rightarrow> (i32 \<Rightarrow> bool) \<Rightarrow> i32
     \<Rightarrow> 'cfg \<Rightarrow> int \<Rightarrow> int \<Rightarrow> 'cfg kfc_state \<Rightarrow> 'cfg option \<times> 'cfg kfc_state" where
  "find_cached_fft alloc malloc_ok junk raw n iv st =
     (case find_node n iv (cache_root st) of
        Some cur \<Rightarrow> (Some (c_cfg cur), st)
      | None \<Rightarrow>
          (let len = (case snd (alloc n iv False (Some junk)) of Some l \<Rightarrow> l | None \<Rightarrow> junk)
           in if \<not> malloc_ok (16 + len) then (None, st)
              else let cfg = (case fst (alloc n iv True (Some len)) of Some c \<Rightarrow> c | None \<Rightarrow> raw)
                   in (Some cfg,
                       st\<lparr>cache_root := cache_root st @ [\<lparr>c_nfft = n, c_inverse = iv, c_cfg = cfg\<rparr>],
                          ncached := ncached st + 1\<rparr>)))"

definition kfc_cleanup :: "'cfg kfc_state \<Rightarrow> 'cfg kfc_state" where
  "kfc_cleanup st = st\<lparr>cache_root := [], ncached := 0\<rparr>"

text \<open>
  \<open>kfc_fft\<close> and \<open>kfc_ifft\<close> hand the configuration to \<open>kiss_fft\<close>, here \<open>fft\<close>; a null one is
  dereferenced there.
\<close>

definition kfc_fft where
  "kfc_fft alloc malloc_ok junk raw fft n st =
     (case find_cached_fft alloc malloc_ok junk raw n 0 st of (None, st) \<Rightarrow> None | (Some cfg, st) \<Rightarrow> Some (fft cfg, st))"

definition kfc_ifft where
  "kfc_ifft alloc malloc_ok junk raw fft n st =
     (case find_cached_fft alloc malloc_ok junk raw n 1 st of (None, st) \<Rightarrow> None | (Some cfg, st) \<Rightarrow> Some (fft cfg, st))"

section \<open>The interface to the allocator\<close>

locale fft_config =
  fixes alloc :: "int \<Rightarrow> int \<Rightarrow> bool \<Rightarrow> i32 option \<Rightarrow> 'cfg option \<times> i32 option"
    and mk :: "int \<Rightarrow> int \<Rightarrow> 'cfg" and need :: "int \<Rightarrow> i32"
  assumes alloc_size: "alloc n iv False (Some len) = (None, Some (need n))"
    and alloc_fill: "alloc n iv True (Some (need n)) = (Some (mk n iv), Some (need n))"
begin

definition cache_ok :: "'cfg kfc_state \<Rightarrow> bool" where
  "cache_ok st \<longleftrightarrow> ncached st = int (length (cache_root st))
     \<and> distinct (map (\<lambda>c. (c_nfft c, c_inverse c)) (cache_root st))
     \<and> (\<forall>c \<in> set (cache_root st). c_cfg c = mk (c_nfft c) (c_inverse c))"

lemma find_node_Some:
  "find_node n iv cs = Some c \<Longrightarrow> c \<in> set cs \<and> c_nfft c = n \<and> c_inverse c = iv"
  by (induction cs) (auto split: if_splits)

lemma find_node_None:
  "find_node n iv cs = None \<longleftrightarrow> (n, iv) \<notin> (\<lambda>c. (c_nfft c, c_inverse c)) ` set cs"
  by (induction cs) auto

lemma cache_ok_init: "cache_ok kfc_init"
  by (simp add: cache_ok_def kfc_init_def)

lemma cache_ok_cleanup: "cache_ok (kfc_cleanup st)"
  by (simp add: cache_ok_def kfc_cleanup_def)

lemma find_cached_eq:
  "find_cached_fft alloc malloc_ok junk raw n iv st =
     (case find_node n iv (cache_root st) of
        Some cur \<Rightarrow> (Some (c_cfg cur), st)
      | None \<Rightarrow> if \<not> malloc_ok (16 + need n) then (None, st)
          else (Some (mk n iv),
            st\<lparr>cache_root := cache_root st @ [\<lparr>c_nfft = n, c_inverse = iv, c_cfg = mk n iv\<rparr>],
               ncached := ncached st + 1\<rparr>))"
  by (simp add: find_cached_fft_def Let_def alloc_size alloc_fill split: option.split)

lemma find_cached_ok:
  "cache_ok st \<Longrightarrow> cache_ok (snd (find_cached_fft alloc malloc_ok junk raw n iv st))"
  unfolding find_cached_eq
  by (auto simp: cache_ok_def find_node_None split: option.split)

lemma find_cached_result:
  assumes "cache_ok st"
  shows "fst (find_cached_fft alloc malloc_ok junk raw n iv st) =
    (if (n, iv) \<in> (\<lambda>c. (c_nfft c, c_inverse c)) ` set (cache_root st) \<or> malloc_ok (16 + need n)
     then Some (mk n iv) else None)"
proof (cases "find_node n iv (cache_root st)")
  case None
  then have "(n, iv) \<notin> (\<lambda>c. (c_nfft c, c_inverse c)) ` set (cache_root st)"
    by (simp only: find_node_None not_False_eq_True)
  with None show ?thesis unfolding find_cached_eq by simp
next
  case (Some c)
  with find_node_Some [OF Some] assms show ?thesis
    unfolding find_cached_eq by (auto simp: cache_ok_def image_iff)
qed

text \<open>A second request for the same transform is answered from the cache, without \<open>malloc\<close>.\<close>

lemma find_cached_again:
  assumes "cache_ok st" and found: "find_cached_fft alloc malloc_ok junk raw n iv st = (Some cfg, st')"
  shows "find_cached_fft alloc malloc_ok' junk' raw' n iv st' = (Some cfg, st')"
proof (cases "find_node n iv (cache_root st)")
  case (Some c)
  with found show ?thesis by (simp add: find_cached_eq)
next
  case None
  have app: "find_node n iv (cs @ [c]) = Some c" if "find_node n iv cs = None" "c_nfft c = n" "c_inverse c = iv"
    for cs and c :: "'cfg cached_fft"
    using that by (induction cs) (auto split: if_splits)
  from found None show ?thesis
    unfolding find_cached_eq by (auto simp: app split: if_splits)
qed

end

section \<open>\<open>kiss_fft_alloc\<close> provides it\<close>

definition fft_need :: "int \<Rightarrow> i32" where
  "fft_need n = 16 + 4 * word_of_int (n - 1)"

interpretation kfc: fft_config "kiss_fft_alloc tw facs malloc_ok"
  "\<lambda>n iv. \<lparr>nfft = n, inverse = iv, factors = facs, twiddles = tw\<rparr>" fft_need for tw facs malloc_ok
  by unfold_locales (simp_all add: kiss_fft_alloc_def fft_need_def Let_def)

section \<open>Properties\<close>

lemma find_cached_keys:
  assumes "kfc.cache_ok facs tw st" "\<And>k. malloc_ok k"
  shows "set (map (\<lambda>c. (c_nfft c, c_inverse c)) (cache_root (snd (find_cached_fft (kiss_fft_alloc tw facs ok) malloc_ok junk raw n iv st))))
    = insert (n, iv) (set (map (\<lambda>c. (c_nfft c, c_inverse c)) (cache_root st)))"
  unfolding kfc.find_cached_eq using assms(2)
  by (auto split: option.split dest: kfc.find_node_Some)

text \<open>A sequence of requests, \<open>kfc_fft\<close> for direction \<open>0\<close> and \<open>kfc_ifft\<close> for \<open>1\<close>.\<close>

definition kfc_requests :: "i32 list \<Rightarrow> int list \<Rightarrow> (i32 \<Rightarrow> bool) \<Rightarrow> i32 \<Rightarrow> kiss_fft_state \<Rightarrow> (int \<times> int) list
    \<Rightarrow> kiss_fft_state kfc_state \<Rightarrow> kiss_fft_state kfc_state" where
  "kfc_requests tw facs malloc_ok junk raw =
     fold (\<lambda>(n, iv) st. snd (find_cached_fft (kiss_fft_alloc tw facs malloc_ok) malloc_ok junk raw n iv st))"

lemma kfc_requests_keys:
  assumes "kfc.cache_ok facs tw st" "\<And>k. malloc_ok k"
  shows "kfc.cache_ok facs tw (kfc_requests tw facs malloc_ok junk raw reqs st)
    \<and> set (map (\<lambda>c. (c_nfft c, c_inverse c)) (cache_root (kfc_requests tw facs malloc_ok junk raw reqs st)))
      = set (map (\<lambda>c. (c_nfft c, c_inverse c)) (cache_root st)) \<union> set reqs"
  using assms(1)
proof (induction reqs arbitrary: st)
  case Nil
  then show ?case by (simp add: kfc_requests_def)
next
  case (Cons r reqs)
  let ?st = "snd (find_cached_fft (kiss_fft_alloc tw facs malloc_ok) malloc_ok junk raw (fst r) (snd r) st)"
  have "kfc_requests tw facs malloc_ok junk raw (r # reqs) st = kfc_requests tw facs malloc_ok junk raw reqs ?st"
    by (simp add: kfc_requests_def case_prod_beta)
  then show ?case
    using Cons.IH [OF kfc.find_cached_ok [OF Cons.prems]] find_cached_keys [OF Cons.prems assms(2)]
    by (simp only:) auto
qed

text \<open>
  C31: after any sequence of requests to an empty cache, with \<open>malloc\<close> always succeeding, the cache has
  exactly one node per distinct pair of length and direction that was requested, \<open>ncached\<close> counts
  them, and each node holds the configuration of its own length and direction.
\<close>

theorem kfc_one_node_per_transform:
  assumes "\<And>k. malloc_ok k" and st: "st = kfc_requests tw facs malloc_ok junk raw reqs kfc_init"
  shows "distinct (map (\<lambda>c. (c_nfft c, c_inverse c)) (cache_root st))
    \<and> set (map (\<lambda>c. (c_nfft c, c_inverse c)) (cache_root st)) = set reqs
    \<and> ncached st = int (card (set reqs))
    \<and> (\<forall>c \<in> set (cache_root st). c_cfg c = \<lparr>nfft = c_nfft c, inverse = c_inverse c, factors = facs, twiddles = tw\<rparr>)"
proof -
  have k: "kfc.cache_ok facs tw st" "set (map (\<lambda>c. (c_nfft c, c_inverse c)) (cache_root st)) = set reqs"
    using kfc_requests_keys [where facs = facs and tw = tw and junk = junk and reqs = reqs and malloc_ok = malloc_ok, OF kfc.cache_ok_init assms(1)]
    by (simp_all add: st kfc_init_def)
  moreover have "length (cache_root st) = card (set reqs)"
    using k distinct_card [of "map (\<lambda>c. (c_nfft c, c_inverse c)) (cache_root st)"]
    by (simp add: kfc.cache_ok_def)
  ultimately show ?thesis by (simp add: kfc.cache_ok_def)
qed

definition blank_cfg :: kiss_fft_state where
  "blank_cfg = \<lparr>nfft = 0, inverse = 0, factors = [], twiddles = []\<rparr>"

lemma kfc_one_node_per_transform_witness:
  "ncached (kfc_requests [] [2, 1] (\<lambda>_. True) 0 blank_cfg [(512, 0), (512, 1), (512, 0), (64, 1)] kfc_init) = 3"
  using kfc_one_node_per_transform [OF _ refl, of "\<lambda>_. True" "[]" "[2, 1]" 0 blank_cfg "[(512, 0), (512, 1), (512, 0), (64, 1)]"]
  by (simp add: card_insert_if)

text \<open>
  A request that has been answered once is answered from the cache: a second \<open>find_cached_fft\<close>
  for the same length and direction returns the same configuration and changes nothing, even when
  \<open>malloc\<close> fails from then on, after any sequence of earlier requests.
\<close>

theorem kfc_second_request_cached:
  assumes "\<And>k. malloc_ok k" and "st = kfc_requests tw facs malloc_ok junk raw reqs kfc_init"
    and "find_cached_fft (kiss_fft_alloc tw facs ok) malloc_ok' junk' raw' n iv st = (Some cfg, st')"
  shows "find_cached_fft (kiss_fft_alloc tw facs ok') (\<lambda>_. False) junk'' raw'' n iv st' = (Some cfg, st')"
proof -
  have "kfc.cache_ok facs tw st"
    using kfc_requests_keys [where facs = facs and tw = tw and junk = junk and reqs = reqs and malloc_ok = malloc_ok, OF kfc.cache_ok_init assms(1)] by (simp add: assms(2))
  then show ?thesis
    using kfc.find_cached_again [OF _ assms(3), of "\<lambda>_. False" junk''] by (simp only: kfc.find_cached_eq simp_thms)
qed

lemma kfc_second_request_cached_witness:
  "\<exists>cfg st'. find_cached_fft (kiss_fft_alloc [] [2, 1] (\<lambda>_. True)) (\<lambda>_. True) 0 blank_cfg 64 1
       (kfc_requests [] [2, 1] (\<lambda>_. True) 0 blank_cfg [(512, 0)] kfc_init) = (Some cfg, st')
     \<and> find_cached_fft (kiss_fft_alloc [] [2, 1] (\<lambda>_. False)) (\<lambda>_. False) 7 blank_cfg 64 1 st' = (Some cfg, st')"
proof -
  obtain cfg st' where r: "find_cached_fft (kiss_fft_alloc [] [2, 1] (\<lambda>_. True)) (\<lambda>_. True) 0 blank_cfg 64 1
       (kfc_requests [] [2, 1] (\<lambda>_. True) 0 blank_cfg [(512, 0)] kfc_init) = (Some cfg, st')"
    by (simp add: kfc_requests_def kfc.find_cached_eq kfc_init_def)
  with kfc_second_request_cached [OF _ refl r] show ?thesis by blast
qed

end
