(* ===== verification/Crc.thy ===== *)
theory Crc
  imports Prelude
begin

unbundle bit_operations_syntax

text \<open>
  \<open>coremark/core_util.c\<close>: the 16-bit CRC that CoreMark accumulates its results in, the seeds, and
  the data type check. The lemmas show that the bit-by-bit loop of \<open>crcu8\<close> computes
  the remainder of the message by \<open>x^16 + x^15 + x^2 + 1\<close> (\<open>0xA001\<close> in the reflected bit order), that it is the
  table-driven CRC, and that it detects every change of a value.
\<close>

section \<open>The code\<close>

text \<open>One round of the loop of \<open>crcu8\<close>, on \<open>(data, crc)\<close>.\<close>

definition crc_round :: "i8 \<times> i16 \<Rightarrow> i8 \<times> i16" where
  "crc_round = (\<lambda>(data, crc).
     let x16 = (data AND 1) XOR (ucast crc AND 1);
         data = drop_bit 1 data;
         (crc, carry) = (if x16 = 1 then (crc XOR 0x4002, True) else (crc, False));
         crc = drop_bit 1 crc
     in (data, if carry then crc OR 0x8000 else crc AND 0x7FFF))"

fun crc_rounds :: "nat \<Rightarrow> i8 \<times> i16 \<Rightarrow> i8 \<times> i16" where
  "crc_rounds 0 x = x"
| "crc_rounds (Suc n) x = crc_rounds n (crc_round x)"

definition crcu8 :: "i8 \<Rightarrow> i16 \<Rightarrow> i16" where
  "crcu8 data crc = snd (crc_rounds 8 (data, crc))"

definition crcu16 :: "i16 \<Rightarrow> i16 \<Rightarrow> i16" where
  "crcu16 newval crc = crcu8 (ucast (drop_bit 8 newval)) (crcu8 (ucast newval) crc)"

text \<open>\<open>ee_s16\<close> and \<open>ee_u16\<close> differ only in how they are read, so \<open>crc16\<close> is \<open>crcu16\<close> on the bits.\<close>

definition crc16 :: "i16 \<Rightarrow> i16 \<Rightarrow> i16" where
  "crc16 newval crc = crcu16 newval crc"

definition crcu32 :: "i32 \<Rightarrow> i16 \<Rightarrow> i16" where
  "crcu32 newval crc = crc16 (ucast (drop_bit 16 newval)) (crc16 (ucast newval) crc)"

text \<open>
  \<open>get_seed_32\<close> reads the volatile seeds; \<open>check_data_types\<close> counts the types of the wrong size,
  and prints a line for each and one more when there are any.
\<close>

record seeds =
  seed1_volatile :: i32
  seed2_volatile :: i32
  seed3_volatile :: i32
  seed4_volatile :: i32
  seed5_volatile :: i32

definition get_seed_32 :: "seeds \<Rightarrow> int \<Rightarrow> i32" where
  "get_seed_32 v i =
     (if i = 1 then seed1_volatile v else if i = 2 then seed2_volatile v else if i = 3 then seed3_volatile v
      else if i = 4 then seed4_volatile v else if i = 5 then seed5_volatile v else 0)"

definition check_data_types :: "nat \<Rightarrow> nat \<Rightarrow> nat \<Rightarrow> nat \<Rightarrow> nat \<Rightarrow> nat \<Rightarrow> nat \<Rightarrow> i8 \<times> string list" where
  "check_data_types ee_u8 ee_u16 ee_s16 ee_s32 ee_u32 ee_ptr_int int_ptr =
     (let errs = (if ee_u8 \<noteq> 1 then [''ERROR: ee_u8 is not an 8b datatype!''] else [])
               @ (if ee_u16 \<noteq> 2 then [''ERROR: ee_u16 is not a 16b datatype!''] else [])
               @ (if ee_s16 \<noteq> 2 then [''ERROR: ee_s16 is not a 16b datatype!''] else [])
               @ (if ee_s32 \<noteq> 4 then [''ERROR: ee_s32 is not a 32b datatype!''] else [])
               @ (if ee_u32 \<noteq> 4 then [''ERROR: ee_u32 is not a 32b datatype!''] else [])
               @ (if ee_ptr_int \<noteq> int_ptr then [''ERROR: ee_ptr_int is not a datatype that holds an int pointer!''] else [])
      in (of_nat (length errs), errs @ (if errs = [] then [] else [''ERROR: Please modify the datatypes in core_portme.h!''])))"

section \<open>The round as a shift register\<close>

lemma crc_round_shift:
  "crc_round (data, crc) = (drop_bit 1 data,
     drop_bit 1 crc XOR (if bit data 0 \<noteq> bit crc 0 then 0xA001 else 0))"
proof -
  have x: "((data AND 1) XOR (ucast crc AND 1) = 1) \<longleftrightarrow> bit data 0 \<noteq> bit crc 0"
  proof -
    have "odd (ucast crc :: i8) \<longleftrightarrow> odd crc" by (simp add: bit_simps flip: bit_0)
    then have a: "data AND 1 = of_bool (bit data 0)" "ucast crc AND (1 :: i8) = of_bool (bit crc 0)"
      by (simp_all add: and_one_eq bit_0 flip: of_bool_odd_eq_mod_2)
    show ?thesis unfolding a by auto
  qed
  have hi: "(drop_bit 1 (crc XOR 0x4002)) OR 0x8000 = drop_bit 1 crc XOR (0xA001 :: i16)"
  proof -
    have "drop_bit 1 (crc XOR 0x4002) = drop_bit 1 crc XOR (0x2001 :: i16)"
      by (simp add: drop_bit_xor)
    moreover have "(drop_bit 1 crc XOR 0x2001) OR (push_bit 15 1 :: i16) = (drop_bit 1 crc XOR 0x2001) XOR push_bit 15 1"
    proof (rule bit_word_eqI)
      fix n assume n: "n < LENGTH(16)"
      have "\<not> bit (0x2001 :: i16) 15" by simp
      moreover have "\<not> bit (drop_bit 1 crc) 15" by (auto simp: bit_drop_bit_eq dest: bit_imp_le_length)
      ultimately show "bit ((drop_bit 1 crc XOR 0x2001) OR (push_bit 15 1 :: i16)) n
          = bit ((drop_bit 1 crc XOR 0x2001) XOR push_bit 15 1) n"
        unfolding bit_or_iff bit_xor_iff bit_push_bit_iff bit_1_iff using n by (cases "n = 15") auto
    qed
    ultimately show ?thesis by (simp add: xor.assoc)
  qed
  have lo: "drop_bit 1 crc AND 0x7FFF = (drop_bit 1 crc :: i16)"
  proof -
    have "(0x7FFF :: i16) = mask 15" by (simp add: mask_eq_exp_minus_1)
    moreover have "take_bit 15 (drop_bit 1 crc) = drop_bit 1 crc"
      by (rule bit_word_eqI) (auto simp: bit_simps dest: bit_imp_le_length)
    ultimately show ?thesis by (simp add: take_bit_eq_mask)
  qed
  show ?thesis using hi lo by (auto simp: crc_round_def Let_def x)
qed

text \<open>The rounds are additive over the bits: the state after them is linear in data and CRC.\<close>

definition xor2 :: "i8 \<times> i16 \<Rightarrow> i8 \<times> i16 \<Rightarrow> i8 \<times> i16" where
  "xor2 x y = (fst x XOR fst y, snd x XOR snd y)"

lemma crc_round_xor: "crc_round (xor2 x y) = xor2 (crc_round x) (crc_round y)"
proof -
  have "drop_bit 1 (a XOR b) = drop_bit 1 a XOR drop_bit 1 b" for a b :: "'a :: len word"
    by (rule drop_bit_xor)
  then show ?thesis
    by (cases x; cases y)
      (auto simp: crc_round_shift xor2_def bit_xor_iff xor.assoc xor.left_commute xor.commute)
qed

lemma crc_rounds_xor: "crc_rounds n (xor2 x y) = xor2 (crc_rounds n x) (crc_rounds n y)"
  by (induction n arbitrary: x y) (simp_all add: crc_round_xor)

lemma crcu8_xor: "crcu8 (a XOR b) (c XOR d) = crcu8 a c XOR crcu8 b d"
  using crc_rounds_xor [of 8 "(a, c)" "(b, d)"] by (simp add: crcu8_def xor2_def)

lemma crcu16_xor: "crcu16 (a XOR b) (c XOR d) = crcu16 a c XOR crcu16 b d"
proof -
  have "ucast (a XOR b) = (ucast a XOR ucast b :: i8)" for a b :: i16
    by (rule bit_word_eqI) (simp add: bit_simps)
  then show ?thesis by (simp add: crcu16_def crcu8_xor drop_bit_xor)
qed

text \<open>With no data bits left the rounds are a shift with feedback; it loses nothing.\<close>

lemma crc_round_inj_crc: "crc_round (d, c) = crc_round (d, c') \<Longrightarrow> c = c'"
proof -
  assume e: "crc_round (d, c) = crc_round (d, c')"
  have fb: "bit (drop_bit 1 c XOR (if b then 0xA001 else 0)) 15 = b" for c :: i16 and b
    by (auto simp: bit_xor_iff bit_drop_bit_eq dest: bit_imp_le_length)
  have eq: "drop_bit 1 c XOR (if bit d 0 \<noteq> bit c 0 then 0xA001 else 0)
      = drop_bit 1 c' XOR (if bit d 0 \<noteq> bit c' 0 then 0xA001 else (0 :: i16))"
    using e by (simp add: crc_round_shift)
  then have b0: "bit c 0 = bit c' 0"
    using fb [of c "bit d 0 \<noteq> bit c 0"] fb [of c' "bit d 0 \<noteq> bit c' 0"] by auto
  have sh: "drop_bit 1 c = drop_bit 1 c'"
  proof -
    define k :: i16 where "k = (if bit d 0 \<noteq> bit c 0 then 0xA001 else 0)"
    have "(drop_bit 1 c XOR k) XOR k = (drop_bit 1 c' XOR k) XOR k" using eq b0 by (simp add: k_def)
    then show ?thesis by (simp add: xor.assoc)
  qed
  have "bit c n = bit c' n" for n
    using b0 arg_cong [OF sh, of "\<lambda>w. bit w (n - 1)"] by (cases n) (auto simp: bit_drop_bit_eq)
  then show "c = c'" by (simp add: bit_eq_iff)
qed

lemma crc_rounds_inj_crc: "crc_rounds n (d, c) = crc_rounds n (d, c') \<Longrightarrow> c = c'"
proof (induction n arbitrary: d c c')
  case (Suc n)
  then have "crc_rounds n (drop_bit 1 d, snd (crc_round (d, c))) = crc_rounds n (drop_bit 1 d, snd (crc_round (d, c')))"
    by (simp add: crc_round_shift)
  then have "snd (crc_round (d, c)) = snd (crc_round (d, c'))" by (rule Suc.IH)
  then have "crc_round (d, c) = crc_round (d, c')" by (simp add: crc_round_shift)
  then show ?case by (rule crc_round_inj_crc)
qed simp

lemma crc_rounds_data: "fst (crc_rounds n (d, c)) = drop_bit n d"
  by (induction n arbitrary: d c) (simp_all add: crc_round_shift)

lemma crcu8_inj_crc: "crcu8 d c = crcu8 d c' \<longleftrightarrow> c = c'"
proof
  assume "crcu8 d c = crcu8 d c'"
  then have "crc_rounds 8 (d, c) = crc_rounds 8 (d, c')"
    by (simp add: crcu8_def prod_eq_iff crc_rounds_data)
  then show "c = c'" by (rule crc_rounds_inj_crc)
qed simp

text \<open>Feeding a byte is the same as adding it to the low half of the CRC and feeding zero.\<close>

lemma crc_round_feed: "crc_round (d, c) = (drop_bit 1 d, snd (crc_round (0, c XOR of_bool (bit d 0))))"
  by (auto simp: crc_round_shift bit_xor_iff drop_bit_xor)

lemma crc_rounds_feed:
  "snd (crc_rounds n (d, c)) = snd (crc_rounds n (0, c XOR ucast (take_bit n d)))"
proof (induction n arbitrary: d c)
  case 0
  then show ?case by simp
next
  case (Suc n)
  let ?c = "snd (crc_round (d, c))"
  have fst: "crc_round (d, c) = (drop_bit 1 d, ?c)" by (simp add: crc_round_shift)
  have sh: "drop_bit 1 (ucast (take_bit (Suc n) d) :: i16) = ucast (take_bit n (drop_bit 1 d))"
    by (rule bit_word_eqI) (auto simp: bit_simps dest: bit_imp_le_length)
  have b0: "bit (ucast (take_bit (Suc n) d) :: i16) 0 = bit d 0"
    by (simp only: bit_ucast_iff bit_take_bit_iff) auto
  have "crc_round (0, c XOR ucast (take_bit (Suc n) d)) = (0, ?c XOR ucast (take_bit n (drop_bit 1 d)))"
    unfolding crc_round_shift drop_bit_xor sh bit_xor_iff b0
    by (auto simp: xor.assoc xor.left_commute xor.commute)
  then show ?case using Suc.IH [of "drop_bit 1 d" ?c] fst by simp
qed

lemma crcu8_feed: "crcu8 d c = crcu8 0 (c XOR ucast d)"
  using crc_rounds_feed [of 8 d c] take_bit_length_eq [of d] by (simp add: crcu8_def)

lemma crc_rounds_high: "n \<le> 8 \<Longrightarrow> crc_rounds n (0, push_bit 8 (ucast (h :: i8))) = (0, drop_bit n (push_bit 8 (ucast h)))"
proof (induction n)
  case (Suc n)
  have split: "crc_rounds (Suc m) x = crc_round (crc_rounds m x)" for m x
    by (induction m arbitrary: x) auto
  have "\<not> bit (drop_bit n (push_bit 8 (ucast h :: i16))) 0"
    using Suc.prems by (simp add: bit_simps)
  then show ?case using Suc unfolding split by (simp add: crc_round_shift drop_bit_drop_bit del: crc_rounds.simps)
qed simp

lemma crcu8_high: "crcu8 0 (push_bit 8 (ucast (h :: i8))) = ucast h"
  using crc_rounds_high [of 8 h] by (simp add: crcu8_def) (rule bit_word_eqI, auto simp: bit_simps dest: bit_imp_le_length)

lemma halves16: "(v :: i16) = ucast (ucast v :: i8) XOR push_bit 8 (ucast (ucast (drop_bit 8 v) :: i8))"
  by (rule bit_word_eqI) (auto simp: bit_simps)

lemma crcu16_rounds: "crcu16 v c = crcu8 0 (crcu8 0 (c XOR v))"
proof -
  let ?hi = "ucast (drop_bit 8 v) :: i8"
  have "crcu16 v c = crcu8 0 (crcu8 0 (c XOR ucast (ucast v :: i8)) XOR ucast ?hi)"
    unfolding crcu16_def crcu8_feed [of ?hi] crcu8_feed [of "ucast v"] ..
  also have "ucast ?hi = crcu8 0 (push_bit 8 (ucast ?hi))" by (simp add: crcu8_high)
  also have "crcu8 0 (c XOR ucast (ucast v :: i8)) XOR crcu8 0 (push_bit 8 (ucast ?hi)) = crcu8 0 (c XOR v)"
    using crcu8_xor [of 0 0 "c XOR ucast (ucast v :: i8)" "push_bit 8 (ucast ?hi)"] halves16 [of v]
    by (simp add: xor.assoc)
  finally show ?thesis .
qed

section \<open>Properties\<close>

text \<open>
  The eight rounds of \<open>crcu8\<close> are one step of the table-driven CRC: the high byte of the CRC
  moves down and is combined with the table entry of the low byte combined with the data.
\<close>

theorem crcu8_table: "crcu8 data crc = drop_bit 8 crc XOR crcu8 (data XOR ucast crc) 0"
proof -
  let ?lo = "ucast crc :: i8" and ?hi = "ucast (drop_bit 8 crc) :: i8"
  have "crcu8 data crc = crcu8 (data XOR ?lo) 0 XOR crcu8 0 (push_bit 8 (ucast ?hi))"
  proof -
    have "crcu8 data crc = crcu8 0 ((ucast ?lo XOR push_bit 8 (ucast ?hi)) XOR ucast data)"
      by (simp only: crcu8_feed [of data crc] halves16 [of crc, symmetric])
    also have "\<dots> = crcu8 0 (ucast (data XOR ?lo)) XOR crcu8 0 (push_bit 8 (ucast ?hi))"
    proof -
      have u: "(ucast (data XOR ?lo) :: i16) = ucast data XOR ucast ?lo"
        by (rule bit_word_eqI) (auto simp: bit_simps)
      show ?thesis
        using crcu8_xor [of 0 0 "ucast (data XOR ?lo)" "push_bit 8 (ucast ?hi)"] unfolding u
        by (simp add: xor.assoc xor.left_commute xor.commute)
    qed
    also have "crcu8 0 (ucast (data XOR ?lo)) = crcu8 (data XOR ?lo) 0" using crcu8_feed [of "data XOR ?lo" 0] by simp
    finally show ?thesis .
  qed
  moreover have "ucast ?hi = drop_bit 8 crc" by (rule bit_word_eqI) (auto simp: bit_simps dest: bit_imp_le_length)
  ultimately show ?thesis using crcu8_high [of ?hi] by (simp only: xor.commute)
qed

section \<open>The polynomial\<close>

text \<open>
  The reference: division of polynomials over the field of two elements, on lists of coefficients, highest first.
  \<open>crc_generator\<close> is \<open>x^16 + x^15 + x^2 + 1\<close> without its leading term; \<open>gf2_rem\<close> is schoolbook division, which drops the
  leading term and, if it is not zero, subtracts the generator below it, until sixteen coefficients are left.
\<close>

definition crc_generator :: "bool list" where
  "crc_generator = [True] @ replicate 12 False @ [True, False, True]"

fun add_front :: "bool list \<Rightarrow> bool list \<Rightarrow> bool list" where
  "add_front (x # xs) (y # ys) = (x \<noteq> y) # add_front xs ys"
| "add_front xs ys = ys"

lemma length_add_front [simp]: "length (add_front xs ys) = length ys"
  by (induction xs ys rule: add_front.induct) auto

function gf2_rem :: "bool list \<Rightarrow> bool list" where
  "gf2_rem [] = []"
| "gf2_rem (b # bs) = (if length bs < 16 then b # bs else gf2_rem (if b then add_front crc_generator bs else bs))"
  by pat_completeness auto
termination by (relation "measure length") auto

text \<open>
  The polynomial of a message: the bits of its bytes, the least significant one of each first, multiplied by \<open>x^16\<close>; the
  start value is added to the leading sixteen bits.
\<close>

definition crc_message :: "i16 \<Rightarrow> i8 list \<Rightarrow> bool list" where
  "crc_message crc msg = add_front (map (bit crc) [0..<16]) (concat (map (\<lambda>b. map (bit b) [0..<8]) msg) @ replicate 16 False)"

definition crc_bit :: "bool \<Rightarrow> i16 \<Rightarrow> i16" where
  "crc_bit m crc = drop_bit 1 crc XOR (if m \<noteq> bit crc 0 then 0xA001 else 0)"

lemma crc_rounds_bits: "snd (crc_rounds n (d, c)) = fold crc_bit (map (bit d) [0..<n]) c"
proof (induction n arbitrary: d c)
  case (Suc n)
  have "map (bit d) [0..<Suc n] = bit d 0 # map (bit (drop_bit 1 d)) [0..<n]"
    by (simp add: upt_conv_Cons map_Suc_upt [symmetric] bit_drop_bit_eq comp_def del: upt_Suc)
  then show ?case by (simp add: Suc.IH crc_round_shift crc_bit_def del: upt_Suc)
qed simp

lemma crcu8_bits: "crcu8 d c = fold crc_bit (map (bit d) [0..<8]) c"
  by (simp only: crcu8_def crc_rounds_bits)

lemma add_front_twice: "length u = length v \<Longrightarrow> length v \<le> length ys \<Longrightarrow> add_front u (add_front v ys) = add_front (map2 (\<noteq>) u v) ys"
proof (induction u v arbitrary: ys rule: list_induct2)
  case (Cons x u y v)
  then show ?case by (cases ys) auto
qed simp

lemma add_front_last: "length xs < length ys \<Longrightarrow> add_front (xs @ [False]) ys = add_front xs ys"
proof (induction xs arbitrary: ys)
  case Nil
  then show ?case by (cases ys) auto
next
  case (Cons x xs)
  then show ?case by (cases ys) auto
qed

lemma add_front_zero: "add_front xs (replicate (length xs) False) = xs"
  by (induction xs) auto

lemma bits_xor: "map (bit (a XOR b)) [0..<n] = map2 (\<noteq>) (map (bit a) [0..<n]) (map (bit b) [0..<n])"
  for a b :: "'a :: len word"
  by (simp add: bit_xor_iff zip_map_map zip_same_conv_map)

lemma generator_bits: "map (bit (0xA001 :: i16)) [0..<16] = crc_generator"
  by (simp add: crc_generator_def upt_rec numeral_eq_Suc)

lemma gf2_rem_bits:
  "gf2_rem (add_front (map (bit c) [0..<16]) (ms @ replicate 16 False)) = map (bit (fold crc_bit ms c)) [0..<16]"
proof (induction ms arbitrary: c)
  case Nil
  have "add_front (map (bit c) [0..<16]) (replicate 16 False) = map (bit c) [0..<16]"
    using add_front_zero [of "map (bit c) [0..<16]"] by simp
  also have "\<dots> = bit c 0 # map (bit c) [1..<16]" by (simp add: upt_conv_Cons)
  finally show ?case by (simp add: upt_conv_Cons)
next
  case (Cons m ms)
  let ?zs = "ms @ replicate 16 False" and ?s = "map (bit (drop_bit 1 c)) [0..<16]"
  have e: "map (bit c) [0..<16] = bit c 0 # map (bit c) [1..<16]" by (simp add: upt_conv_Cons)
  have "[0..<16] = [0..<15] @ [15 :: nat]" by (simp add: upt_rec numeral_eq_Suc)
  moreover have "map (bit c) [1..<16] = map (bit (drop_bit 1 c)) [0..<15]"
    by (intro nth_equalityI) (auto simp: bit_drop_bit_eq)
  moreover have "\<not> bit (drop_bit 1 c) 15" by (auto simp: bit_drop_bit_eq dest: bit_imp_le_length)
  ultimately have s: "?s = map (bit c) [1..<16] @ [False]" by simp
  have f: "add_front (map (bit c) [1..<16]) ?zs = add_front ?s ?zs"
    unfolding s by (rule add_front_last [symmetric]) simp
  have "add_front crc_generator (add_front ?s ?zs) = add_front (map (bit (drop_bit 1 c XOR 0xA001)) [0..<16]) ?zs"
    unfolding generator_bits [symmetric] bits_xor
    by (subst add_front_twice) (auto intro!: arg_cong [of _ _ "\<lambda>x. add_front x ?zs"] nth_equalityI)
  then have "gf2_rem (add_front (map (bit c) [0..<16]) (m # ?zs)) = gf2_rem (add_front (map (bit (crc_bit m c)) [0..<16]) ?zs)"
    unfolding e by (auto simp: f [unfolded One_nat_def] crc_bit_def)
  then show ?case using Cons.IH [of "crc_bit m c"] by simp
qed

text \<open>
  C40: \<open>crcu8\<close>, run over the bytes of any message from any start value, computes the CRC of the polynomial
  \<open>x^16 + x^15 + x^2 + 1\<close> in the reflected bit order: its result is the remainder of the message, multiplied by \<open>x^16\<close>, with
  the start value added in front, and bit 0 of the result is the coefficient of \<open>x^15\<close>.
\<close>

theorem crcu8_remainder:
  "map (bit (fold crcu8 msg crc)) [0..<16] = gf2_rem (crc_message crc msg)"
proof -
  have "fold crcu8 msg crc = fold crc_bit (concat (map (\<lambda>b. map (bit b) [0..<8]) msg)) crc" for crc
    by (induction msg arbitrary: crc) (simp_all add: crcu8_bits del: upt_Suc)
  then show ?thesis unfolding crc_message_def gf2_rem_bits by simp
qed

text \<open>
  The CRC of a 16-bit value depends only on the value combined with the CRC before, and is a
  bijection of that: two different values never give the same CRC from the same start, and a
  difference in the CRC is never lost by feeding the same value to both.
\<close>

theorem crcu16_bijective: "crcu16 v c = crcu16 w d \<longleftrightarrow> v XOR c = w XOR d"
proof -
  have "crcu16 v c = crcu16 w d \<longleftrightarrow> c XOR v = d XOR w"
    unfolding crcu16_rounds by (simp add: crcu8_inj_crc)
  then show ?thesis by (simp add: xor.commute)
qed

text \<open>
  \<open>crcu32\<close> feeds the four bytes of its value, least significant first, to \<open>crcu8\<close>.
\<close>

theorem crcu32_bytes:
  "crcu32 v c = fold crcu8 (map (\<lambda>k. ucast (drop_bit (8 * k) v)) [0, 1, 2, 3]) c"
proof -
  have "(ucast (ucast v :: i16) :: i8) = ucast v" "(ucast (drop_bit 8 (ucast v :: i16)) :: i8) = ucast (drop_bit 8 v)"
    "(ucast (ucast (drop_bit 16 v) :: i16) :: i8) = ucast (drop_bit 16 v)"
    "(ucast (drop_bit 8 (ucast (drop_bit 16 v) :: i16)) :: i8) = ucast (drop_bit 24 v)"
    by (rule bit_word_eqI; auto simp: bit_simps)+
  then show ?thesis by (simp add: crcu32_def crc16_def crcu16_def)
qed

end
