(* ===== verification/StateMachine.thy ===== *)
theory StateMachine
  imports Crc
begin

text \<open>
  \<open>coremark/core_state.c\<close>: the state machine that classifies comma-separated tokens as numbers, the
  initialisation of its input, and the benchmark that runs it twice, over the input and over the
  input with some bytes changed. The memory block is a list of bytes; \<open>None\<close> is an access outside
  it or a loop that does not end.
\<close>

section \<open>The code\<close>

datatype core_state_e = CORE_START | CORE_INVALID | CORE_S1 | CORE_S2 | CORE_INT | CORE_FLOAT
  | CORE_EXPONENT | CORE_SCIENTIFIC

type_synonym counts = "core_state_e \<Rightarrow> i32"

definition core_states :: "core_state_e list" where
  "core_states = [CORE_START, CORE_INVALID, CORE_S1, CORE_S2, CORE_INT, CORE_FLOAT, CORE_EXPONENT, CORE_SCIENTIFIC]"

definition inc :: "core_state_e \<Rightarrow> counts \<Rightarrow> counts" where
  "inc s cnt = cnt(s := cnt s + 1)"

definition ee_isdigit :: "i8 \<Rightarrow> bool" where
  "ee_isdigit c \<longleftrightarrow> 0x30 \<le> c \<and> c \<le> 0x39"

definition is_sign :: "i8 \<Rightarrow> bool" where
  "is_sign c \<longleftrightarrow> c = 0x2B \<or> c = 0x2D"

definition is_e :: "i8 \<Rightarrow> bool" where
  "is_e c \<longleftrightarrow> c = 0x45 \<or> c = 0x65"

abbreviation (input) dot :: i8 where "dot \<equiv> 0x2E"
abbreviation (input) comma :: i8 where "comma \<equiv> 0x2C"

text \<open>The \<open>switch\<close> of \<open>core_state_transition\<close>: the next state and the counters.\<close>

fun state_step :: "core_state_e \<Rightarrow> i8 \<Rightarrow> counts \<Rightarrow> core_state_e \<times> counts" where
  "state_step CORE_START c cnt =
     (if ee_isdigit c then (CORE_INT, inc CORE_START cnt)
      else if is_sign c then (CORE_S1, inc CORE_START cnt)
      else if c = dot then (CORE_FLOAT, inc CORE_START cnt)
      else (CORE_INVALID, inc CORE_START (inc CORE_INVALID cnt)))"
| "state_step CORE_S1 c cnt =
     (if ee_isdigit c then (CORE_INT, inc CORE_S1 cnt)
      else if c = dot then (CORE_FLOAT, inc CORE_S1 cnt)
      else (CORE_INVALID, inc CORE_S1 cnt))"
| "state_step CORE_INT c cnt =
     (if c = dot then (CORE_FLOAT, inc CORE_INT cnt)
      else if \<not> ee_isdigit c then (CORE_INVALID, inc CORE_INT cnt)
      else (CORE_INT, cnt))"
| "state_step CORE_FLOAT c cnt =
     (if is_e c then (CORE_S2, inc CORE_FLOAT cnt)
      else if \<not> ee_isdigit c then (CORE_INVALID, inc CORE_FLOAT cnt)
      else (CORE_FLOAT, cnt))"
| "state_step CORE_S2 c cnt =
     (if is_sign c then (CORE_EXPONENT, inc CORE_S2 cnt) else (CORE_INVALID, inc CORE_S2 cnt))"
| "state_step CORE_EXPONENT c cnt =
     (if ee_isdigit c then (CORE_SCIENTIFIC, inc CORE_EXPONENT cnt) else (CORE_INVALID, inc CORE_EXPONENT cnt))"
| "state_step CORE_SCIENTIFIC c cnt =
     (if \<not> ee_isdigit c then (CORE_INVALID, inc CORE_INVALID cnt) else (CORE_SCIENTIFIC, cnt))"
| "state_step CORE_INVALID c cnt = (CORE_INVALID, cnt)"

text \<open>The \<open>for\<close> loop; \<open>str\<close> is the index of the pointer.\<close>

function transition_loop :: "i8 list \<Rightarrow> nat \<Rightarrow> core_state_e \<Rightarrow> counts \<Rightarrow> (core_state_e \<times> nat \<times> counts) option" where
  "transition_loop mem str state cnt =
     (case rd mem str of
        None \<Rightarrow> None
      | Some c \<Rightarrow>
          if c = 0 \<or> state = CORE_INVALID then Some (state, str, cnt)
          else if c = comma then Some (state, str + 1, cnt)
          else (case state_step state c cnt of (state', cnt') \<Rightarrow> transition_loop mem (str + 1) state' cnt'))"
  by pat_completeness auto
termination
  by (relation "measure (\<lambda>(mem, str, _, _). length mem - str)") (auto simp: rd_def split: if_splits)

declare transition_loop.simps [simp del]

definition core_state_transition :: "i8 list \<Rightarrow> nat \<Rightarrow> counts \<Rightarrow> (core_state_e \<times> nat \<times> counts) option" where
  "core_state_transition mem str cnt = transition_loop mem str CORE_START cnt"

text \<open>The \<open>while (*p != 0)\<close> loop of \<open>core_bench_state\<close>.\<close>

partial_function (option) scan :: "i8 list \<Rightarrow> nat \<Rightarrow> counts \<times> counts \<Rightarrow> (counts \<times> counts) option" where
  "scan mem p cnts =
     Option.bind (rd mem p) (\<lambda>c.
       if c = 0 then Some cnts
       else Option.bind (core_state_transition mem p (snd cnts)) (\<lambda>(fstate, p', track).
              scan mem p' (inc fstate (fst cnts), track)))"

text \<open>
  The \<open>while (p < memblock + blksize)\<close> loop that changes every \<open>step\<close>-th byte; \<open>step\<close> is signed, a
  pointer before the block is outside the memory.
\<close>

partial_function (option) corrupt :: "nat \<Rightarrow> int \<Rightarrow> i8 \<Rightarrow> i8 list \<Rightarrow> int \<Rightarrow> i8 list option" where
  "corrupt blksize step seed mem p =
     (if int blksize \<le> p then Some mem
      else if p < 0 then None
      else Option.bind (rd mem (nat p)) (\<lambda>c.
             Option.bind (if c \<noteq> comma then wr mem (nat p) (c XOR seed) else Some mem) (\<lambda>mem.
               corrupt blksize step seed mem (p + step))))"

definition crc_counts :: "counts \<Rightarrow> counts \<Rightarrow> i16 \<Rightarrow> i16" where
  "crc_counts final track crc = fold (\<lambda>s crc. crcu32 (track s) (crcu32 (final s) crc)) core_states crc"

definition core_bench_state ::
  "nat \<Rightarrow> i8 list \<Rightarrow> i16 \<Rightarrow> i16 \<Rightarrow> i16 \<Rightarrow> i16 \<Rightarrow> (i16 \<times> i8 list) option" where
  "core_bench_state blksize memblock seed1 seed2 step crc = do {
     cnts \<leftarrow> scan memblock 0 (\<lambda>_. 0, \<lambda>_. 0);
     mem \<leftarrow> corrupt blksize (sint step) (ucast seed1) memblock 0;
     (final_counts, track_counts) \<leftarrow> scan mem 0 cnts;
     mem \<leftarrow> corrupt blksize (sint step) (ucast seed2) mem 0;
     Some (crc_counts final_counts track_counts crc, mem)
   }"

text \<open>The patterns.\<close>

definition bytes :: "string \<Rightarrow> i8 list" where
  "bytes = map of_char"

definition intpat :: "i8 list list" where
  "intpat = map bytes [''5012'', ''1234'', ''-874'', ''+122'']"

definition floatpat :: "i8 list list" where
  "floatpat = map bytes [''35.54400'', ''.1234500'', ''-110.700'', ''+0.64400'']"

definition scipat :: "i8 list list" where
  "scipat = map bytes [''5.500e+3'', ''-.123e-2'', ''-87e+832'', ''+0.6e-12'']"

definition errpat :: "i8 list list" where
  "errpat = map bytes [''T0.3e-1F'', ''-T.T++Tq'', ''1T3.4e4z'', ''34.0e-T^'']"

text \<open>The \<open>switch (seed & 0x7)\<close> of \<open>core_init_state\<close>: the pattern and its length.\<close>

definition choose_pattern :: "i16 \<Rightarrow> i8 list \<times> nat" where
  "choose_pattern seed =
     (let k = unat (seed AND 7); j = unat (signed_drop_bit 3 seed AND 3)
      in if k \<le> 2 then (intpat ! j, 4)
         else if k \<le> 4 then (floatpat ! j, 8)
         else if k \<le> 6 then (scipat ! j, 8)
         else (errpat ! j, 8))"

definition copy_bytes :: "i8 list \<Rightarrow> nat \<Rightarrow> nat \<Rightarrow> i8 list \<Rightarrow> i8 list option" where
  "copy_bytes buf n pos mem = for_loop 0 n (\<lambda>i mem. Option.bind (rd buf i) (\<lambda>b. wr mem (pos + i) b)) mem"

text \<open>The first \<open>while\<close> loop, with the decremented \<open>size\<close>.\<close>

partial_function (option) init_loop ::
  "nat \<Rightarrow> nat \<times> nat \<times> i8 list \<times> i16 \<times> i8 list \<Rightarrow> (nat \<times> i8 list) option" where
  "init_loop sz x = (case x of (tot, nxt, buf, seed, mem) \<Rightarrow>
     if tot + nxt + 1 < sz then
       Option.bind
         (if 0 < nxt then
            Option.bind (copy_bytes buf nxt tot mem) (\<lambda>mem.
              Option.bind (wr mem (tot + nxt) comma) (\<lambda>mem. Some (tot + nxt + 1, mem)))
          else Some (tot, mem))
         (\<lambda>(tot, mem). case choose_pattern (seed + 1) of (buf, nxt) \<Rightarrow>
            init_loop sz (tot, nxt, buf, seed + 1, mem))
     else Some (tot, mem))"

text \<open>For \<open>size = 0\<close> the decrement wraps to the largest \<open>ee_u32\<close>.\<close>

definition core_init_state :: "nat \<Rightarrow> i16 \<Rightarrow> i8 list \<Rightarrow> i8 list option" where
  "core_init_state sz seed p = do {
     let size1 = (if sz = 0 then 4294967295 else sz - 1);
     (tot, p) \<leftarrow> init_loop size1 (0, 0, [], seed, p);
     for_loop tot (sz - tot) (\<lambda>i p. wr p i 0) p
   }"

section \<open>Progress and termination\<close>

lemma transition_total:
  assumes "z < length mem" "mem ! z = 0" "str \<le> z"
  shows "\<exists>s p c. transition_loop mem str st cnt = Some (s, p, c) \<and> str \<le> p \<and> p \<le> z
    \<and> (mem ! str \<noteq> 0 \<longrightarrow> st \<noteq> CORE_INVALID \<longrightarrow> str < p)"
  using assms
proof (induction mem str st cnt rule: transition_loop.induct)
  case (1 mem str st cnt)
  have r: "rd mem str = Some (mem ! str)" using 1 by simp
  show ?case
  proof (cases "mem ! str = 0 \<or> st = CORE_INVALID")
    case True
    with r 1 show ?thesis by (subst transition_loop.simps) auto
  next
    case False
    then have z: "str + 1 \<le> z" using 1 by (cases "str = z") auto
    show ?thesis
    proof (cases "mem ! str = comma")
      case True
      with r False z show ?thesis by (subst transition_loop.simps) auto
    next
      case nc: False
      obtain st' cnt' where s: "state_step st (mem ! str) cnt = (st', cnt')" by fastforce
      obtain s p c where "transition_loop mem (str + 1) st' cnt' = Some (s, p, c)" "str + 1 \<le> p" "p \<le> z"
        using "1.IH" [OF r False nc s [symmetric] "1.prems"(1,2) z] by blast
      with r False nc s show ?thesis by (subst transition_loop.simps) auto
    qed
  qed
qed

lemma scan_total:
  assumes "z < length mem" "mem ! z = 0" "p \<le> z"
  shows "\<exists>r. scan mem p cnts = Some r"
  using assms(3)
proof (induction "z - p" arbitrary: p cnts rule: less_induct)
  case less
  have r: "rd mem p = Some (mem ! p)" using assms less.prems by simp
  show ?case
  proof (cases "mem ! p = 0")
    case True
    with r show ?thesis by (subst scan.simps) simp
  next
    case False
    obtain s p' c where t: "core_state_transition mem p (snd cnts) = Some (s, p', c)" "p < p'" "p' \<le> z"
      using transition_total [OF assms(1,2) less.prems, of CORE_START "snd cnts"] False
      by (auto simp: core_state_transition_def)
    then have "z - p' < z - p" by linarith
    with t obtain r' where "scan mem p' (inc s (fst cnts), c) = Some r'"
      using less.hyps [of p' "(inc s (fst cnts), c)"] less.prems by auto
    with r t False show ?thesis by (subst scan.simps) simp
  qed
qed

section \<open>The changed bytes\<close>

definition flipped :: "nat \<Rightarrow> int \<Rightarrow> i8 \<Rightarrow> nat \<Rightarrow> i8 list \<Rightarrow> i8 list" where
  "flipped blksize step seed p mem = map (\<lambda>i.
     if p \<le> i \<and> i < blksize \<and> step dvd (int i - int p) \<and> mem ! i \<noteq> comma then mem ! i XOR seed else mem ! i)
     [0..<length mem]"

lemma length_flipped [simp]: "length (flipped blksize step seed p mem) = length mem"
  by (simp add: flipped_def)

lemma flipped_nth: "i < length mem \<Longrightarrow> flipped blksize step seed p mem ! i =
    (if p \<le> i \<and> i < blksize \<and> step dvd (int i - int p) \<and> mem ! i \<noteq> comma then mem ! i XOR seed else mem ! i)"
  by (simp add: flipped_def)

lemma corrupt_flipped:
  assumes "0 < step" "blksize \<le> length mem"
  shows "corrupt blksize step seed mem (int p) = Some (flipped blksize step seed p mem)"
  using assms(2)
proof (induction "blksize - p" arbitrary: p mem rule: less_induct)
  case less
  show ?case
  proof (cases "blksize \<le> p")
    case True
    then have "flipped blksize step seed p mem = mem" by (intro nth_equalityI) (auto simp: flipped_nth)
    with True show ?thesis by (subst corrupt.simps) simp
  next
    case False
    define mem1 where "mem1 = (if mem ! p \<noteq> comma then mem[p := mem ! p XOR seed] else mem)"
    have p: "p < length mem" using False less.prems by simp
    have "corrupt blksize step seed mem (int p) = corrupt blksize step seed mem1 (int (p + nat step))"
      using False p assms(1) by (subst corrupt.simps) (simp add: mem1_def)
    also have "\<dots> = Some (flipped blksize step seed (p + nat step) mem1)"
      using less.hyps [of "p + nat step" mem1] less.prems False assms(1) by (simp add: mem1_def)
    also have "flipped blksize step seed (p + nat step) mem1 = flipped blksize step seed p mem"
    proof (rule nth_equalityI)
      show l: "length (flipped blksize step seed (p + nat step) mem1) = length (flipped blksize step seed p mem)"
        by (simp add: mem1_def)
      fix i assume "i < length (flipped blksize step seed (p + nat step) mem1)"
      then have i: "i < length mem" "i < length mem1" by (simp_all add: mem1_def split: if_splits)
      show "flipped blksize step seed (p + nat step) mem1 ! i = flipped blksize step seed p mem ! i"
      proof (cases "i = p")
        case True
        then show ?thesis using i p False assms(1) by (simp add: flipped_nth mem1_def)
      next
        case ne: False
        have "mem1 ! i = mem ! i" using ne by (simp add: mem1_def)
        moreover have "p + nat step \<le> i \<and> step dvd (int i - int (p + nat step)) \<longleftrightarrow> p \<le> i \<and> step dvd (int i - int p)"
        proof -
          have e: "int i - int (p + nat step) = (int i - int p) - step" using assms(1) by simp
          have "step dvd (int i - int (p + nat step)) \<longleftrightarrow> step dvd (int i - int p)"
            unfolding e using dvd_add_left_iff [of step step "int i - int p - step"] by simp
          moreover have "p + nat step \<le> i" if "p \<le> i" "step dvd (int i - int p)"
            using zdvd_imp_le [OF that(2)] that(1) ne assms(1) by linarith
          ultimately show ?thesis by auto
        qed
        ultimately show ?thesis using i by (auto simp: flipped_nth)
      qed
    qed
    finally show ?thesis .
  qed
qed

lemma flipped_twice:
  assumes "\<And>i. i < blksize \<Longrightarrow> mem ! i \<noteq> comma XOR seed \<or> seed = 0"
  shows "flipped blksize step seed p (flipped blksize step seed p mem) = mem"
proof (rule nth_equalityI)
  fix i assume "i < length (flipped blksize step seed p (flipped blksize step seed p mem))"
  then have i: "i < length mem" by simp
  have "mem ! i XOR seed \<noteq> comma" if "mem ! i \<noteq> comma" "i < blksize"
  proof
    assume "mem ! i XOR seed = comma"
    then have "mem ! i = comma XOR seed" by (metis xor.right_neutral xor_self_eq xor.assoc)
    with assms [OF that(2)] that(1) show False by auto
  qed
  with i show "flipped blksize step seed p (flipped blksize step seed p mem) ! i = mem ! i"
    by (auto simp: flipped_nth xor.assoc)
qed simp

section \<open>What the machine recognises\<close>

fun run :: "core_state_e \<Rightarrow> i8 list \<Rightarrow> core_state_e" where
  "run st [] = st"
| "run st (c # w) = run (fst (state_step st c (\<lambda>_. 0))) w"

lemma state_step_counts: "fst (state_step st c cnt) = fst (state_step st c (\<lambda>_. 0))"
  by (cases st) auto

lemma run_append: "run st (u @ w) = run (run st u) w"
  by (induction u arbitrary: st) auto

lemma run_invalid [simp]: "run CORE_INVALID w = CORE_INVALID"
  by (induction w) auto

lemma transition_run:
  assumes "mem = pre @ w @ e # post" "e = 0 \<or> e = comma" "\<And>c. c \<in> set w \<Longrightarrow> c \<noteq> 0 \<and> c \<noteq> comma"
  shows "\<exists>p cnt'. transition_loop mem (length pre) st cnt = Some (run st w, p, cnt')
    \<and> (run st w \<noteq> CORE_INVALID \<longrightarrow> p = length pre + length w + (if e = comma then 1 else 0))"
  using assms
proof (induction w arbitrary: pre st cnt)
  case Nil
  then have "rd mem (length pre) = Some e" by simp
  then show ?case using Nil by (subst transition_loop.simps) auto
next
  case (Cons c w)
  then have r: "rd mem (length pre) = Some c" "c \<noteq> 0" "c \<noteq> comma" by simp_all
  show ?case
  proof (cases "st = CORE_INVALID")
    case True
    with r show ?thesis by (subst transition_loop.simps) auto
  next
    case False
    obtain st' cnt' where s: "state_step st c cnt = (st', cnt')" by fastforce
    have st': "st' = fst (state_step st c (\<lambda>_. 0))" using state_step_counts [of st c cnt] s by simp
    have "transition_loop mem (length pre) st cnt = transition_loop mem (length (pre @ [c])) st' cnt'"
      using r False s by (subst transition_loop.simps) simp
    then show ?thesis
      using Cons.IH [of "pre @ [c]" st' cnt'] Cons.prems st' by simp
  qed
qed

definition digits :: "i8 list \<Rightarrow> bool" where
  "digits w \<longleftrightarrow> (\<forall>c \<in> set w. ee_isdigit c)"

definition opt_sign :: "i8 list \<Rightarrow> bool" where
  "opt_sign w \<longleftrightarrow> w = [] \<or> (\<exists>c. w = [c] \<and> is_sign c)"

definition integer_token :: "i8 list \<Rightarrow> bool" where
  "integer_token w \<longleftrightarrow> (\<exists>s d. w = s @ d \<and> opt_sign s \<and> digits d \<and> d \<noteq> [])"

definition float_token :: "i8 list \<Rightarrow> bool" where
  "float_token w \<longleftrightarrow> (\<exists>s a b. w = s @ a @ dot # b \<and> opt_sign s \<and> digits a \<and> digits b)"

definition scientific_token :: "i8 list \<Rightarrow> bool" where
  "scientific_token w \<longleftrightarrow> (\<exists>m e s d. w = m @ e # s # d \<and> float_token m \<and> is_e e \<and> is_sign s \<and> digits d \<and> d \<noteq> [])"

definition number_token :: "i8 list \<Rightarrow> bool" where
  "number_token w \<longleftrightarrow> integer_token w \<or> float_token w \<or> scientific_token w"

lemma sign_class: "is_sign c \<Longrightarrow> \<not> ee_isdigit c \<and> c \<noteq> dot"
  by (auto simp: ee_isdigit_def is_sign_def word_le_nat_alt)

lemma e_class: "is_e c \<Longrightarrow> \<not> ee_isdigit c"
  by (auto simp: ee_isdigit_def is_e_def word_le_nat_alt)

lemma digit_class: "ee_isdigit c \<Longrightarrow> \<not> is_e c \<and> c \<noteq> dot"
  by (auto simp: ee_isdigit_def is_e_def word_le_nat_alt)

lemma dot_class [simp]: "\<not> ee_isdigit dot" "\<not> is_sign dot" "\<not> is_e dot"
  by (simp_all add: ee_isdigit_def is_sign_def is_e_def word_le_nat_alt)

lemma digits_Cons: "digits (c # d) \<longleftrightarrow> ee_isdigit c \<and> digits d"
  by (auto simp: digits_def)

lemma run_digits:
  "digits d \<Longrightarrow> run CORE_INT d = CORE_INT" "digits d \<Longrightarrow> run CORE_FLOAT d = CORE_FLOAT"
  "digits d \<Longrightarrow> run CORE_SCIENTIFIC d = CORE_SCIENTIFIC"
  by (induction d) (auto simp: digits_Cons dest: digit_class)

lemma run_sign: "opt_sign s \<Longrightarrow> run CORE_START s = (if s = [] then CORE_START else CORE_S1)"
  by (auto simp: opt_sign_def dest: sign_class)

lemma run_sign_digits:
  assumes "opt_sign s" "digits d" "d \<noteq> []"
  shows "run CORE_START (s @ d) = CORE_INT"
proof -
  obtain c d' where d: "d = c # d'" "ee_isdigit c" "digits d'" using assms(2,3) by (cases d) (auto simp: digits_Cons)
  then show ?thesis unfolding run_append run_sign [OF assms(1)] by (simp add: run_digits)
qed

lemma run_float: "float_token w \<Longrightarrow> run CORE_START w = CORE_FLOAT"
proof -
  assume "float_token w"
  then obtain s a b where w: "w = s @ a @ dot # b" "opt_sign s" "digits a" "digits b" unfolding float_token_def by blast
  show ?thesis
  proof (cases "a = []")
    case True
    then show ?thesis unfolding w(1) run_append run_sign [OF w(2)] by (simp add: run_digits w(4))
  next
    case False
    have "run CORE_START (s @ a) = CORE_INT" by (rule run_sign_digits [OF w(2,3) False])
    then show ?thesis unfolding w(1) append_assoc [symmetric] run_append [of _ "s @ a"] by (simp add: run_digits w(4))
  qed
qed

lemma run_scientific: "scientific_token w \<Longrightarrow> run CORE_START w = CORE_SCIENTIFIC"
proof -
  assume "scientific_token w"
  then obtain m e s d where w: "w = m @ e # s # d" "float_token m" "is_e e" "is_sign s" "digits d" "d \<noteq> []"
    unfolding scientific_token_def by blast
  then obtain c d' where d: "d = c # d'" "ee_isdigit c" "digits d'" by (cases d) (auto simp: digits_Cons)
  then show ?thesis unfolding w(1) run_append run_float [OF w(2)] using w(3,4) by (simp add: run_digits)
qed

text \<open>The tokens of each state, and the proof that each state is reached by these only.\<close>

fun lang :: "core_state_e \<Rightarrow> i8 list \<Rightarrow> bool" where
  "lang CORE_START w \<longleftrightarrow> w = []"
| "lang CORE_S1 w \<longleftrightarrow> (\<exists>c. w = [c] \<and> is_sign c)"
| "lang CORE_INT w \<longleftrightarrow> integer_token w"
| "lang CORE_FLOAT w \<longleftrightarrow> float_token w"
| "lang CORE_S2 w \<longleftrightarrow> (\<exists>m e. w = m @ [e] \<and> float_token m \<and> is_e e)"
| "lang CORE_EXPONENT w \<longleftrightarrow> (\<exists>m e s. w = m @ [e, s] \<and> float_token m \<and> is_e e \<and> is_sign s)"
| "lang CORE_SCIENTIFIC w \<longleftrightarrow> scientific_token w"
| "lang CORE_INVALID w \<longleftrightarrow> True"

lemma integer_snoc: "integer_token w \<Longrightarrow> ee_isdigit c \<Longrightarrow> integer_token (w @ [c])"
proof -
  assume "integer_token w" "ee_isdigit c"
  then obtain s d where "w = s @ d" "opt_sign s" "digits d" "d \<noteq> []" unfolding integer_token_def by blast
  moreover from this have "digits (d @ [c])" using \<open>ee_isdigit c\<close> by (auto simp: digits_def)
  ultimately show ?thesis unfolding integer_token_def by (intro exI [of _ s] exI [of _ "d @ [c]"]) simp
qed

lemma float_snoc: "float_token w \<Longrightarrow> ee_isdigit c \<Longrightarrow> float_token (w @ [c])"
proof -
  assume "float_token w" "ee_isdigit c"
  then obtain s a b where "w = s @ a @ dot # b" "opt_sign s" "digits a" "digits b" by (auto simp: float_token_def)
  moreover from this have "digits (b @ [c])" using \<open>ee_isdigit c\<close> by (auto simp: digits_def)
  ultimately show ?thesis unfolding float_token_def by (intro exI [of _ s] exI [of _ a] exI [of _ "b @ [c]"]) simp
qed

lemma scientific_snoc: "scientific_token w \<Longrightarrow> ee_isdigit c \<Longrightarrow> scientific_token (w @ [c])"
proof -
  assume "scientific_token w" "ee_isdigit c"
  then obtain m e s d where "w = m @ e # s # d" "float_token m" "is_e e" "is_sign s" "digits d" "d \<noteq> []"
    by (auto simp: scientific_token_def)
  moreover from this have "digits (d @ [c])" using \<open>ee_isdigit c\<close> by (auto simp: digits_def)
  ultimately show ?thesis unfolding scientific_token_def
    by (intro exI [of _ m] exI [of _ e] exI [of _ s] exI [of _ "d @ [c]"]) simp
qed

lemma sign_then: "opt_sign s \<Longrightarrow> ee_isdigit c \<Longrightarrow> integer_token (s @ [c])" "opt_sign s \<Longrightarrow> float_token (s @ [dot])"
  unfolding integer_token_def float_token_def
  by (intro exI [of _ s] exI [of _ "[c]"], simp add: digits_def,
      intro exI [of _ s] exI [of _ "[]"], simp add: digits_def)

lemma integer_dot: "integer_token w \<Longrightarrow> float_token (w @ [dot])"
proof -
  assume "integer_token w"
  then obtain s d where "w = s @ d" "opt_sign s" "digits d" unfolding integer_token_def by blast
  then show ?thesis unfolding float_token_def
    by (intro exI [of _ s] exI [of _ d] exI [of _ "[]"]) (simp add: digits_def)
qed

lemma scientific_start:
  assumes "float_token m" "is_e e" "is_sign s" "ee_isdigit c"
  shows "scientific_token (m @ [e, s, c])"
  unfolding scientific_token_def using assms
  by (intro exI [of _ m] exI [of _ e] exI [of _ s] exI [of _ "[c]"]) (simp add: digits_def)

lemma lang_step: "lang st w \<Longrightarrow> lang (fst (state_step st c (\<lambda>_. 0))) (w @ [c])"
proof (induction st)
  case CORE_START
  then show ?case using sign_then(1) [of "[]" c] sign_then(2) [of "[]"] by (auto simp: opt_sign_def)
next
  case CORE_S1
  then show ?case using sign_then(1) [of w c] sign_then(2) [of w] by (auto simp: opt_sign_def)
next
  case CORE_INT
  then show ?case using integer_snoc [of w c] integer_dot [of w] by auto
next
  case CORE_FLOAT
  then show ?case using float_snoc [of w c] by auto
next
  case CORE_EXPONENT
  then show ?case using scientific_start by auto
next
  case CORE_SCIENTIFIC
  then show ?case using scientific_snoc [of w c] by auto
qed auto

lemma run_lang: "lang (run CORE_START w) w"
proof (induction w rule: rev_induct)
  case Nil
  then show ?case by simp
next
  case (snoc c w)
  then show ?case using lang_step [OF snoc, of c] by (simp add: run_append)
qed

section \<open>Initialisation\<close>

definition patterns :: "i8 list set" where
  "patterns = set intpat \<union> set floatpat \<union> set scipat \<union> set errpat"

definition tokens :: "i8 list list \<Rightarrow> i8 list" where
  "tokens ps = concat (map (\<lambda>p. p @ [comma]) ps)"

lemma choose_pattern_ok:
  assumes "choose_pattern seed = (buf, n)"
  shows "buf \<in> patterns" "length buf = n" "0 < n"
proof -
  define j where "j = unat (signed_drop_bit 3 seed AND 3)"
  have "signed_drop_bit 3 seed AND 3 \<le> 3" by (rule word_and_le1)
  then have "j < 4" by (simp add: j_def word_le_nat_alt)
  then have j: "j = 0 \<or> j = 1 \<or> j = 2 \<or> j = 3" by linarith
  have "buf \<in> patterns \<and> length buf = n \<and> 0 < n"
    using assms j unfolding choose_pattern_def j_def [symmetric]
    by (auto simp: Let_def patterns_def intpat_def floatpat_def scipat_def errpat_def bytes_def split: if_splits)
  then show "buf \<in> patterns" "length buf = n" "0 < n" by auto
qed

lemma copy_bytes_ok:
  assumes "length buf = n" "pos + n \<le> length mem"
  shows "copy_bytes buf n pos mem = Some (take pos mem @ buf @ drop (pos + n) mem)"
proof -
  let ?P = "\<lambda>i m. m = take pos mem @ take i buf @ drop (pos + i) mem"
  have "\<exists>m. copy_bytes buf n pos mem = Some m \<and> ?P (0 + n) m"
    unfolding copy_bytes_def
  proof (rule for_loop_inv)
    show "?P 0 mem" by simp
    fix i m assume i: "i < 0 + n" and m: "?P i m"
    have d: "drop (pos + i) mem = mem ! (pos + i) # drop (pos + Suc i) mem"
      using Cons_nth_drop_Suc [of "pos + i" mem] i assms by simp
    have "wr m (pos + i) (buf ! i) = Some (take pos mem @ take (Suc i) buf @ drop (pos + Suc i) mem)"
      unfolding wr_def m d using i assms by (simp add: list_update_append take_Suc_conv_app_nth)
    then show "\<exists>s'. Option.bind (rd buf i) (wr m (pos + i)) = Some s' \<and> ?P (Suc i) s'"
      using i assms by simp
  qed
  then show ?thesis using assms by simp
qed

lemma init_loop_ok:
  assumes "tot \<le> sz" "sz \<le> length mem" "nxt = 0 \<or> buf \<in> patterns \<and> length buf = nxt"
  shows "\<exists>tot' mem' ps. init_loop sz (tot, nxt, buf, seed, mem) = Some (tot', mem') \<and> tot' \<le> sz
    \<and> set ps \<subseteq> patterns \<and> mem' = take tot mem @ tokens ps @ drop tot' mem \<and> tot' = tot + length (tokens ps)"
  using assms
proof (induction "2 * (sz - tot) + (if nxt = 0 then 1 else 0)" arbitrary: tot nxt buf seed mem rule: less_induct)
  case less
  show ?case
  proof (cases "tot + nxt + 1 < sz")
    case False
    then show ?thesis using less.prems
      by (intro exI [of _ tot] exI [of _ mem] exI [of _ "[]"]) (subst init_loop.simps, simp add: tokens_def)
  next
    case True
    obtain buf' nxt' where c: "choose_pattern (seed + 1) = (buf', nxt')" by fastforce
    note ok = choose_pattern_ok [OF c]
    show ?thesis
    proof (cases "nxt = 0")
      case n0: True
      have "init_loop sz (tot, nxt, buf, seed, mem) = init_loop sz (tot, nxt', buf', seed + 1, mem)"
        using True n0 c by (subst init_loop.simps) simp
      moreover have "2 * (sz - tot) + (if nxt' = 0 then 1 else 0) < 2 * (sz - tot) + (if nxt = 0 then 1 else 0)"
        using n0 ok(3) by simp
      ultimately show ?thesis
        using less.hyps [of tot nxt' mem buf' "seed + 1"] less.prems ok(1,2) by simp
    next
      case n: False
      define tot1 where "tot1 = tot + nxt + 1"
      define mem1 where "mem1 = take tot mem @ tokens [buf] @ drop tot1 mem"
      have l: "length buf = nxt" "buf \<in> patterns" using less.prems(3) n by auto
      have len1: "length mem1 = length mem" using True less.prems l by (simp add: mem1_def tokens_def tot1_def)
      have d: "drop (tot + nxt) mem = mem ! (tot + nxt) # drop tot1 mem"
        using Cons_nth_drop_Suc [of "tot + nxt" mem] True less.prems by (simp add: tot1_def)
      have "copy_bytes buf nxt tot mem = Some (take tot mem @ buf @ drop (tot + nxt) mem)"
        using copy_bytes_ok [of buf nxt tot mem] l True less.prems by simp
      moreover have "wr (take tot mem @ buf @ drop (tot + nxt) mem) (tot + nxt) comma = Some mem1"
        unfolding wr_def d mem1_def tokens_def using True less.prems l by (simp add: list_update_append)
      ultimately have step: "init_loop sz (tot, nxt, buf, seed, mem) = init_loop sz (tot1, nxt', buf', seed + 1, mem1)"
        using True n c by (subst init_loop.simps) (simp add: tot1_def)
      have "2 * (sz - tot1) + (if nxt' = 0 then 1 else 0) < 2 * (sz - tot) + (if nxt = 0 then 1 else 0)"
        using n True ok(3) by (simp add: tot1_def)
      then obtain tot' mem' ps where r: "init_loop sz (tot1, nxt', buf', seed + 1, mem1) = Some (tot', mem')" "tot' \<le> sz"
        "set ps \<subseteq> patterns" "mem' = take tot1 mem1 @ tokens ps @ drop tot' mem1" "tot' = tot1 + length (tokens ps)"
        using less.hyps [of tot1 nxt' mem1 buf' "seed + 1"] less.prems True ok(1,2) len1 by (auto simp: tot1_def)
      have t1: "take tot1 mem1 = take tot mem @ tokens [buf]"
        using True less.prems l by (simp add: mem1_def tokens_def tot1_def)
      have d1: "drop tot' mem1 = drop tot' mem"
        using True less.prems l r(5) by (simp add: mem1_def tokens_def tot1_def ac_simps)
      show ?thesis
        using step r l(2) t1 d1
        by (intro exI [of _ tot'] exI [of _ mem'] exI [of _ "buf # ps"]) (simp add: tokens_def tot1_def l(1))
    qed
  qed
qed

lemma zero_fill:
  assumes "a \<le> b" "b \<le> length mem"
  shows "for_loop a (b - a) (\<lambda>i p. wr p i 0) mem = Some (take a mem @ replicate (b - a) 0 @ drop b mem)"
proof -
  let ?P = "\<lambda>i m. m = take a mem @ replicate (i - a) 0 @ drop i mem"
  have "\<exists>m. for_loop a (b - a) (\<lambda>i p. wr p i 0) mem = Some m \<and> ?P (a + (b - a)) m"
  proof (rule for_loop_inv)
    show "?P a mem" by simp
    fix i m assume i: "a \<le> i" "i < a + (b - a)" and m: "?P i m"
    have d: "drop i mem = mem ! i # drop (Suc i) mem"
      using Cons_nth_drop_Suc [of i mem] i assms by simp
    have "wr m i 0 = Some (take a mem @ replicate (Suc i - a) 0 @ drop (Suc i) mem)"
      unfolding wr_def m d using i assms
      by (simp add: list_update_append Suc_diff_le replicate_append_same [symmetric] min_def)
    then show "\<exists>s'. wr m i 0 = Some s' \<and> ?P (Suc i) s'" by simp
  qed
  then show ?thesis using assms by simp
qed

section \<open>Properties\<close>

lemma number_final: "number_token w \<Longrightarrow> run CORE_START w \<noteq> CORE_INVALID"
  using run_float [of w] run_scientific [of w] run_sign_digits
  by (auto simp: number_token_def integer_token_def)

text \<open>Every state but \<open>CORE_INVALID\<close> can still be left for a number.\<close>

lemma number_extension:
  assumes "lang st w" "st \<noteq> CORE_INVALID"
  shows "\<exists>v. number_token (w @ v)"
proof -
  have d: "ee_isdigit 0x30" "is_sign 0x2B" by (simp_all add: ee_isdigit_def is_sign_def)
  show ?thesis
  proof (cases st)
    case CORE_START
    then show ?thesis using assms sign_then(1) [OF _ d(1), of "[]"] by (auto simp: number_token_def opt_sign_def)
  next
    case CORE_S1
    then have "integer_token (w @ [0x30])" using assms sign_then(1) [OF _ d(1), of w] by (auto simp: opt_sign_def)
    then show ?thesis unfolding number_token_def by blast
  next
    case CORE_S2
    then obtain m e where "w = m @ [e]" "float_token m" "is_e e" using assms by auto
    then have "scientific_token (w @ [0x2B, 0x30])" using scientific_start [OF _ _ d(2,1)] by simp
    then show ?thesis unfolding number_token_def by blast
  next
    case CORE_EXPONENT
    then obtain m e s where "w = m @ [e, s]" "float_token m" "is_e e" "is_sign s" using assms by auto
    then have "scientific_token (w @ [0x30])" using scientific_start [OF _ _ _ d(1)] by simp
    then show ?thesis unfolding number_token_def by blast
  qed (use assms in \<open>auto simp: number_token_def intro: exI [of _ "[]"]\<close>)
qed

lemma run_invalid_iff: "run CORE_START w = CORE_INVALID \<longleftrightarrow> (\<forall>v. \<not> number_token (w @ v))"
  using number_final number_extension [OF run_lang] by (fastforce simp: run_append)

lemma run_unfinished:
  "w = [] \<Longrightarrow> run CORE_START w = CORE_START"
  "\<exists>c. w = [c] \<and> is_sign c \<Longrightarrow> run CORE_START w = CORE_S1"
  "\<exists>m c. w = m @ [c] \<and> float_token m \<and> is_e c \<Longrightarrow> run CORE_START w = CORE_S2"
  "\<exists>m c s. w = m @ [c, s] \<and> float_token m \<and> is_e c \<and> is_sign s \<Longrightarrow> run CORE_START w = CORE_EXPONENT"
  by (auto simp: run_append run_float dest: sign_class)

text \<open>
  C15: the state a token ends in, a token being a run of bytes up to a comma or the terminating zero. It is \<open>CORE_INT\<close>
  exactly for an optional sign and digits, \<open>CORE_FLOAT\<close> exactly for an optional sign, digits, a point and digits, where the
  digits may be missing, \<open>CORE_SCIENTIFIC\<close> exactly for a token of that form followed by \<open>e\<close> or \<open>E\<close>, a sign and digits, and
  \<open>CORE_INVALID\<close> exactly when the token is not the beginning of any of these numbers. The unfinished beginnings end in the four
  other states: the empty token in \<open>CORE_START\<close>, a sign in \<open>CORE_S1\<close>, a float and \<open>e\<close> in \<open>CORE_S2\<close>, with the sign of the
  exponent in \<open>CORE_EXPONENT\<close>. Unless the token is invalid, the pointer ends behind it and its comma.
\<close>

theorem state_machine_grammar:
  assumes "mem = pre @ w @ e # post" "e = 0 \<or> e = comma" "\<And>c. c \<in> set w \<Longrightarrow> c \<noteq> 0 \<and> c \<noteq> comma"
  shows "\<exists>st p cnt'. core_state_transition mem (length pre) cnt = Some (st, p, cnt')
    \<and> (st = CORE_INT \<longleftrightarrow> integer_token w) \<and> (st = CORE_FLOAT \<longleftrightarrow> float_token w)
    \<and> (st = CORE_SCIENTIFIC \<longleftrightarrow> scientific_token w)
    \<and> (st = CORE_INVALID \<longleftrightarrow> (\<forall>v. \<not> number_token (w @ v)))
    \<and> (st = CORE_START \<longleftrightarrow> w = []) \<and> (st = CORE_S1 \<longleftrightarrow> (\<exists>c. w = [c] \<and> is_sign c))
    \<and> (st = CORE_S2 \<longleftrightarrow> (\<exists>m c. w = m @ [c] \<and> float_token m \<and> is_e c))
    \<and> (st = CORE_EXPONENT \<longleftrightarrow> (\<exists>m c s. w = m @ [c, s] \<and> float_token m \<and> is_e c \<and> is_sign s))
    \<and> (st \<noteq> CORE_INVALID \<longrightarrow> p = length pre + length w + (if e = comma then 1 else 0))"
proof -
  have int: "integer_token w \<Longrightarrow> run CORE_START w = CORE_INT"
    unfolding integer_token_def using run_sign_digits by auto
  obtain p cnt' where "transition_loop mem (length pre) CORE_START cnt = Some (run CORE_START w, p, cnt')"
    "run CORE_START w \<noteq> CORE_INVALID \<longrightarrow> p = length pre + length w + (if e = comma then 1 else 0)"
    using transition_run [OF assms] by blast
  moreover have "lang (run CORE_START w) w" by (rule run_lang)
  ultimately show ?thesis
    unfolding core_state_transition_def using int run_float [of w] run_scientific [of w] run_invalid_iff [of w]
      run_unfinished [of w]
    by (intro exI [of _ "run CORE_START w"] exI [of _ p] exI [of _ cnt']) auto
qed

lemma state_machine_grammar_witness:
  "\<exists>p cnt. core_state_transition (bytes ''7,-1.5e+20,x'') 2 (\<lambda>_. 0) = Some (CORE_SCIENTIFIC, 11, cnt)"
proof -
  have "float_token (bytes ''-1.5'')"
    unfolding float_token_def
    by (intro exI [of _ "bytes ''-''"] exI [of _ "bytes ''1''"] exI [of _ "bytes ''5''"])
      (auto simp: bytes_def digits_def is_sign_def ee_isdigit_def opt_sign_def)
  then have "scientific_token (bytes ''-1.5e+20'')"
    unfolding scientific_token_def
    by (intro exI [of _ "bytes ''-1.5''"] exI [of _ "0x65"] exI [of _ "0x2B"] exI [of _ "bytes ''20''"])
      (auto simp: bytes_def digits_def is_e_def is_sign_def ee_isdigit_def)
  moreover have "c \<noteq> 0 \<and> c \<noteq> comma" if "c \<in> set (bytes ''-1.5e+20'')" for c
    using that by (auto simp: bytes_def)
  moreover have "bytes ''7,-1.5e+20,x'' = bytes ''7,'' @ bytes ''-1.5e+20'' @ comma # bytes ''x''"
    "length (bytes ''7,'') = 2" "length (bytes ''-1.5e+20'') = 8"
    by (simp_all add: bytes_def)
  ultimately show ?thesis
    using state_machine_grammar [of "bytes ''7,-1.5e+20,x''" "bytes ''7,''" "bytes ''-1.5e+20''" comma "bytes ''x''" "\<lambda>_. 0"]
    by auto
qed

lemma init_state_fills:
  assumes "1 \<le> sz" "sz \<le> length mem"
  shows "\<exists>ps. core_init_state sz seed mem
      = Some (tokens ps @ replicate (sz - length (tokens ps)) 0 @ drop sz mem)
    \<and> set ps \<subseteq> patterns \<and> length (tokens ps) < sz"
proof -
  obtain tot m ps where l: "init_loop (sz - 1) (0, 0, [], seed, mem) = Some (tot, m)" "tot \<le> sz - 1"
    "set ps \<subseteq> patterns" "m = tokens ps @ drop tot mem" "tot = length (tokens ps)"
    using init_loop_ok [of 0 "sz - 1" mem 0 "[]" seed] le_trans [OF diff_le_self assms(2), of 1] by auto
  have "for_loop tot (sz - tot) (\<lambda>i p. wr p i 0) m = Some (take tot m @ replicate (sz - tot) 0 @ drop sz m)"
    by (rule zero_fill) (use l assms in auto)
  moreover have "take tot m = tokens ps" "drop sz m = drop sz mem" using l assms by auto
  ultimately show ?thesis using l assms by (intro exI [of _ ps]) (simp add: core_init_state_def)
qed

text \<open>
  \<open>core_init_state\<close> stays inside its block and fills it: for every size from one up, it returns,
  writes a sequence of the sixteen patterns each followed by a comma, then at least one zero up to
  the size, and nothing behind it.
\<close>

theorem core_init_state_fills:
  assumes "1 \<le> sz" "sz \<le> length mem"
  shows "\<exists>ps. core_init_state sz seed mem
      = Some (tokens ps @ replicate (sz - length (tokens ps)) 0 @ drop sz mem)
    \<and> set ps \<subseteq> patterns \<and> length (tokens ps) < sz"
  by (rule init_state_fills) (fact assms)+

lemma core_init_state_fills_witness:
  "\<exists>ps. core_init_state 666 0x3415 (replicate 668 0xAA)
      = Some (tokens ps @ replicate (666 - length (tokens ps)) 0 @ [0xAA, 0xAA])
    \<and> set ps \<subseteq> patterns \<and> length (tokens ps) < 666"
  using core_init_state_fills [of 666 "replicate 668 0xAA" "0x3415"] by (simp add: numeral_2_eq_2)

lemma bench_state_restored:
  assumes "0 < sint step" "blksize \<le> length mem" "ucast seed1 = (ucast seed2 :: i8)"
    and comma: "\<And>i. i < blksize \<Longrightarrow> mem ! i \<noteq> comma XOR ucast seed1 \<or> ucast seed1 = (0 :: i8)"
    and zero: "z < length mem" "mem ! z = 0" "blksize \<le> z \<or> \<not> sint step dvd int z \<or> ucast seed1 = (0 :: i8)"
  shows "\<exists>crc'. core_bench_state blksize mem seed1 seed2 step crc = Some (crc', mem)"
proof -
  let ?s = "ucast seed1 :: i8"
  let ?m = "flipped blksize (sint step) ?s 0 mem"
  obtain cnts where c1: "scan mem 0 (\<lambda>_. 0, \<lambda>_. 0) = Some cnts" using scan_total [OF zero(1,2)] by blast
  have f1: "corrupt blksize (sint step) ?s mem 0 = Some ?m"
    using corrupt_flipped [OF assms(1,2), of ?s 0] by simp
  have "?m ! z = 0" using zero by (auto simp: flipped_nth)
  then obtain final track where c2: "scan ?m 0 cnts = Some (final, track)"
    using scan_total [of z ?m 0 cnts] zero(1) by auto
  have "corrupt blksize (sint step) (ucast seed2) ?m 0 = Some mem"
    using corrupt_flipped [OF assms(1), of blksize ?m ?s 0] flipped_twice [OF comma, of blksize "sint step" 0] assms(2,3)
    by simp
  with c1 f1 c2 show ?thesis by (simp add: core_bench_state_def)
qed

text \<open>
  C11: \<open>core_bench_state\<close> returns and leaves its block as it was, when the two seeds have the same low
  byte, the step is positive, no byte of the block turns into a comma when changed, and a zero that
  is not changed ends the input. The last two hold for the seeds of the benchmark and its patterns.
\<close>

theorem core_bench_state_restores:
  assumes "0 < sint step" "blksize \<le> length mem" "ucast seed1 = (ucast seed2 :: i8)"
    and comma: "\<And>i. i < blksize \<Longrightarrow> mem ! i \<noteq> comma XOR ucast seed1 \<or> ucast seed1 = (0 :: i8)"
    and zero: "z < length mem" "mem ! z = 0" "blksize \<le> z \<or> \<not> sint step dvd int z \<or> ucast seed1 = (0 :: i8)"
  shows "\<exists>crc'. core_bench_state blksize mem seed1 seed2 step crc = Some (crc', mem)"
  by (rule bench_state_restored) (fact assms)+

lemma core_bench_state_restores_witness:
  "\<exists>crc'. core_bench_state 12 (bytes ''5012,35.5'' @ [0, 0, 0, 0]) 0x3415 0x3415 3 0
    = Some (crc', bytes ''5012,35.5'' @ [0, 0, 0, 0])"
proof -
  let ?mem = "bytes ''5012,35.5'' @ [0, 0, 0, 0]"
  have "list_all (\<lambda>c. c \<noteq> comma XOR 0x15) ?mem" by (simp add: bytes_def)
  moreover have "length ?mem = 13" by (simp add: bytes_def)
  ultimately have "?mem ! i \<noteq> comma XOR 0x15" if "i < 12" for i
    using that unfolding list_all_length by simp
  moreover have "comma XOR ucast (0x3415 :: i16) = comma XOR (0x15 :: i8)" by simp
  ultimately have "?mem ! i \<noteq> comma XOR ucast (0x3415 :: i16) \<or> ucast (0x3415 :: i16) = (0 :: i8)" if "i < 12" for i
    using that by metis
  then show ?thesis
    by (intro core_bench_state_restores [where z = 10]) (simp_all add: bytes_def)
qed

text \<open>
  Equal seeds do not always undo the change, as the code's comment says: a byte that turns into a
  comma is skipped the second time. The digit \<open>4\<close> with seed \<open>0x18\<close> stays a comma.
\<close>

theorem core_bench_state_not_undone:
  "\<exists>crc'. core_bench_state 1 (bytes ''4'' @ [0]) 0x18 0x18 5 crc = Some (crc', bytes '','' @ [0])"
proof -
  obtain cnts where c1: "scan (bytes ''4'' @ [0]) 0 (\<lambda>_. 0, \<lambda>_. 0) = Some cnts"
    using scan_total [of 1 "bytes ''4'' @ [0]" 0 "(\<lambda>_. 0, \<lambda>_. 0)"] by (auto simp: bytes_def)
  obtain final track where c2: "scan (bytes '','' @ [0]) 0 cnts = Some (final, track)"
    using scan_total [of 1 "bytes '','' @ [0]" 0 cnts] by (auto simp: bytes_def)
  have f: "corrupt 1 5 0x18 (bytes ''4'' @ [0]) 0 = Some (bytes '','' @ [0])"
    "corrupt 1 5 0x18 (bytes '','' @ [0]) 0 = Some (bytes '','' @ [0])"
    using corrupt_flipped [of 5 1 "bytes ''4'' @ [0]" "0x18" 0] corrupt_flipped [of 5 1 "bytes '','' @ [0]" "0x18" 0]
    by (simp_all add: flipped_def bytes_def)
  from c1 c2 f show ?thesis by (simp add: core_bench_state_def)
qed

end
