(* ===== verification/Matrix.thy ===== *)
theory Matrix
  imports Crc
begin

unbundle bit_operations_syntax

text \<open>
  \<open>coremark/core_matrix.c\<close>: the matrix benchmark. The matrices are row-major arrays, \<open>A\<close> and \<open>B\<close>
  of \<open>ee_s16\<close> and the result \<open>C\<close> of \<open>ee_s32\<close>; arithmetic wraps at these widths as on the target.
  The index expressions \<open>i * N + j\<close> are below \<open>2^32\<close> for every size the initialisation produces and
  are natural numbers here.
\<close>

section \<open>The code\<close>

definition matrix_clip :: "i16 \<Rightarrow> bool \<Rightarrow> i16" where
  "matrix_clip x y = (if y then x AND 0x0FF else x AND 0xFFFF)"

definition matrix_big :: "i16 \<Rightarrow> i16" where
  "matrix_big x = 0xF000 OR x"

definition bit_extract :: "i32 \<Rightarrow> nat \<Rightarrow> nat \<Rightarrow> i32" where
  "bit_extract x lo n = signed_drop_bit lo x AND NOT (push_bit n 0xFFFFFFFF)"

definition for2 :: "nat \<Rightarrow> (nat \<Rightarrow> nat \<Rightarrow> 's \<Rightarrow> 's option) \<Rightarrow> 's \<Rightarrow> 's option" where
  "for2 N body = for_loop 0 N (\<lambda>i. for_loop 0 N (body i))"

definition matrix_sum :: "nat \<Rightarrow> i32 list \<Rightarrow> i16 \<Rightarrow> i16 option" where
  "matrix_sum N C clipval = do {
     (tmp, prev, ret) \<leftarrow> for2 N (\<lambda>i j (tmp, prev, ret). do {
       cur \<leftarrow> rd C (i * N + j);
       let tmp = tmp + cur;
       Some (if scast clipval <s tmp then (0, cur, ret + 10)
             else (tmp, cur, ret + (if prev <s cur then 1 else 0)))
     }) (0 :: i32, 0 :: i32, 0 :: i16);
     Some ret
   }"

definition matrix_mul_const :: "nat \<Rightarrow> i32 list \<Rightarrow> i16 list \<Rightarrow> i16 \<Rightarrow> i32 list option" where
  "matrix_mul_const N C A val = for2 N (\<lambda>i j C. do {
     a \<leftarrow> rd A (i * N + j);
     wr C (i * N + j) (scast a * scast val)
   }) C"

definition matrix_add_const :: "nat \<Rightarrow> i16 list \<Rightarrow> i16 \<Rightarrow> i16 list option" where
  "matrix_add_const N A val = for2 N (\<lambda>i j A. do {
     a \<leftarrow> rd A (i * N + j);
     wr A (i * N + j) (a + val)
   }) A"

definition matrix_mul_vect :: "nat \<Rightarrow> i32 list \<Rightarrow> i16 list \<Rightarrow> i16 list \<Rightarrow> i32 list option" where
  "matrix_mul_vect N C A B = for_loop 0 N (\<lambda>i C. do {
     C \<leftarrow> wr C i 0;
     for_loop 0 N (\<lambda>j C. do {
       c \<leftarrow> rd C i;
       a \<leftarrow> rd A (i * N + j);
       b \<leftarrow> rd B j;
       wr C i (c + scast a * scast b)
     }) C
   }) C"

definition matrix_mul_matrix :: "nat \<Rightarrow> i32 list \<Rightarrow> i16 list \<Rightarrow> i16 list \<Rightarrow> i32 list option" where
  "matrix_mul_matrix N C A B = for2 N (\<lambda>i j C. do {
     C \<leftarrow> wr C (i * N + j) 0;
     for_loop 0 N (\<lambda>k C. do {
       c \<leftarrow> rd C (i * N + j);
       a \<leftarrow> rd A (i * N + k);
       b \<leftarrow> rd B (k * N + j);
       wr C (i * N + j) (c + scast a * scast b)
     }) C
   }) C"

definition matrix_mul_matrix_bitextract :: "nat \<Rightarrow> i32 list \<Rightarrow> i16 list \<Rightarrow> i16 list \<Rightarrow> i32 list option" where
  "matrix_mul_matrix_bitextract N C A B = for2 N (\<lambda>i j C. do {
     C \<leftarrow> wr C (i * N + j) 0;
     for_loop 0 N (\<lambda>k C. do {
       a \<leftarrow> rd A (i * N + k);
       b \<leftarrow> rd B (k * N + j);
       let tmp = scast a * scast b;
       c \<leftarrow> rd C (i * N + j);
       wr C (i * N + j) (c + bit_extract tmp 2 4 * bit_extract tmp 5 7)
     }) C
   }) C"

text \<open>The result is the CRC, the new \<open>A\<close> and the new \<open>C\<close>; \<open>B\<close> is only read.\<close>

definition matrix_test ::
  "nat \<Rightarrow> i32 list \<Rightarrow> i16 list \<Rightarrow> i16 list \<Rightarrow> i16 \<Rightarrow> (i16 \<times> i16 list \<times> i32 list) option" where
  "matrix_test N C A B val = do {
     let crc = 0;
     let clipval = matrix_big val;
     A \<leftarrow> matrix_add_const N A val;
     C \<leftarrow> matrix_mul_const N C A val;
     s \<leftarrow> matrix_sum N C clipval;
     let crc = crc16 s crc;
     C \<leftarrow> matrix_mul_vect N C A B;
     s \<leftarrow> matrix_sum N C clipval;
     let crc = crc16 s crc;
     C \<leftarrow> matrix_mul_matrix N C A B;
     s \<leftarrow> matrix_sum N C clipval;
     let crc = crc16 s crc;
     C \<leftarrow> matrix_mul_matrix_bitextract N C A B;
     s \<leftarrow> matrix_sum N C clipval;
     let crc = crc16 s crc;
     A \<leftarrow> matrix_add_const N A (- val);
     Some (crc, A, C)
   }"

record mat_params =
  mat_N :: nat
  mat_A :: "i16 list"
  mat_B :: "i16 list"
  mat_C :: "i32 list"

definition core_bench_matrix :: "mat_params \<Rightarrow> i16 \<Rightarrow> i16 \<Rightarrow> (i16 \<times> mat_params) option" where
  "core_bench_matrix p seed crc = do {
     (t, A, C) \<leftarrow> matrix_test (mat_N p) (mat_C p) (mat_A p) (mat_B p) seed;
     Some (crc16 t crc, p\<lparr>mat_A := A, mat_C := C\<rparr>)
   }"

text \<open>
  The initialisation: the dimension, the places of the three matrices, the contents of \<open>A\<close> and
  \<open>B\<close>. Overflow of the \<open>ee_s32\<close> product is undefined.
\<close>

partial_function (option) find_dim :: "i32 \<Rightarrow> i32 \<Rightarrow> i32 \<Rightarrow> i32 option" where
  "find_dim blksize i j =
     (if j < blksize then find_dim blksize (i + 1) ((i + 1) * (i + 1) * 2 * 4) else Some i)"

definition align_mem :: "i32 \<Rightarrow> i32" where
  "align_mem x = 4 + ((x - 1) AND NOT 3)"

definition fill_body :: "nat \<Rightarrow> nat \<Rightarrow> nat \<Rightarrow> int \<times> int \<times> i16 list \<times> i16 list
    \<Rightarrow> (int \<times> int \<times> i16 list \<times> i16 list) option" where
  "fill_body N i j = (\<lambda>(seed, order, A, B).
     if order * seed < -2147483648 \<or> 2147483647 < order * seed then None
     else do {
       let seed = crem (order * seed) 65536;
       let val = matrix_clip (word_of_int (seed + order)) False;
       B \<leftarrow> wr B (i * N + j) val;
       let val = matrix_clip (val + word_of_int order) True;
       A \<leftarrow> wr A (i * N + j) val;
       Some (seed, order + 1, A, B)
     })"

definition core_init_matrix ::
  "i32 \<Rightarrow> i32 \<Rightarrow> int \<Rightarrow> (nat \<Rightarrow> i16) \<Rightarrow> (nat \<Rightarrow> i32) \<Rightarrow> (mat_params \<times> i32 \<times> i32 \<times> i32) option" where
  "core_init_matrix blksize memblk seed junk junkC = do {
     let seed = (if seed = 0 then 1 else seed);
     i \<leftarrow> find_dim blksize 0 0;
     let n = i - 1;
     let N = unat n;
     let A = align_mem memblk;
     let B = A + 2 * (n * n);
     (_, _, Av, Bv) \<leftarrow> for2 N (fill_body N) (seed, 1, map junk [0..<N * N], map junk [0..<N * N]);
     let C = align_mem (B + 2 * (n * n));
     Some (\<lparr>mat_N = N, mat_A = Av, mat_B = Bv, mat_C = map junkC [0..<N * N]\<rparr>, A, B, C)
   }"

section \<open>Nested loops over a matrix\<close>

definition upd_upto :: "nat \<Rightarrow> (nat \<Rightarrow> 'a) \<Rightarrow> 'a list \<Rightarrow> 'a list" where
  "upd_upto n g X = map (\<lambda>k. if k < n then g k else X ! k) [0..<length X]"

lemma length_upd_upto [simp]: "length (upd_upto n g X) = length X"
  by (simp add: upd_upto_def)

lemma upd_upto_nth: "k < length X \<Longrightarrow> upd_upto n g X ! k = (if k < n then g k else X ! k)"
  by (simp add: upd_upto_def)

lemma upd_upto_0 [simp]: "upd_upto 0 g X = X"
  by (rule nth_equalityI) (simp_all add: upd_upto_nth)

lemma upd_upto_Suc: "n < length X \<Longrightarrow> (upd_upto n g X)[n := g n] = upd_upto (Suc n) g X"
  by (rule nth_equalityI) (auto simp: upd_upto_nth nth_list_update less_Suc_eq)

lemma cell_bound: "i < N \<Longrightarrow> j < N \<Longrightarrow> i * N + j < N * (N :: nat)"
proof -
  assume "i < N" "j < N"
  then have "i * N + j < Suc i * N" by simp
  also have "\<dots> \<le> N * N" using \<open>i < N\<close> by (intro mult_le_mono1) simp
  finally show ?thesis .
qed

lemma cell_in: "i < N \<Longrightarrow> j < N \<Longrightarrow> N * N \<le> L \<Longrightarrow> i * N + j < (L :: nat)"
  using cell_bound [of i N j] by linarith

lemma for2_inv:
  assumes "P 0 s"
    and step: "\<And>i j s. i < N \<Longrightarrow> j < N \<Longrightarrow> P (i * N + j) s \<Longrightarrow> \<exists>s'. body i j s = Some s' \<and> P (Suc (i * N + j)) s'"
  shows "\<exists>s'. for2 N body s = Some s' \<and> P (N * N) s'"
proof -
  have "\<exists>s'. for_loop 0 N (\<lambda>i. for_loop 0 N (body i)) s = Some s' \<and> P ((0 + N) * N) s'"
  proof (rule for_loop_inv [where P = "\<lambda>i. P (i * N)"])
    show "P (0 * N) s" using assms(1) by simp
    fix i s assume i: "0 \<le> i" "i < 0 + N" and s: "P (i * N) s"
    have "\<exists>s'. for_loop 0 N (body i) s = Some s' \<and> P (i * N + (0 + N)) s'"
      by (rule for_loop_inv [where P = "\<lambda>j. P (i * N + j)"]) (use step i s in auto)
    then show "\<exists>s'. for_loop 0 N (body i) s = Some s' \<and> P (Suc i * N) s'" by (simp add: add.commute)
  qed
  then show ?thesis by (simp add: for2_def)
qed

text \<open>A body that writes its own cell, from that cell alone.\<close>

lemma for2_cells:
  assumes "N * N \<le> length X"
    and step: "\<And>i j Y. i < N \<Longrightarrow> j < N \<Longrightarrow> length Y = length X \<Longrightarrow> Y ! (i * N + j) = X ! (i * N + j) \<Longrightarrow>
      body i j Y = Some (Y[i * N + j := g (i * N + j)])"
  shows "for2 N body X = Some (upd_upto (N * N) g X)"
proof -
  have "\<exists>Y. for2 N body X = Some Y \<and> Y = upd_upto (N * N) g X"
  proof (rule for2_inv [where P = "\<lambda>n Y. Y = upd_upto n g X"])
    show "X = upd_upto 0 g X" by simp
    fix i j Y assume ij: "i < N" "j < N" and Y: "Y = upd_upto (i * N + j) g X"
    have "i * N + j < length X" using cell_bound [OF ij] assms(1) by linarith
    then show "\<exists>Y'. body i j Y = Some Y' \<and> Y' = upd_upto (Suc (i * N + j)) g X"
      using step [OF ij, of Y] by (simp add: Y upd_upto_nth upd_upto_Suc)
  qed
  then show ?thesis by simp
qed

lemma for_loop_acc:
  assumes "n < length X" and step: "\<And>k Y. k < N \<Longrightarrow> length Y = length X \<Longrightarrow> body k Y = Some (Y[n := Y ! n + t k])"
  shows "for_loop 0 N body (X[n := 0]) = Some (X[n := (\<Sum>k < N. t k :: 'a :: comm_monoid_add)])"
proof -
  have "\<exists>Y. for_loop 0 N body (X[n := 0]) = Some Y \<and> Y = X[n := (\<Sum>k < 0 + N. t k)]"
    by (rule for_loop_inv [where P = "\<lambda>k Y. Y = X[n := (\<Sum>l < k. t l)]"])
      (use assms in \<open>auto simp: add.commute\<close>)
  then show ?thesis by simp
qed

section \<open>What the operations compute\<close>

lemma cell_div: "j < N \<Longrightarrow> (i * N + j) div N = i \<and> (i * N + j) mod N = (j :: nat)"
  by simp

lemma matrix_add_const_eq:
  "N * N \<le> length A \<Longrightarrow> matrix_add_const N A val = Some (upd_upto (N * N) (\<lambda>n. A ! n + val) A)"
  unfolding matrix_add_const_def
  by (rule for2_cells) (auto simp: cell_in)

lemma matrix_mul_const_eq:
  assumes "N * N \<le> length A" "N * N \<le> length C"
  shows "matrix_mul_const N C A val = Some (upd_upto (N * N) (\<lambda>n. scast (A ! n) * scast val) C)"
  unfolding matrix_mul_const_def
  by (rule for2_cells) (use assms in \<open>auto simp: cell_in\<close>)

definition dot_row :: "nat \<Rightarrow> i16 list \<Rightarrow> i16 list \<Rightarrow> nat \<Rightarrow> nat \<Rightarrow> i32" where
  "dot_row N A B i j = (\<Sum>k < N. scast (A ! (i * N + k)) * scast (B ! (k * N + j)))"

definition dot_bits :: "nat \<Rightarrow> i16 list \<Rightarrow> i16 list \<Rightarrow> nat \<Rightarrow> nat \<Rightarrow> i32" where
  "dot_bits N A B i j = (\<Sum>k < N. let t = scast (A ! (i * N + k)) * scast (B ! (k * N + j))
     in bit_extract t 2 4 * bit_extract t 5 7)"

lemma matrix_mul_matrix_eq:
  assumes "N * N \<le> length A" "N * N \<le> length B" "N * N \<le> length C"
  shows "matrix_mul_matrix N C A B = Some (upd_upto (N * N) (\<lambda>n. dot_row N A B (n div N) (n mod N)) C)"
  unfolding matrix_mul_matrix_def
proof (rule for2_cells [OF assms(3)])
  fix i j and Y :: "i32 list" assume ij: "i < N" "j < N" and Y: "length Y = length C"
  have n: "i * N + j < length Y" using cell_bound [OF ij] assms Y by linarith
  have "for_loop 0 N (\<lambda>k C. do { c \<leftarrow> rd C (i * N + j); a \<leftarrow> rd A (i * N + k); b \<leftarrow> rd B (k * N + j);
      wr C (i * N + j) (c + scast a * scast b) }) (Y[i * N + j := 0]) = Some (Y[i * N + j := dot_row N A B i j])"
    unfolding dot_row_def
  proof (rule for_loop_acc [OF n])
    fix k and Z :: "i32 list" assume k: "k < N" and Z: "length Z = length Y"
    have "i * N + k < length A" "k * N + j < length B" using cell_bound ij k assms by (metis order_less_le_trans)+
    then show "(do { c \<leftarrow> rd Z (i * N + j); a \<leftarrow> rd A (i * N + k); b \<leftarrow> rd B (k * N + j);
        wr Z (i * N + j) (c + scast a * scast b) })
      = Some (Z[i * N + j := Z ! (i * N + j) + scast (A ! (i * N + k)) * scast (B ! (k * N + j))])"
      using n Z by simp
  qed
  then show "(do { C \<leftarrow> wr Y (i * N + j) 0; for_loop 0 N (\<lambda>k C. do { c \<leftarrow> rd C (i * N + j); a \<leftarrow> rd A (i * N + k);
      b \<leftarrow> rd B (k * N + j); wr C (i * N + j) (c + scast a * scast b) }) C })
    = Some (Y[i * N + j := dot_row N A B ((i * N + j) div N) ((i * N + j) mod N)])"
    using n cell_div [OF ij(2), of i] by simp
qed

lemma matrix_mul_matrix_bitextract_eq:
  assumes "N * N \<le> length A" "N * N \<le> length B" "N * N \<le> length C"
  shows "matrix_mul_matrix_bitextract N C A B = Some (upd_upto (N * N) (\<lambda>n. dot_bits N A B (n div N) (n mod N)) C)"
  unfolding matrix_mul_matrix_bitextract_def
proof (rule for2_cells [OF assms(3)])
  fix i j and Y :: "i32 list" assume ij: "i < N" "j < N" and Y: "length Y = length C"
  have n: "i * N + j < length Y" using cell_bound [OF ij] assms Y by linarith
  let ?body = "\<lambda>k C. do { a \<leftarrow> rd A (i * N + k); b \<leftarrow> rd B (k * N + j); let tmp = scast a * scast b;
      c \<leftarrow> rd C (i * N + j); wr C (i * N + j) (c + bit_extract tmp 2 4 * bit_extract tmp 5 7) }"
  have "for_loop 0 N ?body (Y[i * N + j := 0]) = Some (Y[i * N + j := dot_bits N A B i j])"
    unfolding dot_bits_def
  proof (rule for_loop_acc [OF n])
    fix k and Z :: "i32 list" assume k: "k < N" and Z: "length Z = length Y"
    have "i * N + k < length A" "k * N + j < length B" using cell_bound ij k assms by (metis order_less_le_trans)+
    then show "?body k Z = Some (Z[i * N + j := Z ! (i * N + j) + (let t = scast (A ! (i * N + k)) * scast (B ! (k * N + j))
        in bit_extract t 2 4 * bit_extract t 5 7)])"
      using n Z by (simp add: Let_def)
  qed
  then show "Option.bind (wr Y (i * N + j) 0) (\<lambda>C. for_loop 0 N ?body C)
    = Some (Y[i * N + j := dot_bits N A B ((i * N + j) div N) ((i * N + j) mod N)])"
    using n cell_div [OF ij(2), of i] by simp
qed

lemma matrix_mul_vect_eq:
  assumes "N * N \<le> length A" "N \<le> length B" "N \<le> length C"
  shows "matrix_mul_vect N C A B
    = Some (upd_upto N (\<lambda>i. \<Sum>j < N. scast (A ! (i * N + j)) * scast (B ! j)) C)"
proof -
  let ?g = "\<lambda>i. \<Sum>j < N. scast (A ! (i * N + j)) * scast (B ! j) :: i32"
  have "\<exists>Y. matrix_mul_vect N C A B = Some Y \<and> Y = upd_upto (0 + N) ?g C"
    unfolding matrix_mul_vect_def
  proof (rule for_loop_inv [where P = "\<lambda>i Y. Y = upd_upto i ?g C"])
    show "C = upd_upto 0 ?g C" by simp
    fix i Y assume i: "0 \<le> i" "i < 0 + N" and Y: "Y = upd_upto i ?g C"
    have n: "i < length Y" using i assms Y by simp
    let ?body = "\<lambda>j C. do { c \<leftarrow> rd C i; a \<leftarrow> rd A (i * N + j); b \<leftarrow> rd B j; wr C i (c + scast a * scast b) }"
    have "for_loop 0 N ?body (Y[i := 0]) = Some (Y[i := ?g i])"
    proof (rule for_loop_acc [OF n])
      fix j and Z :: "i32 list" assume j: "j < N" and Z: "length Z = length Y"
      have "i * N + j < length A" using cell_bound [of i N j] i j assms by simp
      then show "?body j Z = Some (Z[i := Z ! i + scast (A ! (i * N + j)) * scast (B ! j)])"
        using n Z j assms by simp
    qed
    moreover have "Y[i := ?g i] = upd_upto (Suc i) ?g C"
      using upd_upto_Suc [of i C ?g] i assms by (simp add: Y)
    ultimately show "\<exists>s'. Option.bind (wr Y i 0) (\<lambda>C. for_loop 0 N ?body C) = Some s' \<and> s' = upd_upto (Suc i) ?g C"
      using n by simp
  qed
  then show ?thesis by simp
qed

lemma matrix_sum_total: "N * N \<le> length C \<Longrightarrow> \<exists>r. matrix_sum N C clipval = Some r"
proof -
  assume C: "N * N \<le> length C"
  have "\<exists>s'. for2 N (\<lambda>i j (tmp, prev, ret). do {
       cur \<leftarrow> rd C (i * N + j);
       let tmp = tmp + cur;
       Some (if scast clipval <s tmp then (0, cur, ret + 10)
             else (tmp, cur, ret + (if prev <s cur then 1 else 0)))
     }) (0 :: i32, 0 :: i32, 0 :: i16) = Some s' \<and> True"
    by (rule for2_inv [where P = "\<lambda>_ _. True"])
      (use C in \<open>auto simp: cell_in Let_def\<close>)
  then show ?thesis by (auto simp: matrix_sum_def)
qed

lemma dot_row_int:
  "dot_row N A B i j = word_of_int (\<Sum>k < N. sint (A ! (i * N + k)) * sint (B ! (k * N + j)))"
  by (simp add: dot_row_def)

section \<open>The initialisation\<close>

lemma find_dim_eq:
  assumes n: "b \<le> 8 * n * n" "\<And>k. k < n \<Longrightarrow> 8 * k * k < b" and b: "b \<le> 1000000000" and i: "i \<le> n"
  shows "find_dim (of_nat b) (of_nat i) (of_nat (8 * i * i)) = Some (of_nat n)"
  using i
proof (induction "n - i" arbitrary: i)
  case 0
  then have [simp]: "i = n" by simp
  have "8 * n * n < 2 ^ 32"
  proof (cases n)
    case (Suc m)
    have "8 * m * m < b" using n(2) [of m] Suc by simp
    moreover have "m < 20000"
    proof (rule ccontr)
      assume "\<not> m < 20000"
      then have "20000 * 20000 \<le> m * m" by (intro mult_mono) auto
      with \<open>8 * m * m < b\<close> b show False by simp
    qed
    moreover have "8 * Suc m * Suc m = 8 * m * m + 16 * m + 8" by (simp add: algebra_simps)
    ultimately show ?thesis using b unfolding Suc by simp
  qed simp
  then have u: "unat (of_nat (8 * n * n) :: i32) = 8 * n * n" by (intro unat_of_nat32) simp
  have "unat (of_nat b :: i32) = b" using b by (intro unat_of_nat32) simp
  then have "\<not> (of_nat (8 * n * n) :: i32) < of_nat b"
    unfolding word_less_nat_alt u using n(1) by simp
  then show ?case by (subst find_dim.simps) simp
next
  case (Suc d)
  then have i: "i < n" by simp
  have "8 * i * i < b" by (rule n(2) [OF i])
  moreover from this b have "unat (of_nat (8 * i * i) :: i32) = 8 * i * i" by (intro unat_of_nat32) simp
  moreover have "unat (of_nat b :: i32) = b" using b by (intro unat_of_nat32) simp
  ultimately have "(of_nat (8 * i * i) :: i32) < of_nat b" by (simp only: word_less_nat_alt)
  moreover have "find_dim (of_nat b) (of_nat (Suc i)) (of_nat (8 * Suc i * Suc i)) = Some (of_nat n)"
    using Suc.hyps(1) [of "Suc i"] Suc.hyps(2) i by simp
  moreover have "of_nat (Suc i) * of_nat (Suc i) * 2 * 4 = (of_nat (8 * Suc i * Suc i) :: i32)" by (simp add: algebra_simps)
  moreover have "of_nat i + 1 = (of_nat (Suc i) :: i32)" by simp
  ultimately show ?case by (subst find_dim.simps) (simp only: if_True)
qed

lemma fill_total:
  assumes N: "N * N \<le> 32767" "length A = N * N" "length B = N * N" and seed: "-2147483648 \<le> seed" "seed \<le> 2147483647"
  shows "\<exists>s o' A' B'. for2 N (fill_body N) (seed, 1, A, B) = Some (s, o', A', B') \<and> length A' = N * N \<and> length B' = N * N
    \<and> (\<forall>k < N * N. uint (A' ! k) \<le> 255)"
proof -
  let ?P = "\<lambda>n (s, o', A', B'). length A' = N * N \<and> length B' = N * N \<and> o' = int n + 1
    \<and> (n = 0 \<longrightarrow> -2147483648 \<le> s \<and> s \<le> 2147483647) \<and> (0 < n \<longrightarrow> \<bar>s\<bar> \<le> 65535) \<and> (\<forall>k < n. uint (A' ! k) \<le> 255)"
  have "\<exists>r. for2 N (fill_body N) (seed, 1, A, B) = Some r \<and> ?P (N * N) r"
  proof (rule for2_inv [where P = ?P])
    show "?P 0 (seed, 1, A, B)" using assms by simp
    fix i j and x :: "int \<times> int \<times> i16 list \<times> i16 list" assume ij: "i < N" "j < N" and inv: "?P (i * N + j) x"
    obtain s o' A' B' where x: "x = (s, o', A', B')" by (cases x)
    define n where "n = i * N + j"
    have n: "n < N * N" using cell_bound [OF ij] by (simp add: n_def)
    have P: "length A' = N * N" "length B' = N * N" "o' = int n + 1" "n = 0 \<Longrightarrow> -2147483648 \<le> s \<and> s \<le> 2147483647"
      "0 < n \<Longrightarrow> \<bar>s\<bar> \<le> 65535" "\<And>k. k < n \<Longrightarrow> uint (A' ! k) \<le> 255"
      using inv unfolding x n_def [symmetric] by auto
    have ok: "-2147483648 \<le> o' * s \<and> o' * s \<le> 2147483647"
    proof (cases "n = 0")
      case False
      have "\<bar>o' * s\<bar> \<le> 32767 * 65535"
        unfolding abs_mult P(3) using P(5) False n N(1) by (intro mult_mono) auto
      then show ?thesis by linarith
    qed (use P in simp)
    have rem: "\<bar>crem (o' * s) 65536\<bar> \<le> 65535"
    proof -
      have "crem a 65536 = sgn a * (\<bar>a\<bar> mod 65536)" for a :: int
        by (auto simp: crem_def cdiv_def sgn_if minus_div_mult_eq_mod [symmetric] algebra_simps)
      then show ?thesis using pos_mod_bound [of 65536 "\<bar>o' * s\<bar>"] by (auto simp: abs_mult sgn_if)
    qed
    let ?v = "matrix_clip (matrix_clip (word_of_int (crem (o' * s) 65536 + o')) False + word_of_int o') True"
    have small: "uint (matrix_clip w True) \<le> 255" for w :: i16
    proof -
      have "w AND 0xFF \<le> 0xFF" by (rule word_and_le1)
      then show ?thesis by (simp add: matrix_clip_def word_le_def)
    qed
    have "\<forall>k < Suc n. uint (A'[n := ?v] ! k) \<le> 255"
      using P small n by (auto simp: nth_list_update less_Suc_eq)
    moreover have "fill_body N i j x = Some (crem (o' * s) 65536, o' + 1, A'[n := ?v],
        B'[n := matrix_clip (word_of_int (crem (o' * s) 65536 + o')) False])"
      using ok P(1,2) n unfolding x fill_body_def Let_def n_def [symmetric] by simp
    ultimately have "\<exists>s'. fill_body N i j x = Some s' \<and> ?P (Suc n) s'"
      using P rem by simp
    then show "\<exists>s'. fill_body N i j x = Some s' \<and> ?P (Suc (i * N + j)) s'" by (simp only: n_def)
  qed
  then show ?thesis by auto
qed

lemma align_mem_aligned: "align_mem (4 * y) = 4 * y"
proof -
  let ?x = "4 * y :: i32"
  have m: "?x - 1 = NOT (push_bit 2 (- y))"
    by (simp add: not_eq_complement push_bit_eq_mult)
  have "bit (?x - 1) n" if b: "bit (3 :: i32) n" for n
  proof -
    have "(3 :: i32) = mask 2" by (simp add: mask_eq_exp_minus_1)
    with b have "n < 2" by (simp add: bit_mask_iff)
    then show ?thesis unfolding m by (simp add: bit_not_iff bit_push_bit_iff)
  qed
  then have "NOT (?x - 1) AND 3 = 0" by (auto simp: bit_eq_iff bit_and_iff bit_not_iff)
  then have "?x - 1 - 3 = (?x - 1) AND NOT 3" by (rule disjunctive_diff_eq_and_not)
  then have "(?x - 1) AND NOT 3 = ?x - 1 - 3" by simp
  then show ?thesis by (simp add: align_mem_def)
qed

section \<open>Properties\<close>

text \<open>
  C27: \<open>matrix_mul_matrix\<close> computes the matrix product modulo \<open>2^32\<close>: every cell of the result is the
  sum of products of the row of \<open>A\<close> and the column of \<open>B\<close>, wrapped to a signed 32-bit integer;
  whatever \<open>C\<close> held before, and nothing behind the \<open>N * N\<close> cells changes.
\<close>

theorem matrix_mul_matrix_product:
  assumes "N * N \<le> length A" "N * N \<le> length B" "N * N \<le> length C"
  shows "\<exists>D. matrix_mul_matrix N C A B = Some D \<and> length D = length C
    \<and> (\<forall>i j. i < N \<longrightarrow> j < N \<longrightarrow>
          sint (D ! (i * N + j)) = wrap32 (\<Sum>k < N. sint (A ! (i * N + k)) * sint (B ! (k * N + j))))
    \<and> (\<forall>n < length C. N * N \<le> n \<longrightarrow> D ! n = C ! n)"
proof -
  let ?D = "upd_upto (N * N) (\<lambda>n. dot_row N A B (n div N) (n mod N)) C"
  have "matrix_mul_matrix N C A B = Some ?D" by (rule matrix_mul_matrix_eq [OF assms])
  moreover have "sint (?D ! (i * N + j)) = wrap32 (\<Sum>k < N. sint (A ! (i * N + k)) * sint (B ! (k * N + j)))"
    if "i < N" "j < N" for i j
    using cell_in [OF that assms(3)] cell_bound [OF that] cell_div [OF that(2), of i]
    by (simp add: upd_upto_nth dot_row_int sint32_of_int del: of_int_sum)
  ultimately show ?thesis by (intro exI [of _ ?D]) (auto simp: upd_upto_nth)
qed

lemma matrix_mul_matrix_product_witness:
  "\<exists>D. matrix_mul_matrix 2 [9, 9, 9, 9, 5] [1, 2, 3, -4] [5, 6, 7, 8] = Some D \<and> length D = 5
    \<and> (\<forall>i j. i < 2 \<longrightarrow> j < 2 \<longrightarrow>
          sint (D ! (i * 2 + j)) = wrap32 (\<Sum>k < 2. sint ([1, 2, 3, -4 :: i16] ! (i * 2 + k)) * sint ([5, 6, 7, 8 :: i16] ! (k * 2 + j))))
    \<and> (\<forall>n < 5. 4 \<le> n \<longrightarrow> D ! n = [9, 9, 9, 9, 5] ! n)"
  using matrix_mul_matrix_product [of 2 "[1, 2, 3, -4]" "[5, 6, 7, 8]" "[9, 9, 9, 9, 5]"] by (simp add: eval_nat_numeral)

lemma matrix_test_restored:
  assumes "N * N \<le> length A" "N * N \<le> length B" "N * N \<le> length C"
  shows "\<exists>crc D. matrix_test N C A B val = Some (crc, A, D) \<and> length D = length C
    \<and> (\<forall>n < N * N. D ! n = dot_bits N (upd_upto (N * N) (\<lambda>n. A ! n + val) A) B (n div N) (n mod N))"
proof -
  have N: "N \<le> N * N" by (cases N) auto
  let ?A = "upd_upto (N * N) (\<lambda>n. A ! n + val) A"
  let ?g1 = "\<lambda>n. scast (?A ! n) * scast val" let ?C1 = "upd_upto (N * N) ?g1 C"
  let ?g2 = "\<lambda>i. \<Sum>j < N. scast (?A ! (i * N + j)) * scast (B ! j)" let ?C2 = "upd_upto N ?g2 ?C1"
  let ?C3 = "upd_upto (N * N) (\<lambda>n. dot_row N ?A B (n div N) (n mod N)) ?C2"
  let ?C4 = "upd_upto (N * N) (\<lambda>n. dot_bits N ?A B (n div N) (n mod N)) ?C3"
  have 1: "matrix_add_const N A val = Some ?A" by (rule matrix_add_const_eq [OF assms(1)])
  have 2: "matrix_mul_const N C ?A val = Some ?C1" by (rule matrix_mul_const_eq) (use assms in simp_all)
  have 3: "matrix_mul_vect N ?C1 ?A B = Some ?C2" 
    by (rule matrix_mul_vect_eq) (use assms le_trans [OF N assms(2)] le_trans [OF N assms(3)] in simp_all)
  have 4: "matrix_mul_matrix N ?C2 ?A B = Some ?C3" by (rule matrix_mul_matrix_eq) (use assms in simp_all)
  have 5: "matrix_mul_matrix_bitextract N ?C3 ?A B = Some ?C4"
    by (rule matrix_mul_matrix_bitextract_eq) (use assms in simp_all)
  obtain s1 s2 s3 s4 where s: "matrix_sum N ?C1 (matrix_big val) = Some s1" "matrix_sum N ?C2 (matrix_big val) = Some s2"
    "matrix_sum N ?C3 (matrix_big val) = Some s3" "matrix_sum N ?C4 (matrix_big val) = Some s4"
    using matrix_sum_total [of N ?C1] matrix_sum_total [of N ?C2] matrix_sum_total [of N ?C3] matrix_sum_total [of N ?C4] assms(3)
    unfolding length_upd_upto by metis
  have "upd_upto (N * N) (\<lambda>n. ?A ! n + - val) ?A = A"
    by (rule nth_equalityI) (auto simp: upd_upto_nth)
  then have 6: "matrix_add_const N ?A (- val) = Some A"
    using matrix_add_const_eq [of N ?A "- val"] assms(1) by simp
  have "matrix_test N C A B val = Some (crc16 s4 (crc16 s3 (crc16 s2 (crc16 s1 0))), A, ?C4)"
    by (simp only: matrix_test_def Let_def 1 2 3 4 5 6 s bind.bind_lunit)
  then show ?thesis using assms(3) by (auto simp: upd_upto_nth)
qed

text \<open>
  C28: \<open>matrix_test\<close> returns for matrices of its dimension and gives \<open>A\<close> back as it was, whatever the
  constant; the result matrix it leaves is that of the last step.
\<close>

theorem matrix_test_restores:
  assumes "N * N \<le> length A" "N * N \<le> length B" "N * N \<le> length C"
  shows "\<exists>crc D. matrix_test N C A B val = Some (crc, A, D) \<and> length D = length C
    \<and> (\<forall>n < N * N. D ! n = dot_bits N (upd_upto (N * N) (\<lambda>n. A ! n + val) A) B (n div N) (n mod N))"
  by (rule matrix_test_restored) (fact assms)+

lemma matrix_test_restores_witness:
  "\<exists>crc D. matrix_test 2 [0, 0, 0, 0] [1, 2, 3, 32767] [5, 6, 7, 8] 100 = Some (crc, [1, 2, 3, 32767], D)"
  using matrix_test_restores [of 2 "[1, 2, 3, 32767]" "[5, 6, 7, 8]" "[0, 0, 0, 0]" 100] by auto

lemma init_matrix_fits:
  assumes "1 \<le> b" "b \<le> 264992" "-2147483648 \<le> seed" "seed \<le> 2147483647"
  shows "\<exists>p N. core_init_matrix (of_nat b) (4 * y) seed junk junkC
      = Some (p, 4 * y, 4 * y + of_nat (2 * N * N), 4 * y + of_nat (4 * N * N))
    \<and> mat_N p = N \<and> 8 * N * N < b \<and> b \<le> 8 * Suc N * Suc N
    \<and> length (mat_A p) = N * N \<and> length (mat_B p) = N * N \<and> length (mat_C p) = N * N
    \<and> (\<forall>k < N * N. uint (mat_A p ! k) \<le> 255)"
proof -
  define n where "n = (LEAST n. b \<le> 8 * n * n)"
  have ex: "b \<le> 8 * b * b" by (cases b) auto
  have n: "b \<le> 8 * n * n" unfolding n_def by (rule LeastI [of _ b]) (rule ex)
  have less: "8 * k * k < b" if "k < n" for k using not_less_Least [OF that [unfolded n_def]] by simp
  obtain N where N: "n = Suc N" using n assms(1) by (cases n) auto
  have fd: "find_dim (of_nat b) 0 0 = Some (of_nat n)"
    using find_dim_eq [of b n 0] n less assms(2) by simp
  have bN: "8 * N * N < b" by (rule less) (simp add: N)
  have N181: "N \<le> 181"
  proof (rule ccontr)
    assume "\<not> N \<le> 181"
    then have "182 * 182 \<le> N * N" by (intro mult_mono) auto
    with bN assms(2) show False by simp
  qed
  then have NN: "N * N \<le> 32767" using mult_mono [of N 181 N 181] by simp
  let ?s = "if seed = 0 then 1 else seed"
  obtain s o' A' B' where f: "for2 N (fill_body N) (?s, 1, map junk [0..<N * N], map junk [0..<N * N]) = Some (s, o', A', B')"
    "length A' = N * N" "length B' = N * N" "\<forall>k < N * N. uint (A' ! k) \<le> 255"
    using fill_total [OF NN, of "map junk [0..<N * N]" "map junk [0..<N * N]" ?s] assms(3,4)
    by (cases "seed = 0") auto
  let ?p = "\<lparr>mat_N = N, mat_A = A', mat_B = B', mat_C = map junkC [0..<N * N]\<rparr>"
  have c: "align_mem (4 * y + 4 * (of_nat N * of_nat N)) = 4 * y + 4 * (of_nat N * of_nat N)"
    using align_mem_aligned [of "y + of_nat N * of_nat N"] by (simp add: distrib_left)
  have unN: "unat (of_nat N :: i32) = N" by (rule unat_of_nat32) (use N181 in simp)
  have "core_init_matrix (of_nat b) (4 * y) seed junk junkC
      = Some (?p, 4 * y, 4 * y + of_nat (2 * N * N), 4 * y + of_nat (4 * N * N))"
    unfolding core_init_matrix_def Let_def fd
    using f(1) c align_mem_aligned [of y] by (simp add: N unN algebra_simps)
  then show ?thesis using f(2-4) bN n
    by (intro exI [of _ ?p] exI [of _ N]) (simp add: N)
qed

text \<open>
  C39: \<open>core_init_matrix\<close> on a block of 1 up to 264992 bytes at a word-aligned address returns, for every
  seed, without arithmetic overflow. The dimension is the largest \<open>N\<close> with \<open>8 N^2\<close> strictly less than the size of the
  block, so that a block of exactly \<open>8 M^2\<close> bytes gets \<open>M - 1\<close>. The matrices \<open>A\<close> and \<open>B\<close> of 16-bit and \<open>C\<close> of 32-bit
  elements, \<open>N^2\<close> each, lie one behind the other from the start of the block, inside it, and \<open>A\<close> has values below 256.
\<close>

theorem core_init_matrix_fits:
  assumes "1 \<le> b" "b \<le> 264992" "-2147483648 \<le> seed" "seed \<le> 2147483647"
  shows "\<exists>p N. core_init_matrix (of_nat b) (4 * y) seed junk junkC
      = Some (p, 4 * y, 4 * y + of_nat (2 * N * N), 4 * y + of_nat (4 * N * N))
    \<and> mat_N p = N \<and> 8 * N * N < b \<and> b \<le> 8 * Suc N * Suc N
    \<and> length (mat_A p) = N * N \<and> length (mat_B p) = N * N \<and> length (mat_C p) = N * N
    \<and> (\<forall>k < N * N. uint (mat_A p ! k) \<le> 255)"
  by (rule init_matrix_fits) (fact assms)+

lemma core_init_matrix_fits_witness:
  "\<exists>p N. core_init_matrix 666 0x80001000 0x34153415 (\<lambda>_. 0) (\<lambda>_. 0)
      = Some (p, 0x80001000, 0x80001000 + of_nat (2 * N * N), 0x80001000 + of_nat (4 * N * N)) \<and> mat_N p = N \<and> N = 9"
proof -
  obtain p N where p: "core_init_matrix 666 0x80001000 0x34153415 (\<lambda>_. 0) (\<lambda>_. 0)
      = Some (p, 0x80001000, 0x80001000 + of_nat (2 * N * N), 0x80001000 + of_nat (4 * N * N))" "mat_N p = N"
    "8 * N * N < 666" "666 \<le> 8 * Suc N * Suc N"
    using core_init_matrix_fits [of 666 "0x34153415" "0x20000400" "\<lambda>_. 0" "\<lambda>_. 0"] by auto
  have "N < 10"
  proof (rule ccontr)
    assume "\<not> N < 10"
    then have "10 * 10 \<le> N * N" by (intro mult_mono) auto
    with p(3) show False by simp
  qed
  moreover have "9 \<le> N"
  proof (rule ccontr)
    assume "\<not> 9 \<le> N"
    then have "Suc N * Suc N \<le> 9 * 9" by (intro mult_mono) auto
    with p(4) show False unfolding mult.assoc by linarith
  qed
  ultimately show ?thesis using p(1,2) by (intro exI [of _ p] exI [of _ N]) simp
qed

end
