(* ===== verification/LinkedList.thy ===== *)
theory LinkedList
  imports StateMachine Matrix "HOL-Library.Multiset"
begin

unbundle bit_operations_syntax

text \<open>
  \<open>coremark/core_list_join.c\<close>: the linked list and its operations on a heap. List heads and data items
  have addresses in two separate name spaces; a pointer is an address or \<open>None\<close> for \<open>NULL\<close>. The data
  items and the benchmark's results are the \<open>world\<close> that the comparison functions change; the links
  are not part of it. A result \<open>None\<close> is a dereference of \<open>NULL\<close> or a loop that does not end.
\<close>

section \<open>The heap\<close>

record list_data =
  data16 :: i16
  idx :: i16

record core_results =
  seed1 :: i16
  seed2 :: i16
  seed3 :: i16
  memblock3 :: "i8 list"
  blk_size :: nat
  iterations :: nat
  mat :: mat_params
  crc :: i16
  crclist :: i16
  crcmatrix :: i16
  crcstate :: i16

record world =
  dat :: "nat \<Rightarrow> list_data"
  res :: core_results

record 'w lheap =
  nxt :: "nat \<Rightarrow> nat option"
  inf :: "nat \<Rightarrow> nat"
  world :: 'w

definition set_nxt :: "nat \<Rightarrow> nat option \<Rightarrow> 'w lheap \<Rightarrow> 'w lheap" where
  "set_nxt a p h = h\<lparr>nxt := (nxt h)(a := p)\<rparr>"

definition set_inf :: "nat \<Rightarrow> nat \<Rightarrow> 'w lheap \<Rightarrow> 'w lheap" where
  "set_inf a d h = h\<lparr>inf := (inf h)(a := d)\<rparr>"

definition set_dat :: "nat \<Rightarrow> list_data \<Rightarrow> world \<Rightarrow> world" where
  "set_dat d v w = w\<lparr>dat := (dat w)(d := v)\<rparr>"

section \<open>Comparison functions\<close>

text \<open>
  \<open>calc_func\<close> on the data item at \<open>d\<close>. Bit 7 tells that the low seven bits are a cached result;
  otherwise bits 0-2 choose the benchmark to run, whose CRC is cached.
\<close>

definition calc_func :: "nat \<Rightarrow> world \<Rightarrow> (i16 \<times> world) option" where
  "calc_func d w =
     (let data = data16 (dat w d); r = res w in
      if signed_drop_bit 7 data AND 1 = 1 then Some (data AND 0x007F, w)
      else do {
        let flag = data AND 7;
        let dtype = signed_drop_bit 3 data AND 0xF;
        let dtype = dtype OR push_bit 4 dtype;
        (retval, r) \<leftarrow>
          (if flag = 0 then do {
             let dtype = (if dtype <s 0x22 then 0x22 else dtype);
             (v, m) \<leftarrow> core_bench_state (blk_size r) (memblock3 r) (seed1 r) (seed2 r) dtype (crc r);
             let r = r\<lparr>memblock3 := m\<rparr>;
             Some (v, if crcstate r = 0 then r\<lparr>crcstate := v\<rparr> else r)
           }
           else if flag = 1 then do {
             (v, m) \<leftarrow> core_bench_matrix (mat r) dtype (crc r);
             let r = r\<lparr>mat := m\<rparr>;
             Some (v, if crcmatrix r = 0 then r\<lparr>crcmatrix := v\<rparr> else r)
           }
           else Some (data, r));
        let r = r\<lparr>crc := crcu16 retval (crc r)\<rparr>;
        let retval = retval AND 0x007F;
        let data = (data AND 0xFF00) OR 0x0080 OR retval;
        Some (retval, set_dat d ((dat w d)\<lparr>data16 := data\<rparr>) (w\<lparr>res := r\<rparr>))
      })"

text \<open>A comparison function reads two data items and may change the world.\<close>

type_synonym 'w list_cmp = "nat \<Rightarrow> nat \<Rightarrow> 'w \<Rightarrow> (int \<times> 'w) option"

definition cmp_complex :: "world list_cmp" where
  "cmp_complex a b w = do {
     (val1, w) \<leftarrow> calc_func a w;
     (val2, w) \<leftarrow> calc_func b w;
     Some (sint val1 - sint val2, w)
   }"

text \<open>\<open>cmp_idx\<close> as it is always called, with \<open>res = NULL\<close>: it restores the data from its upper byte.\<close>

definition regen :: "list_data \<Rightarrow> list_data" where
  "regen x = x\<lparr>data16 := (data16 x AND 0xFF00) OR (0x00FF AND signed_drop_bit 8 (data16 x))\<rparr>"

definition cmp_idx :: "world list_cmp" where
  "cmp_idx a b w =
     (let w = set_dat a (regen (dat w a)) w;
          w = set_dat b (regen (dat w b)) w
      in Some (sint (idx (dat w a)) - sint (idx (dat w b)), w))"

definition copy_info :: "nat \<Rightarrow> list_data \<Rightarrow> world \<Rightarrow> world" where
  "copy_info d from_data w = set_dat d \<lparr>data16 = data16 from_data, idx = idx from_data\<rparr> w"

section \<open>List operations\<close>

text \<open>
  \<open>core_list_insert_new\<close>: the free list heads and data items are the addresses from \<open>memblock\<close> and
  \<open>datablock\<close> on. The first result is the new item, \<open>None\<close> when there is no room.
\<close>

definition core_list_insert_new ::
  "nat \<Rightarrow> list_data \<Rightarrow> nat \<Rightarrow> nat \<Rightarrow> nat \<Rightarrow> nat \<Rightarrow> world lheap \<Rightarrow> nat option \<times> nat \<times> nat \<times> world lheap" where
  "core_list_insert_new insert_point info memblock datablock memblock_end datablock_end h =
     (if memblock_end \<le> memblock + 1 then (None, memblock, datablock, h)
      else if datablock_end \<le> datablock + 1 then (None, memblock, datablock, h)
      else
        let newitem = memblock;
            h = set_nxt newitem (nxt h insert_point) h;
            h = set_nxt insert_point (Some newitem) h;
            h = set_inf newitem datablock h;
            h = h\<lparr>world := copy_info (inf h newitem) info (world h)\<rparr>
        in (Some newitem, memblock + 1, datablock + 1, h))"

definition core_list_remove :: "nat \<Rightarrow> 'w lheap \<Rightarrow> (nat \<times> 'w lheap) option" where
  "core_list_remove item h = do {
     ret \<leftarrow> nxt h item;
     let tmp = inf h item;
     let h = set_inf item (inf h ret) h;
     let h = set_inf ret tmp h;
     n \<leftarrow> nxt h item;
     let h = set_nxt item (nxt h n) h;
     let h = set_nxt ret None h;
     Some (ret, h)
   }"

definition core_list_undo_remove :: "nat \<Rightarrow> nat \<Rightarrow> 'w lheap \<Rightarrow> nat \<times> 'w lheap" where
  "core_list_undo_remove item_removed item_modified h =
     (let tmp = inf h item_removed;
          h = set_inf item_removed (inf h item_modified) h;
          h = set_inf item_modified tmp h;
          h = set_nxt item_removed (nxt h item_modified) h;
          h = set_nxt item_modified (Some item_removed) h
      in (item_removed, h))"

partial_function (option) find_while :: "(nat \<Rightarrow> bool) \<Rightarrow> 'w lheap \<Rightarrow> nat option \<Rightarrow> nat option option" where
  "find_while differs h list =
     (case list of
        None \<Rightarrow> Some None
      | Some a \<Rightarrow> if differs a then find_while differs h (nxt h a) else Some (Some a))"

definition core_list_find :: "nat option \<Rightarrow> list_data \<Rightarrow> world lheap \<Rightarrow> nat option option" where
  "core_list_find list info h =
     (if 0 <=s idx info
      then find_while (\<lambda>a. idx (dat (world h) (inf h a)) \<noteq> idx info) h list
      else find_while (\<lambda>a. data16 (dat (world h) (inf h a)) AND 0xFF \<noteq> data16 info) h list)"

partial_function (option) reverse_loop :: "nat option \<Rightarrow> nat option \<Rightarrow> 'w lheap \<Rightarrow> (nat option \<times> 'w lheap) option" where
  "reverse_loop list next h =
     (case list of
        None \<Rightarrow> Some (next, h)
      | Some a \<Rightarrow> reverse_loop (nxt h a) (Some a) (set_nxt a next h))"

definition core_list_reverse :: "nat option \<Rightarrow> 'w lheap \<Rightarrow> (nat option \<times> 'w lheap) option" where
  "core_list_reverse list h = reverse_loop list None h"

section \<open>Merge sort\<close>

text \<open>The \<open>for\<close> loop that steps \<open>insize\<close> places along: the number of steps and where they end.\<close>

fun step_along :: "nat \<Rightarrow> nat \<Rightarrow> nat option \<Rightarrow> 'w lheap \<Rightarrow> (nat \<times> nat option) option" where
  "step_along 0 psize q h = Some (psize, q)"
| "step_along (Suc i) psize q h = do {
     a \<leftarrow> q;
     (case nxt h a of
        None \<Rightarrow> Some (psize + 1, None)
      | Some b \<Rightarrow> step_along i (psize + 1) (Some b) h)
   }"

text \<open>Appending \<open>e\<close> to the merged list.\<close>

definition append_e :: "nat \<Rightarrow> nat option \<times> nat option \<Rightarrow> 'w lheap \<Rightarrow> (nat option \<times> nat option) \<times> 'w lheap" where
  "append_e e lt h =
     (case snd lt of
        Some t \<Rightarrow> ((fst lt, Some e), set_nxt t (Some e) h)
      | None \<Rightarrow> ((Some e, Some e), h))"

text \<open>The merge loop on \<open>(p, psize, q, qsize)\<close>, the pair \<open>(list, tail)\<close> and the heap.\<close>

partial_function (option) merge_loop ::
  "'w list_cmp \<Rightarrow> nat option \<times> nat \<times> nat option \<times> nat \<Rightarrow> nat option \<times> nat option \<Rightarrow> 'w lheap
     \<Rightarrow> (nat option \<times> (nat option \<times> nat option) \<times> 'w lheap) option" where
  "merge_loop cmp x lt h = (case x of (p, psize, q, qsize) \<Rightarrow>
     if \<not> (0 < psize \<or> 0 < qsize \<and> q \<noteq> None) then Some (q, lt, h)
     else if psize = 0 then
       Option.bind q (\<lambda>e. case append_e e lt h of (lt', h') \<Rightarrow>
         merge_loop cmp (p, psize, nxt h e, qsize - 1) lt' h')
     else if qsize = 0 \<or> q = None then
       Option.bind p (\<lambda>e. case append_e e lt h of (lt', h') \<Rightarrow>
         merge_loop cmp (nxt h e, psize - 1, q, qsize) lt' h')
     else
       Option.bind p (\<lambda>a. Option.bind q (\<lambda>b. Option.bind (cmp (inf h a) (inf h b) (world h)) (\<lambda>(c, w).
         if c \<le> 0 then
           (case append_e a lt (h\<lparr>world := w\<rparr>) of (lt', h') \<Rightarrow>
              merge_loop cmp (nxt h a, psize - 1, q, qsize) lt' h')
         else
           (case append_e b lt (h\<lparr>world := w\<rparr>) of (lt', h') \<Rightarrow>
              merge_loop cmp (p, psize, nxt h b, qsize - 1) lt' h')))))"

text \<open>The \<open>while (p)\<close> loop of one pass, with the number of merges.\<close>

partial_function (option) pass_loop ::
  "'w list_cmp \<Rightarrow> nat \<Rightarrow> nat option \<Rightarrow> nat \<Rightarrow> nat option \<times> nat option \<Rightarrow> 'w lheap
     \<Rightarrow> (nat \<times> (nat option \<times> nat option) \<times> 'w lheap) option" where
  "pass_loop cmp insize p nmerges lt h =
     (case p of
        None \<Rightarrow> Some (nmerges, lt, h)
      | Some _ \<Rightarrow>
          Option.bind (step_along insize 0 p h) (\<lambda>(psize, q).
            Option.bind (merge_loop cmp (p, psize, q, insize) lt h) (\<lambda>(q', lt', h').
              pass_loop cmp insize q' (nmerges + 1) lt' h')))"

partial_function (option) sort_loop ::
  "'w list_cmp \<Rightarrow> nat \<Rightarrow> nat option \<Rightarrow> 'w lheap \<Rightarrow> (nat option \<times> 'w lheap) option" where
  "sort_loop cmp insize list h =
     Option.bind (pass_loop cmp insize list 0 (None, None) h) (\<lambda>(nmerges, lt, h).
       Option.bind (snd lt) (\<lambda>tail.
         (let h = set_nxt tail None h
          in if nmerges \<le> 1 then Some (fst lt, h) else sort_loop cmp (insize * 2) (fst lt) h)))"

definition core_list_mergesort :: "'w list_cmp \<Rightarrow> nat option \<Rightarrow> 'w lheap \<Rightarrow> (nat option \<times> 'w lheap) option" where
  "core_list_mergesort cmp list h = sort_loop cmp 1 list h"

section \<open>Chains and lists of addresses\<close>

text \<open>\<open>lseg h p as q\<close>: from \<open>p\<close> the links lead through the heads \<open>as\<close> to \<open>q\<close>.\<close>

fun lseg :: "'w lheap \<Rightarrow> nat option \<Rightarrow> nat list \<Rightarrow> nat option \<Rightarrow> bool" where
  "lseg h p [] q = (p = q)"
| "lseg h p (a # as) q = (p = Some a \<and> lseg h (nxt h a) as q)"

definition ptr :: "nat list \<Rightarrow> nat option" where
  "ptr as = (if as = [] then None else Some (hd as))"

definition chain :: "'w lheap \<Rightarrow> nat list \<Rightarrow> bool" where
  "chain h as = (distinct as \<and> lseg h (ptr as) as None)"

lemma ptr_simps [simp]: "ptr [] = None" "ptr (a # as) = Some a"
  by (simp_all add: ptr_def)

lemma nxt_set_nxt [simp]: "nxt (set_nxt a p h) = (nxt h)(a := p)" "inf (set_nxt a p h) = inf h"
  "world (set_nxt a p h) = world h" "nxt (set_inf a d h) = nxt h" "inf (set_inf a d h) = (inf h)(a := d)"
  "world (set_inf a d h) = world h"
  by (simp_all add: set_nxt_def set_inf_def)

lemma lseg_append: "lseg h p (as @ bs) q \<longleftrightarrow> (\<exists>r. lseg h p as r \<and> lseg h r bs q)"
  by (induction as arbitrary: p) auto

lemma lseg_ptr: "lseg h p as None \<Longrightarrow> p = ptr as"
  by (cases as) auto

lemma lseg_cong: "(\<And>a. a \<in> set as \<Longrightarrow> nxt h' a = nxt h a) \<Longrightarrow> lseg h' p as q = lseg h p as q"
  by (induction as arbitrary: p) auto

lemma chain_Cons: "chain h (a # as) \<longleftrightarrow> a \<notin> set as \<and> nxt h a = ptr as \<and> chain h as"
proof -
  have "lseg h (nxt h a) as None \<longleftrightarrow> nxt h a = ptr as \<and> lseg h (ptr as) as None" using lseg_ptr by metis
  then show ?thesis by (auto simp: chain_def)
qed

lemma chain_append: "chain h (as @ bs) \<longleftrightarrow> distinct (as @ bs) \<and> lseg h (ptr (as @ bs)) as (ptr bs) \<and> chain h bs"
proof -
  have "(\<exists>r. lseg h (ptr (as @ bs)) as r \<and> lseg h r bs None)
      \<longleftrightarrow> lseg h (ptr (as @ bs)) as (ptr bs) \<and> lseg h (ptr bs) bs None" using lseg_ptr [of h _ bs] by blast
  then show ?thesis unfolding chain_def lseg_append by auto
qed

lemma chain_cong: "(\<And>a. a \<in> set as \<Longrightarrow> nxt h' a = nxt h a) \<Longrightarrow> chain h' as = chain h as"
  by (simp add: chain_def lseg_cong [of as h' h])

lemma chain_frame: "chain h as \<Longrightarrow> (\<And>a. a \<in> set as \<Longrightarrow> nxt h' a = nxt h a) \<Longrightarrow> chain h' as"
  using chain_cong by blast

section \<open>The sort on lists of addresses\<close>

text \<open>\<open>outp h (list, tail) out\<close>: the merged list so far is \<open>out\<close>; the link of its tail is not yet set.\<close>

definition outp :: "'w lheap \<Rightarrow> nat option \<times> nat option \<Rightarrow> nat list \<Rightarrow> bool" where
  "outp h lt out = (lt = (ptr out, if out = [] then None else Some (last out)) \<and>
     (out \<noteq> [] \<longrightarrow> lseg h (ptr out) (butlast out) (Some (last out))))"

lemma outp_append_e:
  assumes "outp h lt out" and "distinct (out @ [e])"
  shows "\<exists>lt' h'. append_e e lt h = (lt', h') \<and> outp h' lt' (out @ [e]) \<and> inf h' = inf h \<and> world h' = world h
           \<and> (\<forall>a. a \<notin> set out \<longrightarrow> nxt h' a = nxt h a)"
proof (cases "out = []")
  case True
  with assms show ?thesis by (auto simp: append_e_def outp_def)
next
  case False
  have lt: "lt = (ptr out, Some (last out))" and seg: "lseg h (ptr out) (butlast out) (Some (last out))"
    using assms(1) False by (auto simp: outp_def)
  have out: "butlast out @ [last out] = out" using False by simp
  have nin: "last out \<notin> set (butlast out)"
    using assms(2) by (metis out distinct_append not_distinct_conv_prefix)
  let ?h = "set_nxt (last out) (Some e) h"
  have "lseg ?h (ptr out) (butlast out) (Some (last out))"
    using seg nin by (subst lseg_cong [of _ ?h h]) auto
  then have "lseg ?h (ptr out) (butlast out @ [last out]) (Some e)"
    by (auto simp: lseg_append)
  then have "outp ?h (ptr out, Some e) (out @ [e])"
    using False by (simp add: outp_def out) (cases out; simp)
  with lt show ?thesis using False by (auto simp: append_e_def)
qed

fun amerge :: "'w list_cmp \<Rightarrow> (nat \<Rightarrow> nat) \<Rightarrow> nat list \<Rightarrow> nat list \<Rightarrow> 'w \<Rightarrow> (nat list \<times> 'w) option" where
  "amerge cmp f [] qs w = Some (qs, w)"
| "amerge cmp f (p # ps) [] w = Some (p # ps, w)"
| "amerge cmp f (p # ps) (q # qs) w =
     Option.bind (cmp (f p) (f q) w) (\<lambda>(c, w).
       if c \<le> 0 then map_option (map_prod ((#) p) id) (amerge cmp f ps (q # qs) w)
       else map_option (map_prod ((#) q) id) (amerge cmp f (p # ps) qs w))"

lemma amerge_mset: "amerge cmp f ps qs w = Some (r, w') \<Longrightarrow> mset r = mset ps + mset qs"
proof (induction cmp f ps qs w arbitrary: r w' rule: amerge.induct)
  case (3 cmp f p ps q qs w)
  obtain c w1 where c: "cmp (f p) (f q) w = Some (c, w1)" using "3.prems" by (auto simp: bind_eq_Some_conv)
  show ?case
  proof (cases "c \<le> 0")
    case True
    then show ?thesis using "3.IH"(1) [OF c refl] "3.prems" c by auto
  next
    case False
    then show ?thesis using "3.IH"(2) [OF c refl] "3.prems" c by auto
  qed
qed auto

lemma merge_loop_amerge:
  assumes "lseg h p ps X" and "lseg h q (qs @ rs) None" and "length qs \<le> n" and "length qs = n \<or> rs = []"
    and "distinct (out @ ps @ qs @ rs)" and "outp h lt out"
    and "amerge cmp (inf h) ps qs (world h) = Some (ms, w)"
  shows "\<exists>lt' h'. merge_loop cmp (p, length ps, q, n) lt h = Some (ptr rs, lt', h') \<and> outp h' lt' (out @ ms)
           \<and> chain h' rs \<and> inf h' = inf h \<and> world h' = w \<and> (\<forall>a. a \<notin> set (out @ ps @ qs) \<longrightarrow> nxt h' a = nxt h a)"
  using assms
proof (induction "length ps + length qs" arbitrary: p ps q qs n out lt h ms w rule: less_induct)
  case less
  have takep: ?case
    if pe: "ps = e # ps'" and cl: "amerge cmp (inf h) ps' qs w' = Some (ms', w)" "ms = e # ms'"
      and step: "\<And>lt' h'. append_e e lt (h\<lparr>world := w'\<rparr>) = (lt', h') \<Longrightarrow>
         merge_loop cmp (p, length ps, q, n) lt h = merge_loop cmp (nxt h e, length ps', q, n) lt' h'"
    for e ps' ms' w'
  proof -
    obtain lt1 h1 where ap: "append_e e lt (h\<lparr>world := w'\<rparr>) = (lt1, h1)" and o1: "outp h1 lt1 (out @ [e])"
      and i1: "inf h1 = inf h" and w1: "world h1 = w'" and n1: "\<And>a. a \<notin> set out \<Longrightarrow> nxt h1 a = nxt h a"
      using outp_append_e [of "h\<lparr>world := w'\<rparr>" lt out e] less.prems(5,6) pe
      by (auto simp: outp_def lseg_cong [of _ "h\<lparr>world := w'\<rparr>" h])
    have "\<exists>lt' h'. merge_loop cmp (nxt h e, length ps', q, n) lt1 h1 = Some (ptr rs, lt', h')
        \<and> outp h' lt' ((out @ [e]) @ ms') \<and> chain h' rs \<and> inf h' = inf h1 \<and> world h' = w
        \<and> (\<forall>a. a \<notin> set ((out @ [e]) @ ps' @ qs) \<longrightarrow> nxt h' a = nxt h1 a)"
    proof (rule less.hyps)
      show "length ps' + length qs < length ps + length qs" by (simp add: pe)
      show "lseg h1 (nxt h e) ps' X"
        using less.prems(1,5) by (subst lseg_cong [of _ h1 h]) (auto simp: pe intro!: n1)
      show "lseg h1 q (qs @ rs) None"
        using less.prems(2,5) by (subst lseg_cong [of _ h1 h]) (auto simp: pe intro!: n1)
      show "amerge cmp (inf h1) ps' qs (world h1) = Some (ms', w)" using cl by (simp add: i1 w1)
    qed (use less.prems(3-5) pe o1 in auto)
    with step [OF ap] show ?thesis using n1 i1 cl(2) pe by auto
  qed
  have takeq: ?case
    if qe: "qs = e # qs'" and cl: "amerge cmp (inf h) ps qs' w' = Some (ms', w)" "ms = e # ms'"
      and step: "\<And>lt' h'. append_e e lt (h\<lparr>world := w'\<rparr>) = (lt', h') \<Longrightarrow>
         merge_loop cmp (p, length ps, q, n) lt h = merge_loop cmp (p, length ps, nxt h e, n - 1) lt' h'"
    for e qs' ms' w'
  proof -
    obtain lt1 h1 where ap: "append_e e lt (h\<lparr>world := w'\<rparr>) = (lt1, h1)" and o1: "outp h1 lt1 (out @ [e])"
      and i1: "inf h1 = inf h" and w1: "world h1 = w'" and n1: "\<And>a. a \<notin> set out \<Longrightarrow> nxt h1 a = nxt h a"
      using outp_append_e [of "h\<lparr>world := w'\<rparr>" lt out e] less.prems(5,6) qe
      by (auto simp: outp_def lseg_cong [of _ "h\<lparr>world := w'\<rparr>" h])
    have "\<exists>lt' h'. merge_loop cmp (p, length ps, nxt h e, n - 1) lt1 h1 = Some (ptr rs, lt', h')
        \<and> outp h' lt' ((out @ [e]) @ ms') \<and> chain h' rs \<and> inf h' = inf h1 \<and> world h' = w
        \<and> (\<forall>a. a \<notin> set ((out @ [e]) @ ps @ qs') \<longrightarrow> nxt h' a = nxt h1 a)"
    proof (rule less.hyps)
      show "length ps + length qs' < length ps + length qs" by (simp add: qe)
      show "lseg h1 p ps X"
        using less.prems(1,5) by (subst lseg_cong [of _ h1 h]) (auto simp: qe intro!: n1)
      show "lseg h1 (nxt h e) (qs' @ rs) None"
        using less.prems(2,5) by (subst lseg_cong [of _ h1 h]) (auto simp: qe intro!: n1)
      show "amerge cmp (inf h1) ps qs' (world h1) = Some (ms', w)" using cl by (simp add: i1 w1)
      show "length qs' = n - 1 \<or> rs = []" using less.prems(4) by (auto simp: qe)
    qed (use less.prems(3-5) qe o1 in auto)
    with step [OF ap] show ?thesis using n1 i1 cl(2) qe by auto
  qed
  show ?case
  proof (cases ps)
    case Nil
    show ?thesis
    proof (cases qs)
      case Nil
      then have "q = ptr rs" "chain h rs" "n = 0 \<or> rs = []"
        using less.prems by (auto simp: chain_def dest: lseg_ptr)
      with \<open>ps = []\<close> \<open>qs = []\<close> less.prems(6,7) show ?thesis
        by (subst merge_loop.simps) (cases lt; auto)
    next
      case (Cons e qs')
      have n: "0 < n" using Cons less.prems(3) by simp
      have ms: "ms = e # qs'" "w = world h" using less.prems(7) \<open>ps = []\<close> Cons by auto
      show ?thesis
        by (rule takeq [where w' = "world h" and ms' = qs'])
           (use Cons ms \<open>ps = []\<close> n less.prems(2) in \<open>auto simp: merge_loop.simps [of cmp "(p, 0, Some e, n)" lt h]\<close>)
    qed
  next
    case (Cons a ps')
    have p: "p = Some a" using less.prems(1) Cons by simp
    show ?thesis
    proof (cases qs)
      case Nil
      then have nq: "n = 0 \<or> q = None" using less.prems(2,4) by auto
      have ms: "ms = a # ps'" "w = world h" using less.prems(7) Cons Nil by auto
      have m: "amerge cmp (inf h) ps' qs (world h) = Some (ps', w)" using ms Nil by (cases ps') auto
      show ?thesis
        by (rule takep [where w' = "world h", OF Cons m ms(1)])
           (use Cons ms p nq in \<open>auto simp: merge_loop.simps [of cmp "(p, Suc (length ps'), q, n)"]
              merge_loop.simps [of cmp "(Some a, Suc (length ps'), q, n)"]\<close>)
    next
      case (Cons b qs')
      have q: "q = Some b" and n: "n \<noteq> 0" using less.prems(2,3) Cons by auto
      obtain c w1 where c: "cmp (inf h a) (inf h b) (world h) = Some (c, w1)"
        using less.prems(7) Cons \<open>ps = a # ps'\<close> by (auto simp: bind_eq_Some_conv)
      have unf: "merge_loop cmp (p, length ps, q, n) lt h =
         (if c \<le> 0 then (case append_e a lt (h\<lparr>world := w1\<rparr>) of (lt', h') \<Rightarrow>
              merge_loop cmp (nxt h a, length ps', q, n) lt' h')
          else (case append_e b lt (h\<lparr>world := w1\<rparr>) of (lt', h') \<Rightarrow>
              merge_loop cmp (p, length ps, nxt h b, n - 1) lt' h'))"
        using n by (subst merge_loop.simps) (simp add: \<open>ps = a # ps'\<close> p q c)
      show ?thesis
      proof (cases "c \<le> 0")
        case True
        obtain ms' where "amerge cmp (inf h) ps' qs w1 = Some (ms', w)" "ms = a # ms'"
          using less.prems(7) True c Cons \<open>ps = a # ps'\<close> by auto
        then show ?thesis
          by (rule takep [OF \<open>ps = a # ps'\<close>]) (use True unf in simp)
      next
        case False
        obtain ms' where "amerge cmp (inf h) ps qs' w1 = Some (ms', w)" "ms = b # ms'"
          using less.prems(7) False c Cons \<open>ps = a # ps'\<close> by auto
        then show ?thesis
          by (rule takeq [OF Cons]) (use False unf in simp)
      qed
    qed
  qed
qed

lemma step_along_chain:
  "lseg h p as None \<Longrightarrow> as \<noteq> [] \<Longrightarrow> step_along i k p h = Some (k + min i (length as), ptr (drop i as))"
proof (induction i arbitrary: k p as)
  case 0
  then show ?case by (simp add: lseg_ptr)
next
  case (Suc i)
  then obtain a as' where as: "as = a # as'" "p = Some a" "lseg h (nxt h a) as' None" by (cases as) auto
  show ?case
  proof (cases as')
    case Nil
    with as show ?thesis by simp
  next
    case (Cons b bs)
    with as have "nxt h a = Some b" by simp
    with as Cons Suc.IH [OF as(3), of "k + 1"] show ?thesis by simp
  qed
qed

text \<open>One pass with runs of \<open>n\<close> items: the merged list and the number of merges.\<close>

function apass :: "'w list_cmp \<Rightarrow> (nat \<Rightarrow> nat) \<Rightarrow> nat \<Rightarrow> nat list \<Rightarrow> 'w \<Rightarrow> (nat list \<times> nat \<times> 'w) option" where
  "apass cmp f n as w =
     (if as = [] \<or> n = 0 then Some ([], 0, w)
      else Option.bind (amerge cmp f (take n as) (take n (drop n as)) w) (\<lambda>(ms, w).
        map_option (map_prod ((@) ms) (map_prod Suc id)) (apass cmp f n (drop n (drop n as)) w)))"
  by auto
termination by (relation "measure (\<lambda>(cmp, f, n, as, w). length as)") auto

declare apass.simps [simp del]

lemma apass_Nil [simp]: "apass cmp f n [] w = Some ([], 0, w)"
  by (subst apass.simps) simp

lemma apass_mset: "apass cmp f n as w = Some (r, k, w') \<Longrightarrow> 0 < n \<Longrightarrow> mset r = mset as"
proof (induction cmp f n as w arbitrary: r k w' rule: apass.induct)
  case (1 cmp f n as w)
  show ?case
  proof (cases "as = []")
    case True
    with 1 show ?thesis by simp
  next
    case False
    from 1 False obtain ms w1 r1 k1 where m: "amerge cmp f (take n as) (take n (drop n as)) w = Some (ms, w1)"
      and p: "apass cmp f n (drop n (drop n as)) w1 = Some (r1, k1, w')" and r: "r = ms @ r1"
      by (subst (asm) apass.simps) (auto simp: bind_eq_Some_conv)
    have "mset ms + mset r1 = mset (take n as @ take n (drop n as) @ drop n (drop n as))"
      using amerge_mset [OF m] "1.IH" [OF _ m refl p] False "1.prems" by (simp add: add.assoc)
    also have "\<dots> = mset as" by (simp only: append_take_drop_id)
    finally show ?thesis by (simp add: r)
  qed
qed

lemma apass_count: "apass cmp f n as w = Some (r, k, w') \<Longrightarrow> 0 < n \<Longrightarrow> 1 < k \<Longrightarrow> 2 * n < length as"
proof -
  assume a: "apass cmp f n as w = Some (r, k, w')" "0 < n" "1 < k"
  then have ne: "as \<noteq> []" by auto
  with a obtain w1 r1 k1 where p: "apass cmp f n (drop n (drop n as)) w1 = Some (r1, k1, w')" and k: "k = Suc k1"
    by (subst (asm) apass.simps) (auto simp: bind_eq_Some_conv)
  have "drop n (drop n as) \<noteq> []" using p k a(3) by auto
  then show ?thesis by simp
qed

lemma pass_loop_apass:
  assumes "chain h as" and "0 < n" and "distinct (out @ as)" and "outp h lt out"
    and "apass cmp (inf h) n as (world h) = Some (r, k, w)"
  shows "\<exists>lt' h'. pass_loop cmp n (ptr as) m lt h = Some (m + k, lt', h') \<and> outp h' lt' (out @ r)
           \<and> inf h' = inf h \<and> world h' = w \<and> (\<forall>a. a \<notin> set (out @ as) \<longrightarrow> nxt h' a = nxt h a)"
  using assms
proof (induction "length as" arbitrary: as out lt h r k m rule: less_induct)
  case less
  show ?case
  proof (cases "as = []")
    case True
    with less.prems show ?thesis by (subst pass_loop.simps) (cases lt; auto)
  next
    case False
    let ?ps = "take n as" and ?qs = "take n (drop n as)" and ?rs = "drop n (drop n as)"
    from less.prems False obtain ms w1 r1 k1 where m: "amerge cmp (inf h) ?ps ?qs (world h) = Some (ms, w1)"
      and p: "apass cmp (inf h) n ?rs w1 = Some (r1, k1, w)" and rk: "r = ms @ r1" "k = Suc k1"
      by (subst (asm) apass.simps) (auto simp: bind_eq_Some_conv)
    have split: "?ps @ ?qs @ ?rs = as" by (metis append_take_drop_id)
    have msm: "mset ms = mset (?ps @ ?qs)" using amerge_mset [OF m] by simp
    have ch: "lseg h (ptr as) ?ps (ptr (drop n as))" "lseg h (ptr (drop n as)) (?qs @ ?rs) None"
      using less.prems(1) chain_append [of h ?ps "drop n as"] unfolding chain_def append_take_drop_id by blast+
    have dis: "distinct (out @ ?ps @ ?qs @ ?rs)" unfolding split by (rule less.prems(3))
    have len: "length ?qs \<le> n" "length ?qs = n \<or> ?rs = []" by auto
    obtain lt1 h1 where ml: "merge_loop cmp (ptr as, length ?ps, ptr (drop n as), n) lt h = Some (ptr ?rs, lt1, h1)"
      and o1: "outp h1 lt1 (out @ ms)" and c1: "chain h1 ?rs" and i1: "inf h1 = inf h" and w1: "world h1 = w1"
      and n1: "\<And>a. a \<notin> set (out @ ?ps @ ?qs) \<Longrightarrow> nxt h1 a = nxt h a"
      using merge_loop_amerge [OF ch len dis less.prems(4) m] by blast
    have st: "step_along n 0 (ptr as) h = Some (length ?ps, ptr (drop n as))"
      using step_along_chain [of h "ptr as" as n 0] less.prems(1) False by (simp add: chain_def min.commute)
    have dd: "distinct ((out @ ms) @ ?rs)"
      using less.prems(3) split msm by (metis append.assoc mset_append mset_eq_imp_distinct_iff)
    obtain lt2 h2 where pl: "pass_loop cmp n (ptr ?rs) (m + 1) lt1 h1 = Some (m + 1 + k1, lt2, h2)"
      and o2: "outp h2 lt2 ((out @ ms) @ r1)" and i2: "inf h2 = inf h1" and w2: "world h2 = w"
      and n2: "\<And>a. a \<notin> set ((out @ ms) @ ?rs) \<Longrightarrow> nxt h2 a = nxt h1 a"
      using less.hyps [OF _ c1 less.prems(2) dd o1, of r1 k1 "m + 1"] False less.prems(2) p i1 w1 by auto
    have "pass_loop cmp n (ptr as) m lt h = pass_loop cmp n (ptr ?rs) (m + 1) lt1 h1"
      using False st ml by (subst pass_loop.simps) (cases as; simp)
    moreover have "set ((out @ ms) @ ?rs) = set (out @ as)" "set (out @ ?ps @ ?qs) \<subseteq> set (out @ as)"
      using split msm by (metis append.assoc mset_append set_mset_mset, metis append_assoc set_append Un_mono Un_upper1 subset_refl)
    then have "nxt h2 a = nxt h a" if "a \<notin> set (out @ as)" for a
      using n1 [of a] n2 [of a] that by (metis subsetD)
    ultimately show ?thesis using pl o2 i1 i2 w2 rk
      by (intro exI [of _ lt2] exI [of _ h2]) simp
  qed
qed

text \<open>The whole sort: the merged list of the last pass, in which there is one merge at most.\<close>

function asort :: "'w list_cmp \<Rightarrow> (nat \<Rightarrow> nat) \<Rightarrow> nat \<Rightarrow> nat list \<Rightarrow> 'w \<Rightarrow> (nat list \<times> 'w) option" where
  "asort cmp f n as w =
     (if n = 0 then None
      else Option.bind (apass cmp f n as w) (\<lambda>(r, k, w).
        if k \<le> 1 then Some (r, w) else asort cmp f (n * 2) r w))"
  by auto
termination
proof (relation "measure (\<lambda>(cmp, f, n, as, w). length as - n)", goal_cases)
  case (2 cmp f n as w x r y k w')
  then have "2 * n < length as" "mset r = mset as" by (auto intro: apass_count apass_mset)
  then show ?case using 2(1) mset_eq_length [of r as] by simp
qed simp

declare asort.simps [simp del]

lemma asort_mset: "asort cmp f n as w = Some (r, w') \<Longrightarrow> mset r = mset as"
proof (induction cmp f n as w rule: asort.induct)
  case (1 cmp f n as w)
  from "1.prems" obtain r1 k1 w1 where n: "n \<noteq> 0" and p: "apass cmp f n as w = Some (r1, k1, w1)"
    and c: "(if k1 \<le> 1 then Some (r1, w1) else asort cmp f (n * 2) r1 w1) = Some (r, w')"
    by (subst (asm) asort.simps) (auto simp: bind_eq_Some_conv split: if_splits)
  show ?case using "1.IH" [OF n p refl refl] apass_mset [OF p] n c by (auto split: if_splits)
qed

lemma sort_loop_asort:
  assumes "chain h as" and "as \<noteq> []" and "asort cmp (inf h) n as (world h) = Some (r, w)"
  shows "\<exists>h'. sort_loop cmp n (ptr as) h = Some (ptr r, h') \<and> chain h' r
           \<and> inf h' = inf h \<and> world h' = w \<and> (\<forall>a. a \<notin> set as \<longrightarrow> nxt h' a = nxt h a)"
  using assms
proof (induction cmp "inf h" n as "world h" arbitrary: h rule: asort.induct)
  case (1 cmp n as)
  from "1.prems"(3) obtain r1 k1 w1 where n: "n \<noteq> 0" and p: "apass cmp (inf h) n as (world h) = Some (r1, k1, w1)"
    and c: "(if k1 \<le> 1 then Some (r1, w1) else asort cmp (inf h) (n * 2) r1 w1) = Some (r, w)"
    by (subst (asm) asort.simps) (auto simp: bind_eq_Some_conv split: if_splits)
  have ms: "mset r1 = mset as" using apass_mset [OF p] n by simp
  have ne: "r1 \<noteq> []" and dis: "distinct r1" and set: "set r1 = set as"
    using ms "1.prems"(1,2) mset_eq_imp_distinct_iff [OF ms] by (auto simp: chain_def dest: mset_eq_setD)
  obtain lt1 h1 where pl: "pass_loop cmp n (ptr as) 0 (None, None) h = Some (k1, lt1, h1)" and o1: "outp h1 lt1 r1"
    and i1: "inf h1 = inf h" and w1: "world h1 = w1" and n1: "\<And>a. a \<notin> set as \<Longrightarrow> nxt h1 a = nxt h a"
    using pass_loop_apass [of h as n "[]" "(None, None)" cmp r1 k1 w1 0] "1.prems"(1) n p
    by (auto simp: outp_def chain_def)
  let ?h = "set_nxt (last r1) None h1"
  have lt1: "lt1 = (ptr r1, Some (last r1))" and seg: "lseg h1 (ptr r1) (butlast r1) (Some (last r1))"
    using o1 ne by (auto simp: outp_def)
  have r1: "butlast r1 @ [last r1] = r1" using ne by simp
  have nin: "last r1 \<notin> set (butlast r1)"
    using dis by (metis r1 distinct_append not_distinct_conv_prefix)
  have "lseg ?h (ptr r1) (butlast r1) (Some (last r1))"
    using seg nin by (subst lseg_cong [of _ ?h h1]) auto
  then have "lseg ?h (ptr r1) (butlast r1 @ [last r1]) None" by (auto simp: lseg_append)
  with dis have ch: "chain ?h r1" by (simp add: chain_def r1)
  have un: "sort_loop cmp n (ptr as) h =
      (if k1 \<le> 1 then Some (ptr r1, ?h) else sort_loop cmp (n * 2) (ptr r1) ?h)"
    by (subst sort_loop.simps) (simp add: pl lt1 Let_def)
  have n2: "\<And>a. a \<notin> set as \<Longrightarrow> nxt ?h a = nxt h a"
    using n1 set ne by (metis fun_upd_other last_in_set nxt_set_nxt(1))
  show ?case
  proof (cases "k1 \<le> 1")
    case True
    then show ?thesis using un c ch n2 i1 w1 by auto
  next
    case False
    have "\<exists>h'. sort_loop cmp (n * 2) (ptr r1) ?h = Some (ptr r, h') \<and> chain h' r
           \<and> inf h' = inf ?h \<and> world h' = w \<and> (\<forall>a. a \<notin> set r1 \<longrightarrow> nxt h' a = nxt ?h a)"
      by (rule "1.hyps" [OF n p refl _ False _ ch ne]) (use False c i1 w1 in auto)
    then show ?thesis using False un n2 set i1 by auto
  qed
qed

lemma core_list_mergesort_asort:
  assumes "chain h as" and "as \<noteq> []" and "asort cmp (inf h) 1 as (world h) = Some (r, w)"
  shows "\<exists>h'. core_list_mergesort cmp (ptr as) h = Some (ptr r, h') \<and> chain h' r
           \<and> inf h' = inf h \<and> world h' = w \<and> (\<forall>a. a \<notin> set as \<longrightarrow> nxt h' a = nxt h a)"
  using sort_loop_asort [OF assms] by (simp add: core_list_mergesort_def)

section \<open>Comparison functions as an interface\<close>

text \<open>
  What the sort needs of its comparison function: with \<open>Inv\<close> of the world it returns and keeps
  \<open>Inv\<close>. Then the sort returns a permutation of the list.
\<close>

locale cmp_total =
  fixes cmp :: "'w list_cmp" and Inv :: "'w \<Rightarrow> bool"
  assumes total: "Inv w \<Longrightarrow> \<exists>c w'. cmp a b w = Some (c, w') \<and> Inv w'"
begin

lemma amerge_total: "Inv w \<Longrightarrow> \<exists>r w'. amerge cmp f ps qs w = Some (r, w') \<and> Inv w'"
proof (induction "length ps + length qs" arbitrary: ps qs w rule: less_induct)
  case less
  show ?case
  proof (cases "ps = [] \<or> qs = []")
    case True
    with less.prems show ?thesis by (cases ps; cases qs) auto
  next
    case False
    then obtain p ps' q qs' where pq: "ps = p # ps'" "qs = q # qs'" by (auto simp: neq_Nil_conv)
    obtain c w1 where c: "cmp (f p) (f q) w = Some (c, w1)" "Inv w1" using total [OF less.prems] by blast
    show ?thesis using less.hyps [of ps' qs w1] less.hyps [of ps qs' w1] c pq by auto
  qed
qed

lemma apass_total: "Inv w \<Longrightarrow> \<exists>r k w'. apass cmp f n as w = Some (r, k, w') \<and> Inv w'"
proof (induction "length as" arbitrary: as w rule: less_induct)
  case less
  show ?case
  proof (cases "as = [] \<or> n = 0")
    case True
    with less.prems show ?thesis by (subst apass.simps) auto
  next
    case False
    obtain ms w1 where m: "amerge cmp f (take n as) (take n (drop n as)) w = Some (ms, w1)" "Inv w1"
      using amerge_total [OF less.prems] by blast
    have "length (drop n (drop n as)) < length as" using False by auto
    then obtain r k w2 where "apass cmp f n (drop n (drop n as)) w1 = Some (r, k, w2)" "Inv w2"
      using less.hyps m(2) by blast
    with m(1) False show ?thesis by (subst apass.simps) auto
  qed
qed

lemma asort_total: "Inv w \<Longrightarrow> 0 < n \<Longrightarrow> \<exists>r w'. asort cmp f n as w = Some (r, w') \<and> Inv w'"
proof (induction "length as - n" arbitrary: n as w rule: less_induct)
  case less
  obtain r k w1 where p: "apass cmp f n as w = Some (r, k, w1)" "Inv w1" using apass_total [OF less.prems(1)] by blast
  show ?case
  proof (cases "k \<le> 1")
    case True
    with p less.prems(2) show ?thesis by (subst asort.simps) auto
  next
    case False
    have "length r - n * 2 < length as - n"
      using apass_count [OF p(1)] mset_eq_length [OF apass_mset [OF p(1)]] False less.prems(2) by simp
    then obtain r2 w2 where "asort cmp f (n * 2) r w1 = Some (r2, w2)" "Inv w2"
      using less.hyps [of r "n * 2" w1] p(2) less.prems(2) by auto
    with p(1) False less.prems(2) show ?thesis by (subst asort.simps) auto
  qed
qed

lemma mergesort_permutes:
  assumes "chain h as" and "as \<noteq> []" and "Inv (world h)"
  shows "\<exists>r h'. core_list_mergesort cmp (ptr as) h = Some (ptr r, h') \<and> chain h' r \<and> mset r = mset as
           \<and> inf h' = inf h \<and> Inv (world h') \<and> (\<forall>a. a \<notin> set as \<longrightarrow> nxt h' a = nxt h a)"
proof -
  obtain r w where s: "asort cmp (inf h) 1 as (world h) = Some (r, w)" "Inv w"
    using asort_total [OF assms(3), of 1 "inf h" as] by auto
  then show ?thesis using core_list_mergesort_asort [OF assms(1,2) s(1)] asort_mset [OF s(1)] by blast
qed

end

fun kmerge :: "(nat \<Rightarrow> int) \<Rightarrow> nat list \<Rightarrow> nat list \<Rightarrow> nat list" where
  "kmerge k [] qs = qs"
| "kmerge k (p # ps) [] = p # ps"
| "kmerge k (p # ps) (q # qs) = (if k p \<le> k q then p # kmerge k ps (q # qs) else q # kmerge k (p # ps) qs)"

lemma mset_kmerge: "mset (kmerge k ps qs) = mset ps + mset qs"
  by (induction k ps qs rule: kmerge.induct) auto

lemma set_kmerge: "set (kmerge k ps qs) = set ps \<union> set qs"
  using mset_kmerge by (metis set_mset_mset set_mset_union)

lemma sorted_kmerge: "sorted (map k ps) \<Longrightarrow> sorted (map k qs) \<Longrightarrow> sorted (map k (kmerge k ps qs))"
proof (induction k ps qs rule: kmerge.induct)
  case (3 k p ps q qs)
  then show ?case by (cases "k p \<le> k q") (fastforce simp: set_kmerge)+
qed auto

lemma filter_kmerge:
  "sorted (map k ps) \<Longrightarrow>
     filter (\<lambda>y. v = k y) (kmerge k ps qs) = filter (\<lambda>y. v = k y) ps @ filter (\<lambda>y. v = k y) qs"
proof (induction k ps qs rule: kmerge.induct)
  case (3 k p ps q qs)
  show ?case
  proof (cases "k p \<le> k q")
    case True
    with 3 show ?thesis by auto
  next
    case False
    then have "v = k q \<Longrightarrow> filter (\<lambda>y. v = k y) (p # ps) = []"
      using "3.prems" by (auto simp: filter_empty_conv)
    with 3 False show ?thesis by auto
  qed
qed auto

lemma kmerge_sort_key: "kmerge k (sort_key k xs) (sort_key k ys) = sort_key k (xs @ ys)"
proof (rule properties_for_sort_key [symmetric])
  fix v
  have "filter (\<lambda>x. k v = k x) (sort_key k zs) = filter (\<lambda>x. k v = k x) zs" for zs
    using sort_key_stable [of k "k v" zs] by (simp add: eq_commute)
  then show "filter (\<lambda>x. k v = k x) (kmerge k (sort_key k xs) (sort_key k ys)) = filter (\<lambda>x. k v = k x) (xs @ ys)"
    by (simp add: filter_kmerge)
qed (simp_all add: mset_kmerge sorted_kmerge)

text \<open>The list cut into runs of \<open>n\<close> items, each of them sorted.\<close>

fun runs :: "(nat \<Rightarrow> int) \<Rightarrow> nat \<Rightarrow> nat list \<Rightarrow> nat list" where
  "runs k n xs = (if xs = [] \<or> n = 0 then [] else sort_key k (take n xs) @ runs k n (drop n xs))"

declare runs.simps [simp del]

lemma runs_short: "length xs \<le> n \<Longrightarrow> 0 < n \<Longrightarrow> runs k n xs = sort_key k xs"
  by (subst runs.simps) (auto simp: runs.simps [of k n "[]"])

lemma length_runs: "0 < n \<Longrightarrow> length (runs k n xs) = length xs"
  by (induction k n xs rule: runs.induct) (subst runs.simps, auto)

lemma runs_take: "0 < n \<Longrightarrow> take n (runs k n xs) = sort_key k (take n xs)"
  by (subst runs.simps) (auto simp: runs.simps [of k n "drop n xs"])

lemma runs_drop: "0 < n \<Longrightarrow> drop n (runs k n xs) = runs k n (drop n xs)"
  by (cases "n \<le> length xs"; subst runs.simps) (auto simp: runs.simps [of k n "[]"])

lemma runs_1: "runs k 1 xs = xs"
proof (induction xs)
  case (Cons x xs)
  then show ?case by (subst runs.simps) simp
qed (simp add: runs.simps)

text \<open>A comparison function by a key: the sort is the stable sort by that key.\<close>

locale key_cmp = cmp_total cmp Inv for cmp :: "'w list_cmp" and Inv :: "'w \<Rightarrow> bool" +
  fixes key :: "nat \<Rightarrow> int"
  assumes by_key: "Inv w \<Longrightarrow> cmp a b w = Some (c, w') \<Longrightarrow> c \<le> 0 \<longleftrightarrow> key a \<le> key b"
begin

lemma amerge_key:
  "Inv w \<Longrightarrow> amerge cmp f ps qs w = Some (r, w') \<Longrightarrow> r = kmerge (\<lambda>a. key (f a)) ps qs \<and> Inv w'"
proof (induction "length ps + length qs" arbitrary: ps qs w r rule: less_induct)
  case less
  show ?case
  proof (cases "ps = [] \<or> qs = []")
    case True
    with less.prems show ?thesis by (cases ps; cases qs) auto
  next
    case False
    then obtain p ps' q qs' where pq: "ps = p # ps'" "qs = q # qs'" by (auto simp: neq_Nil_conv)
    obtain c w1 where c: "cmp (f p) (f q) w = Some (c, w1)" "Inv w1" using total [OF less.prems(1)] by blast
    show ?thesis
      using less.hyps [of ps' qs w1] less.hyps [of ps qs' w1] c pq by_key [OF less.prems(1) c(1)] less.prems(2)
      by (auto split: if_splits)
  qed
qed

lemma apass_key:
  "Inv w \<Longrightarrow> 0 < n \<Longrightarrow> apass cmp f n (runs (\<lambda>a. key (f a)) n xs) w = Some (r, m, w')
     \<Longrightarrow> r = runs (\<lambda>a. key (f a)) (n * 2) xs \<and> Inv w' \<and> (m \<le> 1 \<longleftrightarrow> length xs \<le> n * 2)"
proof (induction "length xs" arbitrary: xs w r m rule: less_induct)
  case less
  let ?k = "\<lambda>a. key (f a)"
  show ?case
  proof (cases "xs = []")
    case True
    with less.prems show ?thesis by (simp add: runs.simps [of _ _ "[]"])
  next
    case False
    have ne: "runs ?k n xs \<noteq> []" using False less.prems(2) length_runs [of n ?k xs] by auto
    let ?ys = "drop n (drop n xs)"
    have bl: "take n (runs ?k n xs) = sort_key ?k (take n xs)"
      "take n (drop n (runs ?k n xs)) = sort_key ?k (take n (drop n xs))"
      "drop n (drop n (runs ?k n xs)) = runs ?k n ?ys"
      using less.prems(2) by (simp_all add: runs_take runs_drop del: drop_drop)
    from less.prems(2,3) ne bl obtain ms w1 r1 m1
      where m: "amerge cmp f (sort_key ?k (take n xs)) (sort_key ?k (take n (drop n xs))) w = Some (ms, w1)"
        and p: "apass cmp f n (runs ?k n ?ys) w1 = Some (r1, m1, w')" and rm: "r = ms @ r1" "m = Suc m1"
      by (subst (asm) apass.simps) (auto simp: bind_eq_Some_conv simp del: drop_drop)
    have ms: "ms = sort_key ?k (take (n * 2) xs)" "Inv w1"
      using amerge_key [OF less.prems(1) m] by (simp_all add: kmerge_sort_key mult_2_right take_add)
    have ih: "r1 = runs ?k (n * 2) ?ys \<and> Inv w' \<and> (m1 \<le> 1 \<longleftrightarrow> length ?ys \<le> n * 2)"
      using less.hyps [OF _ ms(2) less.prems(2) p] False less.prems(2) by simp
    have "m \<le> 1 \<longleftrightarrow> length xs \<le> n * 2"
    proof (cases "?ys = []")
      case True
      then have "m1 = 0" using p by (simp add: runs.simps [of _ _ "[]"])
      with True rm show ?thesis by simp
    next
      case False
      then have "runs ?k n ?ys \<noteq> []" using less.prems(2) length_runs [of n ?k ?ys] by (metis length_0_conv)
      then have "m1 \<noteq> 0" using p less.prems(2) by (subst (asm) apass.simps) (auto simp: bind_eq_Some_conv)
      with False rm show ?thesis by simp
    qed
    moreover have "r = runs ?k (n * 2) xs"
      using ih ms rm False less.prems(2) by (subst runs.simps) (simp add: mult_2_right)
    ultimately show ?thesis using ih by simp
  qed
qed

lemma asort_key:
  "Inv w \<Longrightarrow> 0 < n \<Longrightarrow> asort cmp f n (runs (\<lambda>a. key (f a)) n xs) w = Some (r, w')
     \<Longrightarrow> r = sort_key (\<lambda>a. key (f a)) xs \<and> Inv w'"
proof (induction "length xs - n" arbitrary: n w rule: less_induct)
  case less
  let ?k = "\<lambda>a. key (f a)"
  from less.prems obtain r1 m w1 where p: "apass cmp f n (runs ?k n xs) w = Some (r1, m, w1)"
    and c: "(if m \<le> 1 then Some (r1, w1) else asort cmp f (n * 2) r1 w1) = Some (r, w')"
    by (subst (asm) asort.simps) (auto simp: bind_eq_Some_conv split: if_splits)
  note ps = apass_key [OF less.prems(1,2) p]
  show ?case
  proof (cases "m \<le> 1")
    case True
    then show ?thesis using ps c less.prems(2) by (simp add: runs_short)
  next
    case False
    then show ?thesis using less.hyps [of "n * 2" w1] ps c less.prems(2) by auto
  qed
qed

lemma mergesort_sorts:
  assumes "chain h as" and "as \<noteq> []" and "Inv (world h)"
  shows "\<exists>r h'. r = sort_key (\<lambda>a. key (inf h a)) as \<and> core_list_mergesort cmp (ptr as) h = Some (ptr r, h')
           \<and> chain h' r \<and> inf h' = inf h \<and> Inv (world h') \<and> (\<forall>a. a \<notin> set as \<longrightarrow> nxt h' a = nxt h a)"
proof -
  obtain r w where s: "asort cmp (inf h) 1 as (world h) = Some (r, w)"
    using asort_total [OF assms(3), of 1 "inf h" as] by auto
  then show ?thesis
    using core_list_mergesort_asort [OF assms(1,2) s] asort_key [OF assms(3) zero_less_one, unfolded runs_1, OF s]
    by metis
qed

end

section \<open>Sorting by index\<close>

lemma dat_set_dat [simp]: "dat (set_dat d v w) = (dat w)(d := v)" "res (set_dat d v w) = res w"
  by (simp_all add: set_dat_def)

lemma idx_regen [simp]: "idx (regen x) = idx x"
  by (simp add: regen_def)

lemma byte_masks: "(0x00FF :: i16) = mask 8" "(0xFF00 :: i16) = push_bit 8 (mask 8)"
  by (simp_all add: mask_eq_exp_minus_1)

lemma regen_bit: "bit (data16 (regen x)) n \<longleftrightarrow> n < 16 \<and> bit (data16 x) (if n < 8 then n + 8 else n)"
  unfolding regen_def byte_masks
  by (auto simp: bit_simps min_def add.commute dest: bit_imp_le_length)

lemma regen_regen [simp]: "regen (regen x) = regen x"
  by (rule list_data.equality; (rule bit_word_eqI)?; simp add: regen_bit)

text \<open>
  \<open>D\<close> is the data before the sort: \<open>cmp_idx\<close> never changes an \<open>idx\<close>, and only regenerates data;
  the items of \<open>T\<close> have been regenerated.
\<close>

definition from_data :: "(nat \<Rightarrow> list_data) \<Rightarrow> core_results \<Rightarrow> nat set \<Rightarrow> world \<Rightarrow> bool" where
  "from_data D R T w = (res w = R \<and> (\<forall>d. (d \<in> T \<longrightarrow> dat w d = regen (D d)) \<and> (dat w d = D d \<or> dat w d = regen (D d))))"

lemma from_data_idx: "from_data D R T w \<Longrightarrow> idx (dat w d) = idx (D d)"
  unfolding from_data_def by (metis idx_regen)

lemma cmp_idx_touches:
  assumes "from_data D R T w"
  shows "\<exists>w'. cmp_idx a b w = Some (sint (idx (D a)) - sint (idx (D b)), w') \<and> from_data D R (insert a (insert b T)) w'"
proof -
  have r: "regen (dat w d) = regen (D d)" for d using assms unfolding from_data_def by (metis regen_regen)
  then show ?thesis using assms from_data_idx [OF assms]
    by (auto simp: cmp_idx_def Let_def from_data_def)
qed

lemma from_data_mono: "from_data D R T w \<Longrightarrow> T' \<subseteq> T \<Longrightarrow> from_data D R T' w"
  by (auto simp: from_data_def)

interpretation by_idx: key_cmp cmp_idx "from_data D R T" "\<lambda>d. sint (idx (D d))" for D R T
proof
  fix a b w
  assume w: "from_data D R T w"
  obtain w' where w': "cmp_idx a b w = Some (sint (idx (D a)) - sint (idx (D b)), w')"
    "from_data D R (insert a (insert b T)) w'" using cmp_idx_touches [OF w] by blast
  then show "\<exists>c w'. cmp_idx a b w = Some (c, w') \<and> from_data D R T w'"
    using from_data_mono [OF w'(2), of T] by blast
  show "c \<le> 0 \<longleftrightarrow> sint (idx (D a)) \<le> sint (idx (D b))" if "cmp_idx a b w = Some (c, w'')" for c w''
    using that w' by auto
qed

definition sample_heap :: "nat \<Rightarrow> nat \<Rightarrow> nat \<Rightarrow> world \<Rightarrow> world lheap" where
  "sample_heap a b c w =
     \<lparr>nxt = (\<lambda>_. None)(a := Some b, b := Some c), inf = id,
      world = w\<lparr>dat := (\<lambda>_. \<lparr>data16 = 0, idx = 0\<rparr>)
        (a := \<lparr>data16 = 0x1280, idx = 7\<rparr>, b := \<lparr>data16 = 0x3455, idx = 3\<rparr>, c := \<lparr>data16 = 0x5601, idx = -1\<rparr>)\<rparr>\<rparr>"

lemma sample_chain: "distinct [a, b, c] \<Longrightarrow> chain (sample_heap a b c w) [a, b, c]"
  by (auto simp: sample_heap_def chain_Cons) (simp add: chain_def)

text \<open>
  Called on the empty list the sort reads \<open>tail->next\<close> with \<open>tail\<close> still \<open>NULL\<close>, whatever the
  comparison function, so its test for \<open>nmerges\<close> zero never helps.
\<close>

theorem core_list_mergesort_empty: "core_list_mergesort cmp None h = None"
  unfolding core_list_mergesort_def by (subst sort_loop.simps) (simp add: pass_loop.simps)

section \<open>Reversal, search, removal\<close>

lemma reverse_loop_rev:
  assumes "chain h as" and "distinct (as @ bs)" and "chain h bs"
  shows "\<exists>h'. reverse_loop (ptr as) (ptr bs) h = Some (ptr (rev as @ bs), h') \<and> chain h' (rev as @ bs)
           \<and> inf h' = inf h \<and> world h' = world h \<and> (\<forall>a. a \<notin> set as \<longrightarrow> nxt h' a = nxt h a)"
  using assms
proof (induction as arbitrary: bs h)
  case Nil
  then show ?case by (subst reverse_loop.simps) simp
next
  case (Cons a as)
  let ?h = "set_nxt a (ptr bs) h"
  have a: "a \<notin> set as" "nxt h a = ptr as" "chain h as" using Cons.prems(1) by (auto simp: chain_Cons)
  have ab: "a \<notin> set bs" using Cons.prems(2) by simp
  have c1: "chain ?h as" using a by (subst chain_cong [of _ ?h h]) auto
  have c2: "chain ?h (a # bs)" using ab Cons.prems(3) by (auto simp: chain_Cons intro: chain_frame)
  have "distinct (as @ a # bs)" using Cons.prems(2) by auto
  from Cons.IH [OF c1 this c2] show ?case using a by (subst reverse_loop.simps) auto
qed

lemma reverse_chain:
  assumes "chain h as"
  shows "\<exists>h'. core_list_reverse (ptr as) h = Some (ptr (rev as), h') \<and> chain h' (rev as)
           \<and> inf h' = inf h \<and> world h' = world h \<and> (\<forall>a. a \<notin> set as \<longrightarrow> nxt h' a = nxt h a)"
  using reverse_loop_rev [OF assms, of "[]"] assms by (simp add: core_list_reverse_def chain_def)

lemma chain_determines_nxt: "chain h as \<Longrightarrow> chain h' as \<Longrightarrow> a \<in> set as \<Longrightarrow> nxt h a = nxt h' a"
  by (induction as) (auto simp: chain_Cons)

text \<open>
  Reversing a well-formed list ends and returns the reversed list, changing only the links of
  the list; reversing twice gives the heap back.
\<close>

theorem core_list_reverse_twice:
  assumes "chain h as"
  shows "\<exists>h'. core_list_reverse (ptr as) h = Some (ptr (rev as), h') \<and> chain h' (rev as) \<and> inf h' = inf h
           \<and> world h' = world h \<and> core_list_reverse (ptr (rev as)) h' = Some (ptr as, h)"
proof -
  obtain h1 where h1: "core_list_reverse (ptr as) h = Some (ptr (rev as), h1)" "chain h1 (rev as)"
    "inf h1 = inf h" "world h1 = world h" "\<And>a. a \<notin> set as \<Longrightarrow> nxt h1 a = nxt h a"
    using reverse_chain [OF assms] by blast
  obtain h2 where h2: "core_list_reverse (ptr (rev as)) h1 = Some (ptr as, h2)" "chain h2 as"
    "inf h2 = inf h1" "world h2 = world h1" "\<And>a. a \<notin> set as \<Longrightarrow> nxt h2 a = nxt h1 a"
    using reverse_chain [OF h1(2)] by auto
  have "nxt h2 a = nxt h a" for a
    using chain_determines_nxt [OF h2(2) assms] h1(5) h2(5) by (cases "a \<in> set as") auto
  then have "h2 = h" using h1 h2 by (simp add: fun_eq_iff lheap.equality)
  with h1 h2 show ?thesis by blast
qed

theorem core_list_reverse_twice_witness:
  "\<exists>h'. core_list_reverse (Some 0) (sample_heap 0 1 2 undefined) = Some (Some 2, h') \<and> chain h' [2, 1, 0]"
  using core_list_reverse_twice [of "sample_heap 0 1 2 undefined" "[0, 1, 2]"] sample_chain [of 0 1 2 undefined]
  by auto

lemma find_while_chain:
  "chain h as \<Longrightarrow> find_while differs h (ptr as) = Some (List.find (\<lambda>a. \<not> differs a) as)"
  by (induction as) (subst find_while.simps; auto simp: chain_Cons)+

text \<open>
  The search returns the first head of the list whose data has the \<open>idx\<close> asked for, or, when that
  is negative, whose low data byte is \<open>data16\<close>, and \<open>NULL\<close> when there is none.
\<close>

theorem core_list_find_first:
  assumes "chain h as"
  shows "core_list_find (ptr as) info h =
    Some (List.find (\<lambda>a. let d = dat (world h) (inf h a) in
            if sint (idx info) < 0 then data16 d AND 0xFF = data16 info else idx d = idx info) as)"
  unfolding core_list_find_def find_while_chain [OF assms]
  by (auto simp: word_sle_eq Let_def)

theorem core_list_find_first_witness:
  "core_list_find (Some 0) \<lparr>data16 = 0, idx = 3\<rparr> (sample_heap 0 1 2 undefined) = Some (Some 1)
     \<and> core_list_find (Some 0) \<lparr>data16 = 0, idx = 5\<rparr> (sample_heap 0 1 2 undefined) = Some None"
  using core_list_find_first [of "sample_heap 0 1 2 undefined" "[0, 1, 2]" "\<lparr>data16 = 0, idx = 3\<rparr>"]
    core_list_find_first [of "sample_heap 0 1 2 undefined" "[0, 1, 2]" "\<lparr>data16 = 0, idx = 5\<rparr>"]
    sample_chain [of 0 1 2 undefined]
  by (simp add: sample_heap_def)

lemma remove_undo_chain:
  assumes "chain h (as @ a # b # bs)"
  shows "\<exists>h'. core_list_remove a h = Some (b, h') \<and> chain h' (as @ a # bs)
           \<and> map (inf h') (as @ a # bs) = map (inf h) (as @ b # bs)
           \<and> core_list_undo_remove b a h' = (b, h)"
proof -
  have ch: "nxt h a = Some b" "nxt h b = ptr bs" "chain h bs" "distinct (as @ a # b # bs)"
    and sg: "lseg h (ptr (as @ [a])) as (Some a)"
    using assms by (auto simp: chain_append chain_Cons ptr_def hd_append split: if_splits)
  let ?h = "set_nxt b None (set_nxt a (ptr bs) (set_inf b (inf h a) (set_inf a (inf h b) h)))"
  have rem: "core_list_remove a h = Some (b, ?h)"
    using ch by (simp add: core_list_remove_def Let_def)
  have "lseg ?h (ptr (as @ [a])) as (Some a)" using sg ch(4) by (subst lseg_cong [of _ ?h h]) auto
  moreover have "chain ?h (a # bs)" using ch by (auto simp: chain_Cons intro: chain_frame)
  moreover have "ptr (as @ a # bs) = ptr (as @ [a])" by (cases as) auto
  ultimately have "chain ?h (as @ a # bs)" using ch(4) by (auto simp: chain_append)
  moreover have "core_list_undo_remove b a ?h = (b, h)"
    using ch by (auto simp: core_list_undo_remove_def Let_def fun_eq_iff intro!: lheap.equality)
  moreover have "map (inf ?h) (as @ a # bs) = map (inf h) (as @ b # bs)" using ch(4) by auto
  ultimately show ?thesis using rem by blast
qed

text \<open>
  Removing an item takes its data out of the list by moving the next item's data over; the undo
  with the removed head and the modified item gives back the very heap, links and data pointers.
\<close>

theorem core_list_remove_undo:
  assumes "chain h (as @ a # b # bs)"
  shows "\<exists>h'. core_list_remove a h = Some (b, h') \<and> chain h' (as @ a # bs)
           \<and> map (inf h') (as @ a # bs) = map (inf h) (as @ b # bs)
           \<and> core_list_undo_remove b a h' = (b, h)"
  by (rule remove_undo_chain [OF assms])

theorem core_list_remove_undo_witness:
  "\<exists>h'. core_list_remove 0 (sample_heap 0 1 2 undefined) = Some (1, h')
      \<and> core_list_undo_remove 1 0 h' = (1, sample_heap 0 1 2 undefined)"
  using core_list_remove_undo [of "sample_heap 0 1 2 undefined" "[]" 0 1 "[2]"] sample_chain [of 0 1 2 undefined]
  by auto

end
