(* ===== verification/ListBench.thy ===== *)
theory ListBench
  imports LinkedList
begin

unbundle bit_operations_syntax

text \<open>
  \<open>coremark/core_list_join.c\<close>: \<open>core_list_init\<close>, which builds the list in a block of memory, and
  \<open>core_bench_list\<close>, the list benchmark. The lemmas show that a run of the benchmark ends without a
  fault and puts the list back: links, data pointers and data.
\<close>

section \<open>Building the list\<close>

text \<open>
  List heads and data items are numbered from the start of their two areas. With no room for a head
  the areas overlap, or the size wraps around and the code writes outside its block: undefined.
\<close>

definition put_data :: "nat \<Rightarrow> (list_data \<Rightarrow> list_data) \<Rightarrow> world lheap \<Rightarrow> world lheap" where
  "put_data a f h = h\<lparr>world := set_dat (inf h a) (f (dat (world h) (inf h a))) (world h)\<rparr>"

definition insert_item :: "i16 \<Rightarrow> nat \<Rightarrow> nat \<Rightarrow> nat \<times> nat \<times> world lheap \<Rightarrow> nat \<times> nat \<times> world lheap" where
  "insert_item seed sz i = (\<lambda>(memblock, datablock, h).
     let datpat = ucast (scast seed XOR of_nat i :: i32) AND (0xF :: i16);
         dat = push_bit 3 datpat OR (of_nat i AND 7);
         info = \<lparr>data16 = push_bit 8 dat OR dat, idx = 0x7FFF\<rparr>
     in snd (core_list_insert_new 0 info memblock datablock sz sz h))"

text \<open>The loop that numbers the items; \<open>fifth\<close> is \<open>size / 5\<close>.\<close>

definition item_idx :: "i32 \<Rightarrow> i16 \<Rightarrow> i32 \<Rightarrow> i16" where
  "item_idx fifth seed i =
     (if i < fifth then ucast i
      else ucast (0x3FFF AND (push_bit 8 ((i + 1) AND 7) OR ucast (ucast (i XOR scast seed) :: i16)) :: i32))"

partial_function (option) index_loop :: "i32 \<Rightarrow> i16 \<Rightarrow> i32 \<Rightarrow> nat \<Rightarrow> world lheap \<Rightarrow> world lheap option" where
  "index_loop fifth seed i finder h =
     (case nxt h finder of
        None \<Rightarrow> Some h
      | Some g \<Rightarrow> index_loop fifth seed (i + 1) g (put_data finder (idx_update (\<lambda>_. item_idx fifth seed i)) h))"

definition core_list_init :: "i32 \<Rightarrow> i16 \<Rightarrow> world lheap \<Rightarrow> (nat option \<times> world lheap) option" where
  "core_list_init blksize seed h =
     (let sz = unat (blksize div 20 - 2) in
      if blksize div 20 \<le> 2 then None
      else do {
        let h = set_nxt 0 None h;
        let h = set_inf 0 0 h;
        let h = put_data 0 (idx_update (\<lambda>_. 0x0000)) h;
        let h = put_data 0 (data16_update (\<lambda>_. 0x8080)) h;
        let (_, memblock, datablock, h) =
          core_list_insert_new 0 \<lparr>data16 = 0xFFFF, idx = 0x7FFF\<rparr> 1 1 sz sz h;
        let (_, _, h) = fold (insert_item seed sz) [0..<sz] (memblock, datablock, h);
        finder \<leftarrow> nxt h 0;
        h \<leftarrow> index_loop (of_nat sz div 5) seed 1 finder h;
        core_list_mergesort cmp_idx (Some 0) h
      })"

section \<open>The benchmark\<close>

record find_state =
  retval :: i16
  found :: i16
  missed :: i16
  list :: "nat option"
  info :: list_data
  heap :: "world lheap"

text \<open>One turn of the search loop; \<open>info.data16\<close> is not initialised before it.\<close>

definition find_step :: "nat \<Rightarrow> find_state \<Rightarrow> find_state option" where
  "find_step i s = do {
     let inf' = (info s)\<lparr>data16 := of_nat i AND 0xFF\<rparr>;
     this_find \<leftarrow> core_list_find (list s) inf' (heap s);
     (l, h) \<leftarrow> core_list_reverse (list s) (heap s);
     s \<leftarrow> (case this_find of
        None \<Rightarrow> do {
          a \<leftarrow> l;
          n \<leftarrow> nxt h a;
          Some (s\<lparr>missed := missed s + 1, heap := h,
            retval := retval s + (signed_drop_bit 8 (data16 (dat (world h) (inf h n))) AND 1)\<rparr>)
        }
      | Some t \<Rightarrow> do {
          let d = data16 (dat (world h) (inf h t));
          let s = s\<lparr>found := found s + 1, heap := h,
            retval := (if d AND 1 \<noteq> 0 then retval s + (signed_drop_bit 9 d AND 1) else retval s)\<rparr>;
          (case nxt h t of
             None \<Rightarrow> Some s
           | Some finder \<Rightarrow> do {
               let h = set_nxt t (nxt h finder) h;
               a \<leftarrow> l;
               let h = set_nxt finder (nxt h a) h;
               let h = set_nxt a (Some finder) h;
               Some (s\<lparr>heap := h\<rparr>)
             })
        });
     Some (s\<lparr>list := l, info := (if 0 <=s idx inf' then inf'\<lparr>idx := idx inf' + 1\<rparr> else inf')\<rparr>)
   }"

text \<open>Both CRC loops add the data of the list's head once for every item from \<open>finder\<close> on.\<close>

partial_function (option) crc_loop :: "i16 \<Rightarrow> nat option \<Rightarrow> i16 \<Rightarrow> world lheap \<Rightarrow> i16 option" where
  "crc_loop data finder acc h =
     (case finder of None \<Rightarrow> Some acc | Some a \<Rightarrow> crc_loop data (nxt h a) (crc16 data acc) h)"

definition core_bench_list :: "nat option \<Rightarrow> i16 \<Rightarrow> i16 \<Rightarrow> world lheap \<Rightarrow> (i16 \<times> world lheap) option" where
  "core_bench_list lst finder_idx junk h = do {
     s \<leftarrow> for_loop 0 (nat (sint (seed3 (res (world h))))) find_step
       \<lparr>retval = 0, found = 0, missed = 0, list = lst, info = \<lparr>data16 = junk, idx = finder_idx\<rparr>, heap = h\<rparr>;
     let acc = retval s + (found s * 4 - missed s);
     (l, h) \<leftarrow> (if 0 <s finder_idx then core_list_mergesort cmp_complex (list s) (heap s)
                  else Some (list s, heap s));
     a \<leftarrow> l;
     n \<leftarrow> nxt h a;
     (remover, h) \<leftarrow> core_list_remove n h;
     this_find \<leftarrow> core_list_find l (info s) h;
     acc \<leftarrow> crc_loop (data16 (dat (world h) (inf h a))) (if this_find = None then nxt h a else this_find) acc h;
     n \<leftarrow> nxt h a;
     let (remover, h) = core_list_undo_remove remover n h;
     (l, h) \<leftarrow> core_list_mergesort cmp_idx l h;
     a \<leftarrow> l;
     acc \<leftarrow> crc_loop (data16 (dat (world h) (inf h a))) (nxt h a) acc h;
     Some (acc, h)
   }"

section \<open>Sorting by index regenerates the data\<close>

lemma apass_unfold:
  "as \<noteq> [] \<Longrightarrow> 0 < n \<Longrightarrow> apass cmp f n as w =
     Option.bind (amerge cmp f (take n as) (take n (drop n as)) w) (\<lambda>(ms, w).
        map_option (map_prod ((@) ms) (map_prod Suc id)) (apass cmp f n (drop n (drop n as)) w))"
  by (subst apass.simps) simp

lemma apass_count_iff:
  "apass cmp f n as w = Some (r, k, w') \<Longrightarrow> 0 < n \<Longrightarrow> k \<le> 1 \<longleftrightarrow> length as \<le> 2 * n"
proof -
  assume a: "apass cmp f n as w = Some (r, k, w')" "0 < n"
  have "2 * n < length as \<Longrightarrow> 1 < k"
  proof -
    assume l: "2 * n < length as"
    from a l obtain w1 r1 k1 where p: "apass cmp f n (drop n (drop n as)) w1 = Some (r1, k1, w')" and k: "k = Suc k1"
      by (cases "as = []") (auto simp: apass_unfold [of as] bind_eq_Some_conv)
    have "drop n (drop n as) \<noteq> []" using l by simp
    then have "k1 \<noteq> 0" using p a(2) by (subst (asm) apass.simps) (auto simp: bind_eq_Some_conv)
    with k show ?thesis by simp
  qed
  then show ?thesis using apass_count [OF a] by linarith
qed

lemma amerge_touches:
  assumes "from_data D R T w" and "amerge cmp_idx f (p # ps) (q # qs) w = Some (r, w')"
  shows "from_data D R (insert (f p) (insert (f q) T)) w'"
proof -
  let ?T = "insert (f p) (insert (f q) T)" and ?c = "sint (idx (D (f p))) - sint (idx (D (f q)))"
  obtain w1 where w1: "cmp_idx (f p) (f q) w = Some (?c, w1)" "from_data D R ?T w1"
    using cmp_idx_touches [OF assms(1)] by blast
  obtain xs ys r' where "amerge cmp_idx f xs ys w1 = Some (r', w')"
    using assms(2) w1(1) by (auto split: if_splits)
  then show ?thesis using by_idx.amerge_key [OF w1(2)] by blast
qed

lemma apass_keeps: "from_data D R T w \<Longrightarrow> apass cmp_idx f n as w = Some (r, k, w') \<Longrightarrow> from_data D R T w'"
  using by_idx.apass_total [of D R T w f n as] by auto

lemma asort_keeps: "from_data D R T w \<Longrightarrow> 0 < n \<Longrightarrow> asort cmp_idx f n as w = Some (r, w') \<Longrightarrow> from_data D R T w'"
  using by_idx.asort_total [of D R T w n f as] by auto

lemma apass_1_touches:
  "from_data D R T w \<Longrightarrow> apass cmp_idx f 1 as w = Some (r, k, w')
     \<Longrightarrow> from_data D R (T \<union> f ` set (take (2 * (length as div 2)) as)) w'"
proof (induction as arbitrary: T w r k rule: induct_list012)
  case 1
  then show ?case by simp
next
  case (2 a)
  then show ?case using apass_keeps by fastforce
next
  case (3 a b as)
  obtain ms w1 r1 k1 where m: "amerge cmp_idx f [a] [b] w = Some (ms, w1)"
    and p: "apass cmp_idx f 1 as w1 = Some (r1, k1, w')"
    using "3.prems"(2) by (subst (asm) apass.simps) (auto simp: bind_eq_Some_conv)
  have "from_data D R (insert (f a) (insert (f b) T) \<union> f ` set (take (2 * (length as div 2)) as)) w'"
    by (rule "3.IH"(1) [OF amerge_touches [OF "3.prems"(1) m] p])
  then show ?case by (rule from_data_mono) auto
qed

text \<open>The last item stays last until it is merged as a run of its own, and then it is compared.\<close>

lemma apass_last:
  assumes "from_data D R T w" and "apass cmp_idx f n (xs @ [l]) w = Some (r, k, w')" and "0 < n" and "n dvd length xs"
  shows "if odd (length xs div n) then from_data D R (insert (f l) T) w'
         else \<exists>r'. r = r' @ [l] \<and> length r' = length xs"
  using assms
proof (induction "length xs" arbitrary: xs w r k rule: less_induct)
  case less
  consider (none) "xs = []" | (one) "length xs = n" | (more) "2 * n \<le> length xs"
  proof -
    obtain j where j: "length xs = n * j" using less.prems(4) by (auto simp: dvd_def)
    consider "j = 0" | "j = 1" | "2 \<le> j" by linarith
    then show thesis
    proof cases
      case 3
      then have "n * 2 \<le> n * j" by simp
      then show ?thesis using j more by simp
    qed (use j none one in auto)
  qed
  then show ?case
  proof cases
    case none
    then show ?thesis using less.prems(2,3) by (subst (asm) apass.simps) (auto simp: bind_eq_Some_conv)
  next
    case one
    then obtain ms w1 r1 k1 where m: "amerge cmp_idx f xs [l] w = Some (ms, w1)"
      and p: "apass cmp_idx f n [] w1 = Some (r1, k1, w')"
      using less.prems(2,3) by (subst (asm) apass.simps) (auto simp: bind_eq_Some_conv)
    obtain x xs' where xs: "xs = x # xs'" using one less.prems(3) by (cases xs) auto
    have "from_data D R (insert (f x) (insert (f l) T)) w1" using amerge_touches less.prems(1) m xs by blast
    then have "from_data D R (insert (f l) T) w1" by (rule from_data_mono) auto
    then have "from_data D R (insert (f l) T) w'" using p by simp
    then show ?thesis using one less.prems(3) by simp
  next
    case more
    let ?ys = "drop n (drop n xs)"
    obtain ms w1 r1 k1 where m: "amerge cmp_idx f (take n xs) (take n (drop n xs)) w = Some (ms, w1)"
      and p: "apass cmp_idx f n (?ys @ [l]) w1 = Some (r1, k1, w')" and r: "r = ms @ r1"
      using less.prems(2,3) more by (subst (asm) apass.simps) (auto simp: bind_eq_Some_conv)
    have w1: "from_data D R T w1" using by_idx.amerge_key [OF less.prems(1) m] by blast
    have len: "length ?ys = length xs - 2 * n" "length ms = 2 * n"
      using more amerge_mset [OF m] by (auto dest!: mset_eq_length [of _ "_ @ _", simplified])
    have "length ?ys < length xs" "n dvd length ?ys" using len less.prems(3,4) more by (auto simp: dvd_diff_nat)
    note ih = less.hyps [OF this(1) w1 p less.prems(3) this(2)]
    have "length xs div n = length ?ys div n + 2"
      using len(1) more less.prems(3) by (metis add.commute div_mult_self3 le_add_diff_inverse2 less_not_refl2)
    then show ?thesis using ih len more r by auto
  qed
qed

lemma asort_touches_last:
  "from_data D R T w \<Longrightarrow> asort cmp_idx f n (xs @ [l]) w = Some (r, w') \<Longrightarrow> 0 < n \<Longrightarrow> n dvd length xs \<Longrightarrow> xs \<noteq> []
     \<Longrightarrow> from_data D R (insert (f l) T) w'"
proof (induction "length xs - n" arbitrary: n xs w rule: less_induct)
  case less
  from less.prems(2,3) obtain r1 k w1 where p: "apass cmp_idx f n (xs @ [l]) w = Some (r1, k, w1)"
    and c: "(if k \<le> 1 then Some (r1, w1) else asort cmp_idx f (n * 2) r1 w1) = Some (r, w')"
    by (subst (asm) asort.simps) (auto simp: bind_eq_Some_conv split: if_splits)
  note last = apass_last [OF less.prems(1) p less.prems(3,4)]
  show ?case
  proof (cases "odd (length xs div n)")
    case True
    then have "from_data D R (insert (f l) T) w1" using last by simp
    then show ?thesis using c asort_keeps [of D R "insert (f l) T" w1 "n * 2" f r1 r w'] less.prems(3)
      by (auto split: if_splits)
  next
    case False
    then obtain r' where r': "r1 = r' @ [l]" "length r' = length xs" using last by auto
    have d: "n * 2 dvd length xs" using False less.prems(4) by (metis dvd_mult_div_cancel mult_dvd_mono dvd_refl)
    then have n2: "2 * n \<le> length xs" using less.prems(5) by (metis dvd_imp_le length_greater_0_conv mult.commute)
    have k: "\<not> k \<le> 1" using apass_count_iff [OF p less.prems(3)] n2 by simp
    have w1: "from_data D R T w1" by (rule apass_keeps [OF less.prems(1) p])
    show ?thesis
    proof (rule less.hyps [OF _ w1])
      show "length r' - n * 2 < length xs - n" using n2 less.prems(3) r'(2) by simp
      show "asort cmp_idx f (n * 2) (r' @ [l]) w1 = Some (r, w')" using c k r' by simp
      show "r' \<noteq> []" using less.prems(5) r'(2) by auto
    qed (use d less.prems(3) r'(2) in auto)
  qed
qed

lemma asort_touches:
  assumes "from_data D R T w" and "asort cmp_idx f 1 as w = Some (r, w')" and "2 \<le> length as"
  shows "from_data D R (T \<union> f ` set as) w'"
proof -
  from assms(2) obtain r1 k w1 where p: "apass cmp_idx f 1 as w = Some (r1, k, w1)"
    and c: "(if k \<le> 1 then Some (r1, w1) else asort cmp_idx f 2 r1 w1) = Some (r, w')"
    by (subst (asm) asort.simps) (auto simp: bind_eq_Some_conv split: if_splits)
  let ?T = "T \<union> f ` set (take (2 * (length as div 2)) as)"
  have w1: "from_data D R ?T w1" by (rule apass_1_touches [OF assms(1) p])
  show ?thesis
  proof (cases "even (length as)")
    case True
    then have "?T = T \<union> f ` set as" by simp
    then show ?thesis using w1 c asort_keeps [of D R ?T w1 2 f r1 r w'] by (auto split: if_splits)
  next
    case False
    define xs l where "xs = butlast as" and "l = last as"
    have as: "as = xs @ [l]" using assms(3) by (auto simp: xs_def l_def intro!: append_butlast_last_id [symmetric])
    have ev: "even (length xs)" using False by (simp add: as)
    obtain r' where r': "r1 = r' @ [l]" "length r' = length xs"
      using apass_last [OF assms(1) p [unfolded as] zero_less_one one_dvd] ev by auto
    have "\<not> k \<le> 1" using apass_count_iff [OF p zero_less_one] False assms(3) by presburger
    then have "asort cmp_idx f 2 (r' @ [l]) w1 = Some (r, w')" using c r' by simp
    from asort_touches_last [OF w1 this] have "from_data D R (insert (f l) ?T) w'"
      using ev r'(2) assms(3) as by force
    moreover have "2 * (length as div 2) = length xs" using ev as by simp
    ultimately show ?thesis by (auto simp: as)
  qed
qed

section \<open>The comparison by computed values\<close>

text \<open>
  What one turn of the benchmark may change of the results: the CRCs and the result matrix; and of
  a data item: its lower byte.
\<close>

definition same_setup :: "core_results \<Rightarrow> core_results \<Rightarrow> bool" where
  "same_setup R R' = (seed1 R' = seed1 R \<and> seed2 R' = seed2 R \<and> seed3 R' = seed3 R \<and> memblock3 R' = memblock3 R
     \<and> blk_size R' = blk_size R \<and> iterations R' = iterations R \<and> mat_N (mat R') = mat_N (mat R)
     \<and> mat_A (mat R') = mat_A (mat R) \<and> mat_B (mat R') = mat_B (mat R)
     \<and> length (mat_C (mat R')) = length (mat_C (mat R)))"

definition same_item :: "list_data \<Rightarrow> list_data \<Rightarrow> bool" where
  "same_item x y = (idx y = idx x \<and> drop_bit 8 (data16 y) = drop_bit 8 (data16 x))"

definition kept :: "world \<Rightarrow> world \<Rightarrow> bool" where
  "kept w w' = (same_setup (res w) (res w') \<and> (\<forall>d. same_item (dat w d) (dat w' d)))"

text \<open>The memory of the benchmark is as \<open>main\<close> sets it up: see \<open>core_bench_state_restores\<close>.\<close>

definition bench_ready :: "core_results \<Rightarrow> bool" where
  "bench_ready R =
     (let mem = memblock3 R; s = ucast (seed1 R) :: i8; N = mat_N (mat R) in
      blk_size R \<le> length mem \<and> s = ucast (seed2 R)
      \<and> (\<forall>i < blk_size R. mem ! i \<noteq> comma XOR s \<or> s = 0)
      \<and> (\<exists>z < length mem. mem ! z = 0 \<and> (blk_size R \<le> z \<or> s = 0))
      \<and> N * N \<le> length (mat_A (mat R)) \<and> N * N \<le> length (mat_B (mat R)) \<and> N * N \<le> length (mat_C (mat R)))"

lemma kept_refl [simp]: "kept w w"
  by (simp add: kept_def same_setup_def same_item_def)

lemma kept_trans: "kept u v \<Longrightarrow> kept v w \<Longrightarrow> kept u w"
  by (simp add: kept_def same_setup_def same_item_def)

lemma bench_ready_same: "same_setup R R' \<Longrightarrow> bench_ready R' = bench_ready R"
  by (simp add: bench_ready_def same_setup_def Let_def)

lemma cached_upper: "drop_bit 8 ((d AND 0xFF00) OR 0x0080 OR (r AND 0x007F)) = drop_bit 8 (d :: i16)"
proof -
  have "(0x0080 :: i16) = push_bit 7 1" "(0x007F :: i16) = mask 7" by (simp_all add: mask_eq_exp_minus_1)
  then show ?thesis unfolding byte_masks
    by (intro bit_word_eqI) (auto simp: bit_simps dest: bit_imp_le_length)
qed

lemma state_returns:
  assumes "bench_ready R" and "0 < sint step"
  shows "\<exists>v. core_bench_state (blk_size R) (memblock3 R) (seed1 R) (seed2 R) step c = Some (v, memblock3 R)"
proof -
  obtain z where "z < length (memblock3 R)" "memblock3 R ! z = 0" "blk_size R \<le> z \<or> ucast (seed1 R) = (0 :: i8)"
    using assms(1) by (auto simp: bench_ready_def Let_def)
  with assms show ?thesis
    by (intro bench_state_restored [where z = z]) (auto simp: bench_ready_def Let_def)
qed

lemma matrix_returns:
  assumes "bench_ready R"
  shows "\<exists>v C. core_bench_matrix (mat R) dtype c = Some (v, (mat R)\<lparr>mat_C := C\<rparr>) \<and> length C = length (mat_C (mat R))"
proof -
  obtain t C where "matrix_test (mat_N (mat R)) (mat_C (mat R)) (mat_A (mat R)) (mat_B (mat R)) dtype
      = Some (t, mat_A (mat R), C)" "length C = length (mat_C (mat R))"
    using matrix_test_restored [of "mat_N (mat R)" "mat_A (mat R)" "mat_B (mat R)" "mat_C (mat R)" dtype] assms
    by (auto simp: bench_ready_def Let_def)
  then show ?thesis by (auto simp: core_bench_matrix_def)
qed

lemma calc_func_ready:
  assumes "bench_ready (res w)"
  shows "\<exists>v w'. calc_func d w = Some (v, w') \<and> kept w w'"
proof (cases "signed_drop_bit 7 (data16 (dat w d)) AND 1 = 1")
  case True
  then show ?thesis by (simp add: calc_func_def Let_def)
next
  case False
  define dt where "dt = (signed_drop_bit 3 (data16 (dat w d)) AND 0xF) OR push_bit 4 (signed_drop_bit 3 (data16 (dat w d)) AND 0xF)"
  define st where "st = (if dt <s 0x22 then 0x22 else dt)"
  have "0 < sint st" by (auto simp: st_def word_sless_alt)
  then obtain v1 where 1: "core_bench_state (blk_size (res w)) (memblock3 (res w)) (seed1 (res w)) (seed2 (res w)) st
      (crc (res w)) = Some (v1, memblock3 (res w))"
    using state_returns [OF assms] by blast
  obtain v2 C where 2: "core_bench_matrix (mat (res w)) dt (crc (res w)) = Some (v2, (mat (res w))\<lparr>mat_C := C\<rparr>)"
    "length C = length (mat_C (mat (res w)))"
    using matrix_returns [OF assms] by blast
  let ?new = "\<lambda>v. (data16 (dat w d) AND 0xFF00) OR 0x0080 OR (v AND 0x007F)"
  have "\<exists>v R. calc_func d w = Some (v AND 0x007F, set_dat d ((dat w d)\<lparr>data16 := ?new v\<rparr>) (w\<lparr>res := R\<rparr>))
      \<and> same_setup (res w) R"
  proof (cases "data16 (dat w d) AND 7 = 0 \<or> data16 (dat w d) AND 7 = 1")
    case True
    then show ?thesis
      unfolding calc_func_def Let_def dt_def [symmetric] st_def [symmetric] if_not_P [OF False]
      using 1 2 by (elim disjE) (simp only: bind.bind_lunit if_True if_False prod.case refl one_neq_zero; fastforce simp: same_setup_def)+
  next
    case other: False
    then show ?thesis
      unfolding calc_func_def Let_def if_not_P [OF False]
      by (simp only: bind.bind_lunit if_False prod.case de_Morgan_disj simp_thms; fastforce simp: same_setup_def)
  qed
  then obtain v R where c: "calc_func d w = Some (v AND 0x007F, set_dat d ((dat w d)\<lparr>data16 := ?new v\<rparr>) (w\<lparr>res := R\<rparr>))"
    and R: "same_setup (res w) R" by blast
  have "kept w (set_dat d ((dat w d)\<lparr>data16 := ?new v\<rparr>) (w\<lparr>res := R\<rparr>))"
    unfolding kept_def using R cached_upper [of "data16 (dat w d)" v] by (simp only: dat_set_dat) (simp add: same_item_def set_dat_def)
  with c show ?thesis by blast
qed

interpretation complex: cmp_total cmp_complex "\<lambda>w. bench_ready (res w) \<and> kept w0 w" for w0
proof
  fix a b w
  assume w: "bench_ready (res w) \<and> kept w0 w"
  obtain v1 w1 where 1: "calc_func a w = Some (v1, w1)" "kept w w1" using calc_func_ready w by blast
  then have r: "bench_ready (res w1)" using w bench_ready_same by (auto simp: kept_def)
  obtain v2 w2 where 2: "calc_func b w1 = Some (v2, w2)" "kept w1 w2" using calc_func_ready r by blast
  then have "bench_ready (res w2)" using r bench_ready_same by (auto simp: kept_def)
  then show "\<exists>c w'. cmp_complex a b w = Some (c, w') \<and> bench_ready (res w') \<and> kept w0 w'"
    using 1 2 w kept_trans by (auto simp: cmp_complex_def)
qed

section \<open>The benchmark restores the list\<close>

lemma mergesort_idx:
  assumes "chain h as" and "as \<noteq> []"
  shows "\<exists>r h'. r = sort_key (\<lambda>a. sint (idx (dat (world h) (inf h a)))) as
           \<and> core_list_mergesort cmp_idx (ptr as) h = Some (ptr r, h')
           \<and> chain h' r \<and> inf h' = inf h \<and> (\<forall>a. a \<notin> set as \<longrightarrow> nxt h' a = nxt h a)
           \<and> from_data (dat (world h)) (res (world h)) (if 2 \<le> length as then inf h ` set as else {}) (world h')"
proof -
  let ?D = "dat (world h)" and ?R = "res (world h)"
  have w: "from_data ?D ?R {} (world h)" by (simp add: from_data_def)
  obtain r w' where s: "asort cmp_idx (inf h) 1 as (world h) = Some (r, w')" "from_data ?D ?R {} w'"
    using by_idx.asort_total [OF w, of 1 "inf h" as] by auto
  have r: "r = sort_key (\<lambda>a. sint (idx (?D (inf h a)))) as"
    using by_idx.asort_key [OF w zero_less_one, unfolded runs_1, OF s(1)] by simp
  have "from_data ?D ?R (if 2 \<le> length as then inf h ` set as else {}) w'"
    using asort_touches [OF w s(1)] s(2) by simp
  with r core_list_mergesort_asort [OF assms s(1)] show ?thesis by blast
qed

text \<open>
  C6: on a well-formed non-empty list, the bottom-up merge sort by \<open>cmp_idx\<close> ends without a fault and
  relinks the heads into the stable sort of the list by the signed \<open>idx\<close> of their data. The data
  pointers, the results, every \<open>idx\<close> and all links outside the list are unchanged. The 16-bit values are not: in
  a list of two items or more each is replaced by its upper byte in both bytes (\<open>regen\<close>), as \<open>cmp_idx\<close> does to drop cached
  results; in a shorter list, and outside the list, a value is as it was or so replaced.
\<close>

theorem core_list_mergesort_idx:
  assumes "chain h as" and "as \<noteq> []"
  shows "\<exists>r h'. r = sort_key (\<lambda>a. sint (idx (dat (world h) (inf h a)))) as
           \<and> core_list_mergesort cmp_idx (ptr as) h = Some (ptr r, h')
           \<and> chain h' r \<and> inf h' = inf h \<and> (\<forall>a. a \<notin> set as \<longrightarrow> nxt h' a = nxt h a)
           \<and> from_data (dat (world h)) (res (world h)) (if 2 \<le> length as then inf h ` set as else {}) (world h')"
  by (rule mergesort_idx [OF assms])

theorem core_list_mergesort_idx_witness:
  "\<exists>h'. core_list_mergesort cmp_idx (Some 0) (sample_heap 0 1 2 undefined) = Some (Some 2, h') \<and> chain h' [2, 1, 0]"
proof -
  have "sort_key (\<lambda>a. sint (idx (dat (world (sample_heap 0 1 2 undefined)) (inf (sample_heap 0 1 2 undefined) a))))
      [0, 1, 2] = [2, 1, 0]"
    by (simp add: sample_heap_def)
  then show ?thesis
    using core_list_mergesort_idx [of "sample_heap 0 1 2 undefined" "[0, 1, 2]"] sample_chain [of 0 1 2 undefined]
    by auto
qed

lemma regen_cong: "same_item x y \<Longrightarrow> regen y = regen x"
proof -
  assume s: "same_item x y"
  have "bit (data16 y) n = bit (data16 x) n" if "8 \<le> n" for n
  proof -
    have "bit (drop_bit 8 (data16 y)) (n - 8) = bit (drop_bit 8 (data16 x)) (n - 8)"
      using s by (simp only: same_item_def)
    then show ?thesis using that by (simp add: bit_drop_bit_eq)
  qed
  then show "regen y = regen x" using s
    by (intro list_data.equality bit_word_eqI) (auto simp: regen_bit same_item_def)
qed

text \<open>Moving the item behind \<open>t\<close> to the second place.\<close>

lemma relink_chain:
  assumes "chain h (xs @ t # f # ys)" and "a = hd (xs @ [t])"
    and "h1 = set_nxt t (nxt h f) h" and "h2 = set_nxt f (nxt h1 a) h1" and "h3 = set_nxt a (Some f) h2"
  shows "\<exists>bs. chain h3 (a # bs) \<and> mset (a # bs) = mset (xs @ t # f # ys)"
proof (cases xs)
  case Nil
  then have a: "a = t" and ch: "nxt h f = ptr ys" "chain h ys" "distinct (t # f # ys)"
    using assms(1,2) by (auto simp: chain_Cons) (simp_all add: chain_def)
  have "chain h3 ys" by (rule chain_frame [OF ch(2)]) (use ch(3) a assms(3-5) in auto)
  then have "chain h3 (t # f # ys)" using ch a assms(3-5) by (auto simp: chain_Cons)
  then show ?thesis using Nil a by auto
next
  case (Cons x xs')
  then have a: "a = x" using assms(2) by simp
  have d: "distinct (x # xs' @ t # f # ys)" using assms(1) Cons by (simp add: chain_def)
  have l: "lseg h (ptr (xs' @ [t])) xs' (Some t)" and ch: "nxt h x = ptr (xs' @ [t])" "nxt h t = Some f" "nxt h f = ptr ys" "chain h ys"
    using assms(1) Cons by (auto simp: chain_append chain_Cons ptr_def hd_append split: if_splits)
  have "lseg h3 (ptr (xs' @ [t])) xs' (Some t)"
    using l d a assms(3-5) by (subst lseg_cong [of _ h3 h]) auto
  moreover have "chain h3 (t # ys)"
    using ch d a assms(3-5) by (auto simp: chain_Cons intro: chain_frame [of h])
  moreover have "ptr (xs' @ t # ys) = ptr (xs' @ [t])" by (cases xs') auto
  ultimately have "chain h3 (xs' @ t # ys)" using d by (auto simp: chain_append)
  moreover have "nxt h3 f = ptr (xs' @ t # ys)" using ch d a assms(3-5) \<open>ptr (xs' @ t # ys) = _\<close> by auto
  ultimately have "chain h3 (a # f # xs' @ t # ys)" using d a assms(5) by (auto simp: chain_Cons)
  then show ?thesis using Cons a by (intro exI [of _ "f # xs' @ t # ys"]) simp
qed

text \<open>The invariant of the search loop: a rearranged list on an otherwise unchanged heap.\<close>

definition rearranged :: "nat list \<Rightarrow> 'w lheap \<Rightarrow> nat list \<Rightarrow> 'w lheap \<Rightarrow> bool" where
  "rearranged as h cs h' = (chain h' cs \<and> mset cs = mset as \<and> inf h' = inf h \<and> (\<forall>a. a \<notin> set as \<longrightarrow> nxt h' a = nxt h a))"

lemma core_list_find_in:
  assumes "chain h as"
  shows "\<exists>t. core_list_find (ptr as) inf' h = Some t \<and> (\<forall>x. t = Some x \<longrightarrow> x \<in> set as)"
proof -
  have "List.find P as = Some x \<Longrightarrow> x \<in> set as" for P x by (auto simp: find_Some_iff)
  then show ?thesis unfolding core_list_find_def find_while_chain [OF assms] by auto
qed

lemma find_step_rearranges:
  assumes "rearranged as h cs (heap s)" and "list s = ptr cs" and "world (heap s) = world h" and "2 \<le> length as"
  shows "\<exists>s' cs'. find_step i s = Some s' \<and> rearranged as h cs' (heap s') \<and> list s' = ptr cs' \<and> world (heap s') = world h"
proof -
  have ch: "chain (heap s) cs" and ms: "mset cs = mset as" using assms(1) by (auto simp: rearranged_def)
  obtain h1 where h1: "core_list_reverse (ptr cs) (heap s) = Some (ptr (rev cs), h1)" "chain h1 (rev cs)"
    "inf h1 = inf (heap s)" "world h1 = world (heap s)" "\<And>a. a \<notin> set cs \<Longrightarrow> nxt h1 a = nxt (heap s) a"
    using reverse_chain [OF ch] by blast
  have r1: "rearranged as h (rev cs) h1" using assms(1) h1 mset_eq_setD [OF ms] by (auto simp: rearranged_def)
  have "2 \<le> length (rev cs)" using assms(4) mset_eq_length [OF ms] by simp
  then obtain a b bs where rv: "rev cs = a # b # bs" by (metis Suc_le_length_iff numeral_2_eq_2)
  let ?inf = "(info s)\<lparr>data16 := of_nat i AND 0xFF\<rparr>"
  obtain t where t: "core_list_find (list s) ?inf (heap s) = Some t" and tin: "\<And>x. t = Some x \<Longrightarrow> x \<in> set cs"
    using core_list_find_in [OF ch, of ?inf] assms(2) by auto
  show ?thesis
  proof (cases t)
    case None
    have "nxt h1 a = Some b" using h1(2) rv by (auto simp: chain_Cons)
    then show ?thesis using t None h1 rv r1 assms(2,3) by (auto simp: find_step_def Let_def intro!: exI [of _ "rev cs"])
  next
    case (Some x)
    then obtain xs ys where xy: "rev cs = xs @ x # ys" using tin [of x] by (metis in_set_conv_decomp set_rev)
    show ?thesis
    proof (cases ys)
      case Nil
      then have "nxt h1 x = None" using h1(2) xy by (auto simp: chain_append chain_Cons)
      then show ?thesis using t Some h1 r1 assms(2,3) by (auto simp: find_step_def Let_def intro!: exI [of _ "rev cs"])
    next
      case (Cons f zs)
      then have nx: "nxt h1 x = Some f" using h1(2) xy by (auto simp: chain_append chain_Cons)
      have a: "a = hd (xs @ [x])" using rv xy by (cases xs) auto
      let ?h1 = "set_nxt x (nxt h1 f) h1"
      let ?h2 = "set_nxt f (nxt ?h1 a) ?h1"
      let ?h3 = "set_nxt a (Some f) ?h2"
      obtain ds where ds: "chain ?h3 (a # ds)" "mset (a # ds) = mset (xs @ x # f # zs)"
        using relink_chain [OF h1(2) [unfolded xy Cons] a refl refl refl] by blast
      have "mset (a # ds) = mset as" using ds(2) xy Cons r1 by (simp add: rearranged_def)
      moreover have "{x, f, a} \<subseteq> set as" using xy Cons rv ms mset_eq_setD [OF ms] by (metis (no_types, lifting) empty_subsetI insert_subset list.set_intros(1) set_rev in_set_conv_decomp append_Cons append_assoc append_Nil)
      ultimately have "rearranged as h (a # ds) ?h3" using ds(1) r1 by (auto simp: rearranged_def)
      then show ?thesis using t Some nx h1 rv assms(2,3)
        by (auto simp: find_step_def Let_def intro!: exI [of _ "a # ds"])
    qed
  qed
qed

lemma crc_loop_total: "chain h as \<Longrightarrow> \<exists>v. crc_loop d (ptr as) c h = Some v"
  by (induction as arbitrary: c) (subst crc_loop.simps; auto simp: chain_Cons)+

lemma crc_loop_from:
  assumes "chain h as" and "x \<in> set as"
  shows "\<exists>v. crc_loop d (Some x) c h = Some v"
proof -
  obtain xs ys where "as = xs @ x # ys" using split_list [OF assms(2)] by blast
  then have "chain h (x # ys)" using assms(1) by (simp add: chain_append)
  from crc_loop_total [OF this] show ?thesis by simp
qed

lemma same_item_regen: "same_item x (regen x)"
proof -
  have "drop_bit 8 (data16 (regen x)) = drop_bit 8 (data16 x)"
    by (rule bit_word_eqI) (auto simp: bit_drop_bit_eq regen_bit dest: bit_imp_le_length)
  then show ?thesis by (simp add: same_item_def)
qed

lemma from_data_kept: "from_data (dat w) (res w) T w' \<Longrightarrow> kept w w'"
  unfolding from_data_def kept_def
  by (metis same_item_regen kept_refl kept_def)

lemma find_loop_rearranges:
  assumes "chain h as" and "2 \<le> length as"
  shows "\<exists>s' cs'. for_loop 0 n find_step \<lparr>retval = 0, found = 0, missed = 0, list = ptr as, info = i, heap = h\<rparr> = Some s'
    \<and> rearranged as h cs' (heap s') \<and> list s' = ptr cs' \<and> world (heap s') = world h"
proof -
  let ?P = "\<lambda>_ s. \<exists>cs. rearranged as h cs (heap s) \<and> list s = ptr cs \<and> world (heap s) = world h"
  have "\<exists>s'. for_loop 0 n find_step \<lparr>retval = 0, found = 0, missed = 0, list = ptr as, info = i, heap = h\<rparr> = Some s'
      \<and> ?P (0 + n) s'"
  proof (rule for_loop_inv [where P = ?P])
    show "?P 0 \<lparr>retval = 0, found = 0, missed = 0, list = ptr as, info = i, heap = h\<rparr>"
      using assms(1) by (auto simp: rearranged_def)
    show "\<exists>s'. find_step k s = Some s' \<and> ?P (Suc k) s'" if "?P k s" for k s
      using find_step_rearranges [of as h _ s k] that assms(2) by blast
  qed
  then show ?thesis by auto
qed

text \<open>The second half of the benchmark: remove, CRC, undo, sort by index, CRC.\<close>

lemma restore_phase:
  assumes r: "rearranged as h cs h1" and k: "kept (world h) (world h1)" and "3 \<le> length as" and "chain h as"
    and sorted: "sorted_wrt (<) (map (\<lambda>a. sint (idx (dat (world h) (inf h a)))) as)"
  obtains a n b cs' h2 h3 where "cs = a # n # b # cs'" and "core_list_remove n h1 = Some (b, h2)"
    and "chain h2 (a # n # cs')" and "core_list_undo_remove b n h2 = (b, h1)"
    and "core_list_mergesort cmp_idx (ptr cs) h1 = Some (ptr as, h3)" and "chain h3 as" and "nxt h3 = nxt h" and "inf h3 = inf h"
    and "kept (world h) (world h3)" and "\<And>a. a \<in> set as \<Longrightarrow> dat (world h3) (inf h a) = regen (dat (world h) (inf h a))"
proof -
  have ch: "chain h1 cs" and ms: "mset cs = mset as" and inf: "inf h1 = inf h"
    and nx: "\<And>a. a \<notin> set as \<Longrightarrow> nxt h1 a = nxt h a" using r by (auto simp: rearranged_def)
  have "3 \<le> length cs" using assms(3) mset_eq_length [OF ms] by simp
  then obtain a n b cs' where cs: "cs = a # n # b # cs'"
    by (metis Suc_le_length_iff numeral_3_eq_3)
  obtain h2 where h2: "core_list_remove n h1 = Some (b, h2)" "chain h2 (a # n # cs')" "core_list_undo_remove b n h2 = (b, h1)"
    using remove_undo_chain [of h1 "[a]" n b cs'] ch cs by auto
  obtain h3 where h3: "core_list_mergesort cmp_idx (ptr cs) h1
      = Some (ptr (sort_key (\<lambda>a. sint (idx (dat (world h1) (inf h1 a)))) cs), h3)"
    "chain h3 (sort_key (\<lambda>a. sint (idx (dat (world h1) (inf h1 a)))) cs)" "inf h3 = inf h1"
    "\<And>a. a \<notin> set cs \<Longrightarrow> nxt h3 a = nxt h1 a"
    "from_data (dat (world h1)) (res (world h1)) (inf h1 ` set cs) (world h3)"
    using mergesort_idx [OF ch] cs by auto
  let ?k = "\<lambda>a. sint (idx (dat (world h) (inf h a)))"
  have keys: "(\<lambda>a. sint (idx (dat (world h1) (inf h1 a)))) = ?k" using k inf by (auto simp: kept_def same_item_def)
  have "sorted (map ?k as)" "distinct (map ?k as)"
    using sorted by (auto simp: strict_sorted_iff)
  then have srt: "sort_key ?k cs = as"
    using sort_key_inj_key_eq [OF ms] ms by (metis distinct_map mset_eq_setD)
  have set: "set cs = set as" by (rule mset_eq_setD [OF ms])
  have c3: "chain h3 as" using h3(2) keys srt by simp
  have n3: "nxt h3 = nxt h"
  proof
    show "nxt h3 a = nxt h a" for a
      using chain_determines_nxt [OF c3 assms(4)] h3(4) nx set by (cases "a \<in> set as") auto
  qed
  have k3: "kept (world h) (world h3)" using kept_trans [OF k from_data_kept [OF h3(5)]] .
  have d3: "dat (world h3) (inf h a) = regen (dat (world h) (inf h a))" if "a \<in> set as" for a
    using h3(5) that set inf k by (auto simp: from_data_def kept_def intro!: regen_cong)
  have m: "core_list_mergesort cmp_idx (ptr cs) h1 = Some (ptr as, h3)" using h3(1) unfolding keys srt .
  have i3: "inf h3 = inf h" using h3(3) inf by simp
  show ?thesis by (rule that [of a n b cs' h2 h3]) (fact cs h2 m c3 n3 i3 k3 d3)+
qed

lemma bench_list_restored:
  assumes "chain h as" and "3 \<le> length as"
    and "sorted_wrt (<) (map (\<lambda>a. sint (idx (dat (world h) (inf h a)))) as)"
    and "0 <s finder_idx \<Longrightarrow> bench_ready (res (world h))"
  shows "\<exists>c h'. core_bench_list (ptr as) finder_idx junk h = Some (c, h') \<and> nxt h' = nxt h \<and> inf h' = inf h
    \<and> (\<forall>a \<in> set as. dat (world h') (inf h a) = regen (dat (world h) (inf h a))) \<and> kept (world h) (world h')"
proof -
  obtain s cs where s: "for_loop 0 (nat (sint (seed3 (res (world h))))) find_step
      \<lparr>retval = 0, found = 0, missed = 0, list = ptr as, info = \<lparr>data16 = junk, idx = finder_idx\<rparr>, heap = h\<rparr> = Some s"
    and rc: "rearranged as h cs (heap s)" and ls: "list s = ptr cs" and ws: "world (heap s) = world h"
    using find_loop_rearranges [OF assms(1), of "nat (sint (seed3 (res (world h))))" "\<lparr>data16 = junk, idx = finder_idx\<rparr>"]
      assms(2) by auto
  obtain ds h1 where sort: "(if 0 <s finder_idx then core_list_mergesort cmp_complex (list s) (heap s)
      else Some (list s, heap s)) = Some (ptr ds, h1)" and rd: "rearranged as h ds h1" and k1: "kept (world h) (world h1)"
  proof (cases "0 <s finder_idx")
    case True
    have "chain (heap s) cs" "mset cs = mset as" using rc by (auto simp: rearranged_def)
    moreover from this have "cs \<noteq> []" "set cs = set as" using assms(2) by (auto dest: mset_eq_setD)
    ultimately obtain ds h1 where "core_list_mergesort cmp_complex (ptr cs) (heap s) = Some (ptr ds, h1)" "chain h1 ds"
      "mset ds = mset cs" "inf h1 = inf (heap s)" "kept (world h) (world h1)" "\<And>a. a \<notin> set cs \<Longrightarrow> nxt h1 a = nxt (heap s) a"
      using complex.mergesort_permutes [of "heap s" cs "world h"] assms(4) [OF True] ws by auto
    then show ?thesis using that [of ds h1] True rc ls \<open>set cs = set as\<close> by (auto simp: rearranged_def)
  next
    case False
    then show ?thesis using that [of cs "heap s"] rc ls ws by simp
  qed
  obtain a n b cs' h2 h3 where p: "ds = a # n # b # cs'" "core_list_remove n h1 = Some (b, h2)" "chain h2 (a # n # cs')"
    "core_list_undo_remove b n h2 = (b, h1)" "core_list_mergesort cmp_idx (ptr ds) h1 = Some (ptr as, h3)" "chain h3 as"
    "nxt h3 = nxt h" "inf h3 = inf h" "kept (world h) (world h3)"
    "\<And>a. a \<in> set as \<Longrightarrow> dat (world h3) (inf h a) = regen (dat (world h) (inf h a))"
    using restore_phase [OF rd k1 assms(2,1,3)] by blast
  have na: "nxt h1 a = Some n" "nxt h2 a = Some n"
    using rd p(1,3) by (auto simp: rearranged_def chain_Cons)
  obtain t where t: "core_list_find (Some a) (info s) h2 = Some t" "\<And>x. t = Some x \<Longrightarrow> x \<in> set (a # n # cs')"
    using core_list_find_in [OF p(3), of "info s"] by auto
  have "\<exists>v. crc_loop (data16 (dat (world h2) (inf h2 a))) (if t = None then Some n else t) c h2 = Some v" for c
    using crc_loop_from [OF p(3)] t(2) by (cases t) auto
  then obtain v where v: "crc_loop (data16 (dat (world h2) (inf h2 a))) (if t = None then Some n else t)
      (retval s + (found s * 4 - missed s)) h2 = Some v" by blast
  obtain x as' where as: "as = x # as'" using assms(2) by (cases as) auto
  then have "chain h3 as'" "nxt h3 x = ptr as'" using p(6) by (auto simp: chain_Cons)
  then obtain v' where v': "crc_loop (data16 (dat (world h3) (inf h3 x))) (nxt h3 x) v h3 = Some v'"
    using crc_loop_total by metis
  have p5: "core_list_mergesort cmp_idx (Some a) h1 = Some (Some x, h3)" using p(1,5) as by simp
  have "core_bench_list (ptr as) finder_idx junk h = Some (v', h3)"
    unfolding core_bench_list_def s bind.bind_lunit Let_def sort prod.case p(1) ptr_simps(2) na p(2) t(1) v p(4)
      p5 v' ..
  then show ?thesis using p(7-10) by blast
qed

text \<open>
  C14: \<open>core_bench_list\<close>, run on a well-formed list of three or more items in strictly increasing order
  of \<open>idx\<close>, returns without a fault and leaves the same links and data pointers. Each item keeps its \<open>idx\<close>, and
  its 16-bit value becomes its upper byte in both bytes (\<open>regen\<close>): a value whose two bytes agree, as \<open>core_list_init\<close>
  makes them, is as before, any other is changed. For a positive \<open>finder_idx\<close>, where the list is also sorted by
  computed values, the memory of the other benchmarks must be set up (\<open>bench_ready\<close>).
\<close>

theorem core_bench_list_restores:
  assumes "chain h as" and "3 \<le> length as"
    and "sorted_wrt (<) (map (\<lambda>a. sint (idx (dat (world h) (inf h a)))) as)"
    and "0 <s finder_idx \<Longrightarrow> bench_ready (res (world h))"
  shows "\<exists>c h'. core_bench_list (ptr as) finder_idx junk h = Some (c, h') \<and> nxt h' = nxt h \<and> inf h' = inf h
    \<and> (\<forall>a \<in> set as. dat (world h') (inf h a) = regen (dat (world h) (inf h a))) \<and> kept (world h) (world h')"
  by (rule bench_list_restored [OF assms])

definition bench_heap :: "world lheap" where
  "bench_heap = \<lparr>nxt = (\<lambda>_. None)(0 := Some 1, 1 := Some 2), inf = id,
     world = \<lparr>dat = (\<lambda>_. \<lparr>data16 = 0x2828, idx = 9\<rparr>)
         (0 := \<lparr>data16 = 0x8080, idx = 0\<rparr>, 1 := \<lparr>data16 = 0x3131, idx = 5\<rparr>),
       res = \<lparr>seed1 = 0x3415, seed2 = 0x3415, seed3 = 0x66, memblock3 = bytes ''12,4.5'' @ [0], blk_size = 6,
         iterations = 1, mat = \<lparr>mat_N = 1, mat_A = [3], mat_B = [4], mat_C = [0]\<rparr>,
         crc = 0, crclist = 0, crcmatrix = 0, crcstate = 0\<rparr>\<rparr>\<rparr>"

lemma bench_heap_ready: "bench_ready (res (world bench_heap))"
proof -
  let ?mem = "bytes ''12,4.5'' @ [0]"
  have "list_all (\<lambda>c. c \<noteq> comma XOR 0x15) ?mem" by (simp add: bytes_def)
  moreover have "length ?mem = 7" by (simp add: bytes_def)
  ultimately have "\<forall>i < 6. ?mem ! i \<noteq> comma XOR 0x15" unfolding list_all_length by simp
  moreover have "?mem ! 6 = 0" by (simp add: bytes_def)
  ultimately show ?thesis using \<open>length ?mem = 7\<close>
    by (auto simp: bench_ready_def bench_heap_def Let_def intro!: exI [of _ "6::nat"])
qed

theorem core_bench_list_restores_witness:
  "\<exists>c h'. core_bench_list (Some 0) 1 0 bench_heap = Some (c, h') \<and> nxt h' = nxt bench_heap \<and> inf h' = inf bench_heap
    \<and> dat (world h') 1 = \<lparr>data16 = 0x3131, idx = 5\<rparr>"
proof -
  have ch: "chain bench_heap [0, 1, 2]" by (auto simp: bench_heap_def chain_Cons) (simp add: chain_def)
  have s: "sorted_wrt (<) (map (\<lambda>a. sint (idx (dat (world bench_heap) (inf bench_heap a)))) [0, 1, 2])"
    by (simp add: bench_heap_def)
  obtain c h' where r: "core_bench_list (ptr [0, 1, 2]) 1 0 bench_heap = Some (c, h')" "nxt h' = nxt bench_heap"
    "inf h' = inf bench_heap"
    "\<forall>a \<in> set [0, 1, 2]. dat (world h') (inf bench_heap a) = regen (dat (world bench_heap) (inf bench_heap a))"
    using core_bench_list_restores [OF ch _ s, of 1 0] bench_heap_ready by auto
  have "dat (world h') 1 = regen \<lparr>data16 = 0x3131, idx = 5\<rparr>" using r(4) by (simp add: bench_heap_def)
  also have "\<dots> = \<lparr>data16 = 0x3131, idx = 5\<rparr>" by (simp add: regen_def)
  finally show ?thesis using r by auto
qed

end
