(* ===== verification/ListInit.thy ===== *)
theory ListInit
  imports ListBench
begin

unbundle bit_operations_syntax

text \<open>
  \<open>core_list_init\<close> of \<open>coremark/core_list_join.c\<close>: which list it builds. The heads and data items are
  used in order, the items stand in reverse order between the head and the tail, and are then
  sorted by the index they get.
\<close>

text \<open>The list before it is sorted, with \<open>m\<close> heads in use, and the data of an item.\<close>

definition raw_list :: "nat \<Rightarrow> nat list" where
  "raw_list m = 0 # rev [1..<m]"

definition item_data :: "i16 \<Rightarrow> nat \<Rightarrow> i16" where
  "item_data seed i =
     (let dat = push_bit 3 (ucast (scast seed XOR of_nat i :: i32) AND (0xF :: i16)) OR (of_nat i AND 7)
      in push_bit 8 dat OR dat)"

definition init_data :: "i16 \<Rightarrow> nat \<Rightarrow> i16" where
  "init_data seed a = (if a = 0 then 0x8080 else if a = 1 then 0xFFFF else item_data seed (a - 2))"

text \<open>The index of head \<open>a\<close> when the block has room for \<open>n\<close> heads.\<close>

definition init_idx :: "i16 \<Rightarrow> nat \<Rightarrow> nat \<Rightarrow> i16" where
  "init_idx seed n a = (if a = 0 then 0 else if a = 1 then 0x7FFF
     else item_idx (of_nat n div 5) seed (of_nat (n - 1 - a)))"

definition built :: "i16 \<Rightarrow> nat \<Rightarrow> world lheap \<Rightarrow> world lheap \<Rightarrow> bool" where
  "built seed m h h' = (chain h' (raw_list m) \<and> res (world h') = res (world h)
     \<and> (\<forall>a < m. inf h' a = a \<and> dat (world h') a = \<lparr>data16 = init_data seed a, idx = (if a = 0 then 0 else 0x7FFF)\<rparr>))"

lemma raw_list_Suc: "1 \<le> m \<Longrightarrow> raw_list (Suc m) = 0 # m # rev [1..<m]"
  by (simp add: raw_list_def)

lemma insert_new_built:
  assumes "built seed m h h'" and "1 \<le> m" and "Suc m < n" and "data16 item = init_data seed m" and "idx item = 0x7FFF"
  shows "\<exists>h''. core_list_insert_new 0 item m m n n h' = (Some m, Suc m, Suc m, h'') \<and> built seed (Suc m) h h''"
proof -
  let ?h = "set_inf m m (set_nxt 0 (Some m) (set_nxt m (nxt h' 0) h'))"
  let ?h' = "?h\<lparr>world := copy_info m item (world ?h)\<rparr>"
  have ch: "chain h' (rev [1..<m])" "nxt h' 0 = ptr (rev [1..<m])" "distinct (0 # rev [1..<m])"
    using assms(1,2) by (auto simp: built_def raw_list_def chain_Cons)
  have "chain ?h' (rev [1..<m])" by (rule chain_frame [OF ch(1)]) auto
  then have "chain ?h' (raw_list (Suc m))"
    using ch(2) assms(2) by (simp add: raw_list_Suc chain_Cons)
  moreover have "\<forall>a < Suc m. inf ?h' a = a
      \<and> dat (world ?h') a = \<lparr>data16 = init_data seed a, idx = (if a = 0 then 0 else 0x7FFF)\<rparr>"
    using assms(1,2,4,5) by (auto simp: built_def less_Suc_eq copy_info_def)
  moreover have "res (world ?h') = res (world h)" using assms(1) by (simp add: built_def copy_info_def)
  ultimately show ?thesis using assms(3) by (auto simp: core_list_insert_new_def Let_def built_def)
qed

lemma insert_new_full: "n \<le> Suc m \<Longrightarrow> core_list_insert_new 0 item m m n n h = (None, m, m, h)"
  by (simp add: core_list_insert_new_def)

lemma insert_item_data: "2 \<le> m \<Longrightarrow> init_data seed m = item_data seed (m - 2)"
  by (simp add: init_data_def)

lemma insert_items_built:
  assumes "built seed 2 h h'" and "3 \<le> n"
  shows "\<exists>h''. fold (insert_item seed n) [0..<j] (2, 2, h') = (min (j + 2) (n - 1), min (j + 2) (n - 1), h'')
           \<and> built seed (min (j + 2) (n - 1)) h h''"
proof (induction j)
  case 0
  then show ?case using assms by (simp add: min_def numeral_2_eq_2)
next
  case (Suc j)
  let ?m = "min (j + 2) (n - 1)"
  let ?item = "\<lparr>data16 = item_data seed j, idx = 0x7FFF :: i16\<rparr>"
  obtain h1 where h1: "fold (insert_item seed n) [0..<j] (2, 2, h') = (?m, ?m, h1)" "built seed ?m h h1"
    using Suc.IH by blast
  have step: "insert_item seed n j (?m, ?m, h1) = snd (core_list_insert_new 0 ?item ?m ?m n n h1)"
    by (simp add: insert_item_def item_data_def Let_def)
  show ?case
  proof (cases "Suc (j + 2) < n")
    case True
    then have m: "?m = j + 2" "min (Suc j + 2) (n - 1) = Suc (j + 2)" by auto
    obtain h2 where "core_list_insert_new 0 ?item (j + 2) (j + 2) n n h1 = (Some (j + 2), Suc (j + 2), Suc (j + 2), h2)"
      "built seed (Suc (j + 2)) h h2"
      using insert_new_built [of seed "j + 2" h h1 n ?item] h1(2) True m by (auto simp: init_data_def)
    then show ?thesis using h1(1) step m by simp
  next
    case False
    then have m: "?m = n - 1" "min (Suc j + 2) (n - 1) = n - 1" by auto
    then show ?thesis using h1 step insert_new_full [of n "n - 1" ?item h1] by simp
  qed
qed

text \<open>Numbering: from the item behind the head down to the tail, which keeps its index.\<close>

lemma rev_upt_Suc: "rev [1..<Suc (Suc j)] = Suc j # rev [1..<Suc j]"
  by simp

lemma index_loop_numbers:
  assumes "k + Suc (Suc j) = n - 1" and "chain h (rev [1..<Suc (Suc j)])" and "\<And>a. a < n - 1 \<Longrightarrow> inf h a = a"
  shows "\<exists>h'. index_loop fifth seed (of_nat k + 1) (Suc j) h = Some h' \<and> nxt h' = nxt h \<and> inf h' = inf h
    \<and> res (world h') = res (world h)
    \<and> (\<forall>a. dat (world h') a = (if 2 \<le> a \<and> a \<le> Suc j then (dat (world h) a)\<lparr>idx := item_idx fifth seed (of_nat (n - 1 - a))\<rparr>
         else dat (world h) a))"
  using assms
proof (induction j arbitrary: k h)
  case 0
  then have "nxt h 1 = None" by (simp add: chain_Cons)
  then show ?case by (subst index_loop.simps) auto
next
  case (Suc j)
  let ?i = "item_idx fifth seed (of_nat k + 1)"
  let ?h = "put_data (Suc (Suc j)) (idx_update (\<lambda>_. ?i)) h"
  have ch: "chain h (rev [1..<Suc (Suc j)])" "nxt h (Suc (Suc j)) = Some (Suc j)"
    using Suc.prems(2) unfolding rev_upt_Suc [of "Suc j"] by (auto simp: chain_Cons)
  have "chain ?h (rev [1..<Suc (Suc j)])" by (rule chain_frame [OF ch(1)]) (simp add: put_data_def)
  then obtain h' where h': "index_loop fifth seed (of_nat (Suc k) + 1) (Suc j) ?h = Some h'" "nxt h' = nxt ?h" "inf h' = inf ?h"
    "res (world h') = res (world ?h)"
    "\<And>a. dat (world h') a = (if 2 \<le> a \<and> a \<le> Suc j then (dat (world ?h) a)\<lparr>idx := item_idx fifth seed (of_nat (n - 1 - a))\<rparr>
         else dat (world ?h) a)"
    using Suc.IH [of "Suc k" ?h] Suc.prems(1,3) by (auto simp: put_data_def)
  have inf: "inf h (Suc (Suc j)) = Suc (Suc j)" using Suc.prems(1,3) by simp
  have kk: "(of_nat (n - 1 - Suc (Suc j)) :: i32) = of_nat k + 1"
  proof -
    have "n - 1 - Suc (Suc j) = Suc k" using Suc.prems(1) by linarith
    then show ?thesis by (simp add: add.commute)
  qed
  have un: "index_loop fifth seed (of_nat k + 1) (Suc (Suc j)) h = Some h'"
    using h'(1) ch(2) by (subst index_loop.simps) (simp add: add.commute)
  have d: "dat (world h') a = (if 2 \<le> a \<and> a \<le> Suc (Suc j) then (dat (world h) a)\<lparr>idx := item_idx fifth seed (of_nat (n - 1 - a))\<rparr>
         else dat (world h) a)" for a
  proof (cases "a = Suc (Suc j)")
    case True
    then show ?thesis using h'(5) [of a] inf kk by (simp add: put_data_def)
  next
    case False
    then show ?thesis using h'(5) [of a] inf by (auto simp: put_data_def)
  qed
  show ?case using un h'(2-4) d by (auto simp: put_data_def)
qed

text \<open>
  What \<open>core_list_init\<close> makes of a block with room for \<open>n\<close> heads: the head, \<open>n - 3\<close> items and the tail,
  sorted by index.
\<close>

definition init_list :: "i16 \<Rightarrow> nat \<Rightarrow> nat list" where
  "init_list seed n = sort_key (\<lambda>a. sint (init_idx seed n a)) (raw_list (n - 1))"

lemma sort_key_agree: "(\<And>a. a \<in> set xs \<Longrightarrow> f a = g a) \<Longrightarrow> sort_key f xs = sort_key g xs"
proof (rule properties_for_sort_key)
  assume fg: "\<And>a. a \<in> set xs \<Longrightarrow> f a = g a"
  have "map f (sort_key g xs) = map g (sort_key g xs)" using fg by simp
  then show "sorted (map f (sort_key g xs))" by (metis sorted_sort_key)
  fix a assume "a \<in> set (sort_key g xs)"
  then have a: "f a = g a" using fg by simp
  have "filter (\<lambda>b. f a = f b) ys = filter (\<lambda>b. g a = g b) ys" if "set ys \<subseteq> set xs" for ys
    using that fg a by (intro filter_cong) auto
  then show "filter (\<lambda>b. f a = f b) (sort_key g xs) = filter (\<lambda>b. f a = f b) xs"
    using sort_key_stable [of g "g a" xs] by (simp add: eq_commute)
qed simp

lemma list_init:
  assumes "n = unat (blksize div 20) - 2" and "3 \<le> n"
  shows "\<exists>h'. core_list_init blksize seed h = Some (ptr (init_list seed n), h') \<and> chain h' (init_list seed n)
    \<and> res (world h') = res (world h)
    \<and> (\<forall>a < n - 1. inf h' a = a \<and> dat (world h') a = regen \<lparr>data16 = init_data seed a, idx = init_idx seed n a\<rparr>)"
proof -
  have sz: "unat (blksize div 20 - 2) = n" "\<not> blksize div 20 \<le> 2"
  proof -
    have "2 < unat (blksize div 20)" using assms by simp
    then show l: "\<not> blksize div 20 \<le> 2" by (simp add: word_le_nat_alt)
    show "unat (blksize div 20 - 2) = n" using l assms(1) by (simp add: unat_sub word_le_nat_alt)
  qed
  let ?h0 = "put_data 0 (data16_update (\<lambda>_. 0x8080)) (put_data 0 (idx_update (\<lambda>_. 0x0000)) (set_inf 0 0 (set_nxt 0 None h)))"
  have "built seed 1 h ?h0"
    by (simp add: built_def raw_list_def chain_def put_data_def init_data_def)
  then obtain h1 where h1: "core_list_insert_new 0 \<lparr>data16 = 0xFFFF, idx = 0x7FFF\<rparr> 1 1 n n ?h0 = (Some 1, 2, 2, h1)"
    "built seed 2 h h1"
    using insert_new_built [of seed 1 h ?h0 n "\<lparr>data16 = 0xFFFF, idx = 0x7FFF\<rparr>"] assms(2)
    by (auto simp: init_data_def numeral_2_eq_2)
  obtain h2 where h2: "fold (insert_item seed n) [0..<n] (2, 2, h1) = (n - 1, n - 1, h2)" "built seed (n - 1) h h2"
    using insert_items_built [OF h1(2) assms(2), of n] by (auto simp: min_def split: if_splits)
  obtain j where j: "n = j + 3" using assms(2) by (metis le_add_diff_inverse2)
  then have raw: "raw_list (n - 1) = 0 # rev [1..<Suc (Suc j)]" by (simp add: raw_list_def)
  have c2: "nxt h2 0 = Some (Suc j)" "chain h2 (rev [1..<Suc (Suc j)])"
    using h2(2) unfolding built_def raw rev_upt_Suc by (auto simp: chain_Cons)
  obtain h3 where h3: "index_loop (of_nat n div 5) seed 1 (Suc j) h2 = Some h3" "nxt h3 = nxt h2" "inf h3 = inf h2"
    "res (world h3) = res (world h2)"
    "\<And>a. dat (world h3) a = (if 2 \<le> a \<and> a \<le> Suc j then (dat (world h2) a)\<lparr>idx := item_idx (of_nat n div 5) seed (of_nat (n - 1 - a))\<rparr>
         else dat (world h2) a)"
    using index_loop_numbers [of 0 j n h2 "of_nat n div 5" seed] c2(2) h2(2) j by (auto simp: built_def)
  have d3: "inf h3 a = a \<and> dat (world h3) a = \<lparr>data16 = init_data seed a, idx = init_idx seed n a\<rparr>" if "a < n - 1" for a
    using h2(2) h3(3) h3(5) [of a] that j by (auto simp: built_def init_idx_def)
  have set: "set (raw_list (n - 1)) = {..<n - 1}" using j by (auto simp: raw raw_list_def)
  have ch: "chain h3 (raw_list (n - 1))"
    using h2(2) by (auto simp: built_def h3(2) intro: chain_frame)
  have key: "sort_key (\<lambda>a. sint (idx (dat (world h3) (inf h3 a)))) (raw_list (n - 1)) = init_list seed n"
    unfolding init_list_def by (rule sort_key_agree) (use d3 set in auto)
  have two: "raw_list (n - 1) \<noteq> []" "2 \<le> length (raw_list (n - 1))" unfolding raw by simp_all
  obtain h4 where h4: "core_list_mergesort cmp_idx (ptr (raw_list (n - 1))) h3 = Some (ptr (init_list seed n), h4)"
    "chain h4 (init_list seed n)" "inf h4 = inf h3"
    "from_data (dat (world h3)) (res (world h3)) (inf h3 ` set (raw_list (n - 1))) (world h4)"
    using mergesort_idx [OF ch two(1)] two(2) unfolding key by auto
  have p0: "ptr (raw_list (n - 1)) = Some 0" by (simp only: raw ptr_simps)
  have "core_list_init blksize seed h = Some (ptr (init_list seed n), h4)"
    using h4(1)
    unfolding core_list_init_def Let_def sz if_not_P [OF sz(2)] h1(1) prod.case h2(1) c2(1) bind.bind_lunit h3(1) p0 .
  moreover have "res (world h4) = res (world h)" using h4(4) h3(4) h2(2) by (simp add: from_data_def built_def)
  moreover have "inf h4 a = a \<and> dat (world h4) a = regen \<lparr>data16 = init_data seed a, idx = init_idx seed n a\<rparr>"
    if "a < n - 1" for a
    using h4(3,4) d3 that set by (auto simp: from_data_def)
  ultimately show ?thesis using h4(2) by blast
qed

lemma init_list_strict:
  assumes "distinct (map (\<lambda>a. sint (init_idx seed n a)) (raw_list (n - 1)))"
  shows "sorted_wrt (<) (map (\<lambda>a. sint (init_idx seed n a)) (init_list seed n))"
proof -
  have "mset (map (\<lambda>a. sint (init_idx seed n a)) (init_list seed n)) = mset (map (\<lambda>a. sint (init_idx seed n a)) (raw_list (n - 1)))"
    by (simp add: init_list_def)
  then have "distinct (map (\<lambda>a. sint (init_idx seed n a)) (init_list seed n))"
    using assms mset_eq_imp_distinct_iff by blast
  then show ?thesis by (simp add: strict_sorted_iff init_list_def)
qed

lemma known_seeds_distinct:
  "distinct (map (\<lambda>a. sint (init_idx 0 31 a)) (raw_list 30))"
  "distinct (map (\<lambda>a. sint (init_idx 0x3415 31 a)) (raw_list 30))"
  by code_simp+

text \<open>
  C32: \<open>core_list_init\<close> on a block with room for three list heads or more returns a well-formed list of
  all its heads but the last, sorted by index, whatever the memory held before: head and tail carry
  the fixed data, and each item the data and the index computed from the seed.
\<close>

theorem core_list_init_builds:
  assumes "n = unat (blksize div 20) - 2" and "3 \<le> n"
  shows "\<exists>r h'. core_list_init blksize seed h = Some (ptr r, h') \<and> chain h' r \<and> mset r = mset [0..<n - 1]
    \<and> sorted (map (\<lambda>a. sint (init_idx seed n a)) r) \<and> res (world h') = res (world h)
    \<and> (\<forall>a < n - 1. inf h' a = a \<and> dat (world h') a = regen \<lparr>data16 = init_data seed a, idx = init_idx seed n a\<rparr>)"
proof -
  have "raw_list (n - 1) = 0 # rev [1..<n - 1]" "[0..<n - 1] = 0 # [1..<n - 1]"
    using assms(2) by (simp_all add: raw_list_def upt_conv_Cons)
  then have "mset (init_list seed n) = mset [0..<n - 1]" by (simp add: init_list_def)
  moreover have "sorted (map (\<lambda>a. sint (init_idx seed n a)) (init_list seed n))" by (simp add: init_list_def)
  ultimately show ?thesis using list_init [OF assms, of seed h] by blast
qed

lemma core_list_init_builds_witness:
  "\<exists>r h'. core_list_init 666 0x3415 bench_heap = Some (ptr r, h') \<and> chain h' r \<and> length r = 30"
proof -
  have n: "31 = unat ((666 :: i32) div 20) - 2" by simp
  obtain r h' where r: "core_list_init 666 0x3415 bench_heap = Some (ptr r, h')" "chain h' r" "mset r = mset [0..<31 - 1]"
    using core_list_init_builds [OF n, of "0x3415" bench_heap] by auto
  then have "length r = 30" using mset_eq_length [OF r(3)] by simp
  with r show ?thesis by blast
qed

end
