(* ===== verification/CoreMain.thy ===== *)
theory CoreMain
  imports ListInit
begin

unbundle bit_operations_syntax

text \<open>
  \<open>coremark/core_main.c\<close> and \<open>coremark/simple/core_portme.c\<close>: the benchmark loop, the set-up of the
  memory from the seeds, the timed runs and the report. The clock, the sizes of the types and the
  contents of uninitialised memory are parameters. Printing is a list of formats with their arguments.
\<close>

section \<open>The benchmark loop\<close>

definition put_res :: "(core_results \<Rightarrow> core_results) \<Rightarrow> world lheap \<Rightarrow> world lheap" where
  "put_res f h = h\<lparr>world := (world h)\<lparr>res := f (res (world h))\<rparr>\<rparr>"

definition iterate_body :: "nat option \<Rightarrow> i16 \<Rightarrow> nat \<Rightarrow> world lheap \<Rightarrow> world lheap option" where
  "iterate_body lst junk i h = do {
     (c, h) \<leftarrow> core_bench_list lst 1 junk h;
     let h = put_res (\<lambda>r. r\<lparr>crc := crcu16 c (crc r)\<rparr>) h;
     (c, h) \<leftarrow> core_bench_list lst (-1) junk h;
     let h = put_res (\<lambda>r. r\<lparr>crc := crcu16 c (crc r)\<rparr>) h;
     Some (if i = 0 then put_res (\<lambda>r. r\<lparr>crclist := crc r\<rparr>) h else h)
   }"

definition iterate :: "nat option \<Rightarrow> i16 \<Rightarrow> world lheap \<Rightarrow> world lheap option" where
  "iterate lst junk h =
     (let h = put_res (\<lambda>r. r\<lparr>crc := 0, crclist := 0, crcmatrix := 0, crcstate := 0\<rparr>) h
      in for_loop 0 (iterations (res (world h))) (iterate_body lst junk) h)"

section \<open>The port\<close>

text \<open>The cycle counter is read by \<open>start_time\<close> and \<open>stop_time\<close>: \<open>clock k\<close> is its value at read \<open>k\<close>.\<close>

record port =
  start_time_val :: i32
  stop_time_val :: i32
  reads :: nat
  portable_id :: i8

definition start_time :: "(nat \<Rightarrow> i32) \<Rightarrow> port \<Rightarrow> port" where
  "start_time clock p = p\<lparr>start_time_val := clock (reads p), reads := reads p + 1\<rparr>"

definition stop_time :: "(nat \<Rightarrow> i32) \<Rightarrow> port \<Rightarrow> port" where
  "stop_time clock p = p\<lparr>stop_time_val := clock (reads p), reads := reads p + 1\<rparr>"

definition get_time :: "port \<Rightarrow> i32" where
  "get_time p = stop_time_val p - start_time_val p"

text \<open>
  Seconds are the quotient of the ticks by \<open>EE_TICKS_PER_SEC\<close>; a printed quotient \<open>Per n s\<close> is kept as
  its two operands, since \<open>s\<close> may be zero.
\<close>

definition time_in_secs :: "i32 \<Rightarrow> rat" where
  "time_in_secs ticks = of_int (uint ticks) / 1000000"

datatype parg = Num int | Sec rat | Per nat rat | Str string

type_synonym printed = "(string \<times> parg list) list"

definition portable_init :: "nat \<Rightarrow> nat \<Rightarrow> nat \<Rightarrow> port \<Rightarrow> port \<times> printed" where
  "portable_init ee_ptr_int u8_ptr ee_u32 p =
     (p\<lparr>portable_id := 1\<rparr>,
      (if ee_ptr_int \<noteq> u8_ptr then [(''ERROR! Please define ee_ptr_int to a type that holds a pointer!'', [])] else [])
      @ (if ee_u32 \<noteq> 4 then [(''ERROR! Please define ee_u32 to a 32b unsigned type!'', [])] else []))"

definition portable_fini :: "port \<Rightarrow> port" where
  "portable_fini p = p\<lparr>portable_id := 0\<rparr>"

section \<open>Set-up\<close>

definition default_seeds :: "i16 \<Rightarrow> i16 \<Rightarrow> i16 \<Rightarrow> i16 \<times> i16 \<times> i16" where
  "default_seeds s1 s2 s3 =
     (let (s1, s2, s3) = (if s1 = 0 \<and> s2 = 0 \<and> s3 = 0 then (0, 0, 0x66) else (s1, s2, s3))
      in if s1 = 1 \<and> s2 = 0 \<and> s3 = 0 then (0x3415, 0x3415, 0x66) else (s1, s2, s3))"

definition num_algorithms :: "i32 \<Rightarrow> nat" where
  "num_algorithms execs = length (filter (bit execs) [0..<3])"

text \<open>The offset of the block of algorithm \<open>i\<close>, in blocks.\<close>

definition block_no :: "i32 \<Rightarrow> nat \<Rightarrow> nat" where
  "block_no execs i = length (filter (bit execs) [0..<i])"

text \<open>What the code finds in memory it has not written.\<close>

record raw_memory =
  static_addr :: i32
  junk_heap :: "world lheap"
  junk_list :: "nat option"
  junk_mat :: "nat \<Rightarrow> i16"
  junk_matC :: "nat \<Rightarrow> i32"
  junk_info :: i16

definition main_init ::
  "i16 \<Rightarrow> i16 \<Rightarrow> i16 \<Rightarrow> i32 \<Rightarrow> i32 \<Rightarrow> raw_memory \<Rightarrow> (nat option \<times> world lheap) option" where
  "main_init s1 s2 s3 iters execs m =
     (if num_algorithms execs = 0 then None
      else do {
        let sz = 2000 div num_algorithms execs;
        let h = put_res (\<lambda>r. r\<lparr>seed1 := s1, seed2 := s2, seed3 := s3, iterations := unat iters, blk_size := sz\<rparr>) (junk_heap m);
        (lst, h) \<leftarrow> (if bit execs 0 then core_list_init (of_nat sz) s1 h else Some (junk_list m, h));
        h \<leftarrow> (if bit execs 1 then do {
            (p, _) \<leftarrow> core_init_matrix (of_nat sz) (static_addr m + of_nat (sz * block_no execs 1))
              (sint (scast s1 OR push_bit 16 (scast s2) :: i32)) (junk_mat m) (junk_matC m);
            Some (put_res (\<lambda>r. r\<lparr>mat := p\<rparr>) h)
          } else Some h);
        h \<leftarrow> (if bit execs 2 then do {
            mem \<leftarrow> core_init_state sz s1 (replicate (2000 - sz * block_no execs 2) 0);
            Some (put_res (\<lambda>r. r\<lparr>memblock3 := mem\<rparr>) h)
          } else Some h);
        Some (lst, h)
      })"

section \<open>Timed runs\<close>

text \<open>One timed run.\<close>

definition timed_run ::
  "(nat \<Rightarrow> i32) \<Rightarrow> nat option \<Rightarrow> i16 \<Rightarrow> port \<times> world lheap \<Rightarrow> (port \<times> world lheap) option" where
  "timed_run clock lst junk = (\<lambda>(p, h). do {
     let p = start_time clock p;
     h \<leftarrow> iterate lst junk h;
     Some (stop_time clock p, h)
   })"

text \<open>The search for a number of iterations that takes a second: ten times as many in each turn.\<close>

partial_function (option) detect_iterations ::
  "(nat \<Rightarrow> i32) \<Rightarrow> nat option \<Rightarrow> i16 \<Rightarrow> rat \<Rightarrow> port \<times> world lheap \<Rightarrow> (rat \<times> port \<times> world lheap) option" where
  "detect_iterations clock lst junk secs ph =
     (if secs < 1 then
        Option.bind (timed_run clock lst junk
            (fst ph, put_res (\<lambda>r. r\<lparr>iterations := iterations r * 10 mod 4294967296\<rparr>) (snd ph)))
          (\<lambda>ph. detect_iterations clock lst junk (time_in_secs (get_time (fst ph))) ph)
      else Some (secs, ph))"

definition set_iterations ::
  "(nat \<Rightarrow> i32) \<Rightarrow> nat option \<Rightarrow> i16 \<Rightarrow> port \<times> world lheap \<Rightarrow> (port \<times> world lheap) option" where
  "set_iterations clock lst junk ph =
     (if iterations (res (world (snd ph))) = 0 then do {
        (secs, p, h) \<leftarrow> detect_iterations clock lst junk 0 (fst ph, put_res (\<lambda>r. r\<lparr>iterations := 1\<rparr>) (snd ph));
        let divisor = nat \<lfloor>secs\<rfloor>;
        let divisor = (if divisor = 0 then 1 else divisor);
        Some (p, put_res (\<lambda>r. r\<lparr>iterations := iterations r * (1 + 10 div divisor) mod 4294967296\<rparr>) h)
      } else Some ph)"

section \<open>The report\<close>

definition list_known_crc :: "i16 list" where
  "list_known_crc = [0xd4b0, 0x3340, 0x6a79, 0xe714, 0xe3c1]"

definition matrix_known_crc :: "i16 list" where
  "matrix_known_crc = [0xbe52, 0x1199, 0x5608, 0x1fd7, 0x0747]"

definition state_known_crc :: "i16 list" where
  "state_known_crc = [0x5e47, 0x39bf, 0xe5a4, 0x8e3a, 0x8d84]"

definition seed_crc :: "i16 \<Rightarrow> i16 \<Rightarrow> i16 \<Rightarrow> nat \<Rightarrow> i16" where
  "seed_crc s1 s2 s3 sz = crc16 (of_nat sz) (crc16 s3 (crc16 s2 (crc16 s1 0)))"

text \<open>The \<open>switch (seedcrc)\<close>: \<open>known_id\<close> with the line it prints.\<close>

definition known_run :: "i16 \<Rightarrow> (nat \<times> string) option" where
  "known_run c =
     (if c = 0x8a02 then Some (0, ''6k performance run parameters for coremark.'')
      else if c = 0x7b05 then Some (1, ''6k validation run parameters for coremark.'')
      else if c = 0x4eaf then Some (2, ''Profile generation run parameters for coremark.'')
      else if c = 0xe9f5 then Some (3, ''2K performance run parameters for coremark.'')
      else if c = 0x18f2 then Some (4, ''2K validation run parameters for coremark.'')
      else None)"

definition crc_errors :: "nat \<Rightarrow> i32 \<Rightarrow> core_results \<Rightarrow> printed" where
  "crc_errors k execs r =
     (if bit execs 0 \<and> crclist r \<noteq> list_known_crc ! k
      then [(''[%u]ERROR! list crc 0x%04x - should be 0x%04x'', [Num 0, Num (uint (crclist r)), Num (uint (list_known_crc ! k))])]
      else [])
   @ (if bit execs 1 \<and> crcmatrix r \<noteq> matrix_known_crc ! k
      then [(''[%u]ERROR! matrix crc 0x%04x - should be 0x%04x'', [Num 0, Num (uint (crcmatrix r)), Num (uint (matrix_known_crc ! k))])]
      else [])
   @ (if bit execs 2 \<and> crcstate r \<noteq> state_known_crc ! k
      then [(''[%u]ERROR! state crc 0x%04x - should be 0x%04x'', [Num 0, Num (uint (crcstate r)), Num (uint (state_known_crc ! k))])]
      else [])"

record target =
  sz_u8 :: nat
  sz_u16 :: nat
  sz_s16 :: nat
  sz_s32 :: nat
  sz_u32 :: nat
  sz_ptr_int :: nat
  sz_pointer :: nat
  sz_list_head :: nat
  compiler_version :: string
  compiler_flags :: string

definition type_check :: "target \<Rightarrow> i8 \<times> string list" where
  "type_check t = check_data_types (sz_u8 t) (sz_u16 t) (sz_s16 t) (sz_s32 t) (sz_u32 t) (sz_ptr_int t) (sz_pointer t)"

definition validated :: string where
  "validated = ''Correct operation validated. See README.md for run and reporting rules.''"

definition main_report :: "target \<Rightarrow> i32 \<Rightarrow> i32 \<Rightarrow> core_results \<Rightarrow> printed" where
  "main_report t execs ticks r =
     (let c = seed_crc (seed1 r) (seed2 r) (seed3 r) (blk_size r);
          known = known_run c;
          errs = (case known of None \<Rightarrow> [] | Some (k, _) \<Rightarrow> crc_errors k execs r);
          total_errors = (if known = None then -1 else int (length errs)) + uint (fst (type_check t));
          secs = time_in_secs ticks
      in (case known of None \<Rightarrow> [] | Some (_, s) \<Rightarrow> [(s, [])])
       @ errs
       @ map (\<lambda>s. (s, [])) (snd (type_check t))
       @ [(''CoreMark Size    : %lu'', [Num (int (blk_size r))]),
          (''Total ticks      : %lu'', [Num (uint ticks)]),
          (''Total time (secs): %f'', [Sec secs])]
       @ (if 0 < secs then [(''Iterations/Sec   : %f'', [Per (iterations r) secs])] else [])
       @ [(''Iterations       : %lu'', [Num (int (iterations r))]),
          (''Compiler version : %s'', [Str (compiler_version t)]),
          (''Compiler flags   : %s'', [Str (compiler_flags t)]),
          (''Memory location  : %s'', [Str ''BRAM'']),
          (''seedcrc          : 0x%04x'', [Num (uint c)])]
       @ (if bit execs 0 then [(''[%d]crclist       : 0x%04x'', [Num 0, Num (uint (crclist r))])] else [])
       @ (if bit execs 1 then [(''[%d]crcmatrix     : 0x%04x'', [Num 0, Num (uint (crcmatrix r))])] else [])
       @ (if bit execs 2 then [(''[%d]crcstate      : 0x%04x'', [Num 0, Num (uint (crcstate r))])] else [])
       @ [(''[%d]crcfinal      : 0x%04x'', [Num 0, Num (uint (crc r))])]
       @ (if total_errors = 0 then
            (validated, [])
            # (if map_option fst known = Some 3 then
                 [(''CoreMark 1.0 : %f / %s %s'',
                   [Per (iterations r) secs, Str (compiler_version t), Str (compiler_flags t)]),
                  ('' / %s'', [Str ''BRAM''])]
               else [])
          else [])
       @ (if 0 < total_errors then [(''Errors detected'', [])] else [])
       @ (if total_errors < 0 then
            [(''Cannot validate operation for these seed values, please compare with results on a known platform.'', [])]
          else []))"

text \<open>\<open>main\<close>: what it prints, the final state of the port and of the heap.\<close>

definition coremark_main ::
  "target \<Rightarrow> seeds \<Rightarrow> (nat \<Rightarrow> i32) \<Rightarrow> raw_memory \<Rightarrow> port \<Rightarrow> (printed \<times> port \<times> world lheap) option" where
  "coremark_main t v clock m p0 =
     (let (p, out) = portable_init (sz_ptr_int t) (sz_pointer t) (sz_u32 t) p0 in
      if 128 < sz_list_head t then
        Some (out @ [(''list_head structure too big for comparable data!'', [])], p, junk_heap m)
      else do {
        let (s1, s2, s3) = default_seeds (ucast (get_seed_32 v 1)) (ucast (get_seed_32 v 2)) (ucast (get_seed_32 v 3));
        let execs = get_seed_32 v 5;
        let execs = (if execs = 0 then 7 else execs);
        (lst, h) \<leftarrow> main_init s1 s2 s3 (get_seed_32 v 4) execs m;
        ph \<leftarrow> set_iterations clock lst (junk_info m) (p, h);
        (p, h) \<leftarrow> timed_run clock lst (junk_info m) ph;
        Some (out @ main_report t execs (get_time p) (res (world h)), portable_fini p, h)
      })"

section \<open>Properties\<close>

text \<open>
  The seed CRCs that \<open>main\<close> compares with are those of the five parameter sets its comments name.
\<close>

theorem known_parameters:
  "seed_crc 0 0 0x66 2000 = 0x8a02 \<and> seed_crc 0x3415 0x3415 0x66 2000 = 0x7b05 \<and> seed_crc 8 8 8 400 = 0x4eaf
     \<and> seed_crc 0 0 0x66 666 = 0xe9f5 \<and> seed_crc 0x3415 0x3415 0x66 666 = 0x18f2"
  by code_simp

lemma known_run_lines: "known_run c = Some (k, s) \<Longrightarrow> k < 5 \<and> s \<noteq> validated"
  by (auto simp: known_run_def validated_def split: if_splits)

lemma crc_errors_lines: "(validated, []) \<notin> set (crc_errors k execs r)"
  by (auto simp: crc_errors_def)

lemma type_check_lines: "validated \<notin> set (snd (type_check t))"
  by (auto simp: type_check_def check_data_types_def Let_def validated_def)

lemma crc_errors_empty:
  "crc_errors k execs r = [] \<longleftrightarrow>
     (bit execs 0 \<longrightarrow> crclist r = list_known_crc ! k) \<and> (bit execs 1 \<longrightarrow> crcmatrix r = matrix_known_crc ! k)
     \<and> (bit execs 2 \<longrightarrow> crcstate r = state_known_crc ! k)"
  by (simp add: crc_errors_def)

lemma validated_fmts:
  "validated \<noteq> ''CoreMark Size    : %lu''" "validated \<noteq> ''Total ticks      : %lu''"
  "validated \<noteq> ''Total time (secs): %f''" "validated \<noteq> ''Iterations/Sec   : %f''"
  "validated \<noteq> ''Iterations       : %lu''" "validated \<noteq> ''Compiler version : %s''"
  "validated \<noteq> ''Compiler flags   : %s''" "validated \<noteq> ''Memory location  : %s''"
  "validated \<noteq> ''seedcrc          : 0x%04x''" "validated \<noteq> ''[%d]crclist       : 0x%04x''"
  "validated \<noteq> ''[%d]crcmatrix     : 0x%04x''" "validated \<noteq> ''[%d]crcstate      : 0x%04x''"
  "validated \<noteq> ''[%d]crcfinal      : 0x%04x''" "validated \<noteq> ''Errors detected''"
  "validated \<noteq> ''Cannot validate operation for these seed values, please compare with results on a known platform.''"
  by (simp_all add: validated_def)

lemma report_validated:
  "(validated, []) \<in> set (main_report t execs ticks r) \<longleftrightarrow>
     (let known = known_run (seed_crc (seed1 r) (seed2 r) (seed3 r) (blk_size r));
          errs = (case known of None \<Rightarrow> [] | Some (k, _) \<Rightarrow> crc_errors k execs r)
      in (if known = None then -1 else int (length errs)) + uint (fst (type_check t)) = 0)"
proof -
  let ?known = "known_run (seed_crc (seed1 r) (seed2 r) (seed3 r) (blk_size r))"
  have k: "(validated, []) \<notin> set (case ?known of None \<Rightarrow> [] | Some (_, s) \<Rightarrow> [(s, [])])"
    using known_run_lines by (cases ?known) force+
  have e: "(validated, []) \<notin> set (case ?known of None \<Rightarrow> [] | Some (k, _) \<Rightarrow> crc_errors k execs r)"
    by (auto simp: crc_errors_lines split: option.splits)
  have y: "(validated, []) \<notin> set (map (\<lambda>s. (s, [])) (snd (type_check t)))"
    using type_check_lines [of t] by auto
  show ?thesis
    unfolding main_report_def Let_def set_append Un_iff using k e y by (cases ?known) (auto simp: validated_fmts)
qed

text \<open>
  C25: the run is declared correct for known parameters exactly when the CRC of every algorithm that
  was run is the known one and all types have the right size; for unknown parameters, which cannot
  be validated, exactly when one type has the wrong size: the two error counts cancel.
\<close>

theorem coremark_verdict:
  assumes "known = known_run (seed_crc (seed1 r) (seed2 r) (seed3 r) (blk_size r))"
  shows "(validated, []) \<in> set (main_report t execs ticks r) \<longleftrightarrow>
    (case known of
       Some (k, _) \<Rightarrow> fst (type_check t) = 0 \<and> (bit execs 0 \<longrightarrow> crclist r = list_known_crc ! k)
         \<and> (bit execs 1 \<longrightarrow> crcmatrix r = matrix_known_crc ! k) \<and> (bit execs 2 \<longrightarrow> crcstate r = state_known_crc ! k)
     | None \<Rightarrow> fst (type_check t) = 1)"
proof (cases known)
  case None
  have "uint (fst (type_check t)) = 1 \<longleftrightarrow> fst (type_check t) = 1"
    by (metis uint_1 word_uint_eq_iff)
  then show ?thesis using None assms unfolding report_validated by (simp add: Let_def)
next
  case (Some ks)
  have "int n + uint (x :: i8) = 0 \<longleftrightarrow> n = 0 \<and> x = 0" for n x
    by (metis add_nonneg_eq_0_iff of_nat_0_le_iff of_nat_eq_0_iff uint_0_iff uint_ge_0)
  then show ?thesis using Some assms crc_errors_empty [of "fst ks" execs r]
    unfolding report_validated by (cases ks) (auto simp: Let_def)
qed

text \<open>The wrong verdict for unknown seeds: seeds of one, and a pointer type of the wrong size.\<close>

definition sample_results :: "core_results" where
  "sample_results = \<lparr>seed1 = 1, seed2 = 1, seed3 = 1, memblock3 = [], blk_size = 666, iterations = 1,
     mat = \<lparr>mat_N = 0, mat_A = [], mat_B = [], mat_C = []\<rparr>, crc = 0, crclist = 0, crcmatrix = 0, crcstate = 0\<rparr>"

definition sample_target :: "nat \<Rightarrow> target" where
  "sample_target n = \<lparr>sz_u8 = 1, sz_u16 = 2, sz_s16 = 2, sz_s32 = 4, sz_u32 = 4, sz_ptr_int = n, sz_pointer = 4,
     sz_list_head = 8, compiler_version = [], compiler_flags = []\<rparr>"

lemma coremark_verdict_witness:
  "(validated, []) \<in> set (main_report (sample_target 8) 7 1000000 sample_results)
     \<and> (validated, []) \<notin> set (main_report (sample_target 4) 7 1000000 sample_results)"
proof -
  have "None = known_run (seed_crc (seed1 sample_results) (seed2 sample_results) (seed3 sample_results) (blk_size sample_results))"
    by code_simp
  note v = coremark_verdict [OF this, of _ 7 1000000]
  show ?thesis
    by (simp add: v type_check_def check_data_types_def sample_target_def Let_def)
qed

section \<open>The benchmark loop keeps the list\<close>

text \<open>The state that every turn of the loop leaves intact.\<close>

definition list_ready :: "nat list \<Rightarrow> world lheap \<Rightarrow> bool" where
  "list_ready as h = (chain h as \<and> 3 \<le> length as \<and> bench_ready (res (world h))
     \<and> sorted_wrt (<) (map (\<lambda>a. sint (idx (dat (world h) (inf h a)))) as))"

definition same_list :: "world lheap \<Rightarrow> world lheap \<Rightarrow> bool" where
  "same_list h h' = (nxt h' = nxt h \<and> inf h' = inf h \<and> kept (world h) (world h'))"

lemma same_list_trans: "same_list h h1 \<Longrightarrow> same_list h1 h2 \<Longrightarrow> same_list h h2"
  unfolding same_list_def using kept_trans by auto

lemma list_ready_same: "list_ready as h \<Longrightarrow> same_list h h' \<Longrightarrow> list_ready as h'"
  using chain_cong [of as h' h] bench_ready_same [of "res (world h)" "res (world h')"]
  by (simp add: list_ready_def same_list_def kept_def same_item_def)

lemma put_res_same:
  assumes "\<And>r. same_setup r (f r)"
  shows "same_list h (put_res f h)"
  using assms by (simp add: same_list_def kept_def put_res_def same_item_def)

lemma bench_list_same:
  assumes "list_ready as h"
  shows "\<exists>c h'. core_bench_list (ptr as) fi junk h = Some (c, h') \<and> same_list h h'"
  using bench_list_restored [of h as fi junk] assms by (auto simp: list_ready_def same_list_def)

lemma iterate_body_same:
  assumes "list_ready as h"
  shows "\<exists>h'. iterate_body (ptr as) junk i h = Some h' \<and> same_list h h'"
proof -
  let ?f = "\<lambda>c. put_res (\<lambda>r. r\<lparr>crc := crcu16 c (crc r)\<rparr>)"
  have f: "same_list h (?f c h)" for c h by (rule put_res_same) (simp add: same_setup_def)
  have g: "same_list h (put_res (\<lambda>r. r\<lparr>crclist := crc r\<rparr>) h)" for h
    by (rule put_res_same) (simp add: same_setup_def)
  obtain c1 h1 where 1: "core_bench_list (ptr as) 1 junk h = Some (c1, h1)" "same_list h h1"
    using bench_list_same [OF assms] by blast
  have s1: "same_list h (?f c1 h1)" using same_list_trans [OF 1(2) f] .
  obtain c2 h2 where 2: "core_bench_list (ptr as) (-1) junk (?f c1 h1) = Some (c2, h2)" "same_list (?f c1 h1) h2"
    using bench_list_same [OF list_ready_same [OF assms s1]] by blast
  have s2: "same_list h (?f c2 h2)" using same_list_trans [OF same_list_trans [OF s1 2(2)] f] .
  then show ?thesis using 1(1) 2(1) same_list_trans [OF s2 g] by (auto simp: iterate_body_def Let_def)
qed

lemma iterate_same:
  assumes "list_ready as h"
  shows "\<exists>h'. iterate (ptr as) junk h = Some h' \<and> same_list h h'"
proof -
  let ?h0 = "put_res (\<lambda>r. r\<lparr>crc := 0, crclist := 0, crcmatrix := 0, crcstate := 0\<rparr>) h"
  have h0: "same_list h ?h0" by (rule put_res_same) (simp add: same_setup_def)
  have "\<exists>h'. for_loop 0 (iterations (res (world ?h0))) (iterate_body (ptr as) junk) ?h0 = Some h' \<and> same_list h h'"
  proof (rule for_loop_inv [where P = "\<lambda>_. same_list h"])
    fix i h1 assume h1: "same_list h h1"
    then show "\<exists>h2. iterate_body (ptr as) junk i h1 = Some h2 \<and> same_list h h2"
      using iterate_body_same [OF list_ready_same [OF assms h1]] same_list_trans [OF h1] by blast
  qed (rule h0)
  then show ?thesis by (simp add: iterate_def Let_def)
qed

section \<open>The whole run\<close>

lemma align_mem_multiple: "\<exists>y. align_mem x = 4 * y"
proof -
  have "(x - 1) AND NOT 3 = 4 * drop_bit 2 (x - 1)"
  proof -
    have "4 * drop_bit 2 (x - 1) = push_bit 2 (drop_bit 2 (x - 1))" by (simp add: push_bit_eq_mult)
    also have "\<dots> = (x - 1) AND NOT (mask 2)"
    proof (rule bit_word_eqI)
      fix n assume "n < LENGTH(32)"
      then show "bit (push_bit 2 (drop_bit 2 (x - 1))) n = bit ((x - 1) AND NOT (mask 2)) n"
        using le_add_diff_inverse [of 2 n]
        by (cases "n < 2") (simp_all add: bit_push_bit_iff bit_drop_bit_eq bit_and_iff bit_not_iff bit_mask_iff)
    qed
    finally show ?thesis by (simp add: mask_eq_exp_minus_1)
  qed
  then have "align_mem x = 4 * (1 + drop_bit 2 (x - 1))" by (simp add: align_mem_def)
  then show ?thesis by blast
qed

lemma init_matrix_any:
  assumes "1 \<le> b" "b \<le> 264992" "-2147483648 \<le> seed" "seed \<le> 2147483647"
  shows "\<exists>p. core_init_matrix (of_nat b) x seed junk junkC
      = Some (p, align_mem x, align_mem x + of_nat (2 * mat_N p * mat_N p), align_mem x + of_nat (4 * mat_N p * mat_N p))
    \<and> length (mat_A p) = mat_N p * mat_N p \<and> length (mat_B p) = mat_N p * mat_N p \<and> length (mat_C p) = mat_N p * mat_N p"
proof -
  obtain y where y: "align_mem x = 4 * y" using align_mem_multiple by blast
  have "core_init_matrix (of_nat b) x seed junk junkC = core_init_matrix (of_nat b) (4 * y) seed junk junkC"
    by (simp add: core_init_matrix_def y align_mem_aligned)
  then show ?thesis using init_matrix_fits [OF assms, of y junk junkC] y by auto
qed

lemma init_state_no_nine:
  assumes "1 \<le> sz" "sz \<le> length mem"
  shows "\<exists>mem'. core_init_state sz seed mem = Some mem' \<and> length mem' = length mem \<and> drop sz mem' = drop sz mem
    \<and> (\<forall>i < sz. mem' ! i \<noteq> 0x39)"
proof -
  obtain ps where ps: "core_init_state sz seed mem = Some (tokens ps @ replicate (sz - length (tokens ps)) 0 @ drop sz mem)"
    "set ps \<subseteq> patterns" "length (tokens ps) < sz" using init_state_fills [OF assms] by blast
  let ?m = "tokens ps @ replicate (sz - length (tokens ps)) 0"
  have "list_all (\<lambda>p. list_all (\<lambda>c. c \<noteq> 0x39) p) (intpat @ floatpat @ scipat @ errpat)"
    by code_simp
  then have "\<forall>p \<in> patterns. (0x39 :: i8) \<notin> set p" by (auto simp: patterns_def list_all_iff)
  then have "0x39 \<notin> set ?m" using ps(2) by (auto simp: tokens_def)
  moreover have "length ?m = sz" using ps(3) by simp
  ultimately have "\<forall>i < sz. (?m @ drop sz mem) ! i \<noteq> 0x39" by (metis nth_append nth_mem)
  with ps assms show ?thesis by auto
qed

lemma bench_ready_iterations: "bench_ready (r\<lparr>iterations := n\<rparr>) = bench_ready r"
  by (simp add: bench_ready_def)

lemma list_ready_put_iterations:
  "list_ready as h \<Longrightarrow> list_ready as (put_res (\<lambda>r. r\<lparr>iterations := f r\<rparr>) h)"
  using chain_cong [of as "put_res (\<lambda>r. r\<lparr>iterations := f r\<rparr>) h" h]
  by (simp add: list_ready_def put_res_def bench_ready_iterations)

lemma main_init_ready:
  assumes s: "(s1, s2) \<in> {(0, 0), (0x3415, 0x3415)}"
  shows "\<exists>h. main_init s1 s2 s3 iters 7 m = Some (ptr (init_list s1 31), h) \<and> list_ready (init_list s1 31) h
    \<and> iterations (res (world h)) = unat iters \<and> seed1 (res (world h)) = s1 \<and> seed2 (res (world h)) = s2
    \<and> seed3 (res (world h)) = s3 \<and> blk_size (res (world h)) = 666"
proof -
  have num: "num_algorithms 7 = 3" "block_no 7 1 = 1" "block_no 7 2 = 2" by code_simp+
  have bits: "bit (7 :: i32) 0" "bit (7 :: i32) 1" "bit (7 :: i32) 2" by simp_all
  let ?h = "put_res (\<lambda>r. r\<lparr>seed1 := s1, seed2 := s2, seed3 := s3, iterations := unat iters, blk_size := 666\<rparr>) (junk_heap m)"
  obtain h1 where h1: "core_list_init (of_nat 666) s1 ?h = Some (ptr (init_list s1 31), h1)" "chain h1 (init_list s1 31)"
    "res (world h1) = res (world ?h)"
    "\<And>a. a < 30 \<Longrightarrow> inf h1 a = a \<and> dat (world h1) a = regen \<lparr>data16 = init_data s1 a, idx = init_idx s1 31 a\<rparr>"
    using list_init [of 31 "of_nat 666" s1 ?h] by auto
  let ?x = "static_addr m + of_nat (666 * 1)" and ?seed = "sint (scast s1 OR push_bit 16 (scast s2) :: i32)"
  obtain p a b where p: "core_init_matrix (of_nat 666) ?x ?seed (junk_mat m) (junk_matC m) = Some (p, a, b)"
    "length (mat_A p) = mat_N p * mat_N p" "length (mat_B p) = mat_N p * mat_N p" "length (mat_C p) = mat_N p * mat_N p"
    using init_matrix_any [of 666 ?seed ?x "junk_mat m" "junk_matC m"] sint32_range by auto
  obtain mem where mem: "core_init_state 666 s1 (replicate 668 0) = Some mem" "length mem = 668"
    "drop 666 mem = drop 666 (replicate 668 0)" "\<forall>i < 666. mem ! i \<noteq> 0x39"
    using init_state_no_nine [of 666 "replicate 668 0" s1] by auto
  let ?h2 = "put_res (\<lambda>r. r\<lparr>memblock3 := mem\<rparr>) (put_res (\<lambda>r. r\<lparr>mat := p\<rparr>) h1)"
  have z: "mem ! 666 = 0" using mem(2) arg_cong [OF mem(3), of "\<lambda>l. l ! 0"] by simp
  have "bench_ready (res (world ?h2))"
    using s p(2-4) mem(2,4) z h1(3)
    by (auto simp: bench_ready_def put_res_def Let_def intro!: exI [of _ "666::nat"])
  moreover have set: "set (init_list s1 31) = {..<30}" unfolding init_list_def set_sort by (auto simp: raw_list_def)
  have keys: "map (\<lambda>a. sint (idx (dat (world ?h2) (inf ?h2 a)))) (init_list s1 31) = map (\<lambda>a. sint (init_idx s1 31 a)) (init_list s1 31)"
    using h1(4) set by (auto simp: put_res_def)
  have "sorted_wrt (<) (map (\<lambda>a. sint (idx (dat (world ?h2) (inf ?h2 a)))) (init_list s1 31))"
    unfolding keys using init_list_strict [of s1 31] known_seeds_distinct s by auto
  moreover have "chain ?h2 (init_list s1 31)" by (rule chain_frame [OF h1(2)]) (simp add: put_res_def)
  moreover have "length (init_list s1 31) = 30" by (simp add: init_list_def raw_list_def)
  ultimately have "list_ready (init_list s1 31) ?h2" unfolding list_ready_def by linarith
  moreover have "main_init s1 s2 s3 iters 7 m = Some (ptr (init_list s1 31), ?h2)"
    using h1(1) p(1) mem(1) unfolding main_init_def num Let_def by (simp add: bits)
  ultimately show ?thesis using h1(3) by (simp add: put_res_def)
qed

lemma timed_run_ready:
  assumes "list_ready as h"
  shows "\<exists>h'. timed_run clock (ptr as) junk (p, h) = Some
      (p\<lparr>start_time_val := clock (reads p), stop_time_val := clock (reads p + 1), reads := reads p + 2\<rparr>, h')
    \<and> same_list h h'"
  using iterate_same [OF assms, of junk] by (auto simp: timed_run_def start_time_def stop_time_def Let_def)

text \<open>The ticks of the \<open>k\<close>-th timed run from a state of the port on.\<close>

definition run_ticks :: "(nat \<Rightarrow> i32) \<Rightarrow> port \<Rightarrow> nat \<Rightarrow> i32" where
  "run_ticks clock p k = clock (reads p + 2 * k + 1) - clock (reads p + 2 * k)"

lemma secs_less_1: "time_in_secs t < 1 \<longleftrightarrow> uint t < 1000000"
proof -
  have "(of_int (uint t) :: rat) < of_int 1000000 \<longleftrightarrow> uint t < 1000000" by (rule of_int_less_iff)
  then show ?thesis by (simp add: time_in_secs_def)
qed

lemma detect_iterations_ends:
  assumes "list_ready as h" and "1000000 \<le> uint (run_ticks clock p k)" and "secs < 1"
  shows "\<exists>p' h'. detect_iterations clock (ptr as) junk secs (p, h)
      = Some (time_in_secs (get_time p'), p', h') \<and> 1 \<le> time_in_secs (get_time p') \<and> list_ready as h'
        \<and> same_setup ((res (world h))\<lparr>iterations := iterations (res (world h'))\<rparr>) (res (world h'))"
  using assms
proof (induction k arbitrary: p h secs rule: less_induct)
  case (less k)
  let ?h = "put_res (\<lambda>r. r\<lparr>iterations := iterations r * 10 mod 4294967296\<rparr>) h"
  let ?p = "p\<lparr>start_time_val := clock (reads p), stop_time_val := clock (reads p + 1), reads := reads p + 2\<rparr>"
  have rd: "list_ready as ?h" by (rule list_ready_put_iterations [OF less.prems(1)])
  obtain h1 where h1: "timed_run clock (ptr as) junk (p, ?h) = Some (?p, h1)" "same_list ?h h1"
    using timed_run_ready [OF rd] by blast
  have r1: "list_ready as h1" by (rule list_ready_same [OF rd h1(2)])
  have ss: "same_setup ((res (world h))\<lparr>iterations := iterations (res (world h1))\<rparr>) (res (world h1))"
    using h1(2) by (simp add: same_list_def kept_def put_res_def same_setup_def)
  have un: "detect_iterations clock (ptr as) junk secs (p, h)
      = detect_iterations clock (ptr as) junk (time_in_secs (get_time ?p)) (?p, h1)"
    using less.prems(3) h1(1) by (subst detect_iterations.simps) simp
  have t0: "get_time ?p = run_ticks clock p 0" by (simp add: get_time_def run_ticks_def)
  show ?case
  proof (cases "time_in_secs (get_time ?p) < 1")
    case False
    then have "detect_iterations clock (ptr as) junk (time_in_secs (get_time ?p)) (?p, h1)
        = Some (time_in_secs (get_time ?p), ?p, h1)"
      by (subst detect_iterations.simps) simp
    then show ?thesis using un False r1 ss by (intro exI [of _ ?p] exI [of _ h1]) simp
  next
    case True
    then have "k \<noteq> 0" using less.prems(2) unfolding t0 secs_less_1 by (metis linorder_not_less)
    then obtain j where j: "k = Suc j" by (cases k) auto
    have "run_ticks clock ?p j = run_ticks clock p k" by (simp add: run_ticks_def j add.commute add.left_commute)
    then obtain p' h' where d: "detect_iterations clock (ptr as) junk (time_in_secs (get_time ?p)) (?p, h1)
        = Some (time_in_secs (get_time p'), p', h')" "1 \<le> time_in_secs (get_time p')" "list_ready as h'"
      "same_setup ((res (world h1))\<lparr>iterations := iterations (res (world h'))\<rparr>) (res (world h'))"
      using less.IH [of j h1 ?p "time_in_secs (get_time ?p)"] r1 less.prems(2) True j by auto
    have "same_setup ((res (world h))\<lparr>iterations := iterations (res (world h'))\<rparr>) (res (world h'))"
      using ss d(4) by (simp add: same_setup_def)
    with d un show ?thesis by auto
  qed
qed

lemma set_iterations_ends:
  assumes "list_ready as h" and "iterations (res (world h)) \<noteq> 0 \<or> (\<exists>k. 1000000 \<le> uint (run_ticks clock p k))"
  shows "\<exists>p' h'. set_iterations clock (ptr as) junk (p, h) = Some (p', h') \<and> list_ready as h'
    \<and> same_setup ((res (world h))\<lparr>iterations := iterations (res (world h'))\<rparr>) (res (world h'))"
proof (cases "iterations (res (world h)) = 0")
  case True
  then obtain k where k: "1000000 \<le> uint (run_ticks clock p k)" using assms(2) by auto
  let ?h = "put_res (\<lambda>r. r\<lparr>iterations := 1\<rparr>) h"
  have "list_ready as ?h" by (rule list_ready_put_iterations [OF assms(1)])
  from detect_iterations_ends [OF this k, of 0 junk] obtain p' h' where
    d: "detect_iterations clock (ptr as) junk 0 (p, ?h) = Some (time_in_secs (get_time p'), p', h')" "list_ready as h'"
    "same_setup ((res (world ?h))\<lparr>iterations := iterations (res (world h'))\<rparr>) (res (world h'))"
    by auto
  show ?thesis using d True list_ready_put_iterations [OF d(2)]
    by (auto simp: set_iterations_def Let_def same_setup_def put_res_def)
next
  case False
  then show ?thesis using assms(1) by (auto simp: set_iterations_def same_setup_def)
qed

text \<open>
  C19: with the performance or validation seeds and all algorithms, \<open>main\<close> returns, whatever the
  uninitialised memory holds and wherever the static block lies, if the number of iterations is given or
  some timed run takes a second by the clock. It prints the report of the last run, and the list
  it leaves is the one it built.
\<close>

theorem coremark_main_returns:
  assumes "sz_list_head t \<le> 128"
    and "default_seeds (ucast (get_seed_32 v 1)) (ucast (get_seed_32 v 2)) (ucast (get_seed_32 v 3)) = (s1, s2, s3)"
    and "(s1, s2) \<in> {(0, 0), (0x3415, 0x3415)}" and "get_seed_32 v 5 \<in> {0, 7}"
    and "get_seed_32 v 4 \<noteq> 0 \<or> (\<exists>k. 1000000 \<le> uint (run_ticks clock p0 k))"
  shows "\<exists>out p h ticks. coremark_main t v clock m p0 = Some (out @ main_report t 7 ticks (res (world h)), p, h)
    \<and> portable_id p = 0 \<and> chain h (init_list s1 31) \<and> list_ready (init_list s1 31) h
    \<and> seed1 (res (world h)) = s1 \<and> seed2 (res (world h)) = s2 \<and> seed3 (res (world h)) = s3 \<and> blk_size (res (world h)) = 666"
proof -
  obtain p1 out where pi: "portable_init (sz_ptr_int t) (sz_pointer t) (sz_u32 t) p0 = (p1, out)" "reads p1 = reads p0"
    by (simp add: portable_init_def)
  obtain h where h: "main_init s1 s2 s3 (get_seed_32 v 4) 7 m = Some (ptr (init_list s1 31), h)"
    "list_ready (init_list s1 31) h" "iterations (res (world h)) = unat (get_seed_32 v 4)" "seed1 (res (world h)) = s1"
    "seed2 (res (world h)) = s2" "seed3 (res (world h)) = s3" "blk_size (res (world h)) = 666"
    using main_init_ready [OF assms(3)] by blast
  have "iterations (res (world h)) \<noteq> 0 \<or> (\<exists>k. 1000000 \<le> uint (run_ticks clock p1 k))"
    using assms(5) pi(2) by (simp add: h(3) unat_eq_0 run_ticks_def)
  then obtain p2 h2 where h2: "set_iterations clock (ptr (init_list s1 31)) (junk_info m) (p1, h) = Some (p2, h2)"
    "list_ready (init_list s1 31) h2"
    "same_setup ((res (world h))\<lparr>iterations := iterations (res (world h2))\<rparr>) (res (world h2))"
    using set_iterations_ends [OF h(2)] by blast
  obtain p3 h3 where h3: "timed_run clock (ptr (init_list s1 31)) (junk_info m) (p2, h2) = Some (p3, h3)" "same_list h2 h3"
    using timed_run_ready [OF h2(2)] by blast
  have r3: "list_ready (init_list s1 31) h3" by (rule list_ready_same [OF h2(2) h3(2)])
  have ex: "(if get_seed_32 v 5 = 0 then 7 else get_seed_32 v 5) = 7" using assms(4) by auto
  have "coremark_main t v clock m p0 = Some (out @ main_report t 7 (get_time p3) (res (world h3)), portable_fini p3, h3)"
    unfolding coremark_main_def pi Let_def assms(2) prod.case ex using assms(1) h(1) h2(1) h3(1) by simp
  then show ?thesis using r3 h(4-7) h2(3) h3(2)
    by (auto simp: portable_fini_def list_ready_def same_list_def kept_def same_setup_def)
qed

definition sample_seeds :: "i32 \<Rightarrow> seeds" where
  "sample_seeds n = \<lparr>seed1_volatile = 0, seed2_volatile = 0, seed3_volatile = 0x66, seed4_volatile = n, seed5_volatile = 0\<rparr>"

definition sample_memory :: raw_memory where
  "sample_memory = \<lparr>static_addr = 0x80004001, junk_heap = bench_heap, junk_list = None, junk_mat = (\<lambda>_. 0),
     junk_matC = (\<lambda>_. 0), junk_info = 0x55\<rparr>"

lemma coremark_main_returns_witness:
  "\<exists>out p h ticks. coremark_main (sample_target 4) (sample_seeds 0) (\<lambda>k. of_nat (k * k * 1000)) sample_memory
      \<lparr>start_time_val = 0, stop_time_val = 0, reads = 0, portable_id = 0\<rparr>
    = Some (out @ main_report (sample_target 4) 7 ticks (res (world h)), p, h) \<and> list_ready (init_list 0 31) h"
proof -
  let ?p = "\<lparr>start_time_val = 0, stop_time_val = 0, reads = 0, portable_id = 0\<rparr>"
  let ?clock = "\<lambda>k. of_nat (k * k * 1000)"
  have c: "1000000 \<le> uint (run_ticks ?clock ?p 250)" by (simp add: run_ticks_def)
  show ?thesis
    using coremark_main_returns [where t = "sample_target 4" and v = "sample_seeds 0" and ?s1.0 = 0 and ?s2.0 = 0 and ?s3.0 = "0x66"
      and clock = ?clock and ?p0.0 = ?p and m = sample_memory] c
    by (fastforce simp: sample_target_def sample_seeds_def get_seed_32_def default_seeds_def Let_def)
qed

end
