(* ===== verification/Mnist.thy ===== *)
theory Mnist
  imports Prelude
begin

text \<open>
  \<open>sw/app/mnist/NetworkPropagate.c\<close>: the convolution and fully connected layers of the digit
  classifier, on one shared block of memory. A mapped tensor lies in two pieces: positions whose offset
  reaches \<open>CONT_SIZE\<close> wrap around to the start of the memory. The sums are C \<open>int\<close>s; an overflow or
  an access outside an array is \<open>None\<close>.
\<close>

section \<open>Scalars\<close>

definition max_int :: "int \<Rightarrow> int \<Rightarrow> int" where
  "max_int lhs rhs = (if rhs \<le> lhs then lhs else rhs)"

definition clamp :: "int \<Rightarrow> int \<Rightarrow> int \<Rightarrow> int" where
  "clamp v lo hi = (if v < lo then lo else if hi < v then hi else v)"

datatype ActivationFunction_T = Logistic | LogisticWithLoss | FastSigmoid | Tanh | TanhLeCun | Saturation
  | Rectifier | Linear | Softplus

text \<open>\<open>UDATA_T\<close> is \<open>uint8_t\<close>: the result is converted to eight bits.\<close>

definition saturate :: "int \<Rightarrow> nat \<Rightarrow> i8" where
  "saturate v n = word_of_int (clamp v 0 (2 ^ n - 1))"

text \<open>The message that \<open>sat\<close> prints for an activation function it does not know, before it goes on, is left out.\<close>

definition sat :: "int \<Rightarrow> ActivationFunction_T \<Rightarrow> nat \<Rightarrow> i8" where
  "sat weightedSum func shift =
     (let weightedSum = (if func = Rectifier \<and> weightedSum \<le> 0 then 0 else weightedSum)
      in saturate (weightedSum div 2 ^ shift) 8)"

text \<open>Array accesses with \<open>int\<close> indices, and \<open>int\<close> addition.\<close>

definition rdi :: "'a list \<Rightarrow> int \<Rightarrow> 'a option" where
  "rdi xs i = (if 0 \<le> i then rd xs (nat i) else None)"

definition wri :: "'a list \<Rightarrow> int \<Rightarrow> 'a \<Rightarrow> 'a list option" where
  "wri xs i v = (if 0 \<le> i then wr xs (nat i) v else None)"

definition add32 :: "int \<Rightarrow> int \<Rightarrow> int option" where
  "add32 a b = (if -2147483648 \<le> a + b \<and> a + b \<le> 2147483647 then Some (a + b) else None)"

text \<open>\<open>inp\<close> reads the input array at an offset.\<close>

fun macsOnRange :: "(int \<Rightarrow> i8 option) \<Rightarrow> i8 list \<Rightarrow> int \<Rightarrow> int \<Rightarrow> nat \<Rightarrow> int \<Rightarrow> int option" where
  "macsOnRange inp weights i w 0 s = Some s"
| "macsOnRange inp weights i w (Suc n) s = do {
     x \<leftarrow> inp i;
     y \<leftarrow> rdi weights w;
     s \<leftarrow> add32 s (uint x * sint y);
     macsOnRange inp weights (i + 1) (w + 1) n s
   }"

section \<open>Layers\<close>

record mem_map =
  CONT_OFFSET :: int
  CONT_SIZE :: int
  WRAP_OFFSET :: int
  WRAP_SIZE :: int
  STRIDE :: int

record layer =
  rescaling :: nat
  NB_CHANNELS :: int
  CHANNELS_HEIGHT :: int
  CHANNELS_WIDTH :: int
  NB_OUTPUTS :: int
  OUTPUTS_HEIGHT :: int
  OUTPUTS_WIDTH :: int
  ACTIVATION :: ActivationFunction_T

record conv_layer = layer +
  PADDING_Y :: int
  PADDING_X :: int
  STRIDE_Y :: int
  STRIDE_X :: int
  KERNEL_HEIGHT :: int
  KERNEL_WIDTH :: int

text \<open>The wrap-around of an offset in a mapped tensor.\<close>

definition wrapped :: "mem_map \<Rightarrow> int \<Rightarrow> int" where
  "wrapped m off = (if 0 < WRAP_SIZE m \<and> CONT_SIZE m \<le> off then off + (WRAP_OFFSET m - CONT_OFFSET m - CONT_SIZE m) else off)"

text \<open>The test for a one-line tensor whose line wraps around.\<close>

definition wrap_in_range :: "mem_map \<Rightarrow> int \<Rightarrow> int \<Rightarrow> int \<Rightarrow> int \<Rightarrow> bool" where
  "wrap_in_range m width height channels off =
     (\<not> (0 < WRAP_SIZE m \<and> CONT_SIZE m \<le> off) \<and> 0 < WRAP_SIZE m \<and> 1 < width \<and> height = 1
      \<and> CONT_SIZE m < off + width * channels)"

text \<open>The inner loop over the positions of a line, for \<open>sx\<close> from \<open>k\<close> on.\<close>

fun line_macs ::
  "(int \<Rightarrow> i8 option) \<Rightarrow> i8 list \<Rightarrow> mem_map \<Rightarrow> bool \<Rightarrow> int \<Rightarrow> int \<Rightarrow> int \<Rightarrow> nat \<Rightarrow> int \<Rightarrow> int \<Rightarrow> int option" where
  "line_macs inp weights m in_range channels iOffset wOffset 0 sx s = Some s"
| "line_macs inp weights m in_range channels iOffset wOffset (Suc n) sx s = do {
     let i = iOffset + sx * STRIDE m;
     let i = (if in_range then wrapped m i else i);
     s \<leftarrow> macsOnRange inp weights i (wOffset + sx * channels) (nat channels) s;
     line_macs inp weights m in_range channels iOffset wOffset n (sx + 1) s
   }"

definition OUTPUTS_HEIGHT_NOPAD :: "conv_layer \<Rightarrow> int" where
  "OUTPUTS_HEIGHT_NOPAD l = cdiv (CHANNELS_HEIGHT l - KERNEL_HEIGHT l + STRIDE_Y l) (STRIDE_Y l)"

definition OUTPUTS_WIDTH_NOPAD :: "conv_layer \<Rightarrow> int" where
  "OUTPUTS_WIDTH_NOPAD l = cdiv (CHANNELS_WIDTH l - KERNEL_WIDTH l + STRIDE_X l) (STRIDE_X l)"

text \<open>The range of kernel rows and columns that meet the input.\<close>

definition syMin :: "conv_layer \<Rightarrow> int \<Rightarrow> int" where
  "syMin l oy = (if PADDING_Y l = 0 then 0 else max_int (PADDING_Y l - oy * STRIDE_Y l) 0)"

definition syMax :: "conv_layer \<Rightarrow> int \<Rightarrow> int" where
  "syMax l oy = (if PADDING_Y l = 0 \<and> OUTPUTS_HEIGHT l = OUTPUTS_HEIGHT_NOPAD l then KERNEL_HEIGHT l
     else clamp (CHANNELS_HEIGHT l + PADDING_Y l - oy * STRIDE_Y l) 0 (KERNEL_HEIGHT l))"

definition sxMin :: "conv_layer \<Rightarrow> int \<Rightarrow> int" where
  "sxMin l ox = (if PADDING_X l = 0 then 0 else max_int (PADDING_X l - ox * STRIDE_X l) 0)"

definition sxMax :: "conv_layer \<Rightarrow> int \<Rightarrow> int" where
  "sxMax l ox = (if PADDING_X l = 0 \<and> OUTPUTS_WIDTH l = OUTPUTS_WIDTH_NOPAD l then KERNEL_WIDTH l
     else clamp (CHANNELS_WIDTH l + PADDING_X l - ox * STRIDE_X l) 0 (KERNEL_WIDTH l))"

text \<open>One turn of the loop over \<open>sy\<close>.\<close>

definition conv_line ::
  "(int \<Rightarrow> i8 option) \<Rightarrow> i8 list \<Rightarrow> conv_layer \<Rightarrow> mem_map \<Rightarrow> int \<Rightarrow> int \<Rightarrow> int \<Rightarrow> int \<Rightarrow> int \<Rightarrow> int option" where
  "conv_line inp weights l im oy ox out sy s =
     (let iy = oy * STRIDE_Y l - PADDING_Y l;
          ix = ox * STRIDE_X l - PADDING_X l;
          iPos = (sxMin l ox + ix) + CHANNELS_WIDTH l * (iy + syMin l oy + sy);
          off = STRIDE im * iPos;
          in_range = wrap_in_range im (KERNEL_WIDTH l) (CHANNELS_HEIGHT l) (NB_CHANNELS l) off;
          iOffset = wrapped im off;
          wOffset = NB_CHANNELS l * (sxMin l ox + KERNEL_WIDTH l * (syMin l oy + sy + KERNEL_HEIGHT l * out))
      in if \<not> in_range \<and> NB_CHANNELS l = STRIDE im
            \<and> (PADDING_X l = 0 \<and> OUTPUTS_WIDTH l = OUTPUTS_WIDTH_NOPAD l \<or> sxMax l ox - sxMin l ox = KERNEL_WIDTH l)
         then macsOnRange inp weights iOffset wOffset (nat (KERNEL_WIDTH l * NB_CHANNELS l)) s
         else line_macs inp weights im in_range (NB_CHANNELS l) iOffset wOffset
           (nat (if PADDING_X l \<noteq> 0 \<or> OUTPUTS_WIDTH l \<noteq> OUTPUTS_WIDTH_NOPAD l
                 then min (KERNEL_WIDTH l) (sxMax l ox - sxMin l ox) else KERNEL_WIDTH l)) 0 s)"

fun conv_lines ::
  "(int \<Rightarrow> i8 option) \<Rightarrow> i8 list \<Rightarrow> conv_layer \<Rightarrow> mem_map \<Rightarrow> int \<Rightarrow> int \<Rightarrow> int \<Rightarrow> nat \<Rightarrow> int \<Rightarrow> int \<Rightarrow> int option" where
  "conv_lines inp weights l im oy ox out 0 sy s = Some s"
| "conv_lines inp weights l im oy ox out (Suc n) sy s =
     Option.bind (conv_line inp weights l im oy ox out sy s) (conv_lines inp weights l im oy ox out n (sy + 1))"

text \<open>One output: its bias, the lines of the kernel, the activation, the write.\<close>

definition conv_cell ::
  "(i8 list \<Rightarrow> int \<Rightarrow> i8 option) \<Rightarrow> int \<Rightarrow> int list \<Rightarrow> i8 list \<Rightarrow> conv_layer \<Rightarrow> mem_map \<Rightarrow> mem_map
     \<Rightarrow> int \<Rightarrow> int \<Rightarrow> int \<Rightarrow> i8 list \<Rightarrow> i8 list option" where
  "conv_cell inp outputs biasses weights l im om oy ox out mem = do {
     let oOffset = wrapped om (STRIDE om * (ox + OUTPUTS_WIDTH l * oy));
     b \<leftarrow> rdi biasses out;
     s \<leftarrow> conv_lines (inp mem) weights l im oy ox out
       (nat (if PADDING_Y l \<noteq> 0 \<or> OUTPUTS_HEIGHT l \<noteq> OUTPUTS_HEIGHT_NOPAD l
             then min (KERNEL_HEIGHT l) (syMax l oy - syMin l oy) else KERNEL_HEIGHT l)) 0 b;
     wri mem (outputs + (oOffset + out)) (sat s (ACTIVATION l) (rescaling l))
   }"

definition convcellPropagate1 ::
  "(i8 list \<Rightarrow> int \<Rightarrow> i8 option) \<Rightarrow> int \<Rightarrow> int list \<Rightarrow> i8 list \<Rightarrow> conv_layer \<Rightarrow> mem_map \<Rightarrow> mem_map
     \<Rightarrow> i8 list \<Rightarrow> i8 list option" where
  "convcellPropagate1 inp outputs biasses weights l im om =
     for_loop 0 (nat (OUTPUTS_HEIGHT l)) (\<lambda>oy.
       for_loop 0 (nat (OUTPUTS_WIDTH l)) (\<lambda>ox.
         for_loop 0 (nat (NB_OUTPUTS l)) (\<lambda>out.
           conv_cell inp outputs biasses weights l im om (int oy) (int ox) (int out))))"

text \<open>One input line of a fully connected layer, and one output.\<close>

definition fc_line ::
  "(int \<Rightarrow> i8 option) \<Rightarrow> i8 list \<Rightarrow> layer \<Rightarrow> mem_map \<Rightarrow> int \<Rightarrow> int \<Rightarrow> int \<Rightarrow> int option" where
  "fc_line inp weights l im och iy s =
     (let off = STRIDE im * (CHANNELS_WIDTH l * iy);
          in_range = wrap_in_range im (CHANNELS_WIDTH l) (CHANNELS_HEIGHT l) (NB_CHANNELS l) off;
          iOffset = wrapped im off;
          wOffset = NB_CHANNELS l * CHANNELS_WIDTH l * (iy + CHANNELS_HEIGHT l * och)
      in if \<not> in_range \<and> STRIDE im = NB_CHANNELS l
         then macsOnRange inp weights iOffset wOffset (nat (NB_CHANNELS l * CHANNELS_WIDTH l)) s
         else line_macs inp weights im in_range (NB_CHANNELS l) iOffset wOffset (nat (CHANNELS_WIDTH l)) 0 s)"

definition fc_cell ::
  "(i8 list \<Rightarrow> int \<Rightarrow> i8 option) \<Rightarrow> int \<Rightarrow> int list \<Rightarrow> i8 list \<Rightarrow> layer \<Rightarrow> mem_map \<Rightarrow> int \<Rightarrow> i8 list \<Rightarrow> i8 list option" where
  "fc_cell inp outputs biasses weights l im och mem = do {
     b \<leftarrow> rdi biasses och;
     s \<leftarrow> for_loop 0 (nat (CHANNELS_HEIGHT l)) (\<lambda>iy. fc_line (inp mem) weights l im och (int iy)) b;
     wri mem (outputs + och) (sat s (ACTIVATION l) (rescaling l))
   }"

text \<open>
  The functions for \<open>UDATA_T\<close> and \<open>DATA_T\<close> outputs have the same body; the second stores the
  unsigned result of \<open>sat\<close> as \<open>int8_t\<close>, the same eight bits.
\<close>

definition fccellPropagateUDATA_T ::
  "(i8 list \<Rightarrow> int \<Rightarrow> i8 option) \<Rightarrow> int \<Rightarrow> int list \<Rightarrow> i8 list \<Rightarrow> layer \<Rightarrow> mem_map \<Rightarrow> i8 list \<Rightarrow> i8 list option" where
  "fccellPropagateUDATA_T inp outputs biasses weights l im =
     for_loop 0 (nat (NB_OUTPUTS l)) (\<lambda>och. fc_cell inp outputs biasses weights l im (int och))"

definition fccellPropagateDATA_T ::
  "(i8 list \<Rightarrow> int \<Rightarrow> i8 option) \<Rightarrow> int \<Rightarrow> int list \<Rightarrow> i8 list \<Rightarrow> layer \<Rightarrow> mem_map \<Rightarrow> i8 list \<Rightarrow> i8 list option" where
  "fccellPropagateDATA_T inp outputs biasses weights l im =
     for_loop 0 (nat (NB_OUTPUTS l)) (\<lambda>och. fc_cell inp outputs biasses weights l im (int och))"

text \<open>
  The arg max over the channels, on \<open>(iMaxInput, maxInput)\<close>; then all positions, with the outputs and
  the value stored last. With one channel the code assigns the input to the pointer
  \<open>output_value\<close> and stores nothing through it.
\<close>

fun max_channels :: "(int \<Rightarrow> i8 option) \<Rightarrow> int \<Rightarrow> nat \<Rightarrow> int \<Rightarrow> int \<times> i8 \<Rightarrow> (int \<times> i8) option" where
  "max_channels inp off 0 ch best = Some best"
| "max_channels inp off (Suc n) ch best = do {
     x \<leftarrow> inp (off + ch);
     max_channels inp off n (ch + 1) (if snd best <s x then (ch, x) else best)
   }"

definition maxPropagate1 ::
  "(int \<Rightarrow> i8 option) \<Rightarrow> int \<Rightarrow> int \<Rightarrow> int \<Rightarrow> mem_map \<Rightarrow> int list \<times> i8 \<Rightarrow> (int list \<times> i8) option" where
  "maxPropagate1 inp channels height width im s0 = map_option fst
     (for_loop 0 (nat height) (\<lambda>iy.
        for_loop 0 (nat width) (\<lambda>ix ((outs, val), best). do {
          let oPos = int ix + width * int iy;
          let iOffset = wrapped im (STRIDE im * oPos);
          if 1 < channels then do {
            best \<leftarrow> max_channels inp iOffset (nat channels) 0 best;
            outs \<leftarrow> wri outs oPos (fst best);
            Some ((outs, snd best), best)
          } else do {
            x \<leftarrow> inp iOffset;
            outs \<leftarrow> wri outs oPos (if 0 <s x then 1 else 0);
            Some ((outs, val), best)
          }
        })) (s0, (0, -128)))"

end
