(* ===== verification/MnistConv.thy ===== *)
theory MnistConv
  imports Mnist
begin

text \<open>
  What the layers of \<open>NetworkPropagate.c\<close> compute: each output is the saturated sum of products over
  the kernel, and the layers may share one memory as long as no output is written over an input
  that a later output still reads.
\<close>

section \<open>Sums\<close>

lemma prod_bound: "\<bar>uint (x :: i8) * sint (y :: i8)\<bar> \<le> 32640"
proof -
  have "0 \<le> uint x" "uint x \<le> 255" using uint_ge_0 [of x] uint_bounded [of x] by auto
  moreover have "\<bar>sint y\<bar> \<le> 128" using sint_ge [of y] sint_lt [of y] by simp
  ultimately have "uint x * \<bar>sint y\<bar> \<le> 255 * 128" by (intro mult_mono) auto
  then show ?thesis by (simp add: abs_mult)
qed

lemma macs_sum:
  assumes "\<And>k. k < n \<Longrightarrow> inp (i + int k) = Some (X k)" and "w + n \<le> length weights" and "\<bar>s\<bar> + 32640 * int n \<le> 2147483647"
  shows "macsOnRange inp weights i (int w) n s = Some (s + (\<Sum>k<n. uint (X k) * sint (weights ! (w + k))))"
  using assms
proof (induction n arbitrary: i w s X)
  case 0
  then show ?case by simp
next
  case (Suc n)
  let ?p = "uint (X 0) * sint (weights ! w)"
  have p: "\<bar>?p\<bar> \<le> 32640" by (rule prod_bound)
  have "add32 s ?p = Some (s + ?p)" using p Suc.prems(3) unfolding add32_def by (simp add: abs_le_iff; linarith)
  moreover have "inp i = Some (X 0)" using Suc.prems(1) [of 0] by simp
  moreover have "rdi weights (int w) = Some (weights ! w)" using Suc.prems(2) by (simp add: rdi_def)
  moreover have "macsOnRange inp weights (i + 1) (int (Suc w)) n (s + ?p)
      = Some (s + ?p + (\<Sum>k<n. uint (X (Suc k)) * sint (weights ! (Suc w + k))))"
    by (rule Suc.IH) (use Suc.prems(1) [of "Suc _"] Suc.prems(2,3) p in \<open>auto simp: add.assoc\<close>)
  ultimately show ?case by (simp add: sum.lessThan_Suc_shift add.commute add.left_commute del: sum.lessThan_Suc)
qed

lemma sum_bound: "\<bar>\<Sum>k<(n::nat). uint (X k :: i8) * sint (Y k :: i8)\<bar> \<le> 32640 * int n"
proof (induction n)
  case (Suc n)
  then show ?case using prod_bound [of "X n" "Y n"] by (simp add: abs_le_iff)
qed simp

lemma sum_bound2: "(\<And>i. i < (n::nat) \<Longrightarrow> \<bar>f i :: int\<bar> \<le> b) \<Longrightarrow> \<bar>\<Sum>i<n. f i\<bar> \<le> b * int n"
proof (induction n)
  case (Suc n)
  have "\<bar>\<Sum>i<n. f i\<bar> \<le> b * int n" using Suc by simp
  then show ?case using Suc.prems [of n] by (simp add: abs_le_iff distrib_left)
qed simp

section \<open>A line of the kernel\<close>

text \<open>
  The position of channel 0 of pixel \<open>(y, x)\<close> in a mapped tensor of width \<open>W\<close>; \<open>lines_whole\<close>: no line
  is cut in two by the wrap-around.
\<close>

definition pixel :: "mem_map \<Rightarrow> nat \<Rightarrow> nat \<Rightarrow> nat \<Rightarrow> int" where
  "pixel m W y x = wrapped m (STRIDE m * (int x + int W * int y))"

definition lines_whole :: "mem_map \<Rightarrow> nat \<Rightarrow> nat \<Rightarrow> bool" where
  "lines_whole m W H = (\<forall>y < H. \<forall>x < W. pixel m W y x = pixel m W y 0 + STRIDE m * int x)"

text \<open>\<open>holds inp m R W C X\<close>: the input array holds the rows \<open>R\<close> of the tensor \<open>X\<close>.\<close>

definition holds :: "(int \<Rightarrow> i8 option) \<Rightarrow> mem_map \<Rightarrow> nat set \<Rightarrow> nat \<Rightarrow> nat \<Rightarrow> (nat \<Rightarrow> nat \<Rightarrow> nat \<Rightarrow> i8) \<Rightarrow> bool" where
  "holds inp m R W C X = (\<forall>y \<in> R. \<forall>x < W. \<forall>c < C. inp (pixel m W y x + int c) = Some (X y x c))"

lemma line_macs_sum:
  assumes "\<And>sx c. sx < n \<Longrightarrow> c < C \<Longrightarrow> inp (i + STRIDE m * int (k + sx) + int c) = Some (X sx c)"
    and "w + C * (k + n) \<le> length weights" and "\<bar>s\<bar> + 32640 * int (C * n) \<le> 2147483647"
  shows "line_macs inp weights m False (int C) i (int w) n (int k) s
    = Some (s + (\<Sum>sx<n. \<Sum>c<C. uint (X sx c) * sint (weights ! (w + C * (k + sx) + c))))"
  using assms
proof (induction n arbitrary: k s X)
  case 0
  then show ?case by simp
next
  case (Suc n)
  let ?p = "\<Sum>c<C. uint (X 0 c) * sint (weights ! (w + C * k + c))"
  have w: "w + C * k + C \<le> length weights"
    using Suc.prems(2) by (simp add: distrib_left) 
  have "macsOnRange inp weights (i + int k * STRIDE m) (int (w + C * k)) C s = Some (s + ?p)"
  proof (rule macs_sum)
    have b: "\<bar>s\<bar> + (32640 * int C + 32640 * (int C * int n)) \<le> 2147483647"
      using Suc.prems(3) by (simp add: distrib_left)
    have "0 \<le> 32640 * (int C * int n)" by simp
    with b show "\<bar>s\<bar> + 32640 * int C \<le> 2147483647" by linarith
  qed (use Suc.prems(1) [of 0] w in \<open>auto simp: mult.commute\<close>)
  then have 1: "macsOnRange inp weights (i + int k * STRIDE m) (int w + int k * int C) C s = Some (s + ?p)"
    by (simp add: mult.commute)
  have "\<bar>?p\<bar> \<le> 32640 * int C" by (rule sum_bound)
  then have "line_macs inp weights m False (int C) i (int w) n (int (Suc k)) (s + ?p)
      = Some (s + ?p + (\<Sum>sx<n. \<Sum>c<C. uint (X (Suc sx) c) * sint (weights ! (w + C * (Suc k + sx) + c))))"
    using Suc.prems(1) [of "Suc _"] Suc.prems(2,3)
    by (intro Suc.IH) (auto simp: distrib_left algebra_simps)
  with 1 show ?case
    by (simp add: Let_def sum.lessThan_Suc_shift add.assoc add.commute [of 1] del: sum.lessThan_Suc)
qed

lemma sum_add_split: "(\<Sum>k<m + (n::nat). g k :: int) = (\<Sum>k<m. g k) + (\<Sum>k<n. g (m + k))"
  by (induction n) (simp_all add: add.assoc)

lemma sum_mult_split: "(\<Sum>k<(n::nat) * C. g k :: int) = (\<Sum>i<n. \<Sum>c<C. g (i * C + c))"
proof (induction n)
  case (Suc n)
  then show ?case using sum_add_split [of g "n * C" C] by (simp add: add.commute)
qed simp

text \<open>The layers of the network: no padding, whole windows only.\<close>

definition plain :: "conv_layer \<Rightarrow> nat \<Rightarrow> nat \<Rightarrow> nat \<Rightarrow> nat \<Rightarrow> nat \<Rightarrow> nat \<Rightarrow> nat \<Rightarrow> bool" where
  "plain l C H W KH KW SY SX =
     (NB_CHANNELS l = int C \<and> CHANNELS_HEIGHT l = int H \<and> CHANNELS_WIDTH l = int W
      \<and> KERNEL_HEIGHT l = int KH \<and> KERNEL_WIDTH l = int KW \<and> STRIDE_Y l = int SY \<and> STRIDE_X l = int SX
      \<and> PADDING_Y l = 0 \<and> PADDING_X l = 0
      \<and> OUTPUTS_HEIGHT l = OUTPUTS_HEIGHT_NOPAD l \<and> OUTPUTS_WIDTH l = OUTPUTS_WIDTH_NOPAD l)"

definition line_sum :: "(nat \<Rightarrow> nat \<Rightarrow> nat \<Rightarrow> i8) \<Rightarrow> i8 list \<Rightarrow> nat \<Rightarrow> nat \<Rightarrow> nat \<Rightarrow> nat \<Rightarrow> nat \<Rightarrow> int" where
  "line_sum X weights C KW y x w = (\<Sum>sx<KW. \<Sum>c<C. uint (X y (x + sx) c) * sint (weights ! (w + C * sx + c)))"

lemma line_sum_bound: "\<bar>line_sum X weights C KW y x w\<bar> \<le> 32640 * int (C * KW)"
proof -
  have "\<bar>line_sum X weights C KW y x w\<bar> \<le> (32640 * int C) * int KW"
    unfolding line_sum_def by (rule sum_bound2) (rule sum_bound)
  then show ?thesis by (simp add: mult.assoc)
qed

lemma whole_line_macs:
  assumes h: "holds inp m {y} W C X" and lw: "lines_whole m W H" and "y < H" and "x + KW \<le> W" and "STRIDE m = int C"
    and "w + C * KW \<le> length weights" and "\<bar>s\<bar> + 32640 * int (C * KW) \<le> 2147483647"
  shows "macsOnRange inp weights (pixel m W y x) (int w) (KW * C) s = Some (s + line_sum X weights C KW y x w)"
proof -
  have "macsOnRange inp weights (pixel m W y x) (int w) (KW * C) s
      = Some (s + (\<Sum>k<KW * C. uint (X y (x + k div C) (k mod C)) * sint (weights ! (w + k))))"
  proof (rule macs_sum)
    fix k assume k: "k < KW * C"
    then have C: "0 < C" by (cases C) auto
    have q: "k div C < KW" using k by (simp add: less_mult_imp_div_less)
    have px: "pixel m W y x' = pixel m W y 0 + int C * int x'" if "x' < W" for x'
      using lw [unfolded lines_whole_def, rule_format, OF assms(3) that] assms(5) by simp
    have k': "int k = int C * int (k div C) + int (k mod C)"
      by (metis mult_div_mod_eq of_nat_add of_nat_mult)
    have "pixel m W y x + int k = pixel m W y (x + k div C) + int (k mod C)"
      using px [of x] px [of "x + k div C"] q assms(4) k' by (simp add: distrib_left)
    then show "inp (pixel m W y x + int k) = Some (X y (x + k div C) (k mod C))"
      using h q C assms(3,4) by (simp add: holds_def)
  qed (use assms(6,7) in \<open>simp_all add: mult.commute\<close>)
  also have "(\<Sum>k<KW * C. uint (X y (x + k div C) (k mod C)) * sint (weights ! (w + k))) = line_sum X weights C KW y x w"
    unfolding sum_mult_split line_sum_def
    by (intro sum.cong) (auto simp: add.assoc mult.commute)
  finally show ?thesis .
qed

lemma split_line_macs:
  assumes h: "holds inp m {y} W C X" and lw: "lines_whole m W H" and "y < H" and "x + KW \<le> W"
    and "w + C * KW \<le> length weights" and "\<bar>s\<bar> + 32640 * int (C * KW) \<le> 2147483647"
  shows "line_macs inp weights m False (int C) (pixel m W y x) (int w) KW 0 s = Some (s + line_sum X weights C KW y x w)"
proof -
  have px: "pixel m W y x' = pixel m W y 0 + STRIDE m * int x'" if "x' < W" for x'
    using lw [unfolded lines_whole_def, rule_format, OF assms(3) that] .
  have "inp (pixel m W y x + STRIDE m * int (0 + sx) + int c) = Some (X y (x + sx) c)" if "sx < KW" "c < C" for sx c
  proof -
    have "pixel m W y x + STRIDE m * int (0 + sx) = pixel m W y (x + sx)"
      using px [of x] px [of "x + sx"] that assms(4) by (simp add: distrib_left)
    then show ?thesis using h that assms(3,4) by (simp add: holds_def)
  qed
  from line_macs_sum [of KW C inp "pixel m W y x" m 0, OF this] assms(5,6)
  show ?thesis by (simp add: line_sum_def)
qed

lemma conv_line_sum:
  assumes p: "plain l C H W KH KW SY SX" and h: "holds inp im {oy * SY + sy} W C X" and lw: "lines_whole im W H"
    and "H \<noteq> 1 \<or> WRAP_SIZE im \<le> 0" and "oy * SY + sy < H" and "ox * SX + KW \<le> W"
    and "C * (KW * (sy + KH * out)) + C * KW \<le> length weights" and "\<bar>s\<bar> + 32640 * int (C * KW) \<le> 2147483647"
  shows "conv_line inp weights l im (int oy) (int ox) (int out) (int sy) s
    = Some (s + line_sum X weights C KW (oy * SY + sy) (ox * SX) (C * (KW * (sy + KH * out))))"
proof -
  have r: "wrap_in_range im (KERNEL_WIDTH l) (CHANNELS_HEIGHT l) (NB_CHANNELS l) a = False" for a
    using p assms(4) by (auto simp: wrap_in_range_def plain_def)
  have mm: "sxMin l a = 0" "syMin l a = 0" "sxMax l a = int KW" for a
    using p by (simp_all add: sxMin_def syMin_def sxMax_def plain_def)
  have off: "wrapped im (STRIDE im * (0 + (int ox * STRIDE_X l - PADDING_X l) + CHANNELS_WIDTH l * (int oy * STRIDE_Y l - PADDING_Y l + 0 + int sy)))
      = pixel im W (oy * SY + sy) (ox * SX)"
    using p by (simp add: pixel_def plain_def)
  have w: "NB_CHANNELS l * (0 + KERNEL_WIDTH l * (0 + int sy + KERNEL_HEIGHT l * int out)) = int (C * (KW * (sy + KH * out)))"
    using p by (simp add: plain_def)
  have n: "nat (KERNEL_WIDTH l * NB_CHANNELS l) = KW * C" "nat (KERNEL_WIDTH l) = KW"
    using p by (simp_all add: plain_def flip: of_nat_mult)
  show ?thesis
  proof (cases "STRIDE im = int C")
    case True
    then show ?thesis
      using whole_line_macs [OF h lw assms(5,6) True assms(7,8)] p
      unfolding conv_line_def Let_def mm off r w n by (simp add: plain_def)
  next
    case False
    then show ?thesis
      using split_line_macs [OF h lw assms(5,6,7,8)] p
      unfolding conv_line_def Let_def mm off r w n by (simp add: plain_def)
  qed
qed

section \<open>One output\<close>

definition conv_sum ::
  "(nat \<Rightarrow> nat \<Rightarrow> nat \<Rightarrow> i8) \<Rightarrow> int list \<Rightarrow> i8 list \<Rightarrow> nat \<Rightarrow> nat \<Rightarrow> nat \<Rightarrow> nat \<Rightarrow> nat \<Rightarrow> nat \<Rightarrow> nat \<Rightarrow> nat \<Rightarrow> int" where
  "conv_sum X biasses weights C KH KW SY SX oy ox out =
     biasses ! out + (\<Sum>sy<KH. line_sum X weights C KW (oy * SY + sy) (ox * SX) (C * (KW * (sy + KH * out))))"

lemma conv_lines_sum:
  assumes p: "plain l C H W KH KW SY SX" and h: "holds inp im {oy * SY..<oy * SY + KH} W C X" and lw: "lines_whole im W H"
    and "H \<noteq> 1 \<or> WRAP_SIZE im \<le> 0" and "oy * SY + KH \<le> H" and "ox * SX + KW \<le> W"
    and w: "C * (KW * (KH * (out + 1))) \<le> length weights" and "k + n \<le> KH" and "\<bar>s\<bar> + 32640 * int (C * KW * n) \<le> 2147483647"
  shows "conv_lines inp weights l im (int oy) (int ox) (int out) n (int k) s
    = Some (s + (\<Sum>sy<n. line_sum X weights C KW (oy * SY + (k + sy)) (ox * SX) (C * (KW * ((k + sy) + KH * out)))))"
  using assms(8,9)
proof (induction n arbitrary: k s)
  case 0
  then show ?case by simp
next
  case (Suc n)
  let ?p = "line_sum X weights C KW (oy * SY + k) (ox * SX) (C * (KW * (k + KH * out)))"
  have k: "Suc (k + KH * out) \<le> KH * (out + 1)" using Suc.prems(1) by simp
  have "C * (KW * (k + KH * out)) + C * KW = C * (KW * Suc (k + KH * out))" by (simp add: distrib_left)
  also have "\<dots> \<le> C * (KW * (KH * (out + 1)))" using k by (intro mult_le_mono le_refl)
  finally have kw: "C * (KW * (k + KH * out)) + C * KW \<le> length weights" using w by linarith
  have b: "\<bar>s\<bar> + (32640 * int (C * KW) + 32640 * int (C * KW * n)) \<le> 2147483647"
    using Suc.prems(2) by (simp add: distrib_left)
  have "\<bar>s\<bar> + 32640 * int (C * KW) \<le> 2147483647" using b of_nat_0_le_iff [of "C * KW * n"] by linarith
  then have 1: "conv_line inp weights l im (int oy) (int ox) (int out) (int k) s = Some (s + ?p)"
    using conv_line_sum [OF p _ lw assms(4), of inp oy k X] h Suc.prems(1) assms(5,6) kw by (simp add: holds_def)
  have "\<bar>s + ?p\<bar> + 32640 * int (C * KW * n) \<le> 2147483647"
    using b line_sum_bound [of X weights C KW "oy * SY + k" "ox * SX" "C * (KW * (k + KH * out))"] by linarith
  then have 2: "conv_lines inp weights l im (int oy) (int ox) (int out) n (int (Suc k)) (s + ?p)
      = Some (s + ?p + (\<Sum>sy<n. line_sum X weights C KW (oy * SY + (Suc k + sy)) (ox * SX) (C * (KW * ((Suc k + sy) + KH * out)))))"
    using Suc.prems(1) by (intro Suc.IH) auto
  show ?case using 1 2 by (simp add: sum.lessThan_Suc_shift add.assoc add.commute [of 1] del: sum.lessThan_Suc)
qed

section \<open>Layers in one memory\<close>

fun foldm :: "('c \<Rightarrow> 's \<Rightarrow> 's option) \<Rightarrow> 'c list \<Rightarrow> 's \<Rightarrow> 's option" where
  "foldm f [] s = Some s"
| "foldm f (c # cs) s = Option.bind (f c s) (foldm f cs)"

lemma for_loop_foldm: "for_loop lo n body = foldm body [lo..<lo + n]"
proof
  show "for_loop lo n body s = foldm body [lo..<lo + n] s" for s
    by (induction n arbitrary: lo s) (simp_all add: upt_conv_Cons del: upt_Suc split: bind_split)
qed

lemma foldm_append: "foldm f (xs @ ys) s = Option.bind (foldm f xs s) (foldm f ys)"
  by (induction xs arbitrary: s) (auto split: bind_split)

lemma foldm_product: "foldm (\<lambda>x. foldm (\<lambda>y. f (x, y)) ys) xs s = foldm f (List.product xs ys) s"
proof -
  have m: "foldm f (map (Pair x) ys) s = foldm (\<lambda>y. f (x, y)) ys s" for x s
    by (induction ys arbitrary: s) (auto split: bind_split)
  show ?thesis by (induction xs arbitrary: s) (auto simp: foldm_append m split: bind_split)
qed

text \<open>Steps that each write one cell, computed from a memory in which earlier steps have written.\<close>

definition agree_off :: "nat set \<Rightarrow> 'a list \<Rightarrow> 'a list \<Rightarrow> bool" where
  "agree_off A mem mem' = (length mem' = length mem \<and> (\<forall>a. a \<notin> A \<longrightarrow> mem' ! a = mem ! a))"

lemma foldm_writes:
  assumes "\<And>k mem'. k < length cs \<Longrightarrow> agree_off (addr ` set (take k cs)) mem mem'
      \<Longrightarrow> f (cs ! k) mem' = Some (mem'[addr (cs ! k) := g (cs ! k)])"
    and "distinct (map addr cs)" and "\<And>c. c \<in> set cs \<Longrightarrow> addr c < length mem"
  shows "\<exists>mem'. foldm f cs mem = Some mem' \<and> agree_off (addr ` set cs) mem mem' \<and> (\<forall>c \<in> set cs. mem' ! addr c = g c)"
  using assms
proof (induction cs rule: rev_induct)
  case Nil
  then show ?case by (simp add: agree_off_def)
next
  case (snoc c cs)
  have "\<exists>mem'. foldm f cs mem = Some mem' \<and> agree_off (addr ` set cs) mem mem' \<and> (\<forall>c \<in> set cs. mem' ! addr c = g c)"
  proof (rule snoc.IH)
    fix k mem' assume "k < length cs" "agree_off (addr ` set (take k cs)) mem mem'"
    then show "f (cs ! k) mem' = Some (mem'[addr (cs ! k) := g (cs ! k)])"
      using snoc.prems(1) [of k mem'] by (simp add: nth_append)
  qed (use snoc.prems(2,3) in auto)
  then obtain m1 where m1: "foldm f cs mem = Some m1" "agree_off (addr ` set cs) mem m1" "\<forall>c \<in> set cs. m1 ! addr c = g c"
    by blast
  have "f c m1 = Some (m1[addr c := g c])"
    using snoc.prems(1) [of "length cs" m1] m1(2) by simp
  moreover have "addr c \<notin> addr ` set cs" "addr c < length mem" using snoc.prems(2,3) by auto
  ultimately show ?case using m1
    by (auto simp: foldm_append agree_off_def nth_list_update)
qed

lemma product_fst_le:
  assumes "k < length (List.product [0..<n] ys)" and "c \<in> set (take k (List.product [0..<n] ys))"
  shows "fst c \<le> fst (List.product [0..<n] ys ! k)"
proof -
  have "sorted (map fst (List.product xs ys))" if "sorted xs" for xs :: "nat list"
    using that by (induction xs) (auto simp: sorted_append o_def sorted_wrt_map sorted_wrt_true)
  then have "sorted (map fst (List.product [0..<n] ys))" by simp
  moreover obtain j where "j < k" "c = List.product [0..<n] ys ! j"
    using assms(2) by (auto simp: in_set_conv_nth)
  ultimately show ?thesis using sorted_nth_mono [of "map fst (List.product [0..<n] ys)" j k] assms(1) by simp
qed

text \<open>Where an output is written.\<close>

definition out_addr :: "mem_map \<Rightarrow> int \<Rightarrow> nat \<Rightarrow> nat \<times> nat \<times> nat \<Rightarrow> nat" where
  "out_addr om outputs OW = (\<lambda>(oy, ox, out). nat (outputs + (pixel om OW oy ox + int out)))"

definition conv_cells :: "nat \<Rightarrow> nat \<Rightarrow> nat \<Rightarrow> (nat \<times> nat \<times> nat) list" where
  "conv_cells OH OW NO = List.product [0..<OH] (List.product [0..<OW] [0..<NO])"

lemma conv_cell_writes:
  assumes p: "plain l C H W KH KW SY SX" and "holds (inp mem) im {oy * SY..<oy * SY + KH} W C X" and "lines_whole im W H"
    and "H \<noteq> 1 \<or> WRAP_SIZE im \<le> 0" and "oy * SY + KH \<le> H" and "ox * SX + KW \<le> W"
    and w: "C * (KW * (KH * NO)) \<le> length weights" and "out < NO" and "NO \<le> length biasses"
    and "\<bar>biasses ! out\<bar> + 32640 * int (C * KW * KH) \<le> 2147483647"
    and ow: "OUTPUTS_WIDTH l = int OW" and a: "0 \<le> outputs + (pixel om OW oy ox + int out)"
    and "out_addr om outputs OW (oy, ox, out) < length mem"
  shows "conv_cell inp outputs biasses weights l im om (int oy) (int ox) (int out) mem
    = Some (mem[out_addr om outputs OW (oy, ox, out) := sat (conv_sum X biasses weights C KH KW SY SX oy ox out) (ACTIVATION l) (rescaling l)])"
proof -
  have "C * (KW * (KH * (out + 1))) \<le> C * (KW * (KH * NO))" using assms(8) by (intro mult_le_mono) auto
  then have wle: "C * (KW * (KH * (out + 1))) \<le> length weights" using w by (rule le_trans)
  have cs: "conv_lines (inp mem) weights l im (int oy) (int ox) (int out) KH (int 0) (biasses ! out)
      = Some (conv_sum X biasses weights C KH KW SY SX oy ox out)"
    using conv_lines_sum [OF p assms(2-6) wle, of 0 KH "biasses ! out"] assms(10) by (simp add: conv_sum_def)
  have n: "nat (if PADDING_Y l \<noteq> 0 \<or> OUTPUTS_HEIGHT l \<noteq> OUTPUTS_HEIGHT_NOPAD l
      then min (KERNEL_HEIGHT l) (syMax l (int oy) - syMin l (int oy)) else KERNEL_HEIGHT l) = KH"
    using p by (simp add: plain_def)
  have b: "rdi biasses (int out) = Some (biasses ! out)" using assms(8,9) by (simp add: rdi_def)
  have px: "outputs + (wrapped om (STRIDE om * (int ox + OUTPUTS_WIDTH l * int oy)) + int out)
      = outputs + (pixel om OW oy ox + int out)" by (simp add: pixel_def ow)
  show ?thesis
    unfolding conv_cell_def Let_def px n b bind.bind_lunit
    using cs a assms(13) by (simp add: wri_def out_addr_def)
qed

lemma conv_layer_result:
  assumes p: "plain l C H W KH KW SY SX"
    and o: "OUTPUTS_HEIGHT l = int OH" "OUTPUTS_WIDTH l = int OW" "NB_OUTPUTS l = int NO"
    and im: "lines_whole im W H" "H \<noteq> 1 \<or> WRAP_SIZE im \<le> 0"
    and win: "\<And>oy. oy < OH \<Longrightarrow> oy * SY + KH \<le> H" "\<And>ox. ox < OW \<Longrightarrow> ox * SX + KW \<le> W"
    and w: "C * (KW * (KH * NO)) \<le> length weights" "NO \<le> length biasses"
      "\<And>out. out < NO \<Longrightarrow> \<bar>biasses ! out\<bar> + 32640 * int (C * KW * KH) \<le> 2147483647"
    and a: "\<And>c. c \<in> set (conv_cells OH OW NO) \<Longrightarrow> out_addr om outputs OW c < length mem"
      "\<And>oy ox. oy < OH \<Longrightarrow> ox < OW \<Longrightarrow> 0 \<le> outputs + pixel om OW oy ox"
      "distinct (map (out_addr om outputs OW) (conv_cells OH OW NO))"
    and reads: "\<And>oy mem'. oy < OH \<Longrightarrow> agree_off (out_addr om outputs OW ` {c \<in> set (conv_cells OH OW NO). fst c \<le> oy}) mem mem'
      \<Longrightarrow> holds (inp mem') im {oy * SY..<oy * SY + KH} W C X"
  shows "\<exists>mem'. convcellPropagate1 inp outputs biasses weights l im om mem = Some mem'
    \<and> agree_off (out_addr om outputs OW ` set (conv_cells OH OW NO)) mem mem'
    \<and> (\<forall>oy < OH. \<forall>ox < OW. \<forall>out < NO. mem' ! out_addr om outputs OW (oy, ox, out)
         = sat (conv_sum X biasses weights C KH KW SY SX oy ox out) (ACTIVATION l) (rescaling l))"
proof -
  let ?cells = "conv_cells OH OW NO" and ?addr = "out_addr om outputs OW"
  let ?f = "\<lambda>(oy, ox, out). conv_cell inp outputs biasses weights l im om (int oy) (int ox) (int out)"
  let ?g = "\<lambda>(oy, ox, out). sat (conv_sum X biasses weights C KH KW SY SX oy ox out) (ACTIVATION l) (rescaling l)"
  have flat: "convcellPropagate1 inp outputs biasses weights l im om mem = foldm ?f ?cells mem"
  proof -
    have "foldm ?f ?cells mem = foldm (\<lambda>oy. foldm (\<lambda>c. ?f (oy, c)) (List.product [0..<OW] [0..<NO])) [0..<OH] mem"
      unfolding conv_cells_def by (rule foldm_product [symmetric])
    also have "(\<lambda>oy. foldm (\<lambda>c. ?f (oy, c)) (List.product [0..<OW] [0..<NO]))
        = (\<lambda>oy. foldm (\<lambda>ox. foldm (\<lambda>out. ?f (oy, ox, out)) [0..<NO]) [0..<OW])"
      by (intro ext) (rule foldm_product [symmetric])
    finally show ?thesis by (simp add: convcellPropagate1_def for_loop_foldm o)
  qed
  have "\<exists>mem'. foldm ?f ?cells mem = Some mem' \<and> agree_off (?addr ` set ?cells) mem mem' \<and> (\<forall>c \<in> set ?cells. mem' ! ?addr c = ?g c)"
  proof (rule foldm_writes [OF _ a(3) a(1)])
    fix k mem' assume k: "k < length ?cells" and ag: "agree_off (?addr ` set (take k ?cells)) mem mem'"
    obtain oy ox out where c: "?cells ! k = (oy, ox, out)" by (cases "?cells ! k")
    have cin: "(oy, ox, out) \<in> set ?cells" using k c by (metis nth_mem)
    then have lt: "oy < OH" "ox < OW" "out < NO" by (auto simp: conv_cells_def)
    have "set (take k ?cells) \<subseteq> {c \<in> set ?cells. fst c \<le> oy}"
    proof
      fix c' assume c': "c' \<in> set (take k ?cells)"
      then have "fst c' \<le> fst (?cells ! k)" using k unfolding conv_cells_def by (intro product_fst_le)
      then show "c' \<in> {c \<in> set ?cells. fst c \<le> oy}" using c' c by (auto dest: in_set_takeD)
    qed
    then have "agree_off (?addr ` {c \<in> set ?cells. fst c \<le> oy}) mem mem'"
      using ag by (auto simp: agree_off_def)
    from reads [OF lt(1) this]
    have "?f (oy, ox, out) mem' = Some (mem'[?addr (oy, ox, out) := ?g (oy, ox, out)])"
      using conv_cell_writes [OF p _ im win(1) [OF lt(1)] win(2) [OF lt(2)] w(1) lt(3) w(2) w(3) [OF lt(3)] o(2), of inp mem' X outputs om]
        a(1) [OF cin] a(2) [OF lt(1,2)] ag lt by (simp add: agree_off_def)
    then show "?f (?cells ! k) mem' = Some (mem'[?addr (?cells ! k) := ?g (?cells ! k)])" by (simp add: c)
  qed
  then show ?thesis unfolding flat by (auto simp: conv_cells_def)
qed

lemma fc_line_sum:
  assumes "NB_CHANNELS l = int C" "CHANNELS_HEIGHT l = int H" "CHANNELS_WIDTH l = int W"
    and h: "holds inp im {iy} W C X" and lw: "lines_whole im W H" and "H \<noteq> 1 \<or> W \<le> 1 \<or> WRAP_SIZE im \<le> 0"
    and "iy < H" and "C * (W * (iy + H * och)) + C * W \<le> length weights" and "\<bar>s\<bar> + 32640 * int (C * W) \<le> 2147483647"
  shows "fc_line inp weights l im (int och) (int iy) s = Some (s + line_sum X weights C W iy 0 (C * (W * (iy + H * och))))"
proof -
  have r: "wrap_in_range im (CHANNELS_WIDTH l) (CHANNELS_HEIGHT l) (NB_CHANNELS l) a = False" for a
    using assms(2,3,6) by (auto simp: wrap_in_range_def)
  have off: "wrapped im (STRIDE im * (CHANNELS_WIDTH l * int iy)) = pixel im W iy 0"
    using assms(3) by (simp add: pixel_def)
  have w: "NB_CHANNELS l * CHANNELS_WIDTH l * (int iy + CHANNELS_HEIGHT l * int och) = int (C * (W * (iy + H * och)))"
    using assms(1-3) by simp
  have n: "nat (NB_CHANNELS l * CHANNELS_WIDTH l) = W * C" "nat (CHANNELS_WIDTH l) = W"
    using assms(1,3) by (simp_all add: mult.commute flip: of_nat_mult)
  show ?thesis
  proof (cases "STRIDE im = int C")
    case True
    then show ?thesis
      using whole_line_macs [OF h lw assms(7) _ True assms(8,9)] assms(1)
      unfolding fc_line_def Let_def off r w n by simp
  next
    case False
    then show ?thesis
      using split_line_macs [OF h lw assms(7) _ assms(8,9)] assms(1)
      unfolding fc_line_def Let_def off r w n by simp
  qed
qed

text \<open>A fully connected layer is a convolution whose kernel is the whole input.\<close>

lemma fc_lines_sum:
  assumes l: "NB_CHANNELS l = int C" "CHANNELS_HEIGHT l = int H" "CHANNELS_WIDTH l = int W"
    and h: "holds inp im {..<H} W C X" and lw: "lines_whole im W H" and "H \<noteq> 1 \<or> W \<le> 1 \<or> WRAP_SIZE im \<le> 0"
    and w: "C * (W * (H * (och + 1))) \<le> length weights" and "k + n \<le> H" and "\<bar>s\<bar> + 32640 * int (C * W * n) \<le> 2147483647"
  shows "for_loop k n (\<lambda>iy. fc_line inp weights l im (int och) (int iy)) s
    = Some (s + (\<Sum>i<n. line_sum X weights C W (k + i) 0 (C * (W * ((k + i) + H * och)))))"
  using assms(8,9)
proof (induction n arbitrary: k s)
  case 0
  then show ?case by simp
next
  case (Suc n)
  let ?p = "line_sum X weights C W k 0 (C * (W * (k + H * och)))"
  have k: "Suc (k + H * och) \<le> H * (och + 1)" using Suc.prems(1) by simp
  have "C * (W * (k + H * och)) + C * W = C * (W * Suc (k + H * och))" by (simp add: distrib_left)
  also have "\<dots> \<le> C * (W * (H * (och + 1)))" using k by (intro mult_le_mono le_refl)
  finally have kw: "C * (W * (k + H * och)) + C * W \<le> length weights" using w by linarith
  have b: "\<bar>s\<bar> + (32640 * int (C * W) + 32640 * int (C * W * n)) \<le> 2147483647"
    using Suc.prems(2) by (simp add: distrib_left)
  have "\<bar>s\<bar> + 32640 * int (C * W) \<le> 2147483647" using b of_nat_0_le_iff [of "C * W * n"] by linarith
  then have 1: "fc_line inp weights l im (int och) (int k) s = Some (s + ?p)"
    using fc_line_sum [OF l _ lw assms(6), of inp k X och weights] h Suc.prems(1) kw by (simp add: holds_def)
  have "\<bar>s + ?p\<bar> + 32640 * int (C * W * n) \<le> 2147483647"
    using b line_sum_bound [of X weights C W k 0 "C * (W * (k + H * och))"] by linarith
  then have 2: "for_loop (Suc k) n (\<lambda>iy. fc_line inp weights l im (int och) (int iy)) (s + ?p)
      = Some (s + ?p + (\<Sum>i<n. line_sum X weights C W (Suc k + i) 0 (C * (W * ((Suc k + i) + H * och)))))"
    using Suc.prems(1) by (intro Suc.IH) auto
  show ?case using 1 2 by (simp add: sum.lessThan_Suc_shift add.assoc del: sum.lessThan_Suc)
qed

lemma fc_layer_result:
  assumes l: "NB_CHANNELS l = int C" "CHANNELS_HEIGHT l = int H" "CHANNELS_WIDTH l = int W" "NB_OUTPUTS l = int NO"
    and im: "lines_whole im W H" "H \<noteq> 1 \<or> W \<le> 1 \<or> WRAP_SIZE im \<le> 0"
    and w: "C * (W * (H * NO)) \<le> length weights" "NO \<le> length biasses"
      "\<And>out. out < NO \<Longrightarrow> \<bar>biasses ! out\<bar> + 32640 * int (C * W * H) \<le> 2147483647"
    and a: "outputs + NO \<le> length mem"
    and reads: "\<And>mem'. agree_off {outputs..<outputs + NO} mem mem' \<Longrightarrow> holds (inp mem') im {..<H} W C X"
  shows "\<exists>mem'. foldm (\<lambda>och. fc_cell inp (int outputs) biasses weights l im (int och)) [0..<NO] mem = Some mem'
    \<and> agree_off {outputs..<outputs + NO} mem mem'
    \<and> (\<forall>och < NO. mem' ! (outputs + och) = sat (conv_sum X biasses weights C H W 0 0 0 0 och) (ACTIVATION l) (rescaling l))"
proof -
  let ?f = "\<lambda>och. fc_cell inp (int outputs) biasses weights l im (int och)"
  let ?g = "\<lambda>och. sat (conv_sum X biasses weights C H W 0 0 0 0 och) (ACTIVATION l) (rescaling l)"
  have "\<exists>mem'. foldm ?f [0..<NO] mem = Some mem' \<and> agree_off ((\<lambda>och. outputs + och) ` set [0..<NO]) mem mem'
      \<and> (\<forall>c \<in> set [0..<NO]. mem' ! (outputs + c) = ?g c)"
  proof (rule foldm_writes)
    fix k mem' assume k: "k < length [0..<NO]" and ag: "agree_off ((\<lambda>och. outputs + och) ` set (take k [0..<NO])) mem mem'"
    have "agree_off {outputs..<outputs + NO} mem mem'" using ag k by (auto simp: agree_off_def)
    note h = reads [OF this]
    have "C * (W * (H * (k + 1))) \<le> C * (W * (H * NO))" using k by (intro mult_le_mono) auto
    then have wle: "C * (W * (H * (k + 1))) \<le> length weights" using w(1) by (rule le_trans)
    have "for_loop 0 H (\<lambda>iy. fc_line (inp mem') weights l im (int k) (int iy)) (biasses ! k)
        = Some (conv_sum X biasses weights C H W 0 0 0 0 k)"
      using fc_lines_sum [OF l(1-3) h im wle, of 0 H "biasses ! k"] w(3) [of k] k by (simp add: conv_sum_def)
    moreover have "int outputs + int k = int (outputs + k)" by simp
    ultimately show "?f ([0..<NO] ! k) mem' = Some (mem'[outputs + [0..<NO] ! k := ?g ([0..<NO] ! k)])"
      using k w(2) a ag unfolding fc_cell_def by (simp add: l rdi_def wri_def nat_int_add agree_off_def)
  qed (use a in \<open>auto simp: distinct_map\<close>)
  moreover have "(\<lambda>och. outputs + och) ` set [0..<NO] = {outputs..<outputs + NO}"
    by (simp add: add.commute)
  ultimately show ?thesis by auto
qed

end
