(* ===== verification/MnistMain.thy ===== *)
theory MnistMain
  imports MnistConv
begin

text \<open>
  The network of \<open>sw/app/mnist\<close>: the memory plan of \<open>mem_info.h\<close>, \<open>propagate\<close>, the reading of the
  image (\<open>cpp_utils.c\<close>) and \<open>main\<close>. The four layers share one block of 2160 bytes. The main theorem
  says that \<open>propagate\<close> computes the composition of the four layers on separate tensors, so that the
  sharing destroys nothing that is still needed. The weights are arguments of the model.
\<close>

section \<open>The memory plan and the layers\<close>

definition MEMORY_SIZE :: nat where
  "MEMORY_SIZE = 2160"

definition ENV_MEM :: mem_map where
  "ENV_MEM = \<lparr>CONT_OFFSET = 0, CONT_SIZE = 576, WRAP_OFFSET = 0, WRAP_SIZE = 0, STRIDE = 1\<rparr>"

definition CONV1_MEM :: mem_map where
  "CONV1_MEM = \<lparr>CONT_OFFSET = 576, CONT_SIZE = 1584, WRAP_OFFSET = 0, WRAP_SIZE = 352, STRIDE = 16\<rparr>"

definition CONV2_MEM :: mem_map where
  "CONV2_MEM = \<lparr>CONT_OFFSET = 352, CONT_SIZE = 384, WRAP_OFFSET = 0, WRAP_SIZE = 0, STRIDE = 24\<rparr>"

definition FC1_MEM :: mem_map where
  "FC1_MEM = \<lparr>CONT_OFFSET = 736, CONT_SIZE = 150, WRAP_OFFSET = 0, WRAP_SIZE = 0, STRIDE = 150\<rparr>"

definition FC2_MEM :: mem_map where
  "FC2_MEM = \<lparr>CONT_OFFSET = 886, CONT_SIZE = 10, WRAP_OFFSET = 0, WRAP_SIZE = 0, STRIDE = 10\<rparr>"

definition CONV1 :: conv_layer where
  "CONV1 = \<lparr>rescaling = 8, NB_CHANNELS = 1, CHANNELS_HEIGHT = 24, CHANNELS_WIDTH = 24, NB_OUTPUTS = 16,
     OUTPUTS_HEIGHT = 11, OUTPUTS_WIDTH = 11, ACTIVATION = Rectifier,
     PADDING_Y = 0, PADDING_X = 0, STRIDE_Y = 2, STRIDE_X = 2, KERNEL_HEIGHT = 4, KERNEL_WIDTH = 4\<rparr>"

definition CONV2 :: conv_layer where
  "CONV2 = \<lparr>rescaling = 8, NB_CHANNELS = 16, CHANNELS_HEIGHT = 11, CHANNELS_WIDTH = 11, NB_OUTPUTS = 24,
     OUTPUTS_HEIGHT = 4, OUTPUTS_WIDTH = 4, ACTIVATION = Rectifier,
     PADDING_Y = 0, PADDING_X = 0, STRIDE_Y = 2, STRIDE_X = 2, KERNEL_HEIGHT = 5, KERNEL_WIDTH = 5\<rparr>"

definition FC1 :: layer where
  "FC1 = \<lparr>rescaling = 8, NB_CHANNELS = 24, CHANNELS_HEIGHT = 4, CHANNELS_WIDTH = 4, NB_OUTPUTS = 150,
     OUTPUTS_HEIGHT = 1, OUTPUTS_WIDTH = 1, ACTIVATION = Rectifier\<rparr>"

definition FC2 :: layer where
  "FC2 = \<lparr>rescaling = 11, NB_CHANNELS = 150, CHANNELS_HEIGHT = 1, CHANNELS_WIDTH = 1, NB_OUTPUTS = 10,
     OUTPUTS_HEIGHT = 1, OUTPUTS_WIDTH = 1, ACTIVATION = Linear\<rparr>"

record weights =
  conv1_weights :: "i8 list"
  conv2_weights :: "i8 list"
  fc1_weights :: "i8 list"
  fc2_weights :: "i8 list"

text \<open>The biases are the halves that make the shifts round.\<close>

definition conv1_biases :: "int list" where
  "conv1_biases = replicate 16 128"

definition conv2_biases :: "int list" where
  "conv2_biases = replicate 24 128"

definition fc1_biases :: "int list" where
  "fc1_biases = replicate 150 128"

definition fc2_biases :: "int list" where
  "fc2_biases = replicate 10 1024"

text \<open>A layer's input is a separate buffer or the part of the memory from a base on.\<close>

definition from_buf :: "i8 list \<Rightarrow> i8 list \<Rightarrow> int \<Rightarrow> i8 option" where
  "from_buf buf mem i = rdi buf i"

definition from_mem :: "int \<Rightarrow> i8 list \<Rightarrow> int \<Rightarrow> i8 option" where
  "from_mem base mem i = rdi mem (base + i)"

definition propagate :: "weights \<Rightarrow> i8 list \<Rightarrow> i8 list \<Rightarrow> int list \<times> i8 \<Rightarrow> ((int list \<times> i8) \<times> i8 list) option" where
  "propagate w inputs mem outs = do {
     let conv1_output = CONT_OFFSET CONV1_MEM;
     mem \<leftarrow> convcellPropagate1 (from_buf inputs) conv1_output conv1_biases (conv1_weights w) CONV1 ENV_MEM CONV1_MEM mem;
     let conv2_output = CONT_OFFSET CONV2_MEM;
     mem \<leftarrow> convcellPropagate1 (from_mem conv1_output) conv2_output conv2_biases (conv2_weights w) CONV2 CONV1_MEM CONV2_MEM mem;
     let fc1_output = CONT_OFFSET FC1_MEM;
     mem \<leftarrow> fccellPropagateUDATA_T (from_mem conv2_output) fc1_output fc1_biases (fc1_weights w) FC1 CONV2_MEM mem;
     let fc2_output = CONT_OFFSET FC2_MEM;
     mem \<leftarrow> fccellPropagateDATA_T (from_mem fc1_output) fc2_output fc2_biases (fc2_weights w) FC2 FC1_MEM mem;
     outs \<leftarrow> maxPropagate1 (from_mem fc2_output mem) 10 1 1 FC2_MEM outs;
     Some (outs, mem)
   }"

section \<open>The network on tensors\<close>

definition net1 :: "weights \<Rightarrow> i8 list \<Rightarrow> nat \<Rightarrow> nat \<Rightarrow> nat \<Rightarrow> i8" where
  "net1 w inputs oy ox out =
     sat (conv_sum (\<lambda>y x c. inputs ! (x + 24 * y)) conv1_biases (conv1_weights w) 1 4 4 2 2 oy ox out) Rectifier 8"

definition net2 :: "weights \<Rightarrow> i8 list \<Rightarrow> nat \<Rightarrow> nat \<Rightarrow> nat \<Rightarrow> i8" where
  "net2 w inputs oy ox out = sat (conv_sum (net1 w inputs) conv2_biases (conv2_weights w) 16 5 5 2 2 oy ox out) Rectifier 8"

definition net3 :: "weights \<Rightarrow> i8 list \<Rightarrow> nat \<Rightarrow> i8" where
  "net3 w inputs out = sat (conv_sum (net2 w inputs) fc1_biases (fc1_weights w) 24 4 4 0 0 0 0 out) Rectifier 8"

definition net4 :: "weights \<Rightarrow> i8 list \<Rightarrow> nat \<Rightarrow> i8" where
  "net4 w inputs out =
     sat (conv_sum (\<lambda>_ _ c. net3 w inputs c) fc2_biases (fc2_weights w) 150 1 1 0 0 0 0 out) Linear 11"

section \<open>The layers in the memory plan\<close>

lemma plain_layers: "plain CONV1 1 24 24 4 4 2 2" "plain CONV2 16 11 11 5 5 2 2"
  by (simp_all add: plain_def CONV1_def CONV2_def OUTPUTS_HEIGHT_NOPAD_def OUTPUTS_WIDTH_NOPAD_def)

lemma pixel_env: "pixel ENV_MEM 24 y x = int x + 24 * int y"
  by (simp add: pixel_def wrapped_def ENV_MEM_def)

lemma pixel_conv1: "pixel CONV1_MEM 11 y x = (if 9 \<le> y then 16 * (int x + 11 * int y) - 2160 else 16 * (int x + 11 * int y))"
  if "x < 11"
  using that by (auto simp: pixel_def wrapped_def CONV1_MEM_def)

lemma pixel_conv2: "pixel CONV2_MEM W y x = 24 * (int x + int W * int y)"
  by (simp add: pixel_def wrapped_def CONV2_MEM_def)

lemma pixel_fc1: "pixel FC1_MEM W y x = 150 * (int x + int W * int y)"
  by (simp add: pixel_def wrapped_def FC1_MEM_def)

lemma strides: "STRIDE ENV_MEM = 1" "STRIDE CONV1_MEM = 16" "STRIDE CONV2_MEM = 24" "STRIDE FC1_MEM = 150"
  by (simp_all add: ENV_MEM_def CONV1_MEM_def CONV2_MEM_def FC1_MEM_def)

lemma whole_lines: "lines_whole ENV_MEM 24 24" "lines_whole CONV1_MEM 11 11" "lines_whole CONV2_MEM 4 4" "lines_whole FC1_MEM 1 1"
  by (auto simp: lines_whole_def pixel_env pixel_conv1 pixel_conv2 pixel_fc1 strides)

lemma no_wrap: "WRAP_SIZE ENV_MEM \<le> 0" "WRAP_SIZE CONV2_MEM \<le> 0" "WRAP_SIZE FC1_MEM \<le> 0"
  by (simp_all add: ENV_MEM_def CONV2_MEM_def FC1_MEM_def)

lemma out_addr_conv1:
  assumes "ox < 11" "out < 16"
  shows "out_addr CONV1_MEM 576 11 (oy, ox, out) = (if 9 \<le> oy then 16 * (ox + 11 * oy) + out - 1584 else 576 + 16 * (ox + 11 * oy) + out)"
  using assms by (auto simp: out_addr_def pixel_conv1)

lemma out_addr_conv2: "out_addr CONV2_MEM 352 4 (oy, ox, out) = 352 + 24 * (ox + 4 * oy) + out"
  by (simp add: out_addr_def pixel_conv2)

text \<open>Distinct outputs have distinct addresses.\<close>

lemma digits3:
  assumes "n * (x + m * y) + c = n * (x' + m * y') + (c' :: nat)" "x < m" "x' < m" "c < n" "c' < n"
  shows "x = x' \<and> y = y' \<and> c = c'"
proof -
  have c: "c = c'" using arg_cong [OF assms(1), of "\<lambda>k. k mod n"] assms(4,5) by simp
  then have e: "x + m * y = x' + m * y'" using assms(1,4) by simp
  have "x = x'" using arg_cong [OF e, of "\<lambda>k. k mod m"] assms(2,3) by simp
  then show ?thesis using e c assms(2) by simp
qed

lemma conv1_distinct: "distinct (map (out_addr CONV1_MEM 576 11) (conv_cells 11 11 16))"
proof -
  have "inj_on (out_addr CONV1_MEM 576 11) (set (conv_cells 11 11 16))"
  proof (rule inj_onI, clarsimp simp: conv_cells_def)
    fix y x c y' x' c' :: nat
    assume l: "y < 11" "x < 11" "c < 16" "y' < 11" "x' < 11" "c' < 16"
      and e: "out_addr CONV1_MEM 576 11 (y, x, c) = out_addr CONV1_MEM 576 11 (y', x', c')"
    have "9 \<le> y \<longleftrightarrow> 9 \<le> y'"
      using e l unfolding out_addr_conv1 [OF l(2,3)] out_addr_conv1 [OF l(5,6)] by (auto split: if_splits)
    then have "16 * (x + 11 * y) + c = 16 * (x' + 11 * y') + c'"
      using e l unfolding out_addr_conv1 [OF l(2,3)] out_addr_conv1 [OF l(5,6)] by (auto split: if_splits)
    from digits3 [OF this] l show "y = y' \<and> x = x' \<and> c = c'" by simp
  qed
  then show ?thesis by (simp add: distinct_map conv_cells_def distinct_product)
qed

lemma conv2_distinct: "distinct (map (out_addr CONV2_MEM 352 4) (conv_cells 4 4 24))"
proof -
  have "inj_on (out_addr CONV2_MEM 352 4) (set (conv_cells 4 4 24))"
  proof (rule inj_onI, clarsimp simp: conv_cells_def)
    fix y x c y' x' c' :: nat
    assume l: "y < 4" "x < 4" "c < 24" "y' < 4" "x' < 4" "c' < 24"
      and e: "out_addr CONV2_MEM 352 4 (y, x, c) = out_addr CONV2_MEM 352 4 (y', x', c')"
    then have "24 * (x + 4 * y) + c = 24 * (x' + 4 * y') + c'" by (simp add: out_addr_conv2)
    from digits3 [OF this] l show "y = y' \<and> x = x' \<and> c = c'" by simp
  qed
  then show ?thesis by (simp add: distinct_map conv_cells_def distinct_product)
qed

section \<open>The layers\<close>

lemma rdi_int: "rdi xs (int k) = rd xs k"
  by (simp add: rdi_def)

text \<open>The memory after a layer holds the layer's tensor.\<close>

lemma conv1_step:
  assumes "length inputs = 576" "length mem = 2160" "length (conv1_weights w) = 256"
  shows "\<exists>mem'. convcellPropagate1 (from_buf inputs) 576 conv1_biases (conv1_weights w) CONV1 ENV_MEM CONV1_MEM mem = Some mem'
    \<and> length mem' = 2160
    \<and> (\<forall>oy < 11. \<forall>ox < 11. \<forall>out < 16. mem' ! out_addr CONV1_MEM 576 11 (oy, ox, out) = net1 w inputs oy ox out)"
proof -
  have "\<exists>mem'. convcellPropagate1 (from_buf inputs) 576 conv1_biases (conv1_weights w) CONV1 ENV_MEM CONV1_MEM mem = Some mem'
    \<and> agree_off (out_addr CONV1_MEM 576 11 ` set (conv_cells 11 11 16)) mem mem'
    \<and> (\<forall>oy < 11. \<forall>ox < 11. \<forall>out < 16. mem' ! out_addr CONV1_MEM 576 11 (oy, ox, out)
         = sat (conv_sum (\<lambda>y x c. inputs ! (x + 24 * y)) conv1_biases (conv1_weights w) 1 4 4 2 2 oy ox out) (ACTIVATION CONV1) (rescaling CONV1))"
  proof (rule conv_layer_result [OF plain_layers(1) _ _ _ whole_lines(1) _ _ _ _ _ _ _ _ conv1_distinct])
    show "holds (from_buf inputs mem') ENV_MEM {oy * 2..<oy * 2 + 4} 24 1 (\<lambda>y x c. inputs ! (x + 24 * y))"
      if "oy < 11" for oy mem'
      using that assms(1) by (auto simp: holds_def pixel_env from_buf_def rdi_def rd_def nat_add_distrib nat_mult_distrib)
    show "out_addr CONV1_MEM 576 11 c < length mem" if "c \<in> set (conv_cells 11 11 16)" for c
      using that assms(2) by (auto simp: conv_cells_def out_addr_conv1)
    show "0 \<le> 576 + pixel CONV1_MEM 11 oy ox" if "oy < 11" "ox < 11" for oy ox
      using that by (simp add: pixel_conv1)
  qed (use assms no_wrap in \<open>simp_all add: CONV1_def conv1_biases_def\<close>)
  then show ?thesis using assms(2) by (auto simp: agree_off_def net1_def CONV1_def)
qed

lemma conv2_step:
  assumes "length mem = 2160" "length (conv2_weights w) = 9600"
    and m: "\<forall>oy < 11. \<forall>ox < 11. \<forall>out < 16. mem ! out_addr CONV1_MEM 576 11 (oy, ox, out) = net1 w inputs oy ox out"
  shows "\<exists>mem'. convcellPropagate1 (from_mem 576) 352 conv2_biases (conv2_weights w) CONV2 CONV1_MEM CONV2_MEM mem = Some mem'
    \<and> length mem' = 2160
    \<and> (\<forall>oy < 4. \<forall>ox < 4. \<forall>out < 24. mem' ! (352 + 24 * (ox + 4 * oy) + out) = net2 w inputs oy ox out)"
proof -
  have "\<exists>mem'. convcellPropagate1 (from_mem 576) 352 conv2_biases (conv2_weights w) CONV2 CONV1_MEM CONV2_MEM mem = Some mem'
    \<and> agree_off (out_addr CONV2_MEM 352 4 ` set (conv_cells 4 4 24)) mem mem'
    \<and> (\<forall>oy < 4. \<forall>ox < 4. \<forall>out < 24. mem' ! out_addr CONV2_MEM 352 4 (oy, ox, out)
         = sat (conv_sum (net1 w inputs) conv2_biases (conv2_weights w) 16 5 5 2 2 oy ox out) (ACTIVATION CONV2) (rescaling CONV2))"
  proof (rule conv_layer_result [OF plain_layers(2) _ _ _ whole_lines(2) _ _ _ _ _ _ _ _ conv2_distinct])
    show "holds (from_mem 576 mem') CONV1_MEM {oy * 2..<oy * 2 + 5} 11 16 (net1 w inputs)"
      if oy: "oy < 4" and ag: "agree_off (out_addr CONV2_MEM 352 4 ` {c \<in> set (conv_cells 4 4 24). fst c \<le> oy}) mem mem'" for oy mem'
      unfolding holds_def
    proof (intro ballI allI impI)
      fix y x c :: nat assume l: "y \<in> {oy * 2..<oy * 2 + 5}" "x < 11" "c < 16"
      let ?a = "out_addr CONV1_MEM 576 11 (y, x, c)"
      have a: "?a = (if 9 \<le> y then 16 * (x + 11 * y) + c - 1584 else 576 + 16 * (x + 11 * y) + c)" by (rule out_addr_conv1 [OF l(2,3)])
      have "0 \<le> 576 + (pixel CONV1_MEM 11 y x + int c)" using l by (simp add: pixel_conv1)
      then have ia: "576 + (pixel CONV1_MEM 11 y x + int c) = int ?a" by (simp add: out_addr_def)
      have "?a \<noteq> out_addr CONV2_MEM 352 4 d" if "d \<in> set (conv_cells 4 4 24)" "fst d \<le> oy" for d
        using that oy l unfolding a by (cases d rule: prod_cases3) (auto simp: conv_cells_def out_addr_conv2 split: if_splits)
      then have "?a \<notin> out_addr CONV2_MEM 352 4 ` {c \<in> set (conv_cells 4 4 24). fst c \<le> oy}"
        by blast
      then have "mem' ! ?a = net1 w inputs y x c" using ag m oy l by (simp add: agree_off_def)
      moreover have "?a < length mem'" using ag assms(1) oy l unfolding a by (auto simp: agree_off_def)
      ultimately show "from_mem 576 mem' (pixel CONV1_MEM 11 y x + int c) = Some (net1 w inputs y x c)"
        unfolding from_mem_def ia by (simp add: rdi_def)
    qed
    show "out_addr CONV2_MEM 352 4 c < length mem" if "c \<in> set (conv_cells 4 4 24)" for c
      using that assms(1) by (auto simp: conv_cells_def out_addr_conv2)
  qed (use assms(2) in \<open>simp_all add: CONV2_def conv2_biases_def pixel_conv2\<close>)
  then show ?thesis using assms(1) by (auto simp: agree_off_def net2_def CONV2_def out_addr_conv2)
qed

lemma fc1_step:
  assumes "length mem = 2160" "length (fc1_weights w) = 57600"
    and m: "\<forall>oy < 4. \<forall>ox < 4. \<forall>out < 24. mem ! (352 + 24 * (ox + 4 * oy) + out) = net2 w inputs oy ox out"
  shows "\<exists>mem'. fccellPropagateUDATA_T (from_mem 352) 736 fc1_biases (fc1_weights w) FC1 CONV2_MEM mem = Some mem'
    \<and> length mem' = 2160 \<and> (\<forall>out < 150. mem' ! (736 + out) = net3 w inputs out)"
proof -
  have "\<exists>mem'. foldm (\<lambda>och. fc_cell (from_mem 352) (int 736) fc1_biases (fc1_weights w) FC1 CONV2_MEM (int och)) [0..<150] mem = Some mem'
    \<and> agree_off {736..<736 + 150} mem mem'
    \<and> (\<forall>och < 150. mem' ! (736 + och) = sat (conv_sum (net2 w inputs) fc1_biases (fc1_weights w) 24 4 4 0 0 0 0 och) (ACTIVATION FC1) (rescaling FC1))"
  proof (rule fc_layer_result [OF _ _ _ _ whole_lines(3)])
    show "holds (from_mem 352 mem') CONV2_MEM {..<4} 4 24 (net2 w inputs)" if ag: "agree_off {736..<736 + 150} mem mem'" for mem'
      unfolding holds_def
    proof (intro ballI allI impI)
      fix y x c :: nat assume l: "y \<in> {..<4}" "x < 4" "c < 24"
      have ia: "352 + (pixel CONV2_MEM 4 y x + int c) = int (352 + 24 * (x + 4 * y) + c)" by (simp add: pixel_conv2)
      show "from_mem 352 mem' (pixel CONV2_MEM 4 y x + int c) = Some (net2 w inputs y x c)"
        unfolding from_mem_def ia rdi_int using ag assms(1) m l by (simp add: agree_off_def rd_def)
    qed
  qed (use assms no_wrap in \<open>simp_all add: FC1_def fc1_biases_def\<close>)
  then show ?thesis
    using assms(1) by (auto simp: agree_off_def net3_def FC1_def fccellPropagateUDATA_T_def for_loop_foldm)
qed

lemma fc2_step:
  assumes "length mem = 2160" "length (fc2_weights w) = 1500"
    and m: "\<forall>out < 150. mem ! (736 + out) = net3 w inputs out"
  shows "\<exists>mem'. fccellPropagateDATA_T (from_mem 736) 886 fc2_biases (fc2_weights w) FC2 FC1_MEM mem = Some mem'
    \<and> length mem' = 2160 \<and> (\<forall>out < 10. mem' ! (886 + out) = net4 w inputs out)"
proof -
  have "\<exists>mem'. foldm (\<lambda>och. fc_cell (from_mem 736) (int 886) fc2_biases (fc2_weights w) FC2 FC1_MEM (int och)) [0..<10] mem = Some mem'
    \<and> agree_off {886..<886 + 10} mem mem'
    \<and> (\<forall>och < 10. mem' ! (886 + och)
         = sat (conv_sum (\<lambda>_ _ c. net3 w inputs c) fc2_biases (fc2_weights w) 150 1 1 0 0 0 0 och) (ACTIVATION FC2) (rescaling FC2))"
  proof (rule fc_layer_result [OF _ _ _ _ whole_lines(4)])
    show "holds (from_mem 736 mem') FC1_MEM {..<1} 1 150 (\<lambda>_ _ c. net3 w inputs c)" if ag: "agree_off {886..<886 + 10} mem mem'" for mem'
      unfolding holds_def
    proof (intro ballI allI impI)
      fix y x c :: nat assume l: "y \<in> {..<1}" "x < 1" "c < 150"
      have ia: "736 + (pixel FC1_MEM 1 y x + int c) = int (736 + c)" using l by (simp add: pixel_fc1)
      show "from_mem 736 mem' (pixel FC1_MEM 1 y x + int c) = Some (net3 w inputs c)"
        unfolding from_mem_def ia rdi_int using ag assms(1) m l by (simp add: agree_off_def rd_def)
    qed
  qed (use assms no_wrap in \<open>simp_all add: FC2_def fc2_biases_def\<close>)
  then show ?thesis
    using assms(1) by (auto simp: agree_off_def net4_def FC2_def fccellPropagateDATA_T_def for_loop_foldm)
qed

section \<open>The arg max\<close>

text \<open>\<open>k\<close> is the first of the \<open>n\<close> channels with the largest signed value.\<close>

definition first_max :: "(nat \<Rightarrow> i8) \<Rightarrow> nat \<Rightarrow> nat \<Rightarrow> bool" where
  "first_max f n k = (k < n \<and> (\<forall>j < k. f j <s f k) \<and> (\<forall>j < n. f j \<le>s f k))"

lemma first_max_unique: "first_max f n k \<Longrightarrow> first_max f n k' \<Longrightarrow> k = k'"
  unfolding first_max_def word_sless_alt word_sle_eq by (metis linorder_neqE_nat not_less)

lemma first_max_Suc: "first_max f n k \<Longrightarrow> first_max f (Suc n) (if f k <s f n then n else k)"
  by (auto simp: first_max_def less_Suc_eq word_sless_alt word_sle_eq intro: order.strict_trans1 order_trans less_imp_le
      dest: spec)

lemma max_channels_step:
  assumes "\<And>j. j < m + n \<Longrightarrow> inp (off + int j) = Some (f j)" and "first_max f m k"
  shows "\<exists>k'. first_max f (m + n) k' \<and> max_channels inp off n (int m) (int k, f k) = Some (int k', f k')"
  using assms
proof (induction n arbitrary: m k)
  case (Suc n)
  let ?k = "if f k <s f m then m else k"
  have "\<exists>k'. first_max f (Suc m + n) k' \<and> max_channels inp off n (int (Suc m)) (int ?k, f ?k) = Some (int k', f k')"
    by (rule Suc.IH) (use Suc.prems first_max_Suc in auto)
  then show ?case using Suc.prems(1) [of m] by (auto simp: add.commute [of 1] split: if_splits)
qed auto

lemma max_channels_first_max:
  assumes "\<And>j. j < n \<Longrightarrow> inp (off + int j) = Some (f j)" and "0 < n"
  shows "\<exists>k. first_max f n k \<and> max_channels inp off n 0 (0, -128) = Some (int k, f k)"
proof -
  obtain m where m: "n = Suc m" using assms(2) by (cases n) auto
  have "\<not> (-128 <s f 0) \<Longrightarrow> f 0 = -128"
    using sint_ge [of "f 0"] by (auto simp: word_sless_alt intro!: signed_word_eqI)
  then have "(if -128 <s f 0 then (0 :: int, f 0) else (0, -128)) = (0, f 0)" by auto
  then have "max_channels inp off n 0 (0, -128) = max_channels inp off m (int 1) (int 0, f 0)"
    using assms(1) [of 0] m by auto
  moreover have "first_max f 1 0" by (simp add: first_max_def)
  ultimately show ?thesis using max_channels_step [of 1 m inp off f 0] assms(1) m by simp
qed

section \<open>The network\<close>

text \<open>The weights have the sizes that the headers declare.\<close>

definition sized :: "weights \<Rightarrow> bool" where
  "sized w = (length (conv1_weights w) = 256 \<and> length (conv2_weights w) = 9600
     \<and> length (fc1_weights w) = 57600 \<and> length (fc2_weights w) = 1500)"

lemma max_step:
  assumes "length mem = 2160" and m: "\<forall>out < 10. mem ! (886 + out) = f out"
  shows "\<exists>k. first_max f 10 k \<and> maxPropagate1 (from_mem 886 mem) 10 1 1 FC2_MEM ([p], v) = Some ([int k], f k)"
proof -
  have "from_mem 886 mem (0 + int j) = Some (f j)" if "j < 10" for j
  proof -
    have ia: "886 + (0 + int j) = int (886 + j)" by simp
    show ?thesis unfolding from_mem_def ia rdi_int using that assms by (simp add: rd_def)
  qed
  from max_channels_first_max [of 10 "from_mem 886 mem" 0 f, OF this] obtain k where
    k: "first_max f 10 k" "max_channels (from_mem 886 mem) 0 10 0 (0, -128) = Some (int k, f k)" by auto
  then show ?thesis
    by (intro exI [of _ k]) (simp add: maxPropagate1_def wrapped_def FC2_MEM_def wri_def wr_def)
qed

lemma propagate_net:
  assumes "sized w" "length inputs = 576" "length mem = MEMORY_SIZE"
  shows "\<exists>k mem'. propagate w inputs mem ([p], v) = Some (([int k], net4 w inputs k), mem')
    \<and> first_max (net4 w inputs) 10 k \<and> length mem' = MEMORY_SIZE"
proof -
  have l: "length mem = 2160" "length (conv1_weights w) = 256" "length (conv2_weights w) = 9600"
    "length (fc1_weights w) = 57600" "length (fc2_weights w) = 1500"
    using assms by (simp_all add: sized_def MEMORY_SIZE_def)
  have off: "CONT_OFFSET CONV1_MEM = 576" "CONT_OFFSET CONV2_MEM = 352" "CONT_OFFSET FC1_MEM = 736" "CONT_OFFSET FC2_MEM = 886"
    by (simp_all add: CONV1_MEM_def CONV2_MEM_def FC1_MEM_def FC2_MEM_def)
  obtain m1 where m1: "convcellPropagate1 (from_buf inputs) 576 conv1_biases (conv1_weights w) CONV1 ENV_MEM CONV1_MEM mem = Some m1"
    "length m1 = 2160" "\<forall>oy < 11. \<forall>ox < 11. \<forall>out < 16. m1 ! out_addr CONV1_MEM 576 11 (oy, ox, out) = net1 w inputs oy ox out"
    using conv1_step [OF assms(2) l(1,2)] by blast
  obtain m2 where m2: "convcellPropagate1 (from_mem 576) 352 conv2_biases (conv2_weights w) CONV2 CONV1_MEM CONV2_MEM m1 = Some m2"
    "length m2 = 2160" "\<forall>oy < 4. \<forall>ox < 4. \<forall>out < 24. m2 ! (352 + 24 * (ox + 4 * oy) + out) = net2 w inputs oy ox out"
    using conv2_step [OF m1(2) l(3) m1(3)] by blast
  obtain m3 where m3: "fccellPropagateUDATA_T (from_mem 352) 736 fc1_biases (fc1_weights w) FC1 CONV2_MEM m2 = Some m3"
    "length m3 = 2160" "\<forall>out < 150. m3 ! (736 + out) = net3 w inputs out"
    using fc1_step [OF m2(2) l(4) m2(3)] by blast
  obtain m4 where m4: "fccellPropagateDATA_T (from_mem 736) 886 fc2_biases (fc2_weights w) FC2 FC1_MEM m3 = Some m4"
    "length m4 = 2160" "\<forall>out < 10. m4 ! (886 + out) = net4 w inputs out"
    using fc2_step [OF m3(2) l(5) m3(3)] by blast
  obtain k where k: "first_max (net4 w inputs) 10 k"
    "maxPropagate1 (from_mem 886 m4) 10 1 1 FC2_MEM ([p], v) = Some ([int k], net4 w inputs k)"
    using max_step [OF m4(2,3)] by blast
  show ?thesis
    by (intro exI [of _ k] exI [of _ m4])
      (simp add: propagate_def off m1(1) m2(1) m3(1) m4(1) k m4(2) MEMORY_SIZE_def)
qed

text \<open>
  C2: \<open>propagate\<close> never reads or writes outside its arrays, its sums never overflow, and it returns the
  first class with the largest score of the four-layer network computed on separate tensors, and that
  score: the layers share 2160 bytes without destroying a value that is still needed.
\<close>

theorem propagate_computes_network:
  assumes "sized w" "length inputs = 576" "length mem = MEMORY_SIZE"
  shows "\<exists>k mem'. propagate w inputs mem ([p], v) = Some (([int k], net4 w inputs k), mem')
    \<and> first_max (net4 w inputs) 10 k \<and> length mem' = MEMORY_SIZE"
  by (rule propagate_net) (fact assms)+

definition zero_weights :: weights where
  "zero_weights = \<lparr>conv1_weights = replicate 256 0, conv2_weights = replicate 9600 0,
     fc1_weights = replicate 57600 0, fc2_weights = replicate 1500 0\<rparr>"

theorem propagate_computes_network_witness:
  "sized zero_weights \<and> (\<exists>k mem'. propagate zero_weights (replicate 576 7) (replicate 2160 0) ([99], 0)
    = Some (([int k], net4 zero_weights (replicate 576 7) k), mem')
    \<and> first_max (net4 zero_weights (replicate 576 7)) 10 k \<and> length mem' = MEMORY_SIZE)"
proof -
  have s: "sized zero_weights" by (simp add: sized_def zero_weights_def)
  show ?thesis
    using s propagate_computes_network [OF s, of "replicate 576 7" "replicate 2160 0" 99 0] by (simp add: MEMORY_SIZE_def)
qed

end
