(* ===== verification/MnistInput.thy ===== *)
theory MnistInput
  imports MnistMain
begin

text \<open>
  The reading of the image (\<open>cpp_utils.c\<close>) and \<open>main.c\<close> of \<open>sw/app/mnist\<close>. The image file is a byte
  array in the program: a PGM header of 13 bytes, 576 pixels and the expected class in four bytes,
  least significant first. The static read index, the arguments of \<open>memcpy\<close> and the comparisons have
  the 32 bits of the target; \<open>None\<close> is undefined behaviour.
\<close>

section \<open>Reading\<close>

datatype message = Out_of_bounds | Unknown_format | Size_mismatch | Data_count | Target_count | Eof_not_reached

record reader =
  mnist_input_idx :: i32
  printed :: "message list"

definition say :: "message \<Rightarrow> reader \<Rightarrow> reader" where
  "say msg r = r\<lparr>printed := printed r @ [msg]\<rparr>"

text \<open>The source bytes of a \<open>memcpy\<close>.\<close>

definition bytes_at :: "i8 list \<Rightarrow> i32 \<Rightarrow> i32 \<Rightarrow> i8 list option" where
  "bytes_at img idx n = (if 0 \<le> sint idx \<and> nat (sint idx) + unat n \<le> length img
     then Some (take (unat n) (drop (nat (sint idx)) img)) else None)"

text \<open>\<open>dst\<close> says that the pointer is not null; the result has the returned count and the copied bytes.\<close>

definition read_mnist_input :: "i8 list \<Rightarrow> bool \<Rightarrow> i32 \<Rightarrow> i32 \<Rightarrow> reader \<Rightarrow> ((i32 \<times> i8 list) \<times> reader) option" where
  "read_mnist_input img dst sz n r =
     (if mnist_input_idx r + sz * n \<le> of_nat (length img)
      then do {
        bs \<leftarrow> (if dst then bytes_at img (mnist_input_idx r) (sz * n) else Some []);
        Some ((n, bs), r\<lparr>mnist_input_idx := mnist_input_idx r + sz * n\<rparr>)
      }
      else Some ((-1, []), say Out_of_bounds r))"

definition feof_mnist_input :: "i8 list \<Rightarrow> reader \<Rightarrow> bool" where
  "feof_mnist_input img r = (mnist_input_idx r = of_nat (length img))"

text \<open>What \<open>memcpy\<close> leaves in a destination of bytes, and of \<open>int32_t\<close>s.\<close>

definition blit :: "i8 list \<Rightarrow> i8 list \<Rightarrow> i8 list option" where
  "blit bs data = (if length bs \<le> length data then Some (bs @ drop (length bs) data) else None)"

definition le32 :: "i8 list \<Rightarrow> int" where
  "le32 bs = sint (word_rcat (rev bs) :: i32)"

fun blit32 :: "i8 list \<Rightarrow> int list \<Rightarrow> int list option" where
  "blit32 [] ts = Some ts"
| "blit32 (a # b # c # d # bs) (t # ts) = map_option ((#) (le32 [a, b, c, d])) (blit32 bs ts)"
| "blit32 _ _ = None"

text \<open>A header that was not read is indeterminate.\<close>

definition known_format :: "i8 list \<Rightarrow> bool" where
  "known_format h = (h ! 0 = 0x50 \<and> (h ! 1 = 0x35 \<or> h ! 1 = 0x36))"

definition envRead ::
  "i8 list \<Rightarrow> i32 \<Rightarrow> i32 \<Rightarrow> i32 \<Rightarrow> i8 list \<Rightarrow> i32 \<Rightarrow> int list \<Rightarrow> reader \<Rightarrow> ((i8 list \<times> int list) \<times> reader) option" where
  "envRead img sz channelsHeight channelsWidth data outputsSize outputTargets r = do {
     ((_, header), r) \<leftarrow> read_mnist_input img True 1 2 r;
     header \<leftarrow> (if length header = 2 then Some header else None);
     if \<not> known_format header then Some ((data, outputTargets), say Unknown_format r)
     else do {
       (_, r) \<leftarrow> read_mnist_input img False 1 11 r;
       if 24 \<noteq> channelsWidth \<or> 24 \<noteq> channelsHeight then Some ((data, outputTargets), say Size_mismatch r)
       else do {
         ((nbRead, bs), r) \<leftarrow> read_mnist_input img True 1 sz r;
         data \<leftarrow> blit bs data;
         let r = (if nbRead \<noteq> sz then say Data_count r else r);
         ((nbRead, bs), r) \<leftarrow> read_mnist_input img True 4 outputsSize r;
         outputTargets \<leftarrow> blit32 bs outputTargets;
         let r = (if nbRead \<noteq> outputsSize then say Target_count r else r);
         let r = (if \<not> feof_mnist_input img r then say Eof_not_reached r else r);
         Some ((data, outputTargets), r)
       }
     }
   }"

section \<open>The program\<close>

definition readStimulus :: "i8 list \<Rightarrow> i8 list \<Rightarrow> int list \<Rightarrow> reader \<Rightarrow> ((i8 list \<times> int list) \<times> reader) option" where
  "readStimulus img inputBuffer expectedOutputBuffer r = envRead img (24 * 24 * 1) 24 24 inputBuffer 1 expectedOutputBuffer r"

text \<open>The counts of predictions and of valid ones, over the outputs.\<close>

definition count_valid :: "int list \<Rightarrow> int list \<Rightarrow> nat \<Rightarrow> nat \<times> nat \<Rightarrow> (nat \<times> nat) option" where
  "count_valid expected predicted i = (\<lambda>(nb, valid). do {
     e \<leftarrow> rd expected i;
     if 0 \<le> e then do {
       p \<leftarrow> rd predicted i;
       Some (Suc nb, if p = e then Suc valid else valid)
     } else Some (nb, valid)
   })"

definition processInput ::
  "weights \<Rightarrow> i8 list \<Rightarrow> i8 list \<Rightarrow> int list \<Rightarrow> int list \<times> i8 \<Rightarrow> (nat \<times> (int list \<times> i8) \<times> i8 list) option" where
  "processInput w mem inputBuffer expected outs = do {
     (outs, mem) \<leftarrow> propagate w inputBuffer mem outs;
     (nbPredictions, nbValidPredictions) \<leftarrow> for_loop 0 1 (count_valid expected (fst outs)) (0, 0);
     Some (if 0 < nbPredictions then nbValidPredictions else 0, outs, mem)
   }"

text \<open>What \<open>main\<close> prints; \<open>csr\<close> gives the successive readings of \<open>minstret\<close> and \<open>mcycle\<close>.\<close>

record summary =
  Expected :: int
  Predicted :: int
  Result :: nat
  credence :: int
  instructions :: int
  cycles :: int

definition mnist_main ::
  "(nat \<Rightarrow> i32 \<times> i32) \<Rightarrow> weights \<Rightarrow> i8 list \<Rightarrow> i8 list \<Rightarrow> i8 list \<Rightarrow> int \<times> int \<times> i8 \<Rightarrow> reader \<Rightarrow> (summary \<times> reader) option" where
  "mnist_main csr w mem img inputBuffer junk r = do {
     let (e0, p0, v0) = junk;
     ((inputBuffer, expected), r) \<leftarrow> readStimulus img inputBuffer [e0] r;
     let instret = - fst (csr 0);
     let cycs = - snd (csr 0);
     (success, (predicted, output_value), mem) \<leftarrow> processInput w mem inputBuffer expected ([p0], v0);
     let instret = instret + fst (csr 1);
     let cycs = cycs + snd (csr 1);
     e \<leftarrow> rd expected 0;
     p \<leftarrow> rd predicted 0;
     Some (\<lparr>Expected = e, Predicted = p, Result = success, credence = uint output_value,
       instructions = sint instret, cycles = sint cycs\<rparr>, r)
   }"

section \<open>The image\<close>

definition env0003 :: "i8 list" where
  "env0003 = [
     80, 53, 10, 50, 52, 32, 50, 52, 10, 50, 53, 53, 10, 0, 0, 0, 0, 0, 0, 0, 0, 0, 0, 0,
     0, 0, 0, 0, 0, 0, 0, 0, 0, 0, 0, 0, 0, 0, 0, 0, 0, 0, 0, 0, 0, 0, 0, 0,
     0, 0, 0, 0, 0, 0, 0, 0, 0, 0, 0, 0, 0, 0, 0, 0, 0, 0, 0, 0, 0, 0, 0, 0,
     0, 0, 0, 0, 0, 0, 0, 0, 0, 0, 0, 0, 0, 0, 0, 0, 0, 0, 0, 0, 0, 5, 4, 0,
     0, 0, 0, 0, 0, 0, 2, 210, 66, 0, 0, 0, 0, 0, 0, 0, 0, 0, 0, 0, 7, 179, 135, 0,
     0, 0, 0, 0, 0, 0, 100, 254, 92, 0, 0, 0, 0, 0, 0, 0, 0, 0, 0, 0, 111, 254, 157, 0,
     0, 0, 0, 0, 0, 3, 203, 254, 54, 0, 0, 0, 0, 0, 0, 0, 0, 0, 0, 32, 231, 254, 102, 0,
     0, 0, 0, 0, 0, 36, 254, 216, 18, 0, 0, 0, 0, 0, 0, 0, 0, 0, 0, 126, 254, 179, 0, 0,
     0, 0, 0, 0, 0, 172, 254, 59, 0, 0, 0, 0, 0, 0, 0, 0, 0, 0, 46, 252, 234, 18, 0, 0,
     0, 0, 0, 0, 5, 226, 245, 35, 0, 0, 0, 0, 0, 0, 0, 0, 0, 0, 128, 254, 102, 0, 0, 0,
     0, 0, 0, 0, 37, 254, 169, 0, 0, 0, 0, 0, 0, 0, 0, 0, 0, 26, 241, 251, 19, 0, 0, 0,
     0, 0, 0, 0, 170, 254, 85, 0, 0, 0, 0, 0, 0, 0, 0, 0, 0, 46, 254, 194, 0, 0, 0, 0,
     0, 0, 0, 9, 231, 246, 35, 0, 0, 0, 0, 0, 0, 0, 0, 0, 0, 118, 255, 152, 29, 0, 0, 0,
     0, 0, 0, 116, 254, 182, 0, 0, 0, 0, 0, 0, 0, 0, 0, 0, 0, 118, 254, 254, 243, 215, 215, 215,
     202, 185, 133, 209, 254, 131, 0, 17, 0, 0, 0, 0, 0, 0, 0, 0, 0, 62, 243, 254, 254, 254, 254, 254,
     254, 254, 254, 254, 254, 232, 157, 35, 0, 0, 0, 0, 0, 0, 0, 0, 0, 0, 70, 132, 148, 70, 73, 97,
     97, 97, 187, 254, 249, 34, 4, 0, 0, 0, 0, 0, 0, 0, 0, 0, 0, 0, 0, 0, 0, 0, 0, 0,
     0, 0, 174, 254, 113, 0, 0, 0, 0, 0, 0, 0, 0, 0, 0, 0, 0, 0, 0, 0, 0, 0, 0, 0,
     0, 22, 238, 254, 53, 0, 0, 0, 0, 0, 0, 0, 0, 0, 0, 0, 0, 0, 0, 0, 0, 0, 0, 0,
     0, 115, 254, 159, 1, 0, 0, 0, 0, 0, 0, 0, 0, 0, 0, 0, 0, 0, 0, 0, 0, 0, 0, 0,
     0, 174, 254, 97, 0, 0, 0, 0, 0, 0, 0, 0, 0, 0, 0, 0, 0, 0, 0, 0, 0, 0, 0, 0,
     0, 215, 254, 115, 0, 0, 0, 0, 0, 0, 0, 0, 0, 0, 0, 0, 0, 0, 0, 0, 0, 0, 0, 0,
     85, 251, 254, 105, 0, 0, 0, 0, 0, 0, 0, 0, 0, 0, 0, 0, 0, 0, 0, 0, 0, 0, 0, 0,
     84, 242, 136, 10, 0, 0, 0, 0, 0, 0, 0, 0, 0, 0, 0, 0, 0, 0, 0, 0, 0, 0, 0, 0,
     0, 0, 0, 0, 0, 0, 0, 0, 0, 0, 0, 0, 0, 4, 0, 0, 0]"

text \<open>The format of the images: header, pixels, class.\<close>

definition le_bytes :: "int \<Rightarrow> i8 list" where
  "le_bytes n = [word_of_int n, word_of_int (n div 256), word_of_int (n div 65536), word_of_int (n div 16777216)]"

definition pgm :: "i8 list \<Rightarrow> int \<Rightarrow> i8 list" where
  "pgm pixels label = [80, 53, 10, 50, 52, 32, 50, 52, 10, 50, 53, 53, 10] @ pixels @ le_bytes label"

lemma base256: "n mod 256 + 256 * (n div 256 mod 256 + 256 * (n div 65536 mod 256 + 256 * (n div 16777216 mod 256))) = n mod (4294967296 :: int)"
proof -
  have d: "n div 65536 = n div 256 div 256" "n div 16777216 = n div 256 div 256 div 256"
    by (simp_all flip: zdiv_zmult2_eq)
  have 1: "n mod 4294967296 = 256 * (n div 256 mod 16777216) + n mod 256"
    using zmod_zmult2_eq [of 16777216 n 256] by simp
  have 2: "a mod 16777216 = 256 * (a div 256 mod 65536) + a mod 256" for a :: int
    using zmod_zmult2_eq [of 65536 a 256] by simp
  have 3: "a mod 65536 = 256 * (a div 256 mod 256) + a mod 256" for a :: int
    using zmod_zmult2_eq [of 256 a 256] by simp
  show ?thesis unfolding 1 2 3 d by (simp add: distrib_left)
qed

lemma le32_le_bytes:
  assumes "-2147483648 \<le> n" "n \<le> 2147483647"
  shows "le32 (le_bytes n) = n"
proof -
  have "horner_sum uint 256 (le_bytes n)
      = n mod 256 + 256 * (n div 256 mod 256 + 256 * (n div 65536 mod 256 + 256 * (n div 16777216 mod 256)))"
    by (simp add: le_bytes_def unsigned_of_int take_bit_eq_mod)
  also have "\<dots> = n mod 4294967296" by (rule base256)
  finally have "le32 (le_bytes n) = wrap32 (n mod 4294967296)"
    by (simp only: le32_def word_rcat_def o_apply rev_rev_ident sint32_of_int) simp
  also have "\<dots> = n" using assms by (simp add: wrap32_def mod_add_left_eq)
  finally show ?thesis .
qed

lemma length_le_bytes [simp]: "length (le_bytes n) = 4"
  by (simp add: le_bytes_def)

lemma length_pgm [simp]: "length (pgm pixels label) = 17 + length pixels"
  by (simp add: pgm_def)

lemma env0003_pgm: "env0003 = pgm (take 576 (drop 13 env0003)) 4" "length env0003 = 593"
  by (simp_all add: env0003_def pgm_def le_bytes_def)

text \<open>A reader at a position inside the image.\<close>

definition reader_at :: "nat \<Rightarrow> message list \<Rightarrow> reader" where
  "reader_at p msgs = \<lparr>mnist_input_idx = of_nat p, printed = msgs\<rparr>"

lemma reader_idx: "mnist_input_idx (reader_at p msgs) + sz * n = of_nat (p + unat sz * unat n)"
  by (simp add: reader_at_def)

lemma read_at:
  assumes "p + unat sz * unat n \<le> length img" "length img < 2147483648"
  shows "read_mnist_input img dst sz n (reader_at p msgs)
    = Some ((n, if dst then take (unat sz * unat n) (drop p img) else []), reader_at (p + unat sz * unat n) msgs)"
proof -
  let ?k = "unat sz * unat n"
  have u: "unat (of_nat (p + ?k) :: i32) = p + ?k" "unat (of_nat (length img) :: i32) = length img"
    "unat (of_nat ?k :: i32) = ?k"
    by (rule unat_of_nat32; use assms in linarith)+
  have s: "sint (of_nat p :: i32) = int p"
    using assms sint32_of_int [of "int p"] by (simp add: wrap32_id)
  have "(of_nat (p + ?k) :: i32) \<le> of_nat (length img)"
    unfolding word_le_nat_alt u by (rule assms(1))
  moreover have k: "sz * n = of_nat ?k" by simp
  have "bytes_at img (of_nat p) (sz * n) = Some (take ?k (drop p img))"
    unfolding k bytes_at_def u s using assms by simp
  ultimately show ?thesis
    unfolding read_mnist_input_def reader_idx by (simp add: reader_at_def)
qed

lemma read_past:
  assumes "length img < p + unat sz * unat n" "p + unat sz * unat n < 4294967296"
  shows "read_mnist_input img dst sz n (reader_at p msgs) = Some ((-1, []), reader_at p (msgs @ [Out_of_bounds]))"
proof -
  let ?k = "unat sz * unat n"
  have u: "unat (of_nat (p + ?k) :: i32) = p + ?k" "unat (of_nat (length img) :: i32) = length img"
    by (rule unat_of_nat32; use assms in linarith)+
  have "\<not> (of_nat (p + ?k) :: i32) \<le> of_nat (length img)"
    unfolding word_le_nat_alt u using assms(1) by simp
  then show ?thesis
    unfolding read_mnist_input_def reader_idx by (simp add: reader_at_def say_def)
qed

lemma envRead_result:
  assumes "length pixels = 576" "length data = 576" "-2147483648 \<le> label" "label \<le> 2147483647"
  shows "envRead (pgm pixels label) 576 24 24 data 1 [t] (reader_at 0 [])
    = Some ((pixels, [label]), reader_at (length (pgm pixels label)) [])"
proof -
  let ?img = "pgm pixels label"
  have hd: "take 2 ?img = [80, 53]" by (simp add: pgm_def)
  have px: "take 576 (drop 13 ?img) = pixels" "drop 589 ?img = le_bytes label" using assms(1) by (simp_all add: pgm_def)
  have r: "read_mnist_input ?img True 1 2 (reader_at 0 []) = Some ((2, [80, 53]), reader_at 2 [])"
    "read_mnist_input ?img False 1 11 (reader_at 2 []) = Some ((11, []), reader_at 13 [])"
    "read_mnist_input ?img True 1 576 (reader_at 13 []) = Some ((576, pixels), reader_at 589 [])"
    "read_mnist_input ?img True 4 1 (reader_at 589 []) = Some ((1, le_bytes label), reader_at 593 [])"
    using read_at [of 0 1 2 ?img True "[]"] read_at [of 2 1 11 ?img False "[]"]
      read_at [of 13 1 576 ?img True "[]"] read_at [of 589 4 1 ?img True "[]"] assms(1) hd px by (simp_all flip: numeral_2_eq_2)
  have "blit32 (le_bytes label) [t] = Some [label]"
    using le32_le_bytes [OF assms(3,4)] by (simp add: le_bytes_def)
  moreover have "blit pixels data = Some pixels" using assms(1,2) by (simp add: blit_def)
  moreover have "feof_mnist_input ?img (reader_at 593 [])" using assms(1) by (simp add: feof_mnist_input_def reader_at_def)
  ultimately show ?thesis
    using assms(1) by (simp add: envRead_def r known_format_def)
qed

text \<open>
  C26: \<open>envRead\<close> undoes the image format: from an image made of a header, 576 pixels and a class it
  fills the buffer with exactly the pixels and the target with the class, prints nothing, and stands
  at the end of the image.
\<close>

theorem envRead_pgm:
  assumes "length pixels = 576" "length data = 576" "-2147483648 \<le> label" "label \<le> 2147483647"
  shows "envRead (pgm pixels label) 576 24 24 data 1 [t] (reader_at 0 [])
    = Some ((pixels, [label]), reader_at (length (pgm pixels label)) [])"
  by (rule envRead_result) (fact assms)+

theorem envRead_pgm_witness:
  "envRead (pgm (take 576 (drop 13 env0003)) 4) 576 24 24 (replicate 576 0) 1 [0] (reader_at 0 [])
    = Some ((take 576 (drop 13 env0003), [4]), reader_at (length (pgm (take 576 (drop 13 env0003)) 4)) [])"
  by (rule envRead_pgm) (simp_all add: env0003_pgm(2))

lemma list_of_4: "length xs = 4 \<Longrightarrow> (\<And>a b c d. xs = [a, b, c, d] \<Longrightarrow> thesis) \<Longrightarrow> thesis"
  by (auto simp: length_Suc_conv eval_nat_numeral)

lemma feof_at:
  assumes "length img < 4294967296" "p \<le> length img"
  shows "feof_mnist_input img (reader_at p msgs) \<longleftrightarrow> length img = p"
proof -
  have "unat (of_nat p :: i32) = p" "unat (of_nat (length img) :: i32) = length img"
    by (rule unat_of_nat32; use assms in linarith)+
  then show ?thesis by (simp add: feof_mnist_input_def reader_at_def word_unat_eq_iff eq_commute)
qed

lemma say_at: "say msg (reader_at p msgs) = reader_at p (msgs @ [msg])"
  by (simp add: say_def reader_at_def)

text \<open>The class is read at \<open>p\<close>, or the read fails there, and the end of the image is looked at.\<close>

lemma read_class:
  assumes "p \<le> length img" "length img < 2147483648"
  shows "p + 4 \<le> length img \<Longrightarrow> read_mnist_input img True 4 1 (reader_at p msgs) = Some ((1, take 4 (drop p img)), reader_at (p + 4) msgs)"
    and "\<not> p + 4 \<le> length img \<Longrightarrow> read_mnist_input img True 4 1 (reader_at p msgs) = Some ((-1, []), reader_at p (msgs @ [Out_of_bounds]))"
    and "p + 4 \<le> length img \<Longrightarrow> blit32 (take 4 (drop p img)) [t] = Some [le32 (take 4 (drop p img))]"
proof -
  show "read_mnist_input img True 4 1 (reader_at p msgs) = Some ((1, take 4 (drop p img)), reader_at (p + 4) msgs)" if "p + 4 \<le> length img"
    using read_at [of p 4 1 img True msgs] that assms by simp
  show "read_mnist_input img True 4 1 (reader_at p msgs) = Some ((-1, []), reader_at p (msgs @ [Out_of_bounds]))" if "\<not> p + 4 \<le> length img"
    using read_past [of img p 4 1 True msgs] that assms by simp
  show "blit32 (take 4 (drop p img)) [t] = Some [le32 (take 4 (drop p img))]" if "p + 4 \<le> length img"
  proof -
    have "length (take 4 (drop p img)) = 4" using that by simp
    then show ?thesis by (rule list_of_4) simp
  qed
qed

text \<open>
  C38: Every truncated image of a known format, from the two bytes of the format on, is reported and runs into no undefined
  behaviour, but is not harmless. With 589 bytes or more the pixels are read and the class is left as it was. With fewer the
  pixels are not copied; since a failed read does not move the index, the class is then taken from the four bytes where the
  pixels should begin, in a header that is cut off from the four bytes behind the format; only if there are no four bytes
  is it left as it was, too. Where the image ends just behind what was read last, the end counts as reached.
\<close>

theorem envRead_truncated:
  assumes "2 \<le> length img" "length img < 593" "known_format img" "length data = 576"
  shows "let q = (if length img < 13 then 2 else 13);
             early = (if length img < 13 then [Out_of_bounds] else []);
             eof = (\<lambda>p. if length img = p then [] else [Eof_not_reached])
    in envRead img 576 24 24 data 1 [t] (reader_at 0 []) = Some
      (if 589 \<le> length img then ((take 576 (drop 13 img), [t]), reader_at 589 ([Out_of_bounds, Target_count] @ eof 589))
       else if q + 4 \<le> length img
       then ((data, [le32 (take 4 (drop q img))]), reader_at (q + 4) (early @ [Out_of_bounds, Data_count] @ eof (q + 4)))
       else ((data, [t]), reader_at q (early @ [Out_of_bounds, Data_count, Out_of_bounds, Target_count] @ eof q)))"
proof -
  define q where "q = (if length img < 13 then 2 else 13 :: nat)"
  define early where "early = (if length img < 13 then [Out_of_bounds] else [])"
  have q: "q \<le> length img" using assms(1) by (simp add: q_def)
  have kf: "known_format (take 2 img)" using assms(3) by (simp add: known_format_def)
  have fmt: "read_mnist_input img True 1 2 (reader_at 0 []) = Some ((2, take 2 img), reader_at 2 [])"
    using read_at [of 0 1 2 img True "[]"] assms(1,2) by (simp flip: numeral_2_eq_2)
  obtain x where hd: "read_mnist_input img False 1 11 (reader_at 2 []) = Some (x, reader_at q early)"
    using read_at [of 2 1 11 img False "[]"] read_past [of img 2 1 11 False "[]"] assms(2)
    by (cases "length img < 13") (simp_all add: q_def early_def)
  have big: "(1 :: i32) \<noteq> - 1" "(576 :: i32) \<noteq> - 1" by simp_all
  show ?thesis
  proof (cases "589 \<le> length img")
    case True
    then have "read_mnist_input img True 1 576 (reader_at q early) = Some ((576, take 576 (drop 13 img)), reader_at 589 [])"
      using read_at [of 13 1 576 img True "[]"] assms(2) by (simp add: q_def early_def)
    moreover have "length (take 576 (drop 13 img)) = 576" using True by simp
    ultimately show ?thesis
      using True assms read_class(2) [of 589 img "[]"] feof_at [of img 589] fmt hd kf
      by (simp add: envRead_def blit_def say_at)
  next
    case False
    have px: "read_mnist_input img True 1 576 (reader_at q early) = Some ((-1, []), reader_at q (early @ [Out_of_bounds]))"
      using read_past [of img q 1 576 True early] False assms(2) by (simp add: q_def split: if_splits)
    show ?thesis
    proof (cases "q + 4 \<le> length img")
      case True
      then show ?thesis
        using False assms q read_class [of q img] feof_at [of img "q + 4"] fmt hd kf px
        unfolding Let_def q_def [symmetric] early_def [symmetric]
        by (simp add: envRead_def blit_def say_at)
    next
      case nc: False
      then show ?thesis
        using False assms q read_class [of q img] feof_at [of img q] fmt hd kf px
        unfolding Let_def q_def [symmetric] early_def [symmetric]
        by (simp add: envRead_def blit_def say_at)
    qed
  qed
qed

theorem envRead_truncated_witness:
  "envRead (80 # 53 # replicate 98 1) 576 24 24 (replicate 576 0) 1 [7] (reader_at 0 [])
    = Some ((replicate 576 0, [le32 (take 4 (drop 13 (80 # 53 # replicate 98 1)))]),
        reader_at 17 [Out_of_bounds, Data_count, Eof_not_reached])"
  using envRead_truncated [of "80 # 53 # replicate 98 1" "replicate 576 0" 7] by (simp add: known_format_def)

text \<open>
  C16: On an image of class \<open>label\<close> the program prints the class, the first class with the largest score
  of the network on the pixels, that score, and as the result 1 if the two classes agree, 0 if not. It
  reads and writes nothing outside its arrays.
\<close>

theorem mnist_main_classifies:
  assumes "sized w" "length mem = MEMORY_SIZE" "length buf = 576" "length pixels = 576" "0 \<le> label" "label \<le> 2147483647"
  shows "\<exists>k s. first_max (net4 w pixels) 10 k
    \<and> mnist_main csr w mem (pgm pixels label) buf (e0, p0, v0) (reader_at 0 []) = Some (s, reader_at 593 [])
    \<and> Expected s = label \<and> Predicted s = int k \<and> credence s = uint (net4 w pixels k)
    \<and> Result s = (if int k = label then 1 else 0)
    \<and> instructions s = sint (fst (csr 1) - fst (csr 0)) \<and> cycles s = sint (snd (csr 1) - snd (csr 0))"
proof -
  obtain k mem' where k: "propagate w pixels mem ([p0], v0) = Some (([int k], net4 w pixels k), mem')" "first_max (net4 w pixels) 10 k"
    using propagate_net [OF assms(1,4,2), of p0 v0] by blast
  have e: "readStimulus (pgm pixels label) buf [e0] (reader_at 0 []) = Some ((pixels, [label]), reader_at 593 [])"
    using envRead_result [OF assms(4,3) _ assms(6), of e0] assms(4,5) by (simp add: readStimulus_def)
  show ?thesis
    using k assms(5) by (intro exI [of _ k]) (simp add: mnist_main_def processInput_def e count_valid_def add.commute)
qed

theorem mnist_main_classifies_witness:
  "\<exists>k s. first_max (net4 zero_weights (replicate 576 3)) 10 k
    \<and> mnist_main (\<lambda>n. (of_nat (100 * n), of_nat (250 * n))) zero_weights (replicate 2160 0) (pgm (replicate 576 3) 4)
        (replicate 576 0) (0, 0, 0) (reader_at 0 []) = Some (s, reader_at 593 [])
    \<and> Expected s = 4 \<and> Predicted s = int k \<and> credence s = uint (net4 zero_weights (replicate 576 3) k)
    \<and> Result s = (if int k = 4 then 1 else 0) \<and> instructions s = 100 \<and> cycles s = 250"
  using mnist_main_classifies [of zero_weights "replicate 2160 0" "replicate 576 0" "replicate 576 3" 4
      "\<lambda>n. (of_nat (100 * n), of_nat (250 * n))" 0 0 0]
  by (simp add: sized_def zero_weights_def MEMORY_SIZE_def)

section \<open>The sign of the scores\<close>

text \<open>
  \<open>sat\<close> saturates the scores of the last layer to 0..255, but they are stored and compared as
  \<open>int8_t\<close>: a sum that is too large loses against a sum of zero.
\<close>

lemma large_score_loses:
  assumes "262144 \<le> s"
  shows "sat s Linear 11 <s sat 0 Linear 11"
proof -
  let ?v = "min 255 (s div 2048)"
  have v: "128 \<le> ?v" "?v \<le> 255" using assms by auto
  have "sat s Linear 11 = word_of_int ?v"
    using v by (auto simp: sat_def saturate_def clamp_def min_def)
  moreover have "sint (word_of_int ?v :: i8) = ?v - 256"
  proof -
    have "(?v + 128) mod 256 = (?v - 128 + 256) mod 256" by (simp add: add.commute)
    also have "\<dots> = ?v - 128" using v by (subst mod_add_self2) (rule mod_pos_pos_trivial; linarith)
    finally show ?thesis by (simp add: sint_sbintrunc' signed_take_bit_eq_take_bit_shift take_bit_eq_mod add.commute)
  qed
  moreover have "sat 0 Linear 11 = 0" by (simp add: sat_def saturate_def clamp_def)
  ultimately show ?thesis using v by (simp add: word_sless_alt)
qed

end
