(* ===== verification/Mmio.thy ===== *)
theory Mmio
  imports Prelude
begin

text \<open>
  Memory-mapped devices. The drivers of \<open>sw/bsp\<close> reach the peripherals by volatile accesses to fixed
  addresses. The model keeps the history of these accesses; what a read returns is a function of
  the address and of the whole history, which is a parameter: nothing is assumed of the devices
  except where a theorem says so.
\<close>

unbundle bit_operations_syntax

section \<open>Accesses\<close>

datatype access = Rd8 i32 i8 | Wr8 i32 i8 | Rd32 i32 i32 | Wr32 i32 i32

type_synonym history = "access list"

record hardware =
  byte_at :: "history \<Rightarrow> i32 \<Rightarrow> i8"
  word_at :: "history \<Rightarrow> i32 \<Rightarrow> i32"

definition read8 :: "hardware \<Rightarrow> i32 \<Rightarrow> history \<Rightarrow> i8 \<times> history" where
  "read8 hw a hist = (byte_at hw hist a, hist @ [Rd8 a (byte_at hw hist a)])"

definition write8 :: "i32 \<Rightarrow> i8 \<Rightarrow> history \<Rightarrow> history" where
  "write8 a v hist = hist @ [Wr8 a v]"

definition read32 :: "hardware \<Rightarrow> i32 \<Rightarrow> history \<Rightarrow> i32 \<times> history" where
  "read32 hw a hist = (word_at hw hist a, hist @ [Rd32 a (word_at hw hist a)])"

definition write32 :: "i32 \<Rightarrow> i32 \<Rightarrow> history \<Rightarrow> history" where
  "write32 a v hist = hist @ [Wr32 a v]"

section \<open>Registers that hold what was written\<close>

text \<open>The last word written to an address.\<close>

fun last_write :: "i32 \<Rightarrow> history \<Rightarrow> i32 option" where
  "last_write a [] = None"
| "last_write a (e # hist) = (case last_write a hist of Some v \<Rightarrow> Some v
     | None \<Rightarrow> (case e of Wr32 b v \<Rightarrow> if b = a then Some v else None | _ \<Rightarrow> None))"

lemma last_write_append:
  "last_write a (h1 @ h2) = (case last_write a h2 of Some v \<Rightarrow> Some v | None \<Rightarrow> last_write a h1)"
  by (induction h1) (auto split: option.splits)

definition keeps :: "hardware \<Rightarrow> i32 \<Rightarrow> bool" where
  "keeps hw a = (\<forall>hist v. last_write a hist = Some v \<longrightarrow> word_at hw hist a = v)"

text \<open>The bytes written to an address, in order.\<close>

definition bytes_to :: "i32 \<Rightarrow> history \<Rightarrow> i8 list" where
  "bytes_to a hist = concat (map (\<lambda>e. case e of Wr8 b v \<Rightarrow> if b = a then [v] else [] | _ \<Rightarrow> []) hist)"

lemma bytes_to_simps [simp]:
  "bytes_to a [] = []"
  "bytes_to a (Rd8 b v # hist) = bytes_to a hist"
  "bytes_to a (Rd32 b w # hist) = bytes_to a hist"
  "bytes_to a (Wr32 b w # hist) = bytes_to a hist"
  "bytes_to a (Wr8 b v # hist) = (if b = a then [v] else []) @ bytes_to a hist"
  "bytes_to a (h1 @ h2) = bytes_to a h1 @ bytes_to a h2"
  by (simp_all add: bytes_to_def)

section \<open>Polled devices\<close>

text \<open>The history after \<open>k\<close> readings of an address; a device that answers shows THRE at some point.\<close>

fun poll :: "hardware \<Rightarrow> i32 \<Rightarrow> nat \<Rightarrow> history \<Rightarrow> history" where
  "poll hw a 0 hist = hist"
| "poll hw a (Suc k) hist = poll hw a k (hist @ [Rd8 a (byte_at hw hist a)])"

definition answers :: "hardware \<Rightarrow> i32 \<Rightarrow> bool" where
  "answers hw a = (\<forall>hist. \<exists>k. byte_at hw (poll hw a k hist) a AND 0x20 \<noteq> 0)"

end
