(* ===== verification/Plic.thy ===== *)
theory Plic
  imports Mmio
begin

text \<open>
  The interrupt controller's functions of \<open>sw/bsp/hal/plic.h\<close>: the addresses are those that the layout
  of \<open>PLIC_Type\<close> gives; \<open>mhartid\<close> is a parameter.
\<close>

unbundle bit_operations_syntax

section \<open>The layout\<close>

definition PLIC_NUM_SOURCES :: nat where
  "PLIC_NUM_SOURCES = 30"

definition PLIC_SET_UP_REGISTERS :: nat where
  "PLIC_SET_UP_REGISTERS = 2"

definition NUM_CLAIM_REGS :: nat where
  "NUM_CLAIM_REGS = 2"

definition PLIC_BASE_ADDR :: nat where
  "PLIC_BASE_ADDR = 0x0C000000"

text \<open>The sizes of the fields of \<open>PLIC_Type\<close> before \<open>TARGET\<close>, in bytes, and the offset of the \<open>k\<close>th.\<close>

definition plic_fields :: "nat list" where
  "plic_fields =
    [4, 4 * PLIC_NUM_SOURCES, 4 * (0x1000 div 4 - (PLIC_NUM_SOURCES + 1)),
     4 * PLIC_SET_UP_REGISTERS, 4 * (0x1000 div 4 - PLIC_SET_UP_REGISTERS),
     4 * PLIC_SET_UP_REGISTERS, 4 * (0x80 div 4 - PLIC_SET_UP_REGISTERS),
     4 * PLIC_SET_UP_REGISTERS, 4 * (0x80 div 4 - PLIC_SET_UP_REGISTERS),
     4 * ((0x200000 - 0x2000) div 4 - PLIC_SET_UP_REGISTERS)]"

definition plic_field :: "nat \<Rightarrow> nat" where
  "plic_field k = PLIC_BASE_ADDR + sum_list (take k plic_fields)"

definition SOURCE_PRIORITY :: "nat \<Rightarrow> i32" where
  "SOURCE_PRIORITY i = of_nat (plic_field 1 + 4 * i)"

definition HART0_MMODE_ENA :: "nat \<Rightarrow> i32" where
  "HART0_MMODE_ENA i = of_nat (plic_field 5 + 4 * i)"

definition HART0_SMODE_ENA :: "nat \<Rightarrow> i32" where
  "HART0_SMODE_ENA i = of_nat (plic_field 7 + 4 * i)"

text \<open>\<open>TARGET\<close> is an array of \<open>IRQ_Target_Type\<close>, of 4096 bytes each.\<close>

definition PRIORITY_THRESHOLD :: "nat \<Rightarrow> i32" where
  "PRIORITY_THRESHOLD t = of_nat (plic_field 10 + 0x1000 * t)"

definition CLAIM_COMPLETE :: "nat \<Rightarrow> i32" where
  "CLAIM_COMPLETE t = of_nat (plic_field 10 + 0x1000 * t + 4)"

section \<open>The functions\<close>

definition disable_all :: "history \<Rightarrow> history" where
  "disable_all hist = fold (\<lambda>i hist. write32 (HART0_SMODE_ENA i) 0 (write32 (HART0_MMODE_ENA i) 0 hist)) [0..<PLIC_SET_UP_REGISTERS] hist"

text \<open>\<open>PLIC_init\<close> also sets the machine external interrupt bit of the CSR \<open>mie\<close>.\<close>

definition PLIC_init :: "i32 \<Rightarrow> history \<Rightarrow> i32 \<times> history" where
  "PLIC_init mie hist =
     (mie OR push_bit 11 1, write32 (PRIORITY_THRESHOLD 1) 7 (write32 (PRIORITY_THRESHOLD 0) 0 (disable_all hist)))"

definition PLIC_EnableIRQ :: "hardware \<Rightarrow> nat \<Rightarrow> nat \<Rightarrow> history \<Rightarrow> history" where
  "PLIC_EnableIRQ hw hart IRQn hist =
     (if hart = 0
      then let (current, hist) = read32 hw (HART0_MMODE_ENA (IRQn div 32)) hist
           in write32 (HART0_MMODE_ENA (IRQn div 32)) (current OR push_bit (IRQn mod 32) 1) hist
      else hist)"

definition PLIC_DisableIRQ :: "hardware \<Rightarrow> nat \<Rightarrow> nat \<Rightarrow> history \<Rightarrow> history" where
  "PLIC_DisableIRQ hw hart IRQn hist =
     (if hart = 0
      then let (current, hist) = read32 hw (HART0_MMODE_ENA (IRQn div 32)) hist
           in write32 (HART0_MMODE_ENA (IRQn div 32)) (current AND NOT (push_bit (IRQn mod 32) 1)) hist
      else hist)"

definition PLIC_SetPriority :: "nat \<Rightarrow> i32 \<Rightarrow> history \<Rightarrow> history" where
  "PLIC_SetPriority IRQn priority hist =
     (if 0 < IRQn \<and> IRQn < PLIC_NUM_SOURCES then write32 (SOURCE_PRIORITY (IRQn - 1)) priority hist else hist)"

definition PLIC_GetPriority :: "hardware \<Rightarrow> nat \<Rightarrow> history \<Rightarrow> i32 \<times> history" where
  "PLIC_GetPriority hw IRQn hist =
     (if 0 < IRQn \<and> IRQn < PLIC_NUM_SOURCES then read32 hw (SOURCE_PRIORITY (IRQn - 1)) hist else (0, hist))"

definition PLIC_ClaimIRQ :: "hardware \<Rightarrow> nat \<Rightarrow> history \<Rightarrow> i32 \<times> history" where
  "PLIC_ClaimIRQ hw hart = read32 hw (CLAIM_COMPLETE hart)"

definition PLIC_CompleteIRQ :: "nat \<Rightarrow> i32 \<Rightarrow> history \<Rightarrow> history" where
  "PLIC_CompleteIRQ hart source = write32 (CLAIM_COMPLETE hart) source"

definition PLIC_SetPriority_Threshold :: "nat \<Rightarrow> i32 \<Rightarrow> history \<Rightarrow> history" where
  "PLIC_SetPriority_Threshold hart threshold = write32 (PRIORITY_THRESHOLD hart) threshold"

text \<open>The loop of \<open>PLIC_ClearPendingIRQ\<close>; its inner delay has no effect.\<close>

partial_function (option) clear_loop :: "hardware \<Rightarrow> nat \<Rightarrow> i32 \<Rightarrow> history \<Rightarrow> history option" where
  "clear_loop hw hart int_num hist =
     (if int_num = 0 then Some hist
      else let r = PLIC_ClaimIRQ hw hart (PLIC_CompleteIRQ hart int_num hist) in clear_loop hw hart (fst r) (snd r))"

definition PLIC_ClearPendingIRQ :: "hardware \<Rightarrow> nat \<Rightarrow> history \<Rightarrow> history option" where
  "PLIC_ClearPendingIRQ hw hart hist = (let (int_num, hist) = PLIC_ClaimIRQ hw hart hist in clear_loop hw hart int_num hist)"

definition PLIC_init_on_reset :: "hardware \<Rightarrow> nat \<Rightarrow> history \<Rightarrow> history option" where
  "PLIC_init_on_reset hw hart hist =
     (let hist = fold (\<lambda>i. write32 (SOURCE_PRIORITY i) 0) [0..<PLIC_NUM_SOURCES] hist;
          hist = fold (\<lambda>i. write32 (PRIORITY_THRESHOLD i) 7) [0..<NUM_CLAIM_REGS] hist;
          hist = disable_all hist
      in PLIC_ClearPendingIRQ hw hart hist)"

section \<open>Addresses\<close>

lemma plic_field_values: "plic_field 1 = 0x0C000004" "plic_field 5 = 0x0C002000" "plic_field 7 = 0x0C002080" "plic_field 10 = 0x0C2000F8"
  by (simp_all add: plic_field_def plic_fields_def PLIC_BASE_ADDR_def PLIC_NUM_SOURCES_def PLIC_SET_UP_REGISTERS_def)

lemma plic_addresses:
  "HART0_MMODE_ENA 0 = 0x0C002000" "HART0_MMODE_ENA 1 = 0x0C002004" "HART0_SMODE_ENA 0 = 0x0C002080" "HART0_SMODE_ENA 1 = 0x0C002084"
  "PRIORITY_THRESHOLD 0 = 0x0C2000F8" "PRIORITY_THRESHOLD 1 = 0x0C2010F8" "CLAIM_COMPLETE 0 = 0x0C2000FC"
  by (simp_all add: HART0_MMODE_ENA_def HART0_SMODE_ENA_def PRIORITY_THRESHOLD_def CLAIM_COMPLETE_def plic_field_values)

text \<open>
  \<open>PLIC_init\<close> disables every source and enables machine external interrupts, but the layout of
  \<open>PLIC_Type\<close> puts the thresholds 248 bytes above 0x0C200000, the end of the region that its padding is
  computed for: the writes go to 0x0C2000F8 and 0x0C2010F8.
\<close>

theorem plic_init_addresses:
  "PLIC_init mie hist = (mie OR 0x800, hist @
    [Wr32 0x0C002000 0, Wr32 0x0C002080 0, Wr32 0x0C002004 0, Wr32 0x0C002084 0, Wr32 0x0C2000F8 0, Wr32 0x0C2010F8 7])"
proof -
  have "[0..<2] = [0, 1 :: nat]" by (simp add: upt_rec)
  then show ?thesis
    by (simp add: PLIC_init_def disable_all_def PLIC_SET_UP_REGISTERS_def write32_def push_bit_of_1 plic_addresses [simplified])
qed

section \<open>Enabling and disabling\<close>

lemma last_write_read32: "last_write a (snd (read32 hw b hist)) = last_write a hist"
  by (simp add: read32_def last_write_append)

lemma last_write_write32: "last_write a (write32 b v hist) = (if b = a then Some v else last_write a hist)"
  by (simp add: write32_def last_write_append)

text \<open>
  On hart 0 and on registers that keep what is written, enabling a source sets its bit and no other
  bit, and disabling it afterwards leaves the register as it was but for that bit, now clear.
\<close>

theorem plic_enable_disable:
  assumes "keeps hw (HART0_MMODE_ENA 0)" "IRQn < 32" "last_write (HART0_MMODE_ENA 0) hist = Some ena"
  shows "last_write (HART0_MMODE_ENA 0) (PLIC_EnableIRQ hw 0 IRQn hist) = Some (set_bit IRQn ena)
    \<and> last_write (HART0_MMODE_ENA 0) (PLIC_DisableIRQ hw 0 IRQn (PLIC_EnableIRQ hw 0 IRQn hist)) = Some (unset_bit IRQn ena)"
proof -
  let ?e = "HART0_MMODE_ENA 0" and ?h = "PLIC_EnableIRQ hw 0 IRQn hist"
  have "word_at hw hist ?e = ena" using assms(1,3) by (simp add: keeps_def)
  then have 1: "last_write ?e ?h = Some (set_bit IRQn ena)"
    using assms(2) by (simp add: PLIC_EnableIRQ_def read32_def last_write_write32 set_bit_eq_or push_bit_of_1)
  then have "word_at hw ?h ?e = set_bit IRQn ena" using assms(1) by (simp add: keeps_def)
  moreover have "set_bit IRQn ena AND NOT (push_bit IRQn 1) = unset_bit IRQn ena"
    by (rule bit_word_eqI) (auto simp: bit_simps)
  ultimately have "last_write ?e (PLIC_DisableIRQ hw 0 IRQn ?h) = Some (unset_bit IRQn ena)"
    using assms(2) by (simp add: PLIC_DisableIRQ_def read32_def last_write_write32)
  with 1 show ?thesis by simp
qed

text \<open>A device whose words are what was last written to them, zero at the start.\<close>

definition memory_device :: hardware where
  "memory_device = \<lparr>byte_at = (\<lambda>_ _. 0), word_at = (\<lambda>hist a. case last_write a hist of Some v \<Rightarrow> v | None \<Rightarrow> 0)\<rparr>"

lemma memory_device_keeps: "keeps memory_device a"
  by (simp add: keeps_def memory_device_def)

theorem plic_enable_disable_witness:
  "last_write (HART0_MMODE_ENA 0) (PLIC_EnableIRQ memory_device 0 1 [Wr32 (HART0_MMODE_ENA 0) 8]) = Some (set_bit 1 8)
    \<and> last_write (HART0_MMODE_ENA 0) (PLIC_DisableIRQ memory_device 0 1 (PLIC_EnableIRQ memory_device 0 1 [Wr32 (HART0_MMODE_ENA 0) 8]))
      = Some (unset_bit 1 8)"
  by (rule plic_enable_disable) (simp_all add: memory_device_keeps)

section \<open>Clearing pending interrupts\<close>

text \<open>The history after \<open>k\<close> interrupts were claimed and completed.\<close>

fun claim_run :: "hardware \<Rightarrow> nat \<Rightarrow> nat \<Rightarrow> history \<Rightarrow> history" where
  "claim_run hw hart 0 hist = hist"
| "claim_run hw hart (Suc k) hist =
     (let r = PLIC_ClaimIRQ hw hart hist in claim_run hw hart k (PLIC_CompleteIRQ hart (fst r) (snd r)))"

definition claimed :: "hardware \<Rightarrow> nat \<Rightarrow> nat \<Rightarrow> history \<Rightarrow> i32" where
  "claimed hw hart k hist = fst (PLIC_ClaimIRQ hw hart (claim_run hw hart k hist))"

lemma PLIC_ClearPendingIRQ_unfold:
  "PLIC_ClearPendingIRQ hw hart hist =
     (let r = PLIC_ClaimIRQ hw hart hist
      in if fst r = 0 then Some (snd r) else PLIC_ClearPendingIRQ hw hart (PLIC_CompleteIRQ hart (fst r) (snd r)))"
  unfolding PLIC_ClearPendingIRQ_def Let_def case_prod_beta by (subst clear_loop.simps) (simp add: Let_def)

lemma clear_after:
  assumes "\<forall>j < k. claimed hw hart j hist \<noteq> 0" "claimed hw hart k hist = 0"
  shows "PLIC_ClearPendingIRQ hw hart hist = Some (snd (PLIC_ClaimIRQ hw hart (claim_run hw hart k hist)))"
  using assms
proof (induction k arbitrary: hist)
  case 0
  then show ?case by (subst PLIC_ClearPendingIRQ_unfold) (simp add: claimed_def Let_def)
next
  case (Suc k)
  let ?r = "PLIC_ClaimIRQ hw hart hist"
  have s: "claimed hw hart (Suc j) hist = claimed hw hart j (PLIC_CompleteIRQ hart (fst ?r) (snd ?r))" for j
    by (simp add: claimed_def Let_def)
  have "fst ?r \<noteq> 0" using Suc.prems(1) by (auto simp: claimed_def dest: spec [of _ 0])
  moreover have "\<forall>j < k. claimed hw hart j (PLIC_CompleteIRQ hart (fst ?r) (snd ?r)) \<noteq> 0"
    using Suc.prems(1) by (auto simp flip: s)
  ultimately show ?case
    using Suc.IH [of "PLIC_CompleteIRQ hart (fst ?r) (snd ?r)"] Suc.prems(2)
    by (subst PLIC_ClearPendingIRQ_unfold) (simp add: Let_def s)
qed

lemma clear_loop_ends:
  assumes "clear_loop hw hart n hist = Some h'" "n \<noteq> 0"
  shows "\<exists>k. claimed hw hart k (PLIC_CompleteIRQ hart n hist) = 0"
proof -
  have "n \<noteq> 0 \<longrightarrow> (\<exists>k. claimed hw hart k (PLIC_CompleteIRQ hart n hist) = 0)"
  proof (induction rule: clear_loop.raw_induct [OF _ assms(1)])
    case (1 loop hw hart n hist h')
    let ?h = "PLIC_CompleteIRQ hart n hist"
    let ?r = "PLIC_ClaimIRQ hw hart ?h"
    show ?case
    proof
      assume n: "n \<noteq> 0"
      show "\<exists>k. claimed hw hart k ?h = 0"
      proof (cases "fst ?r = 0")
        case True
        then show ?thesis by (intro exI [of _ 0]) (simp add: claimed_def)
      next
        case False
        have "loop hw hart (fst ?r) (snd ?r) = Some h'" using "1"(2) n by (simp add: Let_def)
        from "1"(1) [OF this] False obtain k where "claimed hw hart k (PLIC_CompleteIRQ hart (fst ?r) (snd ?r)) = 0" by blast
        then show ?thesis by (intro exI [of _ "Suc k"]) (simp add: claimed_def Let_def)
      qed
    qed
  qed
  then show ?thesis using assms(2) by blast
qed

text \<open>
  \<open>PLIC_ClearPendingIRQ\<close> returns exactly when some claim finds no pending interrupt, and then it
  stops at the first such claim, having completed every interrupt it claimed before.
\<close>

theorem plic_clear_pending_returns:
  "(PLIC_ClearPendingIRQ hw hart hist = Some h') =
    (\<exists>k. (\<forall>j < k. claimed hw hart j hist \<noteq> 0) \<and> claimed hw hart k hist = 0
      \<and> h' = snd (PLIC_ClaimIRQ hw hart (claim_run hw hart k hist)))"
proof
  assume r: "PLIC_ClearPendingIRQ hw hart hist = Some h'"
  have "\<exists>k. claimed hw hart k hist = 0"
  proof (cases "claimed hw hart 0 hist = 0")
    case False
    let ?r = "PLIC_ClaimIRQ hw hart hist"
    have "clear_loop hw hart (fst ?r) (snd ?r) = Some h'" "fst ?r \<noteq> 0"
      using r False by (simp_all add: PLIC_ClearPendingIRQ_def case_prod_beta claimed_def)
    from clear_loop_ends [OF this] obtain k where "claimed hw hart k (PLIC_CompleteIRQ hart (fst ?r) (snd ?r)) = 0" by blast
    then show ?thesis by (intro exI [of _ "Suc k"]) (simp add: claimed_def Let_def)
  qed blast
  then obtain k where k: "claimed hw hart k hist = 0" "\<forall>j < k. claimed hw hart j hist \<noteq> 0"
    using exists_least_iff [of "\<lambda>k. claimed hw hart k hist = 0"] by auto
  have "h' = snd (PLIC_ClaimIRQ hw hart (claim_run hw hart k hist))"
    using clear_after [OF k(2,1)] r by simp
  with k show "\<exists>k. (\<forall>j < k. claimed hw hart j hist \<noteq> 0) \<and> claimed hw hart k hist = 0
      \<and> h' = snd (PLIC_ClaimIRQ hw hart (claim_run hw hart k hist))" by blast
next
  assume "\<exists>k. (\<forall>j < k. claimed hw hart j hist \<noteq> 0) \<and> claimed hw hart k hist = 0
      \<and> h' = snd (PLIC_ClaimIRQ hw hart (claim_run hw hart k hist))"
  then show "PLIC_ClearPendingIRQ hw hart hist = Some h'" using clear_after by blast
qed

text \<open>A controller with interrupt 5 pending until it is completed.\<close>

definition one_pending :: hardware where
  "one_pending = \<lparr>byte_at = (\<lambda>_ _. 0), word_at = (\<lambda>hist a. case last_write a hist of Some _ \<Rightarrow> 0 | None \<Rightarrow> 5)\<rparr>"

theorem plic_clear_pending_returns_witness:
  "PLIC_ClearPendingIRQ one_pending 0 [] = Some [Rd32 (CLAIM_COMPLETE 0) 5, Wr32 (CLAIM_COMPLETE 0) 5, Rd32 (CLAIM_COMPLETE 0) 0]"
proof (rule plic_clear_pending_returns [THEN iffD2], intro exI [of _ 1] conjI)
  show "\<forall>j < 1. claimed one_pending 0 j [] \<noteq> 0"
    by (simp add: claimed_def PLIC_ClaimIRQ_def read32_def one_pending_def)
qed (simp_all add: claimed_def PLIC_ClaimIRQ_def PLIC_CompleteIRQ_def read32_def write32_def one_pending_def Let_def)

end
