(* ===== verification/Uart.thy ===== *)
theory Uart
  imports Plic
begin

unbundle bit_operations_syntax

text \<open>
  The UART driver \<open>sw/bsp/drivers/uart/uart.c\<close>. The driver's state is the record of \<open>uart.h\<close>, extended by the
  history of the accesses to the devices. A buffer is the list of its bytes, which the caller does not
  change while the driver uses it; \<open>None\<close> as a pointer is \<open>NULL\<close>, as a result undefined behaviour
  or a loop that does not end. Delay loops have no effect in the model.
\<close>

section \<open>State\<close>

datatype uart_irq_handler = NULL_HANDLER | Default_tx_handler | User_handler nat

record uart_instance =
  hw_reg :: i32
  baudrate :: i32
  lineconfig :: i8
  status :: i8
  tx_buffer :: "i8 list option"
  tx_buff_size :: i32
  tx_idx :: i32
  linests_handler :: uart_irq_handler
  rx_handler :: uart_irq_handler
  tx_handler :: uart_irq_handler
  modemsts_handler :: uart_irq_handler

text \<open>\<open>is_g_uart_0\<close>: the instance is the global \<open>g_uart_0\<close>.\<close>

record uart = uart_instance +
  is_g_uart_0 :: bool
  accesses :: history

text \<open>The registers of \<open>UART_TypeDef\<close>, by offset; several share an address.\<close>

definition RBR :: i32 where "RBR = 0"
definition THR :: i32 where "THR = 0"
definition DLL :: i32 where "DLL = 0"
definition DLM :: i32 where "DLM = 4"
definition IER :: i32 where "IER = 4"
definition IIR :: i32 where "IIR = 8"
definition FCR :: i32 where "FCR = 8"
definition LCR :: i32 where "LCR = 12"
definition MCR :: i32 where "MCR = 16"
definition LSR :: i32 where "LSR = 20"
definition MSR :: i32 where "MSR = 24"

definition rd_reg :: "hardware \<Rightarrow> i32 \<Rightarrow> uart \<Rightarrow> i8 \<times> uart" where
  "rd_reg hw reg u = (let r = read8 hw (hw_reg u + reg) (accesses u) in (fst r, u\<lparr>accesses := snd r\<rparr>))"

definition wr_reg :: "i32 \<Rightarrow> i8 \<Rightarrow> uart \<Rightarrow> uart" where
  "wr_reg reg v u = u\<lparr>accesses := write8 (hw_reg u + reg) v (accesses u)\<rparr>"

text \<open>\<open>reg |= m\<close> and \<open>reg &= m\<close>.\<close>

definition or_reg :: "hardware \<Rightarrow> i32 \<Rightarrow> i8 \<Rightarrow> uart \<Rightarrow> uart" where
  "or_reg hw reg m u = (let (v, u) = rd_reg hw reg u in wr_reg reg (v OR m) u)"

definition and_reg :: "hardware \<Rightarrow> i32 \<Rightarrow> i8 \<Rightarrow> uart \<Rightarrow> uart" where
  "and_reg hw reg m u = (let (v, u) = rd_reg hw reg u in wr_reg reg (v AND m) u)"

text \<open>\<open>status = LSR; this_uart->status |= status\<close>\<close>

definition rd_lsr :: "hardware \<Rightarrow> uart \<Rightarrow> i8 \<times> uart" where
  "rd_lsr hw u = (let (s, u) = rd_reg hw LSR u in (s, u\<lparr>status := status u OR s\<rparr>))"

section \<open>Initialisation\<close>

definition FPGA_UART_0_FREQUENCY :: nat where
  "FPGA_UART_0_FREQUENCY = 32000000"

text \<open>
  The baud value: 64-bit product and quotient, converted to 32 bits, and two 32-bit divisions. A
  rate of zero is a division by zero.
\<close>

definition baud_value :: "i32 \<Rightarrow> i32 option" where
  "baud_value rate =
     (if rate = 0 then None
      else Some (of_nat ((8 * FPGA_UART_0_FREQUENCY) div unat rate) div 2 div 64))"

definition config_baud_divisors :: "i32 \<Rightarrow> uart \<Rightarrow> uart option" where
  "config_baud_divisors rate u = do {
     let u = u\<lparr>baudrate := rate\<rparr>;
     value \<leftarrow> baud_value rate;
     Some (if value \<le> 0xFFFF
       then wr_reg LCR 0 (wr_reg DLL (ucast value) (wr_reg DLM (ucast (drop_bit 8 value)) (wr_reg LCR 0x80 u)))
       else u)
   }"

definition global_init :: "i32 \<Rightarrow> i8 \<Rightarrow> uart \<Rightarrow> uart option" where
  "global_init baud_rate line_config u = do {
     let u = wr_reg MCR 0 (wr_reg FCR 0xC7 (wr_reg FCR 0 (wr_reg IER 0 u)));
     u \<leftarrow> config_baud_divisors baud_rate u;
     let u = wr_reg LCR line_config u;
     Some (u\<lparr>baudrate := baud_rate, lineconfig := line_config, tx_buff_size := 0, tx_buffer := None, tx_idx := 0,
       rx_handler := NULL_HANDLER, tx_handler := NULL_HANDLER, linests_handler := NULL_HANDLER,
       modemsts_handler := NULL_HANDLER, status := 0\<rparr>)
   }"

definition UART_init :: "i32 \<Rightarrow> i8 \<Rightarrow> uart \<Rightarrow> uart option" where
  "UART_init baud_rate line_config u =
     map_option (\<lambda>u. u\<lparr>tx_handler := Default_tx_handler\<rparr>) (global_init baud_rate line_config u)"

text \<open>An instance other than \<open>g_uart_0\<close> passes the empty \<open>ASSERT\<close> and enables source 0.\<close>

definition enable_irq :: "hardware \<Rightarrow> nat \<Rightarrow> uart \<Rightarrow> uart" where
  "enable_irq hw hart u = u\<lparr>accesses := PLIC_EnableIRQ hw hart (if is_g_uart_0 u then 1 else 0) (accesses u)\<rparr>"

definition disable_irq :: "hardware \<Rightarrow> nat \<Rightarrow> uart \<Rightarrow> uart" where
  "disable_irq hw hart u = u\<lparr>accesses := PLIC_DisableIRQ hw hart (if is_g_uart_0 u then 1 else 0) (accesses u)\<rparr>"

section \<open>Polled transmission\<close>

text \<open>\<open>do status = LSR; while (0 == (status & UART_THRE))\<close>\<close>

partial_function (option) wait_thre :: "hardware \<Rightarrow> uart \<Rightarrow> uart option" where
  "wait_thre hw u =
     (let r = rd_reg hw LSR u in if fst r AND 0x20 = 0 then wait_thre hw (snd r) else Some (snd r))"

partial_function (option) polled_loop :: "hardware \<Rightarrow> i8 list \<Rightarrow> i32 \<Rightarrow> i32 \<Rightarrow> uart \<Rightarrow> uart option" where
  "polled_loop hw pbuff tx_size char_idx u =
     Option.bind (wait_thre hw u) (\<lambda>u.
       Option.bind (rd pbuff (unat char_idx)) (\<lambda>b.
         let u = wr_reg THR b u in
         if char_idx + 1 < tx_size then polled_loop hw pbuff tx_size (char_idx + 1) u else Some u))"

definition UART_polled_tx :: "hardware \<Rightarrow> i8 list option \<Rightarrow> i32 \<Rightarrow> uart \<Rightarrow> uart option" where
  "UART_polled_tx hw pbuff tx_size u =
     (case pbuff of Some bs \<Rightarrow> if 0 < tx_size then polled_loop hw bs tx_size 0 u else Some u | None \<Rightarrow> Some u)"

partial_function (option) string_loop :: "hardware \<Rightarrow> i8 list \<Rightarrow> i32 \<Rightarrow> i8 \<Rightarrow> uart \<Rightarrow> uart option" where
  "string_loop hw p char_idx data_byte u =
     (if data_byte = 0 then Some u
      else Option.bind (wait_thre hw u) (\<lambda>u.
        let u = wr_reg THR data_byte u in
        Option.bind (rd p (unat (char_idx + 1))) (\<lambda>b. string_loop hw p (char_idx + 1) b u)))"

definition UART_polled_tx_string :: "hardware \<Rightarrow> i8 list option \<Rightarrow> uart \<Rightarrow> uart option" where
  "UART_polled_tx_string hw p_sz_string u =
     (case p_sz_string of Some p \<Rightarrow> Option.bind (rd p 0) (\<lambda>b. string_loop hw p 0 b u) | None \<Rightarrow> Some u)"

section \<open>Transmission by interrupts\<close>

definition UART_irq_tx :: "hardware \<Rightarrow> nat \<Rightarrow> i8 list option \<Rightarrow> i32 \<Rightarrow> uart \<Rightarrow> uart" where
  "UART_irq_tx hw hart pbuff tx_size u =
     (if 0 < tx_size \<and> pbuff \<noteq> None
      then enable_irq hw hart (or_reg hw IER 0x02
        (u\<lparr>tx_buffer := pbuff, tx_buff_size := tx_size, tx_idx := 0, tx_handler := Default_tx_handler\<rparr>))
      else u)"

definition UART_tx_complete :: "hardware \<Rightarrow> uart \<Rightarrow> bool \<times> uart" where
  "UART_tx_complete hw u = (let (s, u) = rd_lsr hw u in (tx_buff_size u = 0 \<and> s AND 0x40 \<noteq> 0, u))"

text \<open>\<open>for (cnt = 0; cnt < fill_size; ++cnt)\<close>\<close>

fun fill_loop :: "i8 list \<Rightarrow> nat \<Rightarrow> uart \<Rightarrow> uart option" where
  "fill_loop bs 0 u = Some u"
| "fill_loop bs (Suc n) u = do {
     b \<leftarrow> rd bs (unat (tx_idx u));
     let u = wr_reg THR b u;
     fill_loop bs n (u\<lparr>tx_idx := tx_idx u + 1\<rparr>)
   }"

definition default_tx_handler :: "hardware \<Rightarrow> uart \<Rightarrow> uart option" where
  "default_tx_handler hw u =
     (case tx_buffer u of
        None \<Rightarrow> Some u
      | Some bs \<Rightarrow>
          if 0 < tx_buff_size u then do {
            let (s, u) = rd_lsr hw u;
            u \<leftarrow> (if s AND 0x20 \<noteq> 0
              then let tx_remain = tx_buff_size u - tx_idx u;
                       fill_size = (if tx_remain < 16 then tx_remain else 16)
                   in fill_loop bs (unat fill_size) u
              else Some u);
            Some (if tx_idx u = tx_buff_size u then and_reg hw IER 0xFD (u\<lparr>tx_buff_size := 0\<rparr>) else u)
          } else Some u)"

text \<open>Calling a handler; \<open>user\<close> are the handlers of the application.\<close>

definition call_handler :: "hardware \<Rightarrow> (nat \<Rightarrow> uart \<Rightarrow> uart option) \<Rightarrow> uart_irq_handler \<Rightarrow> uart \<Rightarrow> uart option" where
  "call_handler hw user handler u =
     (case handler of NULL_HANDLER \<Rightarrow> Some u | Default_tx_handler \<Rightarrow> default_tx_handler hw u | User_handler n \<Rightarrow> user n u)"

definition uart_isr :: "hardware \<Rightarrow> (nat \<Rightarrow> uart \<Rightarrow> uart option) \<Rightarrow> uart \<Rightarrow> uart option" where
  "uart_isr hw user u =
     (let (v, u) = rd_reg hw IIR u; iirf = v AND 0x0F in
      if iirf = 0 then call_handler hw user (modemsts_handler u) u
      else if iirf = 0x02 then call_handler hw user (tx_handler u) u
      else if iirf = 0x04 \<or> iirf = 0x0C then call_handler hw user (rx_handler u) u
      else if iirf = 0x06 then call_handler hw user (linests_handler u) u
      else Some u)"

section \<open>Reception, status, handlers\<close>

text \<open>The loop of \<open>UART_get_rx\<close>, on the space left in the buffer.\<close>

fun rx_loop :: "hardware \<Rightarrow> nat \<Rightarrow> i8 \<Rightarrow> nat \<Rightarrow> i8 list \<Rightarrow> uart \<Rightarrow> (nat \<times> i8 list \<times> uart) option" where
  "rx_loop hw 0 s rx_size rx_buff u = Some (rx_size, rx_buff, u)"
| "rx_loop hw (Suc n) s rx_size rx_buff u =
     (if s AND 0x01 \<noteq> 0 then do {
        let (b, u) = rd_reg hw RBR u;
        rx_buff \<leftarrow> wr rx_buff rx_size b;
        let (s, u) = rd_lsr hw u;
        rx_loop hw n s (Suc rx_size) rx_buff u
      } else Some (rx_size, rx_buff, u))"

definition UART_get_rx :: "hardware \<Rightarrow> i8 list option \<Rightarrow> i32 \<Rightarrow> uart \<Rightarrow> (nat \<times> i8 list option \<times> uart) option" where
  "UART_get_rx hw rx_buff buff_size u =
     (case rx_buff of
        Some bs \<Rightarrow> if 0 < buff_size then do {
            let (s, u) = rd_lsr hw u;
            (n, bs, u) \<leftarrow> rx_loop hw (unat buff_size) s 0 bs u;
            Some (n, Some bs, u)
          } else Some (0, rx_buff, u)
      | None \<Rightarrow> Some (0, rx_buff, u))"

definition UART_enable_irq :: "hardware \<Rightarrow> nat \<Rightarrow> i16 \<Rightarrow> uart \<Rightarrow> uart" where
  "UART_enable_irq hw hart irq_mask u =
     (let u = enable_irq hw hart u in if irq_mask < 0xFFFF then or_reg hw IER (ucast (irq_mask AND 0x0F)) u else u)"

text \<open>\<open>uart_rx_trig_level_t\<close> is an \<open>unsigned int\<close>; 0xC1 is the enumerator after the last level.\<close>

definition UART_set_rx_handler :: "hardware \<Rightarrow> nat \<Rightarrow> uart_irq_handler \<Rightarrow> i32 \<Rightarrow> uart \<Rightarrow> uart" where
  "UART_set_rx_handler hw hart handler trigger_level u =
     (if handler \<noteq> NULL_HANDLER \<and> trigger_level < 0xC1
      then let (v, u) = rd_reg hw FCR (u\<lparr>rx_handler := handler\<rparr>);
               u = wr_reg FCR ((v AND 0x3F) OR ucast trigger_level) u
           in enable_irq hw hart (or_reg hw IER 0x01 u)
      else u)"

definition UART_set_tx_handler :: "hardware \<Rightarrow> nat \<Rightarrow> uart_irq_handler \<Rightarrow> uart \<Rightarrow> uart" where
  "UART_set_tx_handler hw hart handler u =
     (if handler \<noteq> NULL_HANDLER
      then enable_irq hw hart (or_reg hw IER 0x02 (u\<lparr>tx_handler := handler, tx_buffer := None, tx_buff_size := 0\<rparr>))
      else u)"

definition UART_set_modemstatus_handler :: "hardware \<Rightarrow> nat \<Rightarrow> uart_irq_handler \<Rightarrow> uart \<Rightarrow> uart" where
  "UART_set_modemstatus_handler hw hart handler u =
     (if handler \<noteq> NULL_HANDLER then enable_irq hw hart (or_reg hw IER 0x08 (u\<lparr>modemsts_handler := handler\<rparr>)) else u)"

text \<open>The loop of \<open>UART_fill_tx_fifo\<close> from index \<open>k\<close> on.\<close>

fun fifo_loop :: "i8 list \<Rightarrow> nat \<Rightarrow> nat \<Rightarrow> uart \<Rightarrow> uart option" where
  "fifo_loop bs k 0 u = Some u"
| "fifo_loop bs k (Suc n) u = Option.bind (rd bs k) (\<lambda>b. fifo_loop bs (Suc k) n (wr_reg THR b u))"

definition UART_fill_tx_fifo :: "hardware \<Rightarrow> i8 list option \<Rightarrow> i32 \<Rightarrow> uart \<Rightarrow> (nat \<times> uart) option" where
  "UART_fill_tx_fifo hw tx_buf tx_size u =
     (case tx_buf of
        Some bs \<Rightarrow> if 0 < tx_size then do {
            let (s, u) = rd_lsr hw u;
            if s AND 0x20 \<noteq> 0 then do {
              let n = (if tx_size < 16 then unat tx_size else 16);
              u \<leftarrow> fifo_loop bs 0 n u;
              Some (n, u)
            } else Some (0, u)
          } else Some (0, u)
      | None \<Rightarrow> Some (0, u))"

definition UART_get_rx_status :: "hardware \<Rightarrow> uart \<Rightarrow> i8 \<times> uart" where
  "UART_get_rx_status hw u = (let (_, u) = rd_lsr hw u in (status u AND 0x9E, u\<lparr>status := 0\<rparr>))"

definition UART_get_modem_status :: "hardware \<Rightarrow> uart \<Rightarrow> i8 \<times> uart" where
  "UART_get_modem_status hw u = rd_reg hw MSR u"

definition UART_get_tx_status :: "hardware \<Rightarrow> uart \<Rightarrow> i8 \<times> uart" where
  "UART_get_tx_status hw u = (let (s, u) = rd_lsr hw u in (s AND (0x20 OR 0x40), u))"

definition UART_set_break :: "hardware \<Rightarrow> uart \<Rightarrow> uart" where
  "UART_set_break hw u = or_reg hw LCR 0x40 u"

definition UART_clear_break :: "hardware \<Rightarrow> uart \<Rightarrow> uart" where
  "UART_clear_break hw u = and_reg hw LCR 0xBF u"

end
