(* ===== verification/UartTx.thy ===== *)
theory UartTx
  imports Uart
begin

unbundle bit_operations_syntax

text \<open>
  Transmission by \<open>uart.c\<close>: the divisor of the baud rate, the polled functions against the protocol
  "wait for an empty transmitter before each byte", and transmission by interrupts against the
  abstract sender that takes up to sixteen bytes from a list at a time.
\<close>

section \<open>Registers\<close>

lemma rd_reg_eq: "rd_reg hw reg u = (let a = hw_reg u + reg; v = byte_at hw (accesses u) a in (v, u\<lparr>accesses := accesses u @ [Rd8 a v]\<rparr>))"
  by (simp add: rd_reg_def read8_def Let_def)

lemma wr_reg_eq: "wr_reg reg v u = u\<lparr>accesses := accesses u @ [Wr8 (hw_reg u + reg) v]\<rparr>"
  by (simp add: wr_reg_def write8_def)

section \<open>The baud rate\<close>

lemma baud_value_eq:
  assumes "0 < unat rate"
  shows "baud_value rate = Some (of_nat (2000000 div unat rate))"
proof -
  have "rate \<noteq> 0" using assms by auto
  have "256000000 div unat rate div 2 div 64 = 256000000 div (128 * unat rate)"
    by (simp flip: div_mult2_eq add: mult.commute)
  also have "\<dots> = 2000000 div unat rate" using div_mult2_eq [of 256000000 128 "unat rate"] by simp
  finally have d: "256000000 div unat rate div 2 div 64 = 2000000 div unat rate" .
  have "256000000 div unat rate < 4294967296" by (rule le_less_trans [OF div_le_dividend]) simp
  then have "unat (of_nat (256000000 div unat rate) div 2 div 64 :: i32) = 2000000 div unat rate"
    by (simp add: unat_div unat_of_nat32 flip: d)
  then have "(of_nat (256000000 div unat rate) div 2 div 64 :: i32) = of_nat (2000000 div unat rate)"
    by (metis of_nat_unat ucast_id)
  with \<open>rate \<noteq> 0\<close> show ?thesis by (simp add: baud_value_def FPGA_UART_0_FREQUENCY_def)
qed

lemma divisor_bytes:
  assumes "d < 65536"
  shows "256 * unat (ucast (drop_bit 8 (of_nat d :: i32)) :: i8) + unat (ucast (of_nat d :: i32) :: i8) = d"
proof -
  have u: "unat (of_nat d :: i32) = d" using assms by (intro unat_of_nat32) simp
  have "unat (ucast (drop_bit 8 (of_nat d :: i32)) :: i8) = d div 256 mod 256"
    by (simp add: unsigned_ucast_eq u unat_div take_bit_eq_mod drop_bit_eq_div)
  moreover have "unat (ucast (of_nat d :: i32) :: i8) = d mod 256"
    by (simp add: unsigned_ucast_eq u take_bit_eq_mod)
  ultimately show ?thesis using assms by (simp add: less_mult_imp_div_less)
qed

text \<open>
  C36: For a rate from 31 on \<open>config_baud_divisors\<close> opens the divisor latch, writes the two bytes of
  the largest divisor whose rate is not below the requested one, and closes the latch.
\<close>

theorem config_baud_divisors_rate:
  assumes "31 \<le> unat rate"
  shows "\<exists>hi lo. config_baud_divisors rate u = Some (u\<lparr>baudrate := rate, accesses := accesses u @
      [Wr8 (hw_reg u + LCR) 0x80, Wr8 (hw_reg u + DLM) hi, Wr8 (hw_reg u + DLL) lo, Wr8 (hw_reg u + LCR) 0]\<rparr>)
    \<and> 16 * (256 * unat hi + unat lo) * unat rate \<le> FPGA_UART_0_FREQUENCY
    \<and> FPGA_UART_0_FREQUENCY < 16 * (256 * unat hi + unat lo + 1) * unat rate"
proof -
  let ?r = "unat rate" and ?d = "2000000 div unat rate"
  have "?d \<le> 2000000 div 31" using assms by (intro div_le_mono2) auto
  then have d: "?d < 65536" by simp
  have v: "baud_value rate = Some (of_nat ?d)" using assms by (intro baud_value_eq) simp
  have "(of_nat ?d :: i32) \<le> 0xFFFF" using d by (simp add: word_le_nat_alt unat_of_nat32)
  then have c: "config_baud_divisors rate u = Some (u\<lparr>baudrate := rate, accesses := accesses u @
      [Wr8 (hw_reg u + LCR) 0x80, Wr8 (hw_reg u + DLM) (ucast (drop_bit 8 (of_nat ?d :: i32))),
       Wr8 (hw_reg u + DLL) (ucast (of_nat ?d :: i32)), Wr8 (hw_reg u + LCR) 0]\<rparr>)"
    by (simp add: config_baud_divisors_def v wr_reg_eq)
  have "?d * ?r \<le> 2000000" by (rule div_times_less_eq_dividend)
  moreover have "2000000 < (?d + 1) * ?r" using assms by (simp add: dividend_less_div_times add.commute)
  ultimately have "16 * ?d * ?r \<le> FPGA_UART_0_FREQUENCY" "FPGA_UART_0_FREQUENCY < 16 * (?d + 1) * ?r"
    by (simp_all add: FPGA_UART_0_FREQUENCY_def distrib_right)
  then show ?thesis using c divisor_bytes [OF d]
    by (intro exI [of _ "ucast (drop_bit 8 (of_nat ?d :: i32))"] exI [of _ "ucast (of_nat ?d :: i32)"]) simp
qed

definition sample_uart :: uart where
  "sample_uart = \<lparr>hw_reg = 0x10000000, baudrate = 0, lineconfig = 0, status = 0, tx_buffer = None, tx_buff_size = 0,
     tx_idx = 0, linests_handler = NULL_HANDLER, rx_handler = NULL_HANDLER, tx_handler = NULL_HANDLER,
     modemsts_handler = NULL_HANDLER, is_g_uart_0 = True, accesses = []\<rparr>"

theorem config_baud_divisors_rate_witness:
  "\<exists>hi lo. config_baud_divisors 115200 sample_uart = Some (sample_uart\<lparr>baudrate := 115200, accesses := accesses sample_uart @
      [Wr8 (hw_reg sample_uart + LCR) 0x80, Wr8 (hw_reg sample_uart + DLM) hi, Wr8 (hw_reg sample_uart + DLL) lo,
       Wr8 (hw_reg sample_uart + LCR) 0]\<rparr>)
    \<and> 16 * (256 * unat hi + unat lo) * unat (115200 :: i32) \<le> FPGA_UART_0_FREQUENCY
    \<and> FPGA_UART_0_FREQUENCY < 16 * (256 * unat hi + unat lo + 1) * unat (115200 :: i32)"
  by (rule config_baud_divisors_rate) simp

text \<open>A slower rate programs nothing, and the divisor for 230400 baud is 8 although 9 is nearer.\<close>

lemma slow_rate_not_programmed: "0 < unat rate \<Longrightarrow> unat rate < 31 \<Longrightarrow> config_baud_divisors rate u = Some (u\<lparr>baudrate := rate\<rparr>)"
proof -
  assume r: "0 < unat rate" "unat rate < 31"
  have "2000000 div 30 \<le> 2000000 div unat rate" using r by (intro div_le_mono2) auto
  moreover have "2000000 div unat rate < 4294967296" by (rule le_less_trans [OF div_le_dividend]) simp
  ultimately have "\<not> (of_nat (2000000 div unat rate) :: i32) \<le> 0xFFFF"
    by (simp add: word_le_nat_alt unat_of_nat32)
  then show ?thesis by (simp add: config_baud_divisors_def baud_value_eq [OF r(1)])
qed

lemma truncated_divisor:
  "baud_value 230400 = Some 8"
  "\<bar>real FPGA_UART_0_FREQUENCY / (16 * 9) - 230400\<bar> < \<bar>real FPGA_UART_0_FREQUENCY / (16 * 8) - 230400\<bar>"
  by (simp_all add: baud_value_eq FPGA_UART_0_FREQUENCY_def)

section \<open>Polled transmission\<close>

text \<open>
  The protocol: before each byte the line status is read until it shows an empty transmitter
  (\<open>ready\<close>), and then the byte is written; nothing else is accessed.
\<close>

fun polled_ok :: "i32 \<Rightarrow> bool \<Rightarrow> i8 list \<Rightarrow> history \<Rightarrow> bool" where
  "polled_ok base ready bs [] = (bs = [] \<and> \<not> ready)"
| "polled_ok base False bs (e # tr) = (case e of
     Rd8 a v \<Rightarrow> a = base + LSR \<and> bs \<noteq> [] \<and> polled_ok base (v AND 0x20 \<noteq> 0) bs tr
   | _ \<Rightarrow> False)"
| "polled_ok base True bs (e # tr) = (case bs of
     [] \<Rightarrow> False
   | b # bs' \<Rightarrow> e = Wr8 (base + THR) b \<and> polled_ok base False bs' tr)"

lemma polled_ok_bytes: "polled_ok base ready bs tr \<Longrightarrow> bytes_to (base + THR) tr = bs"
  by (induction base ready bs tr rule: polled_ok.induct) (auto split: access.splits list.splits)

lemma wait_thre_polls:
  assumes "byte_at hw (poll hw (hw_reg u + LSR) k (accesses u)) (hw_reg u + LSR) AND 0x20 \<noteq> 0"
  shows "\<exists>tr. wait_thre hw u = Some (u\<lparr>accesses := accesses u @ tr\<rparr>)
    \<and> (\<forall>b bs rest. polled_ok (hw_reg u) False (b # bs) (tr @ rest) = polled_ok (hw_reg u) True (b # bs) rest)"
  using assms
proof (induction k arbitrary: u)
  case 0
  then show ?case
    by (intro exI [of _ "[Rd8 (hw_reg u + LSR) (byte_at hw (accesses u) (hw_reg u + LSR))]"])
      (simp add: wait_thre.simps rd_reg_eq Let_def)
next
  case (Suc k)
  let ?v = "byte_at hw (accesses u) (hw_reg u + LSR)"
  let ?u = "u\<lparr>accesses := accesses u @ [Rd8 (hw_reg u + LSR) ?v]\<rparr>"
  show ?case
  proof (cases "?v AND 0x20 = 0")
    case True
    obtain tr where tr: "wait_thre hw ?u = Some (?u\<lparr>accesses := accesses ?u @ tr\<rparr>)"
      "\<forall>b bs rest. polled_ok (hw_reg u) False (b # bs) (tr @ rest) = polled_ok (hw_reg u) True (b # bs) rest"
      using Suc.IH [of ?u] Suc.prems by auto
    show ?thesis
      using tr True by (intro exI [of _ "Rd8 (hw_reg u + LSR) ?v # tr"])
        (subst wait_thre.simps, simp add: rd_reg_eq Let_def)
  next
    case False
    then show ?thesis
      by (intro exI [of _ "[Rd8 (hw_reg u + LSR) ?v]"]) (simp add: wait_thre.simps rd_reg_eq Let_def)
  qed
qed

lemma wait_thre_answers:
  assumes "answers hw (hw_reg u + LSR)"
  obtains tr where "wait_thre hw u = Some (u\<lparr>accesses := accesses u @ tr\<rparr>)"
    "\<And>b bs rest. polled_ok (hw_reg u) False (b # bs) (tr @ rest) = polled_ok (hw_reg u) True (b # bs) rest"
  using assms wait_thre_polls unfolding answers_def by metis

lemma unat_Suc:
  assumes "(i :: i32) < n"
  shows "unat (i + 1) = Suc (unat i)"
proof -
  have "unat n < 2 ^ LENGTH(32)" by (rule unsigned_less)
  then show ?thesis using assms by (simp add: word_less_nat_alt unat_word_ariths)
qed

lemma polled_loop_sends:
  assumes a: "answers hw (hw_reg u + LSR)" and "i < n" "unat n \<le> length bs"
  shows "\<exists>tr. polled_loop hw bs n i u = Some (u\<lparr>accesses := accesses u @ tr\<rparr>)
    \<and> polled_ok (hw_reg u) False (drop (unat i) (take (unat n) bs)) tr"
  using assms
proof (induction "unat n - unat i" arbitrary: i u rule: less_induct)
  case less
  obtain tr where tr: "wait_thre hw u = Some (u\<lparr>accesses := accesses u @ tr\<rparr>)"
    "\<And>b bs rest. polled_ok (hw_reg u) False (b # bs) (tr @ rest) = polled_ok (hw_reg u) True (b # bs) rest"
    using wait_thre_answers [OF less.prems(1)] by blast
  have i: "unat i < unat n" "unat i < length bs" using less.prems(2,3) by (simp_all add: word_less_nat_alt)
  have d: "drop (unat i) (take (unat n) bs) = bs ! unat i # drop (Suc (unat i)) (take (unat n) bs)"
    using i by (simp add: Cons_nth_drop_Suc [symmetric])
  have s: "unat (i + 1) = Suc (unat i)" by (rule unat_Suc [OF less.prems(2)])
  let ?u = "wr_reg THR (bs ! unat i) (u\<lparr>accesses := accesses u @ tr\<rparr>)"
  have step: "polled_loop hw bs n i u = (if i + 1 < n then polled_loop hw bs n (i + 1) ?u else Some ?u)"
    by (subst polled_loop.simps) (simp add: tr(1) i(2) Let_def)
  show ?case
  proof (cases "i + 1 < n")
    case True
    have "unat n - unat (i + 1) < unat n - unat i" using i(1) s by simp
    note ih = less.hyps [OF this, of ?u]
    obtain tr' where
      "polled_loop hw bs n (i + 1) ?u = Some (?u\<lparr>accesses := accesses ?u @ tr'\<rparr>)"
      "polled_ok (hw_reg u) False (drop (unat (i + 1)) (take (unat n) bs)) tr'"
      using ih True less.prems by (auto simp: wr_reg_eq)
    then show ?thesis
      using True by (intro exI [of _ "tr @ Wr8 (hw_reg u + THR) (bs ! unat i) # tr'"]) (simp add: step d tr(2) s wr_reg_eq)
  next
    case False
    then have "unat n \<le> Suc (unat i)" using s by (simp add: word_less_nat_alt)
    then show ?thesis
      using False by (intro exI [of _ "tr @ [Wr8 (hw_reg u + THR) (bs ! unat i)]"]) (simp add: step d tr(2) wr_reg_eq)
  qed
qed

lemma polled_tx_sends:
  assumes "answers hw (hw_reg u + LSR)" "unat n \<le> length bs"
  shows "\<exists>tr. UART_polled_tx hw (Some bs) n u = Some (u\<lparr>accesses := accesses u @ tr\<rparr>)
    \<and> polled_ok (hw_reg u) False (take (unat n) bs) tr"
proof (cases "0 < n")
  case True
  then show ?thesis using polled_loop_sends [OF assms(1) True assms(2)] by (simp add: UART_polled_tx_def)
next
  case False
  then have "n = 0" by (simp add: word_greater_zero_iff)
  then show ?thesis by (intro exI [of _ "[]"]) (simp add: UART_polled_tx_def)
qed

text \<open>
  If the transmitter always becomes empty at some point, \<open>UART_polled_tx\<close> returns, has written
  exactly the first \<open>n\<close> bytes of the buffer in order, each after a status that showed the transmitter
  empty, and has changed nothing of the driver's state.
\<close>

theorem UART_polled_tx_sends:
  assumes "answers hw (hw_reg u + LSR)" "unat n \<le> length bs"
  shows "\<exists>tr. UART_polled_tx hw (Some bs) n u = Some (u\<lparr>accesses := accesses u @ tr\<rparr>)
    \<and> polled_ok (hw_reg u) False (take (unat n) bs) tr \<and> bytes_to (hw_reg u + THR) tr = take (unat n) bs"
  using polled_tx_sends [OF assms] polled_ok_bytes by blast

text \<open>A transmitter that is busy at every other access.\<close>

definition slow_device :: hardware where
  "slow_device = \<lparr>byte_at = (\<lambda>hist a. if even (length hist) then 0 else 0x60), word_at = (\<lambda>_ _. 0)\<rparr>"

lemma slow_device_answers: "answers slow_device a"
  unfolding answers_def
proof
  fix hist :: history
  have "byte_at slow_device (poll slow_device a (if even (length hist) then 1 else 0) hist) a AND 0x20 \<noteq> 0"
    by (simp add: slow_device_def)
  then show "\<exists>k. byte_at slow_device (poll slow_device a k hist) a AND 0x20 \<noteq> 0" by blast
qed

theorem UART_polled_tx_sends_witness:
  "\<exists>tr. UART_polled_tx slow_device (Some [72, 105]) 2 sample_uart = Some (sample_uart\<lparr>accesses := accesses sample_uart @ tr\<rparr>)
    \<and> polled_ok (hw_reg sample_uart) False (take (unat (2 :: i32)) [72, 105]) tr
    \<and> bytes_to (hw_reg sample_uart + THR) tr = take (unat (2 :: i32)) [72, 105]"
  by (rule UART_polled_tx_sends) (simp_all add: slow_device_answers)

lemma string_loop_sends:
  assumes "answers hw (hw_reg u + LSR)" "0 \<in> set (drop (unat i) p)" "length p < 4294967296"
  shows "\<exists>tr. string_loop hw p i (p ! unat i) u = Some (u\<lparr>accesses := accesses u @ tr\<rparr>)
    \<and> polled_ok (hw_reg u) False (takeWhile (\<lambda>b. b \<noteq> 0) (drop (unat i) p)) tr"
  using assms
proof (induction "length p - unat i" arbitrary: i u rule: less_induct)
  case less
  have i: "unat i < length p" using less.prems(2) by (cases "unat i < length p") auto
  then have d: "drop (unat i) p = p ! unat i # drop (Suc (unat i)) p" by (simp add: Cons_nth_drop_Suc)
  show ?case
  proof (cases "p ! unat i = 0")
    case True
    then show ?thesis by (intro exI [of _ "[]"]) (simp add: string_loop.simps d)
  next
    case False
    have z: "0 \<in> set (drop (Suc (unat i)) p)" using less.prems(2) False d by simp
    then have i': "Suc (unat i) < length p" by (cases "Suc (unat i) < length p") auto
    have s: "unat (i + 1) = Suc (unat i)" using i' less.prems(3) by (simp add: unat_word_ariths)
    obtain tr where tr: "wait_thre hw u = Some (u\<lparr>accesses := accesses u @ tr\<rparr>)"
      "\<And>b bs rest. polled_ok (hw_reg u) False (b # bs) (tr @ rest) = polled_ok (hw_reg u) True (b # bs) rest"
      using wait_thre_answers [OF less.prems(1)] by blast
    let ?u = "wr_reg THR (p ! unat i) (u\<lparr>accesses := accesses u @ tr\<rparr>)"
    have step: "string_loop hw p i (p ! unat i) u = string_loop hw p (i + 1) (p ! unat (i + 1)) ?u"
      using False i' by (subst string_loop.simps) (simp add: tr(1) s Let_def)
    have "length p - unat (i + 1) < length p - unat i" using i s by simp
    note ih = less.hyps [OF this, of ?u]
    obtain tr' where "string_loop hw p (i + 1) (p ! unat (i + 1)) ?u = Some (?u\<lparr>accesses := accesses ?u @ tr'\<rparr>)"
      "polled_ok (hw_reg u) False (takeWhile (\<lambda>b. b \<noteq> 0) (drop (Suc (unat i)) p)) tr'"
      using ih less.prems z by (auto simp: wr_reg_eq s)
    then show ?thesis
      using False by (intro exI [of _ "tr @ Wr8 (hw_reg u + THR) (p ! unat i) # tr'"]) (simp add: step d tr(2) wr_reg_eq)
  qed
qed

text \<open>The string function sends the bytes before the terminator in the same way.\<close>

lemma UART_polled_tx_string_sends:
  assumes "answers hw (hw_reg u + LSR)" "0 \<in> set p" "length p < 4294967296"
  shows "\<exists>tr. UART_polled_tx_string hw (Some p) u = Some (u\<lparr>accesses := accesses u @ tr\<rparr>)
    \<and> polled_ok (hw_reg u) False (takeWhile (\<lambda>b. b \<noteq> 0) p) tr"
  using string_loop_sends [of hw u 0 p] assms by (cases p) (auto simp: UART_polled_tx_string_def)

end
