(* ===== verification/UartIrq.thy ===== *)
theory UartIrq
  imports UartTx
begin

unbundle bit_operations_syntax

text \<open>
  Transmission by interrupts as a state machine: after \<open>UART_irq_tx\<close> the interrupt service routine and
  the functions of the driver that do not transmit themselves run in any order. The invariant says that the bytes written to
  the transmitter and the bytes still pending are together the buffer.
\<close>

section \<open>What leaves a transmission alone\<close>

text \<open>The driver's transmit fields are unchanged and nothing is written to the transmitter.\<close>

definition silent :: "uart \<Rightarrow> uart \<Rightarrow> bool" where
  "silent u u' = (hw_reg u' = hw_reg u \<and> tx_buffer u' = tx_buffer u \<and> tx_buff_size u' = tx_buff_size u \<and> tx_idx u' = tx_idx u
     \<and> tx_handler u' = tx_handler u \<and> (\<exists>tr. accesses u' = accesses u @ tr \<and> bytes_to (hw_reg u + THR) tr = []))"

lemma silent_refl [simp]: "silent u u"
  by (simp add: silent_def)

lemma silent_trans [trans]: "silent u v \<Longrightarrow> silent v w \<Longrightarrow> silent u w"
  by (auto simp: silent_def)

lemma silent_rd_reg: "silent u (snd (rd_reg hw reg u))"
  by (simp add: silent_def rd_reg_eq Let_def)

lemma silent_rd_lsr: "silent u (snd (rd_lsr hw u))"
  by (simp add: silent_def rd_lsr_def rd_reg_eq Let_def)

lemma silent_wr_reg: "reg \<noteq> THR \<Longrightarrow> silent u (wr_reg reg v u)"
  by (simp add: silent_def wr_reg_eq)

lemma silent_or_reg: "reg \<noteq> THR \<Longrightarrow> silent u (or_reg hw reg m u)"
  by (simp add: silent_def or_reg_def rd_reg_eq wr_reg_eq Let_def)

lemma silent_enable_irq: "silent u (enable_irq hw hart u)"
  by (simp add: silent_def enable_irq_def PLIC_EnableIRQ_def read32_def write32_def)

lemma silent_rx_loop: "rx_loop hw n s k bs u = Some (m, bs', u') \<Longrightarrow> silent u u'"
proof (induction n arbitrary: s k bs u)
  case (Suc n)
  show ?case
  proof (cases "s AND 0x01 \<noteq> 0")
    case True
    let ?r = "rd_reg hw RBR u"
    obtain bs1 where w: "wr bs k (fst ?r) = Some bs1"
      and l: "rx_loop hw n (fst (rd_lsr hw (snd ?r))) (Suc k) bs1 (snd (rd_lsr hw (snd ?r))) = Some (m, bs', u')"
      using Suc.prems True by (auto simp: case_prod_beta split: bind_splits)
    have "silent u (snd ?r)" by (rule silent_rd_reg)
    also have "silent (snd ?r) (snd (rd_lsr hw (snd ?r)))" by (rule silent_rd_lsr)
    also have "silent (snd (rd_lsr hw (snd ?r))) u'"
      by (rule Suc.IH [OF l])
    finally show ?thesis .
  qed (use Suc.prems in simp)
qed simp

lemma silent_get_rx: "UART_get_rx hw rx n u = Some (k, rx', u') \<Longrightarrow> silent u u'"
proof -
  assume r: "UART_get_rx hw rx n u = Some (k, rx', u')"
  show ?thesis
  proof (cases "\<exists>bs. rx = Some bs \<and> 0 < n")
    case True
    then obtain bs where bs: "rx = Some bs" "0 < n" by blast
    then obtain bs' where "rx_loop hw (unat n) (fst (rd_lsr hw u)) 0 bs (snd (rd_lsr hw u)) = Some (k, bs', u')"
      using r by (auto simp: UART_get_rx_def case_prod_beta split: bind_splits)
    from silent_trans [OF silent_rd_lsr silent_rx_loop [OF this]] show ?thesis .
  next
    case False
    then show ?thesis using r by (auto simp: UART_get_rx_def split: option.splits if_splits)
  qed
qed

lemma silent_status:
  "silent u (snd (UART_tx_complete hw u))" "silent u (snd (UART_get_tx_status hw u))"
  "silent u (snd (UART_get_rx_status hw u))" "silent u (snd (UART_get_modem_status hw u))"
  by (simp_all add: silent_def UART_tx_complete_def UART_get_tx_status_def UART_get_rx_status_def UART_get_modem_status_def
      rd_lsr_def rd_reg_eq Let_def)

lemma silent_and_reg: "reg \<noteq> THR \<Longrightarrow> silent u (and_reg hw reg m u)"
  by (simp add: silent_def and_reg_def rd_reg_eq wr_reg_eq Let_def)

lemma silent_handlers: "silent u (u\<lparr>rx_handler := h\<rparr>)" "silent u (u\<lparr>modemsts_handler := h\<rparr>)"
  by (simp_all add: silent_def)

lemma register_not_THR: "IER \<noteq> THR" "FCR \<noteq> THR" "LCR \<noteq> THR"
  by (simp_all add: IER_def FCR_def LCR_def THR_def)

lemma silent_settings:
  "silent u (UART_enable_irq hw hart m u)" "silent u (UART_set_rx_handler hw hart h l u)"
  "silent u (UART_set_modemstatus_handler hw hart h u)" "silent u (UART_set_break hw u)" "silent u (UART_clear_break hw u)"
proof -
  show "silent u (UART_enable_irq hw hart m u)"
    using silent_trans [OF silent_enable_irq silent_or_reg [OF register_not_THR(1)]] silent_enable_irq
    by (simp add: UART_enable_irq_def Let_def)
  have "silent u (snd (rd_reg hw FCR (u\<lparr>rx_handler := h\<rparr>)))"
    by (rule silent_trans [OF silent_handlers(1) silent_rd_reg])
  also have "silent (snd (rd_reg hw FCR (u\<lparr>rx_handler := h\<rparr>))) (wr_reg FCR v (snd (rd_reg hw FCR (u\<lparr>rx_handler := h\<rparr>))))" for v
    by (rule silent_wr_reg [OF register_not_THR(2)])
  finally show "silent u (UART_set_rx_handler hw hart h l u)"
    using silent_trans [OF _ silent_trans [OF silent_or_reg [OF register_not_THR(1)] silent_enable_irq]]
    by (simp add: UART_set_rx_handler_def case_prod_beta Let_def)
  show "silent u (UART_set_modemstatus_handler hw hart h u)"
    using silent_trans [OF silent_handlers(2) silent_trans [OF silent_or_reg [OF register_not_THR(1)] silent_enable_irq]]
    by (simp add: UART_set_modemstatus_handler_def)
  show "silent u (UART_set_break hw u)" "silent u (UART_clear_break hw u)"
    unfolding UART_set_break_def UART_clear_break_def
    by (rule silent_or_reg [OF register_not_THR(3)], rule silent_and_reg [OF register_not_THR(3)])
qed

section \<open>The interrupt handler\<close>

text \<open>What is still to be sent.\<close>

definition pending :: "uart \<Rightarrow> i8 list" where
  "pending u = (case tx_buffer u of None \<Rightarrow> []
     | Some bs \<Rightarrow> if tx_buff_size u = 0 then [] else drop (unat (tx_idx u)) (take (unat (tx_buff_size u)) bs))"

text \<open>A transmission of the first \<open>n\<close> bytes of \<open>buf\<close> that started when the history was \<open>h0\<close>.\<close>

definition sending :: "i8 list \<Rightarrow> i32 \<Rightarrow> i32 \<Rightarrow> history \<Rightarrow> uart \<Rightarrow> bool" where
  "sending buf n base h0 u = (0 < n \<and> unat n \<le> length buf \<and> hw_reg u = base \<and> tx_handler u = Default_tx_handler
     \<and> tx_buffer u = Some buf \<and> (tx_buff_size u = n \<and> tx_idx u < n \<or> tx_buff_size u = 0 \<and> tx_idx u = n)
     \<and> (\<exists>tr. accesses u = h0 @ tr \<and> bytes_to (base + THR) tr @ pending u = take (unat n) buf))"

lemma sending_silent: "sending buf n base h0 u \<Longrightarrow> silent u u' \<Longrightarrow> sending buf n base h0 u'"
  by (force simp: sending_def silent_def pending_def)

lemma fill_loop_sends:
  assumes "unat (tx_idx u) + n \<le> length bs" "unat (tx_idx u) + n < 4294967296"
  shows "fill_loop bs n u = Some (u\<lparr>tx_idx := tx_idx u + of_nat n,
    accesses := accesses u @ map (Wr8 (hw_reg u + THR)) (take n (drop (unat (tx_idx u)) bs))\<rparr>)"
  using assms
proof (induction n arbitrary: u)
  case 0
  then show ?case by simp
next
  case (Suc n)
  let ?i = "unat (tx_idx u)"
  let ?u = "u\<lparr>accesses := accesses u @ [Wr8 (hw_reg u + THR) (bs ! ?i)], tx_idx := tx_idx u + 1\<rparr>"
  have i: "unat (tx_idx u + 1) = Suc ?i" using Suc.prems(2) by (simp add: unat_word_ariths)
  have d: "drop ?i bs = bs ! ?i # drop (Suc ?i) bs" using Suc.prems(1) by (simp add: Cons_nth_drop_Suc)
  have "fill_loop bs (Suc n) u = fill_loop bs n ?u" using Suc.prems(1) by (simp add: wr_reg_eq)
  also have "\<dots> = Some (?u\<lparr>tx_idx := tx_idx ?u + of_nat n,
    accesses := accesses ?u @ map (Wr8 (hw_reg ?u + THR)) (take n (drop (unat (tx_idx ?u)) bs))\<rparr>)"
    by (rule Suc.IH) (use Suc.prems i in simp_all)
  finally show ?case by (simp add: d i add.assoc)
qed

lemma bytes_to_map_Wr8 [simp]: "bytes_to a (map (Wr8 a) bs) = bs"
  by (induction bs) simp_all

text \<open>One call of the handler takes nothing, or up to sixteen bytes off the pending ones.\<close>

definition batch :: "i8 \<Rightarrow> i8 list \<Rightarrow> nat" where
  "batch s rest = (if s AND 0x20 = 0 then 0 else min 16 (length rest))"

lemma tx_batch:
  assumes s: "sending buf n base h0 u" and "tx_buff_size u = n"
  shows "\<exists>u' tr. default_tx_handler hw u = Some u' \<and> sending buf n base h0 u'
    \<and> accesses u' = accesses u @ tr \<and> bytes_to (base + THR) tr = take (batch (fst (rd_lsr hw u)) (pending u)) (pending u)
    \<and> pending u' = drop (batch (fst (rd_lsr hw u)) (pending u)) (pending u)"
proof -
  let ?s = "fst (rd_lsr hw u)" and ?v = "snd (rd_lsr hw u)" and ?i = "unat (tx_idx u)"
  have b: "tx_buffer u = Some buf" "0 < n" "unat n \<le> length buf" "hw_reg u = base" "tx_handler u = Default_tx_handler"
    using s by (simp_all add: sending_def)
  have n0: "n \<noteq> 0" using b(2) by auto
  have "unat n < 2 ^ LENGTH(32)" by (rule unsigned_less)
  then have nlt: "unat n < 4294967296" by simp
  have i: "tx_idx u < n" using s assms(2) n0 by (auto simp: sending_def)
  have iu: "?i < unat n" using i by (simp add: word_less_nat_alt)
  have p: "pending u = drop ?i (take (unat n) buf)" using assms(2) b n0 by (simp add: pending_def)
  have lp: "length (pending u) = unat n - ?i" using b(3) by (simp add: p)
  obtain tr0 where tr0: "accesses u = h0 @ tr0" "bytes_to (base + THR) tr0 @ pending u = take (unat n) buf"
    using s by (auto simp: sending_def)
  have v: "tx_buffer ?v = Some buf" "tx_buff_size ?v = n" "tx_idx ?v = tx_idx u" "hw_reg ?v = base" "tx_handler ?v = Default_tx_handler"
    "accesses ?v = accesses u @ [Rd8 (base + LSR) ?s]"
    using b assms(2) by (simp_all add: rd_lsr_def rd_reg_eq Let_def)
  define k where "k = batch ?s (pending u)"
  have kle: "k \<le> length (pending u)" by (simp add: k_def batch_def)
  have sub: "unat (n - tx_idx u) = unat n - ?i" using iu by (simp add: unat_sub_if')
  have fill: "(if ?s AND 0x20 \<noteq> 0
      then fill_loop buf (unat (if tx_buff_size ?v - tx_idx ?v < 16 then tx_buff_size ?v - tx_idx ?v else 16)) ?v else Some ?v)
    = Some (?v\<lparr>tx_idx := tx_idx u + of_nat k, accesses := accesses ?v @ map (Wr8 (base + THR)) (take k (pending u))\<rparr>)"
  proof (cases "?s AND 0x20 = 0")
    case True
    then show ?thesis by (simp add: k_def batch_def v)
  next
    case False
    have k: "unat (if n - tx_idx u < 16 then n - tx_idx u else 16) = k"
      using False lp sub by (simp add: k_def batch_def word_less_nat_alt min_def)
    have "fill_loop buf k ?v = Some (?v\<lparr>tx_idx := tx_idx ?v + of_nat k,
        accesses := accesses ?v @ map (Wr8 (hw_reg ?v + THR)) (take k (drop (unat (tx_idx ?v)) buf))\<rparr>)"
      by (rule fill_loop_sends) (use kle lp b(3) iu v nlt in auto)
    moreover have "min (k + ?i) (unat n) = k + ?i" using kle lp iu by simp
    then have "take k (drop ?i buf) = take k (pending u)" by (simp add: p take_drop)
    ultimately show ?thesis using False unfolding v(2,3) k by (simp add: v)
  qed
  let ?w = "?v\<lparr>tx_idx := tx_idx u + of_nat k, accesses := accesses ?v @ map (Wr8 (base + THR)) (take k (pending u))\<rparr>"
  let ?x = "if tx_idx ?w = n then and_reg hw IER 0xFD (?w\<lparr>tx_buff_size := 0\<rparr>) else ?w"
  have h: "default_tx_handler hw u = Some ?x"
    using fill n0 assms(2) b(1,2) unfolding default_tx_handler_def case_prod_beta Let_def
    by (simp add: v(2))
  have "k < 4294967296" using kle lp nlt by simp
  then have ui: "unat (tx_idx u + of_nat k) = ?i + k"
    using kle lp nlt iu by (simp add: unat_word_ariths unat_of_nat32)
  have fin: "tx_idx u + of_nat k = n \<longleftrightarrow> k = length (pending u)"
    using ui lp iu by (auto simp: word_unat_eq_iff)
  have d: "drop (?i + k) (take (unat n) buf) = drop k (pending u)" by (simp add: p add.commute)
  obtain tr where tr: "accesses ?x = accesses u @ Rd8 (base + LSR) ?s # map (Wr8 (base + THR)) (take k (pending u)) @ tr"
    "bytes_to (base + THR) tr = []"
    by (cases "tx_idx u + of_nat k = n") (simp_all add: v and_reg_def rd_reg_eq wr_reg_eq Let_def IER_def THR_def)
  have px: "pending ?x = drop k (pending u)"
    using fin n0 b(1) v ui d by (simp add: pending_def and_reg_def rd_reg_eq wr_reg_eq Let_def)
  have le: "tx_idx u + of_nat k = n \<or> tx_idx u + of_nat k < n"
    using ui kle lp iu by (auto simp: word_less_nat_alt word_unat_eq_iff)
  have "sending buf n base h0 ?x"
    unfolding sending_def px
  proof (intro conjI exI)
    show "accesses ?x = h0 @ tr0 @ Rd8 (base + LSR) ?s # map (Wr8 (base + THR)) (take k (pending u)) @ tr"
      unfolding tr(1) tr0(1) by simp
    show "bytes_to (base + THR) (tr0 @ Rd8 (base + LSR) ?s # map (Wr8 (base + THR)) (take k (pending u)) @ tr) @ drop k (pending u)
        = take (unat n) buf"
      using tr0(2) tr(2) by simp
  qed (use b v n0 le in \<open>auto simp: and_reg_def rd_reg_eq wr_reg_eq Let_def\<close>)
  moreover have "bytes_to (base + THR) (Rd8 (base + LSR) ?s # map (Wr8 (base + THR)) (take k (pending u)) @ tr) = take k (pending u)"
    using tr(2) by simp
  ultimately show ?thesis
    using h tr(1) px unfolding k_def [symmetric] by blast
qed

lemma default_tx_handler_sending:
  assumes "sending buf n base h0 u"
  shows "\<exists>u' tr. default_tx_handler hw u = Some u' \<and> sending buf n base h0 u'
    \<and> accesses u' = accesses u @ tr \<and> bytes_to (base + THR) tr = take (batch (fst (rd_lsr hw u)) (pending u)) (pending u)
    \<and> pending u' = drop (batch (fst (rd_lsr hw u)) (pending u)) (pending u)"
proof (cases "tx_buff_size u = n")
  case True
  then show ?thesis by (rule tx_batch [OF assms])
next
  case False
  then have z: "tx_buff_size u = 0" using assms by (simp add: sending_def)
  then have "default_tx_handler hw u = Some u" by (simp add: default_tx_handler_def split: option.split)
  moreover have "pending u = []" using z by (simp add: pending_def split: option.split)
  ultimately show ?thesis using assms by (intro exI [of _ u] exI [of _ "[]"]) simp
qed

section \<open>The driver as a state machine\<close>

text \<open>
  Handlers of the application that leave the transmission alone. The steps are the interrupt service routine and all public
  functions of the driver except those that transmit themselves (\<open>UART_polled_tx\<close>, \<open>UART_polled_tx_string\<close>,
  \<open>UART_fill_tx_fifo\<close>, another \<open>UART_irq_tx\<close>) or drop the transmission (\<open>UART_init\<close>, \<open>UART_set_tx_handler\<close>).
\<close>

definition quiet :: "(nat \<Rightarrow> uart \<Rightarrow> uart option) \<Rightarrow> bool" where
  "quiet user = (\<forall>k u u'. user k u = Some u' \<longrightarrow> silent u u')"

inductive driver_step :: "hardware \<Rightarrow> (nat \<Rightarrow> uart \<Rightarrow> uart option) \<Rightarrow> uart \<Rightarrow> uart \<Rightarrow> bool" for hw user where
  isr: "uart_isr hw user u = Some u' \<Longrightarrow> driver_step hw user u u'"
| tx_complete: "driver_step hw user u (snd (UART_tx_complete hw u))"
| tx_status: "driver_step hw user u (snd (UART_get_tx_status hw u))"
| rx_status: "driver_step hw user u (snd (UART_get_rx_status hw u))"
| modem_status: "driver_step hw user u (snd (UART_get_modem_status hw u))"
| get_rx: "UART_get_rx hw rx n u = Some (k, rx', u') \<Longrightarrow> driver_step hw user u u'"
| enable_irq: "driver_step hw user u (UART_enable_irq hw hart m u)"
| set_rx_handler: "driver_step hw user u (UART_set_rx_handler hw hart h l u)"
| set_modemstatus_handler: "driver_step hw user u (UART_set_modemstatus_handler hw hart h u)"
| set_break: "driver_step hw user u (UART_set_break hw u)"
| clear_break: "driver_step hw user u (UART_clear_break hw u)"

inductive reachable :: "hardware \<Rightarrow> (nat \<Rightarrow> uart \<Rightarrow> uart option) \<Rightarrow> uart \<Rightarrow> uart \<Rightarrow> bool" for hw user u0 where
  start: "reachable hw user u0 u0"
| step: "reachable hw user u0 u \<Longrightarrow> driver_step hw user u u' \<Longrightarrow> reachable hw user u0 u'"

lemma isr_sending:
  assumes "sending buf n base h0 u" "quiet user" "uart_isr hw user u = Some u'"
  shows "sending buf n base h0 u'"
proof -
  let ?v = "snd (rd_reg hw IIR u)"
  have v: "sending buf n base h0 ?v" by (rule sending_silent [OF assms(1) silent_rd_reg])
  have call: "sending buf n base h0 u'" if "call_handler hw user handler ?v = Some u'" for handler
  proof (cases handler)
    case NULL_HANDLER
    then show ?thesis using that v by (simp add: call_handler_def)
  next
    case Default_tx_handler
    then show ?thesis using that default_tx_handler_sending [OF v, of hw] by (auto simp: call_handler_def)
  next
    case (User_handler k)
    then have "silent ?v u'" using that assms(2) by (simp add: call_handler_def quiet_def)
    then show ?thesis using sending_silent [OF v] by blast
  qed
  show ?thesis
    using assms(3) v call by (auto simp: uart_isr_def case_prod_beta Let_def split: if_splits)
qed

lemma step_sending:
  assumes "driver_step hw user u u'" "sending buf n base h0 u" "quiet user"
  shows "sending buf n base h0 u'"
  using assms(1)
  by (cases rule: driver_step.cases)
    (use assms(2,3) in \<open>auto intro: isr_sending sending_silent silent_status silent_settings silent_get_rx\<close>)

lemma reachable_sending:
  "reachable hw user u0 u \<Longrightarrow> sending buf n base h0 u0 \<Longrightarrow> quiet user \<Longrightarrow> sending buf n base h0 u"
  by (induction rule: reachable.induct) (auto intro: step_sending)

lemma irq_tx_sending:
  assumes "0 < n" "unat n \<le> length bs"
  shows "sending bs n (hw_reg u) (accesses u) (UART_irq_tx hw hart (Some bs) n u)"
proof -
  let ?u = "u\<lparr>tx_buffer := Some bs, tx_buff_size := n, tx_idx := 0, tx_handler := Default_tx_handler\<rparr>"
  have "n \<noteq> 0" using assms(1) by auto
  then have "sending bs n (hw_reg u) (accesses u) ?u" using assms by (simp add: sending_def pending_def)
  moreover have "silent ?u (enable_irq hw hart (or_reg hw IER 0x02 ?u))"
    by (rule silent_trans [OF silent_or_reg silent_enable_irq]) (simp add: IER_def THR_def)
  ultimately show ?thesis using sending_silent assms(1) by (simp add: UART_irq_tx_def)
qed

text \<open>
  C7: After \<open>UART_irq_tx\<close>, in any sequence of runs of the interrupt service routine and calls of the driver's functions for
  reception, status, interrupts, handlers of received data and modem status, and the break, the bytes written to the
  transmitter followed by the pending ones are the buffer: none is left out, repeated or reordered. When
  \<open>UART_tx_complete\<close> says that the transmission is complete, all bytes were written. The application's handlers must
  leave the transmission alone; calls of the functions that transmit themselves, of \<open>UART_set_tx_handler\<close> and of
  \<open>UART_init\<close> are not among the steps, as each of them disturbs a transmission. What the device does with the bytes it
  was given is not in the model.
\<close>

theorem irq_transmission:
  assumes "0 < n" "unat n \<le> length bs" "quiet user"
    and "reachable hw user (UART_irq_tx hw hart (Some bs) n u) u'"
  shows "\<exists>tr. accesses u' = accesses u @ tr \<and> bytes_to (hw_reg u + THR) tr @ pending u' = take (unat n) bs
    \<and> (fst (UART_tx_complete hw u') \<longrightarrow> bytes_to (hw_reg u + THR) tr = take (unat n) bs)"
proof -
  have s: "sending bs n (hw_reg u) (accesses u) u'"
    by (rule reachable_sending [OF assms(4) irq_tx_sending [OF assms(1,2)] assms(3)])
  then obtain tr where tr: "accesses u' = accesses u @ tr" "bytes_to (hw_reg u + THR) tr @ pending u' = take (unat n) bs"
    by (auto simp: sending_def)
  have "pending u' = []" if "fst (UART_tx_complete hw u')"
    using that by (simp add: UART_tx_complete_def rd_lsr_def rd_reg_eq Let_def pending_def split: option.split)
  then show ?thesis using tr by (intro exI [of _ tr]) auto
qed

text \<open>A device whose interrupt identification and line status always show an empty transmitter.\<close>

definition empty_tx :: "hardware \<Rightarrow> i32 \<Rightarrow> bool" where
  "empty_tx hw base = (\<forall>hist. byte_at hw hist (base + IIR) AND 0x0F = 2 \<and> byte_at hw hist (base + LSR) AND 0x20 \<noteq> 0)"

definition ready_device :: hardware where
  "ready_device = \<lparr>byte_at = (\<lambda>_ a. if a = 0x10000008 then 0xC2 else 0x60), word_at = (\<lambda>_ _. 0)\<rparr>"

lemma ready_device_empty: "empty_tx ready_device 0x10000000"
  by (simp add: empty_tx_def ready_device_def IIR_def LSR_def)

definition no_user :: "nat \<Rightarrow> uart \<Rightarrow> uart option" where
  "no_user k u = None"

theorem irq_transmission_witness:
  "\<exists>u' tr. uart_isr ready_device no_user (UART_irq_tx ready_device 0 (Some [1, 2, 3]) 3 sample_uart) = Some u'
    \<and> accesses u' = accesses sample_uart @ tr \<and> bytes_to (hw_reg sample_uart + THR) tr @ pending u' = take (unat (3 :: i32)) [1, 2, 3]
    \<and> (fst (UART_tx_complete ready_device u') \<longrightarrow> bytes_to (hw_reg sample_uart + THR) tr = take (unat (3 :: i32)) [1, 2, 3])"
proof -
  let ?u = "UART_irq_tx ready_device 0 (Some [1, 2, 3]) 3 sample_uart"
  have s: "sending [1, 2, 3] 3 (hw_reg sample_uart) (accesses sample_uart) ?u" by (rule irq_tx_sending) simp_all
  obtain u' where u': "uart_isr ready_device no_user ?u = Some u'"
    using default_tx_handler_sending [OF sending_silent [OF s silent_rd_reg], of ready_device ready_device IIR] s
    by (auto simp: uart_isr_def case_prod_beta Let_def rd_reg_eq ready_device_def call_handler_def sending_def IIR_def sample_uart_def)
  have "reachable ready_device no_user ?u u'" by (rule reachable.step [OF reachable.start driver_step.isr [OF u']])
  from irq_transmission [OF _ _ _ this] u' show ?thesis by (simp add: quiet_def no_user_def)
qed

fun isr_run :: "hardware \<Rightarrow> (nat \<Rightarrow> uart \<Rightarrow> uart option) \<Rightarrow> nat \<Rightarrow> uart \<Rightarrow> uart option" where
  "isr_run hw user 0 u = Some u"
| "isr_run hw user (Suc k) u = Option.bind (uart_isr hw user u) (isr_run hw user k)"

lemma isr_batch:
  assumes s: "sending buf n base h0 u" and e: "empty_tx hw base"
  shows "\<exists>u'. uart_isr hw user u = Some u' \<and> sending buf n base h0 u' \<and> pending u' = drop 16 (pending u)"
proof -
  let ?v = "snd (rd_reg hw IIR u)"
  have v: "sending buf n base h0 ?v" by (rule sending_silent [OF s silent_rd_reg])
  have b: "hw_reg u = base" "tx_handler ?v = Default_tx_handler" using s v by (simp_all add: sending_def)
  have i: "fst (rd_reg hw IIR u) AND 0x0F = 2" using e b by (simp add: empty_tx_def rd_reg_eq Let_def)
  have "uart_isr hw user u = default_tx_handler hw ?v"
    by (simp add: uart_isr_def case_prod_beta Let_def i call_handler_def b)
  moreover have "batch (fst (rd_lsr hw ?v)) rest = min 16 (length rest)" for rest
    using e b by (simp add: batch_def rd_lsr_def rd_reg_eq Let_def empty_tx_def)
  moreover have "pending ?v = pending u" by (simp add: pending_def rd_reg_eq Let_def split: option.split)
  ultimately show ?thesis
    using default_tx_handler_sending [OF v, of hw] by (auto simp: min_def split: if_splits)
qed

lemma isr_run_batches:
  assumes "sending buf n base h0 u" "empty_tx hw base"
  shows "\<exists>u'. isr_run hw user k u = Some u' \<and> sending buf n base h0 u' \<and> pending u' = drop (16 * k) (pending u)"
  using assms(1)
proof (induction k arbitrary: u)
  case 0
  then show ?case by simp
next
  case (Suc k)
  obtain u1 where u1: "uart_isr hw user u = Some u1" "sending buf n base h0 u1" "pending u1 = drop 16 (pending u)"
    using isr_batch [OF Suc.prems assms(2)] by blast
  obtain u2 where "isr_run hw user k u1 = Some u2" "sending buf n base h0 u2" "pending u2 = drop (16 * k) (pending u1)"
    using Suc.IH [OF u1(2)] by blast
  then show ?case using u1 by (auto simp: add.commute)
qed

text \<open>
  C23: With a transmitter that is empty at each interrupt, \<open>k\<close> interrupts send the first 16 \<open>k\<close> bytes, and
  once these are all, the transmission is marked complete.
\<close>

theorem irq_transmission_finishes:
  assumes "0 < n" "unat n \<le> length bs" "empty_tx hw (hw_reg u)"
  shows "\<exists>u' tr. isr_run hw user k (UART_irq_tx hw hart (Some bs) n u) = Some u'
    \<and> accesses u' = accesses u @ tr \<and> bytes_to (hw_reg u + THR) tr = take (16 * k) (take (unat n) bs)
    \<and> (unat n \<le> 16 * k \<longrightarrow> tx_buff_size u' = 0)"
proof -
  let ?u = "UART_irq_tx hw hart (Some bs) n u" and ?t = "take (unat n) bs"
  have s: "sending bs n (hw_reg u) (accesses u) ?u" by (rule irq_tx_sending [OF assms(1,2)])
  have n0: "n \<noteq> 0" using assms(1) by auto
  have "pending ?u = ?t"
    using n0 assms(1) by (simp add: pending_def UART_irq_tx_def enable_irq_def or_reg_def rd_reg_eq wr_reg_eq Let_def)
  then obtain u' where u': "isr_run hw user k ?u = Some u'" "sending bs n (hw_reg u) (accesses u) u'" "pending u' = drop (16 * k) ?t"
    using isr_run_batches [OF s assms(3), of user k] by auto
  obtain tr where tr: "accesses u' = accesses u @ tr" "bytes_to (hw_reg u + THR) tr @ drop (16 * k) ?t = ?t"
    using u'(2,3) by (auto simp: sending_def)
  have "bytes_to (hw_reg u + THR) tr = take (16 * k) ?t"
    using tr(2) append_take_drop_id [of "16 * k" ?t] by (metis append_same_eq)
  moreover have "tx_buff_size u' = 0" if "unat n \<le> 16 * k"
  proof (rule ccontr)
    assume "tx_buff_size u' \<noteq> 0"
    then have "tx_buff_size u' = n" "tx_idx u' < n" "tx_buffer u' = Some bs" using u'(2) by (auto simp: sending_def)
    then have "pending u' \<noteq> []" using assms(2) n0 by (simp add: pending_def word_less_nat_alt)
    then show False using u'(3) that by simp
  qed
  ultimately show ?thesis using u'(1) tr(1) by blast
qed

theorem irq_transmission_finishes_witness:
  "\<exists>u' tr. isr_run ready_device no_user 2 (UART_irq_tx ready_device 0 (Some (replicate 20 65)) 20 sample_uart) = Some u'
    \<and> accesses u' = accesses sample_uart @ tr
    \<and> bytes_to (hw_reg sample_uart + THR) tr = take (16 * 2) (take (unat (20 :: i32)) (replicate 20 65))
    \<and> (unat (20 :: i32) \<le> 16 * 2 \<longrightarrow> tx_buff_size u' = 0)"
  by (rule irq_transmission_finishes) (simp_all add: ready_device_empty sample_uart_def)

end
