(* ===== verification/UartRx.thy ===== *)
theory UartRx
  imports UartIrq
begin

unbundle bit_operations_syntax

text \<open>
  Reception by \<open>uart.c\<close>: what \<open>UART_get_rx\<close> delivers and records, and what \<open>UART_set_rx_handler\<close> writes
  to the FIFO control register.
\<close>

section \<open>Reading the receiver\<close>

text \<open>
  The protocol, after a line status that showed (\<open>ready\<close>) a byte or none, with room for \<open>space\<close> bytes: a
  byte is read only when there is one and room for it, then the line status is read again; it stops
  only for lack of bytes or of room.
\<close>

fun rx_ok :: "i32 \<Rightarrow> bool \<Rightarrow> nat \<Rightarrow> i8 list \<Rightarrow> history \<Rightarrow> bool" where
  "rx_ok base ready space got [] = (got = [] \<and> (\<not> ready \<or> space = 0))"
| "rx_ok base ready (Suc space) (b # got) (Rd8 a b' # Rd8 a' v # tr) =
     (ready \<and> a = base + RBR \<and> b' = b \<and> a' = base + LSR \<and> rx_ok base (v AND 0x01 \<noteq> 0) space got tr)"
| "rx_ok base ready space got tr = False"

text \<open>The union of the line status values in a history.\<close>

fun lsr_bits :: "i32 \<Rightarrow> history \<Rightarrow> i8" where
  "lsr_bits base [] = 0"
| "lsr_bits base (e # tr) = (case e of Rd8 a v \<Rightarrow> if a = base + LSR then v else 0 | _ \<Rightarrow> 0) OR lsr_bits base tr"

lemma rd_lsr_eq: "rd_lsr hw u = (let a = hw_reg u + LSR; v = byte_at hw (accesses u) a in
    (v, u\<lparr>status := status u OR v, accesses := accesses u @ [Rd8 a v]\<rparr>))"
  by (simp add: rd_lsr_def rd_reg_eq Let_def)

lemma rx_loop_result:
  assumes "k + n \<le> length bs"
  shows "\<exists>got tr. rx_loop hw n s k bs u
      = Some (k + length got, take k bs @ got @ drop (k + length got) bs,
          u\<lparr>status := status u OR lsr_bits (hw_reg u) tr, accesses := accesses u @ tr\<rparr>)
    \<and> rx_ok (hw_reg u) (s AND 0x01 \<noteq> 0) n got tr"
  using assms
proof (induction n arbitrary: s k bs u)
  case 0
  then show ?case by (intro exI [of _ "[]"]) simp
next
  case (Suc n)
  show ?case
  proof (cases "s AND 0x01 = 0")
    case True
    then show ?thesis by (intro exI [of _ "[]"]) simp
  next
    case False
    let ?b = "byte_at hw (accesses u) (hw_reg u + RBR)"
    let ?u1 = "u\<lparr>accesses := accesses u @ [Rd8 (hw_reg u + RBR) ?b]\<rparr>"
    let ?v = "byte_at hw (accesses ?u1) (hw_reg u + LSR)"
    let ?u2 = "?u1\<lparr>status := status u OR ?v, accesses := accesses ?u1 @ [Rd8 (hw_reg u + LSR) ?v]\<rparr>"
    have k: "k < length bs" using Suc.prems by simp
    have step: "rx_loop hw (Suc n) s k bs u = rx_loop hw n ?v (Suc k) (bs[k := ?b]) ?u2"
      using False k by (simp add: rd_reg_eq rd_lsr_eq Let_def)
    obtain got tr where g: "rx_loop hw n ?v (Suc k) (bs[k := ?b]) ?u2
        = Some (Suc k + length got, take (Suc k) (bs[k := ?b]) @ got @ drop (Suc k + length got) (bs[k := ?b]),
            ?u2\<lparr>status := status ?u2 OR lsr_bits (hw_reg ?u2) tr, accesses := accesses ?u2 @ tr\<rparr>)"
      "rx_ok (hw_reg ?u2) (?v AND 0x01 \<noteq> 0) n got tr"
      using Suc.IH [of "Suc k" "bs[k := ?b]" ?v ?u2] Suc.prems by auto
    have t: "take (Suc k) (bs[k := ?b]) = take k bs @ [?b]" using k by (simp add: take_Suc_conv_app_nth)
    show ?thesis
      unfolding step g(1) t
      using g(2) False
      by (intro exI [of _ "?b # got"] exI [of _ "Rd8 (hw_reg u + RBR) ?b # Rd8 (hw_reg u + LSR) ?v # tr"])
        (simp add: RBR_def LSR_def or.assoc)
  qed
qed

text \<open>
  C37: \<open>UART_get_rx\<close> returns the bytes read from the receiver, in order and at the front of the buffer,
  which keeps the rest of its contents; it reads the receiver only when the line status shows a byte
  and the buffer has room, and every line status it reads is kept in the sticky status.
\<close>

theorem UART_get_rx_reads:
  assumes "0 < n" "unat n \<le> length bs"
  shows "\<exists>v got tr. UART_get_rx hw (Some bs) n u = Some (length got, Some (got @ drop (length got) bs),
      u\<lparr>status := status u OR lsr_bits (hw_reg u) (Rd8 (hw_reg u + LSR) v # tr),
        accesses := accesses u @ Rd8 (hw_reg u + LSR) v # tr\<rparr>)
    \<and> rx_ok (hw_reg u) (v AND 0x01 \<noteq> 0) (unat n) got tr \<and> length got \<le> unat n"
proof -
  let ?v = "byte_at hw (accesses u) (hw_reg u + LSR)"
  let ?u = "u\<lparr>status := status u OR ?v, accesses := accesses u @ [Rd8 (hw_reg u + LSR) ?v]\<rparr>"
  have le: "length got \<le> m" if "rx_ok base r m got tr" for base r m got tr
    using that by (induction base r m got tr rule: rx_ok.induct) auto
  obtain got tr where "rx_loop hw (unat n) ?v 0 bs ?u = Some (length got, got @ drop (length got) bs,
      ?u\<lparr>status := status ?u OR lsr_bits (hw_reg ?u) tr, accesses := accesses ?u @ tr\<rparr>)"
    "rx_ok (hw_reg ?u) (?v AND 0x01 \<noteq> 0) (unat n) got tr"
    using rx_loop_result [of 0 "unat n" bs hw ?v ?u] assms(2) by auto
  then show ?thesis
    using assms(1) le by (intro exI [of _ ?v] exI [of _ got] exI [of _ tr]) (simp add: UART_get_rx_def rd_lsr_eq Let_def or.assoc)
qed

theorem UART_get_rx_reads_witness:
  "\<exists>v got tr. UART_get_rx slow_device (Some [0, 0]) 2 sample_uart = Some (length got, Some (got @ drop (length got) [0, 0]),
      sample_uart\<lparr>status := status sample_uart OR lsr_bits (hw_reg sample_uart) (Rd8 (hw_reg sample_uart + LSR) v # tr),
        accesses := accesses sample_uart @ Rd8 (hw_reg sample_uart + LSR) v # tr\<rparr>)
    \<and> rx_ok (hw_reg sample_uart) (v AND 0x01 \<noteq> 0) (unat (2 :: i32)) got tr \<and> length got \<le> unat (2 :: i32)"
  by (rule UART_get_rx_reads) simp_all

section \<open>The FIFO control register\<close>

text \<open>
  The register that \<open>UART_set_rx_handler\<close> reads at the address of \<open>FCR\<close> is the interrupt identification
  register, so the enable and clear bits it writes to \<open>FCR\<close> are the identification of the pending
  interrupt.
\<close>

lemma set_rx_handler_fcr:
  assumes "handler \<noteq> NULL_HANDLER" "trigger < 0xC1"
  shows "bytes_to (hw_reg u + FCR) (accesses (UART_set_rx_handler hw hart handler trigger u))
    = bytes_to (hw_reg u + FCR) (accesses u) @ [(byte_at hw (accesses u) (hw_reg u + IIR) AND 0x3F) OR ucast trigger]"
  using assms
  by (simp add: UART_set_rx_handler_def or_reg_def rd_reg_eq wr_reg_eq Let_def enable_irq_def PLIC_EnableIRQ_def read32_def
      write32_def FCR_def IIR_def IER_def)

text \<open>With an empty transmitter pending the FIFOs are disabled (bit 0) and the received bytes cleared (bit 1).\<close>

lemma set_rx_handler_disables_fifo:
  "bytes_to (0x10000000 + FCR) (accesses (UART_set_rx_handler ready_device 0 (User_handler 0) 0 sample_uart)) = [0x02]"
  using set_rx_handler_fcr [of "User_handler 0" 0 sample_uart ready_device 0]
  by (simp add: sample_uart_def ready_device_def IIR_def)

end
