(* ===== verification/Syscalls.thy ===== *)
theory Syscalls
  imports UartRx
begin

text \<open>
  The system calls of \<open>sw/bsp/hal/syscalls.c\<close> as the Makefile builds them: standard output goes through
  the UART (\<open>STDIO_THRU_UART\<close>). The linker's symbols and the stack pointer are parameters.
\<close>

section \<open>State\<close>

datatype errnum = ENOSYS | ENOMEM | EAGAIN | EINVAL | EMLINK | ENOENT | ECHILD

text \<open>\<open>errno\<close> is a positive or, where the code has a sign too many, a negated error number.\<close>

datatype errno_value = No_error | Err errnum | Neg errnum | Errno int

record sys =
  g_uart_0 :: uart
  g_stdio_uart_init_done :: bool
  errno :: errno_value
  brk :: i32

datatype outcome = Returns sys | Never_returns sys

section \<open>Output\<close>

text \<open>\<open>_write\<close> ignores the file descriptor; \<open>ptr\<close> is the caller's buffer.\<close>

definition sys_write :: "hardware \<Rightarrow> i32 \<Rightarrow> i8 list option \<Rightarrow> i32 \<Rightarrow> sys \<Rightarrow> (i32 \<times> sys) option" where
  "sys_write hw file ptr len s = do {
     s \<leftarrow> (if g_stdio_uart_init_done s then Some s
       else map_option (\<lambda>u. s\<lparr>g_uart_0 := u, g_stdio_uart_init_done := True\<rparr>) (UART_init 115200 0x03 (g_uart_0 s)));
     u \<leftarrow> UART_polled_tx hw ptr len (g_uart_0 s);
     Some (len, s\<lparr>g_uart_0 := u\<rparr>)
   }"

section \<open>The heap\<close>

definition sys_brk :: "i32 \<Rightarrow> sys \<Rightarrow> i32 \<times> sys" where
  "sys_brk addr s = (0, s\<lparr>brk := addr\<rparr>)"

text \<open>\<open>brk += incr\<close> comes before the test.\<close>

definition sys_sbrk :: "i32 \<Rightarrow> i32 \<Rightarrow> i32 \<Rightarrow> sys \<Rightarrow> i32 \<times> sys" where
  "sys_sbrk heap_end sp incr s =
     (let old_brk = brk s; s = s\<lparr>brk := brk s + incr\<rparr>; new_brk = brk s in
      if new_brk < sp \<and> new_brk < heap_end then (old_brk, s\<lparr>brk := new_brk\<rparr>) else (-1, s\<lparr>errno := Err ENOMEM\<rparr>))"

section \<open>The other calls\<close>

definition syscall_error :: "int \<Rightarrow> sys \<Rightarrow> int \<times> sys" where
  "syscall_error a0 s = (-1, s\<lparr>errno := Errno (- a0)\<rparr>)"

text \<open>The calls that only set \<open>errno\<close> and return a constant.\<close>

datatype stub = Nanosleep | Access | Chdir | Chmod | Chown | Close | Execve | Faccessat | Fork | Fstat | Fstatat | Ftime
  | Getcwd | Getpid | Gettimeofday | Isatty i32 | Kill | Link | Lseek | Lstat | Open | Openat | Read | Stat | Sysconf | Times
  | Unlink | Utime | Wait

definition fails :: "errno_value \<Rightarrow> int \<Rightarrow> sys \<Rightarrow> int \<times> sys" where
  "fails e v s = (v, s\<lparr>errno := e\<rparr>)"

fun stub_call :: "stub \<Rightarrow> sys \<Rightarrow> int \<times> sys" where
  "stub_call Nanosleep = fails (Err ENOSYS) (-1)"
| "stub_call Access = fails (Err ENOSYS) (-1)"
| "stub_call Chdir = fails (Err ENOSYS) (-1)"
| "stub_call Chmod = fails (Err ENOSYS) (-1)"
| "stub_call Chown = fails (Err ENOSYS) (-1)"
| "stub_call Close = Pair (-1)"
| "stub_call Execve = fails (Err ENOMEM) (-1)"
| "stub_call Faccessat = fails (Err ENOSYS) (-1)"
| "stub_call Fork = fails (Err EAGAIN) (-1)"
| "stub_call Fstat = Pair 0"
| "stub_call Fstatat = fails (Err ENOSYS) (-1)"
| "stub_call Ftime = fails (Err ENOSYS) (-1)"
| "stub_call Getcwd = fails (Neg ENOSYS) 0"
| "stub_call Getpid = Pair 1"
| "stub_call Gettimeofday = fails (Neg ENOSYS) (-1)"
| "stub_call (Isatty file) = Pair (if file = 1 then 1 else 0)"
| "stub_call Kill = fails (Err EINVAL) (-1)"
| "stub_call Link = fails (Err EMLINK) (-1)"
| "stub_call Lseek = Pair 0"
| "stub_call Lstat = fails (Err ENOSYS) (-1)"
| "stub_call Open = Pair (-1)"
| "stub_call Openat = fails (Err ENOSYS) (-1)"
| "stub_call Read = Pair 0"
| "stub_call Stat = Pair 0"
| "stub_call Sysconf = Pair (-1)"
| "stub_call Times = Pair (-1)"
| "stub_call Unlink = fails (Err ENOENT) (-1)"
| "stub_call Utime = fails (Err ENOSYS) (-1)"
| "stub_call Wait = fails (Err ECHILD) (-1)"

text \<open>\<open>STDOUT_REG\<close> is written by words, without waiting for the transmitter.\<close>

definition unimplemented_syscall :: "sys \<Rightarrow> sys" where
  "unimplemented_syscall s = s\<lparr>g_uart_0 := (g_uart_0 s)\<lparr>accesses := accesses (g_uart_0 s)
     @ map (\<lambda>c. Wr32 0x10000000 (of_nat (of_char c))) ''Unimplemented system call called!\<newline>''\<rparr>\<rparr>"

definition sys_exit :: "i32 \<Rightarrow> sys \<Rightarrow> outcome" where
  "sys_exit exit_status s =
     Never_returns (s\<lparr>g_uart_0 := (g_uart_0 s)\<lparr>accesses := accesses (g_uart_0 s) @ [Wr32 0x80040000 exit_status]\<rparr>\<rparr>)"

text \<open>The calls that the switch of \<open>handle_syscall\<close> has, beside exit, write and brk.\<close>

definition dispatched :: "stub list" where
  "dispatched = [Read, Getpid, Kill, Open, Openat, Close, Lseek, Link, Unlink, Chdir, Getcwd, Stat, Fstat, Lstat, Fstatat,
     Access, Faccessat, Gettimeofday, Times]"

datatype request = SYS_exit i32 | SYS_write i32 "i8 list option" i32 | SYS_brk i32 | SYS_stub stub

text \<open>The dispatch is a \<open>void\<close> function: no result reaches the caller.\<close>

fun handle_syscall :: "hardware \<Rightarrow> request \<Rightarrow> sys \<Rightarrow> outcome option" where
  "handle_syscall hw (SYS_exit code) s = Some (sys_exit code s)"
| "handle_syscall hw (SYS_write file ptr len) s = map_option (\<lambda>(_, s). Returns s) (sys_write hw file ptr len s)"
| "handle_syscall hw (SYS_brk addr) s = Some (Returns (snd (sys_brk addr s)))"
| "handle_syscall hw (SYS_stub st) s =
     Some (Returns (if st \<in> set dispatched then snd (stub_call st s) else unimplemented_syscall s))"

section \<open>Allocation\<close>

text \<open>A successful request returns the old break and leaves the new one below the end of the heap and the stack.\<close>

lemma sbrk_success:
  assumes "sys_sbrk heap_end sp incr s = (r, s')" "r \<noteq> -1"
  shows "r = brk s \<and> s' = s\<lparr>brk := brk s + incr\<rparr> \<and> brk s' < sp \<and> brk s' < heap_end"
  using assms by (auto simp: sys_sbrk_def Let_def split: if_splits)

text \<open>
  A failing \<open>_sbrk\<close> has moved the break all the same, beyond the end of the heap or the stack, so that
  afterwards every request that does not move it down again fails, even one that would have fitted.
\<close>

theorem sbrk_failure_sticks:
  assumes "sys_sbrk heap_end sp incr s = (-1, s')" "brk s \<noteq> -1"
    and "unat (brk s') + unat incr' < 4294967296"
  shows "brk s' = brk s + incr \<and> \<not> (brk s' < sp \<and> brk s' < heap_end)
    \<and> sys_sbrk heap_end sp incr' s' = (-1, s'\<lparr>brk := brk s' + incr', errno := Err ENOMEM\<rparr>)"
proof -
  have b: "brk s' = brk s + incr" and f: "\<not> (brk s' < sp \<and> brk s' < heap_end)"
    using assms(1,2) by (auto simp: sys_sbrk_def Let_def split: if_splits)
  have "unat (brk s' + incr') = unat (brk s') + unat incr'" using assms(3) by (simp add: unat_word_ariths)
  then have "brk s' \<le> brk s' + incr'" by (simp add: word_le_nat_alt)
  then have "\<not> (brk s' + incr' < sp \<and> brk s' + incr' < heap_end)" using f by auto
  then have "sys_sbrk heap_end sp incr' s' = (-1, s'\<lparr>brk := brk s' + incr', errno := Err ENOMEM\<rparr>)"
    unfolding sys_sbrk_def Let_def by (auto simp: add.assoc)
  then show ?thesis using b f by blast
qed

definition sample_sys :: sys where
  "sample_sys = \<lparr>g_uart_0 = sample_uart, g_stdio_uart_init_done = False, errno = No_error, brk = 0x80001000\<rparr>"

text \<open>A heap of 4096 bytes: after one request of 8192 bytes fails, a request of 16 bytes fails too.\<close>

theorem sbrk_failure_sticks_witness:
  "brk (sample_sys\<lparr>brk := 0x80003000, errno := Err ENOMEM\<rparr>) = brk sample_sys + 0x2000
    \<and> \<not> (brk (sample_sys\<lparr>brk := 0x80003000, errno := Err ENOMEM\<rparr>) < 0x80010000
        \<and> brk (sample_sys\<lparr>brk := 0x80003000, errno := Err ENOMEM\<rparr>) < 0x80002000)
    \<and> sys_sbrk 0x80002000 0x80010000 16 (sample_sys\<lparr>brk := 0x80003000, errno := Err ENOMEM\<rparr>)
      = (-1, sample_sys\<lparr>brk := 0x80003000, errno := Err ENOMEM\<rparr>\<lparr>brk := brk (sample_sys\<lparr>brk := 0x80003000, errno := Err ENOMEM\<rparr>) + 16,
          errno := Err ENOMEM\<rparr>)"
  by (rule sbrk_failure_sticks) (simp_all add: sys_sbrk_def sample_sys_def)

section \<open>Output in order\<close>

text \<open>The initialisation for 115200 baud, eight bits, no parity, one stop bit.\<close>

definition init_accesses :: "i32 \<Rightarrow> history" where
  "init_accesses base = [Wr8 (base + IER) 0, Wr8 (base + FCR) 0, Wr8 (base + FCR) 0xC7, Wr8 (base + MCR) 0,
     Wr8 (base + LCR) 0x80, Wr8 (base + DLM) 0, Wr8 (base + DLL) 17, Wr8 (base + LCR) 0, Wr8 (base + LCR) 0x03]"

lemma UART_init_115200:
  "\<exists>u'. UART_init 115200 0x03 u = Some u' \<and> hw_reg u' = hw_reg u \<and> accesses u' = accesses u @ init_accesses (hw_reg u)"
  by (simp add: UART_init_def global_init_def config_baud_divisors_def baud_value_eq wr_reg_eq init_accesses_def)

fun write_all :: "hardware \<Rightarrow> (i8 list \<times> i32) list \<Rightarrow> sys \<Rightarrow> sys option" where
  "write_all hw [] s = Some s"
| "write_all hw ((bs, n) # ws) s = Option.bind (sys_write hw 1 (Some bs) n s) (\<lambda>(_, s). write_all hw ws s)"

lemma sys_write_result:
  assumes "answers hw (hw_reg (g_uart_0 s) + LSR)" "unat n \<le> length bs"
  shows "\<exists>tr s'. sys_write hw file (Some bs) n s = Some (n, s')
    \<and> accesses (g_uart_0 s') = accesses (g_uart_0 s)
      @ (if g_stdio_uart_init_done s then [] else init_accesses (hw_reg (g_uart_0 s))) @ tr
    \<and> polled_ok (hw_reg (g_uart_0 s)) False (take (unat n) bs) tr
    \<and> hw_reg (g_uart_0 s') = hw_reg (g_uart_0 s) \<and> g_stdio_uart_init_done s'"
proof (cases "g_stdio_uart_init_done s")
  case True
  then show ?thesis using polled_tx_sends [OF assms] by (auto simp: sys_write_def)
next
  case False
  obtain u where u: "UART_init 115200 0x03 (g_uart_0 s) = Some u" "hw_reg u = hw_reg (g_uart_0 s)"
    "accesses u = accesses (g_uart_0 s) @ init_accesses (hw_reg (g_uart_0 s))"
    using UART_init_115200 [of "g_uart_0 s"] by blast
  then show ?thesis using False polled_tx_sends [of hw u n bs] assms by (auto simp: sys_write_def)
qed

lemma polled_ok_append: "polled_ok base r bs t1 \<Longrightarrow> polled_ok base False cs t2 \<Longrightarrow> polled_ok base r (bs @ cs) (t1 @ t2)"
  by (induction base r bs t1 rule: polled_ok.induct) (auto split: access.splits list.splits)

lemma write_all_result:
  assumes "answers hw (hw_reg (g_uart_0 s) + LSR)" "\<forall>(bs, n) \<in> set ws. unat n \<le> length bs" "g_stdio_uart_init_done s"
  shows "\<exists>tr s'. write_all hw ws s = Some s' \<and> accesses (g_uart_0 s') = accesses (g_uart_0 s) @ tr
    \<and> polled_ok (hw_reg (g_uart_0 s)) False (concat (map (\<lambda>(bs, n). take (unat n) bs) ws)) tr"
  using assms
proof (induction ws arbitrary: s)
  case Nil
  then show ?case by simp
next
  case (Cons w ws)
  obtain bs n where w: "w = (bs, n)" by force
  obtain tr s1 where s1: "sys_write hw 1 (Some bs) n s = Some (n, s1)" "accesses (g_uart_0 s1) = accesses (g_uart_0 s) @ tr"
    "polled_ok (hw_reg (g_uart_0 s)) False (take (unat n) bs) tr" "hw_reg (g_uart_0 s1) = hw_reg (g_uart_0 s)" "g_stdio_uart_init_done s1"
    using sys_write_result [of hw s n bs 1] Cons.prems w by auto
  obtain tr' s2 where "write_all hw ws s1 = Some s2" "accesses (g_uart_0 s2) = accesses (g_uart_0 s1) @ tr'"
    "polled_ok (hw_reg (g_uart_0 s)) False (concat (map (\<lambda>(bs, n). take (unat n) bs) ws)) tr'"
    using Cons.IH [of s1] Cons.prems s1(4,5) by auto
  then show ?case
    using s1 polled_ok_append [OF s1(3)] by (auto simp: w)
qed

text \<open>
  C24: Whatever is written to standard output in any number of calls reaches the transmitter complete and
  in order, each byte after the line status showed the transmitter empty; the first call initialises
  the UART before.
\<close>

theorem output_in_order:
  assumes "answers hw (hw_reg (g_uart_0 s) + LSR)" "\<forall>(bs, n) \<in> set ((bs, n) # ws). unat n \<le> length bs"
  shows "\<exists>tr s'. write_all hw ((bs, n) # ws) s = Some s'
    \<and> accesses (g_uart_0 s') = accesses (g_uart_0 s)
      @ (if g_stdio_uart_init_done s then [] else init_accesses (hw_reg (g_uart_0 s))) @ tr
    \<and> polled_ok (hw_reg (g_uart_0 s)) False (concat (map (\<lambda>(bs, n). take (unat n) bs) ((bs, n) # ws))) tr"
proof -
  obtain tr s1 where s1: "sys_write hw 1 (Some bs) n s = Some (n, s1)"
    "accesses (g_uart_0 s1) = accesses (g_uart_0 s)
      @ (if g_stdio_uart_init_done s then [] else init_accesses (hw_reg (g_uart_0 s))) @ tr"
    "polled_ok (hw_reg (g_uart_0 s)) False (take (unat n) bs) tr" "hw_reg (g_uart_0 s1) = hw_reg (g_uart_0 s)" "g_stdio_uart_init_done s1"
    using sys_write_result [of hw s n bs 1] assms by auto
  obtain tr' s2 where "write_all hw ws s1 = Some s2" "accesses (g_uart_0 s2) = accesses (g_uart_0 s1) @ tr'"
    "polled_ok (hw_reg (g_uart_0 s)) False (concat (map (\<lambda>(bs, n). take (unat n) bs) ws)) tr'"
    using write_all_result [of hw s1 ws] assms s1(4,5) by auto
  then show ?thesis
    using s1 polled_ok_append [OF s1(3)] by (intro exI [of _ "tr @ tr'"] exI [of _ s2]) simp
qed

theorem output_in_order_witness:
  "\<exists>tr s'. write_all slow_device (([72, 105], 2) # [([33], 1)]) sample_sys = Some s'
    \<and> accesses (g_uart_0 s') = accesses (g_uart_0 sample_sys)
      @ (if g_stdio_uart_init_done sample_sys then [] else init_accesses (hw_reg (g_uart_0 sample_sys))) @ tr
    \<and> polled_ok (hw_reg (g_uart_0 sample_sys)) False (concat (map (\<lambda>(bs, n). take (unat n) bs) (([72, 105], 2) # [([33], 1 :: i32)]))) tr"
  by (rule output_in_order) (simp_all add: slow_device_answers)

end
