(* ===== verification/BootIo.thy ===== *)
theory BootIo
  imports Mmio
begin

unbundle bit_operations_syntax

text \<open>
  Input and output of the FPGA boot ROM (\<open>corev_apu/fpga/src/bootrom/src\<close>): the serial console of \<open>uart.c\<close> and
  the SPI master of \<open>spi.c\<close>, by accesses to the registers of the two devices.
\<close>

section \<open>The console (\<open>uart.c\<close>)\<close>

definition is_transmit_empty :: "hardware \<Rightarrow> history \<Rightarrow> i8 \<times> history" where
  "is_transmit_empty hw hist = (let r = read8 hw 0x10000014 hist in (fst r AND 0x20, snd r))"

partial_function (option) wait_serial :: "hardware \<Rightarrow> history \<Rightarrow> history option" where
  "wait_serial hw hist =
     (let r = is_transmit_empty hw hist in if fst r = 0 then wait_serial hw (snd r) else Some (snd r))"

definition write_serial :: "hardware \<Rightarrow> i8 \<Rightarrow> history \<Rightarrow> history option" where
  "write_serial hw a hist = map_option (write8 0x10000000 a) (wait_serial hw hist)"

definition init_uart :: "i32 \<Rightarrow> i32 \<Rightarrow> history \<Rightarrow> history option" where
  "init_uart freq baud hist =
     (if push_bit 4 baud = 0 then None
      else let divisor = freq div push_bit 4 baud in
        Some (write8 0x10000010 0x20 (write8 0x10000008 0xC7 (write8 0x1000000C 0x03
          (write8 0x10000004 (ucast (drop_bit 8 divisor AND 0xFF)) (write8 0x10000000 (ucast divisor)
          (write8 0x1000000C 0x80 (write8 0x10000004 0 hist))))))))"

fun print_bytes :: "hardware \<Rightarrow> i8 list \<Rightarrow> history \<Rightarrow> history option" where
  "print_bytes hw [] hist = Some hist"
| "print_bytes hw (b # bs) hist = Option.bind (write_serial hw b hist) (print_bytes hw bs)"

definition print_uart :: "hardware \<Rightarrow> string \<Rightarrow> history \<Rightarrow> history option" where
  "print_uart hw str = print_bytes hw (map of_char str)"

text \<open>The table is the sixteen upper-case digits; the most significant digit comes first.\<close>

definition bin_to_hex_table :: "i8 list" where
  "bin_to_hex_table = map of_char ''0123456789ABCDEF''"

definition bin_to_hex :: "i8 \<Rightarrow> i8 list" where
  "bin_to_hex inp = [bin_to_hex_table ! unat (drop_bit 4 inp AND 0xF), bin_to_hex_table ! unat (inp AND 0xF)]"

definition print_uart_byte :: "hardware \<Rightarrow> i8 \<Rightarrow> history \<Rightarrow> history option" where
  "print_uart_byte hw byte = print_bytes hw (bin_to_hex byte)"

definition print_uart_int :: "hardware \<Rightarrow> i32 \<Rightarrow> history \<Rightarrow> history option" where
  "print_uart_int hw addr = print_bytes hw (concat (map (\<lambda>i. bin_to_hex (ucast (drop_bit (8 * i) addr AND 0xFF))) [3, 2, 1, 0]))"

definition print_uart_addr :: "hardware \<Rightarrow> i64 \<Rightarrow> history \<Rightarrow> history option" where
  "print_uart_addr hw addr =
     print_bytes hw (concat (map (\<lambda>i. bin_to_hex (ucast (drop_bit (8 * i) addr AND 0xFF))) [7, 6, 5, 4, 3, 2, 1, 0]))"

section \<open>The SPI master (\<open>spi.c\<close>)\<close>

definition SPI_RESET_REG :: i32 where "SPI_RESET_REG = 0x20000040"
definition SPI_CONTROL_REG :: i32 where "SPI_CONTROL_REG = 0x20000060"
definition SPI_STATUS_REG :: i32 where "SPI_STATUS_REG = 0x20000064"
definition SPI_TRANSMIT_REG :: i32 where "SPI_TRANSMIT_REG = 0x20000068"
definition SPI_RECEIVE_REG :: i32 where "SPI_RECEIVE_REG = 0x2000006C"
definition SPI_SLAVE_SELECT_REG :: i32 where "SPI_SLAVE_SELECT_REG = 0x20000070"

definition print_spi_status :: "hardware \<Rightarrow> history \<Rightarrow> history option" where
  "print_spi_status hw hist = do {
     let (st, hist) = read32 hw SPI_STATUS_REG hist;
     hist \<leftarrow> print_uart hw ''status: 0x'' hist;
     hist \<leftarrow> print_uart_addr hw (ucast st) hist;
     print_uart hw [CHR 0x0D, CHR 0x0A] hist
   }"

definition spi_init :: "hardware \<Rightarrow> history \<Rightarrow> history option" where
  "spi_init hw hist = do {
     hist \<leftarrow> print_uart hw (''init SPI'' @ [CHR 0x0D, CHR 0x0A]) hist;
     let hist = write32 SPI_RESET_REG 0x0A hist;
     hist \<leftarrow> print_spi_status hw (write32 SPI_CONTROL_REG 0x104 hist);
     hist \<leftarrow> print_spi_status hw (write32 SPI_CONTROL_REG 0x166 hist);
     print_uart hw (''SPI initialized!'' @ [CHR 0x0D, CHR 0x0A]) (write32 SPI_CONTROL_REG 0x06 hist)
   }"

text \<open>\<open>while ((read_reg(SPI_STATUS_REG) & 0x1) == 0x1);\<close>\<close>

partial_function (option) wait_rx :: "hardware \<Rightarrow> history \<Rightarrow> history option" where
  "wait_rx hw hist =
     (let r = read32 hw SPI_STATUS_REG hist in if fst r AND 1 = 1 then wait_rx hw (snd r) else Some (snd r))"

definition spi_txrx :: "hardware \<Rightarrow> i8 \<Rightarrow> history \<Rightarrow> (i8 \<times> history) option" where
  "spi_txrx hw byte hist = do {
     let hist = write32 SPI_SLAVE_SELECT_REG 0xFFFFFFFE hist;
     let hist = write32 SPI_TRANSMIT_REG (ucast byte) hist;
     let hist = write32 SPI_CONTROL_REG 0x106 hist;
     hist \<leftarrow> wait_rx hw hist;
     let (result, hist) = read32 hw SPI_RECEIVE_REG hist;
     let (st, hist) = read32 hw SPI_STATUS_REG hist;
     hist \<leftarrow> (if st AND 1 \<noteq> 1 then do {
         hist \<leftarrow> print_uart hw ''rx fifo not empty?? '' hist;
         let (st, hist) = read32 hw SPI_STATUS_REG hist;
         hist \<leftarrow> print_uart_addr hw (ucast st) hist;
         print_uart hw [CHR 0x0D, CHR 0x0A] hist
       } else Some hist);
     let hist = write32 SPI_SLAVE_SELECT_REG 0xFFFFFFFF hist;
     Some (ucast result, write32 SPI_CONTROL_REG 0x06 hist)
   }"

text \<open>The receiving loop: the status is read until the receive FIFO has something, for each byte.\<close>

fun spi_receive :: "hardware \<Rightarrow> nat \<Rightarrow> history \<Rightarrow> (i8 list \<times> history) option" where
  "spi_receive hw 0 hist = Some ([], hist)"
| "spi_receive hw (Suc n) hist = do {
     hist \<leftarrow> wait_rx hw hist;
     let (v, hist) = read32 hw SPI_RECEIVE_REG hist;
     (bs, hist) \<leftarrow> spi_receive hw n hist;
     Some (ucast v # bs, hist)
   }"

text \<open>The received bytes are the values stored in \<open>ret\<close>, in order; -1 is the result for more than 256 bytes.\<close>

definition spi_write_bytes :: "hardware \<Rightarrow> i8 list \<Rightarrow> history \<Rightarrow> ((int \<times> i8 list) \<times> history) option" where
  "spi_write_bytes hw bytes hist =
     (if 256 < length bytes then Some ((-1, []), hist)
      else do {
        let hist = write32 SPI_SLAVE_SELECT_REG 0xFFFFFFFE hist;
        let hist = fold (\<lambda>b. write32 SPI_TRANSMIT_REG (ucast b)) bytes hist;
        hist \<leftarrow> wait_rx hw (write32 SPI_CONTROL_REG 0x106 hist);
        (rcv, hist) \<leftarrow> spi_receive hw (length bytes) hist;
        let hist = write32 SPI_SLAVE_SELECT_REG 0xFFFFFFFF hist;
        Some ((0, rcv), write32 SPI_CONTROL_REG 0x06 hist)
      })"

end
