(* ===== verification/BootSd.thy ===== *)
theory BootSd
  imports BootIo
begin

unbundle bit_operations_syntax

text \<open>
  The SD card reader of the boot ROM (\<open>sd.c\<close>) on the SPI master of \<open>spi.c\<close>, and its checksums.
\<close>

section \<open>Checksums\<close>

definition crc7 :: "i8 \<Rightarrow> i8 \<Rightarrow> i8" where
  "crc7 prev inp =
     (let remainder = prev AND inp;
          remainder = remainder XOR (drop_bit 4 remainder XOR drop_bit 7 remainder);
          remainder = remainder XOR push_bit 4 remainder
      in remainder AND 0x7F)"

definition crc16_ccitt :: "i16 \<Rightarrow> i8 \<Rightarrow> i16" where
  "crc16_ccitt crc data =
     (let crc = ucast (ucast (drop_bit 8 crc) :: i8) OR push_bit 8 crc;
          crc = crc XOR ucast data;
          crc = crc XOR (ucast (ucast (drop_bit 4 crc) :: i8) AND 0xF);
          crc = crc XOR push_bit 12 crc
      in crc XOR push_bit 5 (crc AND 0xFF))"

section \<open>Commands\<close>

definition sd_dummy :: "hardware \<Rightarrow> history \<Rightarrow> (i8 \<times> history) option" where
  "sd_dummy hw = spi_txrx hw 0xFF"

fun send_all :: "hardware \<Rightarrow> i8 list \<Rightarrow> history \<Rightarrow> history option" where
  "send_all hw [] hist = Some hist"
| "send_all hw (b # bs) hist = Option.bind (spi_txrx hw b hist) (\<lambda>(_, hist). send_all hw bs hist)"

definition sd_dummies :: "hardware \<Rightarrow> nat \<Rightarrow> history \<Rightarrow> history option" where
  "sd_dummies hw n = send_all hw (replicate n 0xFF)"

text \<open>The loop over \<open>n\<close>, from 100 down: the last answer stands if none is valid.\<close>

fun cmd_wait :: "hardware \<Rightarrow> nat \<Rightarrow> i8 \<Rightarrow> history \<Rightarrow> (i8 \<times> history) option" where
  "cmd_wait hw 0 r hist = Some (r, hist)"
| "cmd_wait hw (Suc n) r hist = do {
     (r, hist) \<leftarrow> sd_dummy hw hist;
     if r AND 0x80 = 0 then Some (r, hist) else cmd_wait hw n r hist
   }"

definition sd_cmd :: "hardware \<Rightarrow> i8 \<Rightarrow> i32 \<Rightarrow> i8 \<Rightarrow> history \<Rightarrow> (i8 \<times> history) option" where
  "sd_cmd hw cmd arg crc hist = do {
     hist \<leftarrow> send_all hw [0xFF, 0x40 OR cmd, ucast (drop_bit 24 arg), ucast (drop_bit 16 arg), ucast (drop_bit 8 arg), ucast arg, crc] hist;
     cmd_wait hw 100 0 hist
   }"

definition crlf :: string where
  "crlf = [CHR 0x0D, CHR 0x0A]"

definition print_status :: "hardware \<Rightarrow> string \<Rightarrow> i8 \<Rightarrow> history \<Rightarrow> history option" where
  "print_status hw cmd response hist = do {
     hist \<leftarrow> print_uart hw ''SD command '' hist;
     hist \<leftarrow> print_uart hw cmd hist;
     hist \<leftarrow> print_uart hw ('' '' @ [CHR 0x09] @ ''response : '') hist;
     hist \<leftarrow> print_uart_byte hw response hist;
     print_uart hw crlf hist
   }"

text \<open>
  The loop of \<open>sd_cmd0\<close> with the counter \<open>n\<close> left: it gives up when the counter reaches 0, even if the
  last answer was the right one.
\<close>

fun cmd0_loop :: "hardware \<Rightarrow> nat \<Rightarrow> history \<Rightarrow> (bool \<times> history) option" where
  "cmd0_loop hw 0 hist = Some (False, hist)"
| "cmd0_loop hw (Suc n) hist = do {
     (r, hist) \<leftarrow> sd_cmd hw 0 0 0x95 hist;
     (_, hist) \<leftarrow> sd_dummy hw hist;
     if n = 0 then Some (False, hist)
     else if r = 1 then map_option (Pair True) (print_status hw ''cmd0'' r hist)
     else cmd0_loop hw n hist
   }"

definition sd_cmd0 :: "hardware \<Rightarrow> history \<Rightarrow> (bool \<times> history) option" where
  "sd_cmd0 hw = cmd0_loop hw 10000"

definition sd_cmd8 :: "hardware \<Rightarrow> history \<Rightarrow> (bool \<times> history) option" where
  "sd_cmd8 hw hist = do {
     (r1, hist) \<leftarrow> sd_cmd hw 8 0x1AA 0x87 hist;
     hist \<leftarrow> sd_dummies hw 2 hist;
     (r4, hist) \<leftarrow> sd_dummy hw hist;
     (r5, hist) \<leftarrow> sd_dummy hw hist;
     hist \<leftarrow> sd_dummies hw 2 hist;
     Some (r1 = 1 \<and> r4 AND 0xF = 1 \<and> r5 = 0xAA, hist)
   }"

definition sd_cmd55 :: "hardware \<Rightarrow> history \<Rightarrow> (bool \<times> history) option" where
  "sd_cmd55 hw hist = do {
     (r, hist) \<leftarrow> sd_cmd hw 55 0 0x65 hist;
     (_, hist) \<leftarrow> sd_dummy hw hist;
     hist \<leftarrow> print_status hw ''cmd55'' r hist;
     Some (r = 1, hist)
   }"

partial_function (option) sd_acmd41 :: "hardware \<Rightarrow> history \<Rightarrow> (bool \<times> history) option" where
  "sd_acmd41 hw hist =
     Option.bind (sd_cmd55 hw hist) (\<lambda>q.
     Option.bind (sd_cmd hw 41 0x40000000 0x77 (snd q)) (\<lambda>p.
     Option.bind (print_status hw ''cmd41'' (fst p) (snd p)) (\<lambda>hist.
     Option.bind (sd_dummy hw hist) (\<lambda>d.
       if fst p = 1 then sd_acmd41 hw (snd d) else Some (fst p = 0, snd d)))))"

text \<open>0, or -1, -2, -3 for a failure of command 0, 8 or 41.\<close>

definition init_sd :: "hardware \<Rightarrow> history \<Rightarrow> (int \<times> history) option" where
  "init_sd hw hist = do {
     hist \<leftarrow> spi_init hw hist;
     hist \<leftarrow> print_uart hw (''initializing SD... '' @ crlf) hist;
     hist \<leftarrow> sd_dummies hw 10 hist;
     (ok, hist) \<leftarrow> sd_cmd0 hw hist;
     if \<not> ok then Some (-1, hist) else do {
       (ok, hist) \<leftarrow> sd_cmd8 hw hist;
       if \<not> ok then Some (-2, hist) else do {
         (ok, hist) \<leftarrow> sd_acmd41 hw hist;
         Some (if ok then 0 else -3, hist)
       }
     }
   }"

section \<open>Reading blocks\<close>

text \<open>\<open>while (sd_dummy() != SD_DATA_TOKEN);\<close>\<close>

partial_function (option) wait_token :: "hardware \<Rightarrow> history \<Rightarrow> history option" where
  "wait_token hw hist = Option.bind (sd_dummy hw hist) (\<lambda>r. if fst r \<noteq> 0xFE then wait_token hw (snd r) else Some (snd r))"

text \<open>The bytes \<open>bs\<close> stored from position \<open>p\<close> on.\<close>

definition store :: "i8 list \<Rightarrow> nat \<Rightarrow> i8 list \<Rightarrow> i8 list option" where
  "store dst p bs = (if p + length bs \<le> length dst then Some (take p dst @ bs @ drop (p + length bs) dst) else None)"

text \<open>The transfers of 64 bytes, \<open>n\<close> left, with the checksum so far.\<close>

fun transfer_loop :: "hardware \<Rightarrow> nat \<Rightarrow> i8 list \<Rightarrow> nat \<Rightarrow> i16 \<Rightarrow> history \<Rightarrow> (i8 list \<times> i16 \<times> history) option" where
  "transfer_loop hw 0 dst p crc hist = Some (dst, crc, hist)"
| "transfer_loop hw (Suc n) dst p crc hist = do {
     ((_, bs), hist) \<leftarrow> spi_write_bytes hw (replicate 64 0xFF) hist;
     dst \<leftarrow> store dst p bs;
     transfer_loop hw n dst (p + 64) (fold (\<lambda>b crc. crc16_ccitt crc b) (take 64 (drop p dst)) crc) hist
   }"

text \<open>
  The loop over the blocks, with \<open>n + 1\<close> blocks left of which the first has the loop counter \<open>i\<close>; the
  result is the return code, the destination and the position in it.
\<close>

fun block_loop :: "hardware \<Rightarrow> nat \<Rightarrow> int \<Rightarrow> i8 list \<Rightarrow> nat \<Rightarrow> history \<Rightarrow> (int \<times> i8 list \<times> history) option" where
  "block_loop hw 0 i dst p hist = Some (0, dst, hist)"
| "block_loop hw (Suc n) i dst p hist = do {
     hist \<leftarrow> wait_token hw hist;
     (dst, crc, hist) \<leftarrow> transfer_loop hw 8 dst p 0 hist;
     (hi, hist) \<leftarrow> sd_dummy hw hist;
     (lo, hist) \<leftarrow> sd_dummy hw hist;
     let crc_exp = (push_bit 8 (ucast hi) OR ucast lo :: i16);
     if crc \<noteq> crc_exp then Some (-2, dst, hist)
     else do {
       hist \<leftarrow> (if crem i 1000 = 0 then print_uart hw ''.'' hist else Some hist);
       block_loop hw n (i - 1) dst (p + 512) hist
     }
   }"

text \<open>The checksum byte of the command.\<close>

definition cmd_crc :: "i32 \<Rightarrow> i8" where
  "cmd_crc src_lba =
     (let crc = crc7 0 (0x40 OR 18);
          crc = crc7 crc (ucast (drop_bit 24 src_lba AND 0xFF));
          crc = crc7 crc (ucast (drop_bit 16 src_lba AND 0xFF));
          crc = crc7 crc (ucast (drop_bit 8 src_lba AND 0xFF));
          crc = crc7 crc (ucast (src_lba AND 0xFF))
      in push_bit 1 crc OR 1)"

text \<open>The counter is a \<open>long\<close>: the loop runs once if it starts at zero or below.\<close>

definition sd_copy :: "hardware \<Rightarrow> i8 list \<Rightarrow> i32 \<Rightarrow> i32 \<Rightarrow> history \<Rightarrow> (int \<times> i8 list \<times> history) option" where
  "sd_copy hw dst src_lba sz hist = do {
     (r, hist) \<leftarrow> sd_cmd hw 18 src_lba (cmd_crc src_lba) hist;
     if r \<noteq> 0 then do {
       hist \<leftarrow> sd_dummies hw 8 hist;
       hist \<leftarrow> print_uart hw (''could not read SD block'' @ crlf) hist;
       Some (-1, dst, hist)
     } else do {
       (rc, dst, hist) \<leftarrow> block_loop hw (nat (max 1 (sint sz))) (sint sz) dst 0 hist;
       (_, hist) \<leftarrow> sd_cmd hw 12 0 0x01 hist;
       (_, hist) \<leftarrow> sd_dummy hw hist;
       Some (rc, dst, hist)
     }
   }"

end
