(* ===== verification/BootSpi.thy ===== *)
theory BootSpi
  imports BootSd
begin

unbundle bit_operations_syntax

text \<open>
  The SPI functions as an exchange of bytes. What is assumed of the controller: bytes arrive some time after
  they were sent, \<open>arrived\<close> of them by now; the status register tells whether all that arrived were read; and
  the bytes read are the card's answers, each a function \<open>resp\<close> of all bytes sent up to its own.
\<close>

section \<open>The controller\<close>

definition spi_sent :: "history \<Rightarrow> i8 list" where
  "spi_sent hist = concat (map (\<lambda>e. case e of Wr32 a v \<Rightarrow> if a = SPI_TRANSMIT_REG then [ucast v] else [] | _ \<Rightarrow> []) hist)"

definition spi_read :: "history \<Rightarrow> nat" where
  "spi_read hist = length (filter (\<lambda>e. case e of Rd32 a v \<Rightarrow> a = SPI_RECEIVE_REG | _ \<Rightarrow> False) hist)"

text \<open>The history after the status register was read \<open>k\<close> more times.\<close>

fun poll_status :: "hardware \<Rightarrow> nat \<Rightarrow> history \<Rightarrow> history" where
  "poll_status hw 0 hist = hist"
| "poll_status hw (Suc k) hist = poll_status hw k (hist @ [Rd32 SPI_STATUS_REG (word_at hw hist SPI_STATUS_REG)])"

definition spi_device :: "hardware \<Rightarrow> (history \<Rightarrow> nat) \<Rightarrow> (i8 list \<Rightarrow> i8) \<Rightarrow> bool" where
  "spi_device hw arrived resp = (\<forall>hist.
     arrived hist \<le> length (spi_sent hist) \<and> (\<forall>e. arrived hist \<le> arrived (hist @ [e]))
     \<and> (\<exists>k. arrived (poll_status hw k hist) = length (spi_sent hist))
     \<and> (word_at hw hist SPI_STATUS_REG AND 1 = (if spi_read hist < arrived hist then 0 else 1))
     \<and> (spi_read hist < arrived hist
        \<longrightarrow> word_at hw hist SPI_RECEIVE_REG = ucast (resp (take (Suc (spi_read hist)) (spi_sent hist)))))"

lemma spi_sent_simps [simp]:
  "spi_sent [] = []" "spi_sent (h1 @ h2) = spi_sent h1 @ spi_sent h2"
  "spi_sent (Rd8 a b # hist) = spi_sent hist" "spi_sent (Wr8 a b # hist) = spi_sent hist" "spi_sent (Rd32 a v # hist) = spi_sent hist"
  "spi_sent (Wr32 a v # hist) = (if a = SPI_TRANSMIT_REG then [ucast v] else []) @ spi_sent hist"
  by (simp_all add: spi_sent_def)

lemma spi_read_simps [simp]:
  "spi_read [] = 0" "spi_read (h1 @ h2) = spi_read h1 + spi_read h2"
  "spi_read (Rd8 a b # hist) = spi_read hist" "spi_read (Wr8 a b # hist) = spi_read hist" "spi_read (Wr32 a v # hist) = spi_read hist"
  "spi_read (Rd32 a v # hist) = (if a = SPI_RECEIVE_REG then Suc (spi_read hist) else spi_read hist)"
  by (simp_all add: spi_read_def)

text \<open>\<open>idle hist t\<close>: the bytes \<open>t\<close> were sent and all answers were read.\<close>

definition idle :: "history \<Rightarrow> i8 list \<Rightarrow> bool" where
  "idle hist t = (spi_sent hist = t \<and> spi_read hist = length t)"

lemmas spi_regs = SPI_STATUS_REG_def SPI_TRANSMIT_REG_def SPI_RECEIVE_REG_def SPI_CONTROL_REG_def SPI_SLAVE_SELECT_REG_def SPI_RESET_REG_def

lemma idle_write32: "a \<noteq> SPI_TRANSMIT_REG \<Longrightarrow> idle (write32 a v hist) t = idle hist t"
  by (simp add: idle_def write32_def)

lemma idle_read32: "a \<noteq> SPI_RECEIVE_REG \<Longrightarrow> idle (snd (read32 hw a hist)) t = idle hist t"
  by (simp add: idle_def read32_def)

section \<open>The console does not disturb the exchange\<close>

lemma wait_serial_answers:
  assumes "byte_at hw (poll hw 0x10000014 k hist) 0x10000014 AND 0x20 \<noteq> 0" "idle hist t"
  shows "\<exists>hist'. wait_serial hw hist = Some hist' \<and> idle hist' t"
  using assms
proof (induction k arbitrary: hist)
  case 0
  then show ?case by (subst wait_serial.simps) (simp add: is_transmit_empty_def read8_def idle_def Let_def)
next
  case (Suc k)
  let ?h = "hist @ [Rd8 0x10000014 (byte_at hw hist 0x10000014)]"
  have "idle ?h t" using Suc.prems(2) by (simp add: idle_def)
  then show ?case
    using Suc.IH [of ?h] Suc.prems(1) by (subst wait_serial.simps) (simp add: is_transmit_empty_def read8_def Let_def)
qed

lemma print_bytes_idle:
  assumes "answers hw 0x10000014" "idle hist t"
  shows "\<exists>hist'. print_bytes hw bs hist = Some hist' \<and> idle hist' t"
  using assms(2)
proof (induction bs arbitrary: hist)
  case (Cons b bs)
  obtain h1 where h1: "wait_serial hw hist = Some h1" "idle h1 t"
    using wait_serial_answers Cons.prems assms(1) unfolding answers_def by blast
  then have "idle (write8 0x10000000 b h1) t" by (simp add: idle_def write8_def)
  then show ?case using Cons.IH [of "write8 0x10000000 b h1"] h1(1) by (simp add: write_serial_def)
qed simp

section \<open>Exchanging bytes\<close>

lemma spi_device_facts:
  assumes "spi_device hw arrived resp"
  shows status_bit: "word_at hw hist SPI_STATUS_REG AND 1 = (if spi_read hist < arrived hist then 0 else 1)"
    and arrived_sent: "arrived hist \<le> length (spi_sent hist)"
    and arrived_mono: "arrived hist \<le> arrived (hist @ [e])"
    and arrives: "\<exists>k. arrived (poll_status hw k hist) = length (spi_sent hist)"
    and receive_byte: "spi_read hist < arrived hist
      \<Longrightarrow> word_at hw hist SPI_RECEIVE_REG = ucast (resp (take (Suc (spi_read hist)) (spi_sent hist)))"
  using assms unfolding spi_device_def by simp_all

text \<open>\<open>owes hist t n\<close>: the bytes \<open>t\<close> were sent and \<open>n\<close> answers read.\<close>

definition owes :: "history \<Rightarrow> i8 list \<Rightarrow> nat \<Rightarrow> bool" where
  "owes hist t n = (spi_sent hist = t \<and> spi_read hist = n)"

lemma regs_distinct [simp]: "SPI_STATUS_REG \<noteq> SPI_RECEIVE_REG" "SPI_STATUS_REG \<noteq> SPI_TRANSMIT_REG" "SPI_SLAVE_SELECT_REG \<noteq> SPI_TRANSMIT_REG"
  "SPI_CONTROL_REG \<noteq> SPI_TRANSMIT_REG"
  by (simp_all add: spi_regs)

lemma wait_rx_polls:
  assumes d: "spi_device hw arrived resp"
  shows "owes hist t n \<Longrightarrow> n < arrived (poll_status hw k hist)
    \<Longrightarrow> \<exists>hist'. wait_rx hw hist = Some hist' \<and> owes hist' t n \<and> n < arrived hist'"
proof (induction k arbitrary: hist)
  case 0
  let ?h = "hist @ [Rd32 SPI_STATUS_REG (word_at hw hist SPI_STATUS_REG)]"
  have "wait_rx hw hist = Some ?h"
    using status_bit [OF d, of hist] 0 by (subst wait_rx.simps) (simp add: read32_def Let_def owes_def)
  moreover have "owes ?h t n" using 0 by (simp add: owes_def)
  moreover have "n < arrived ?h" using 0 arrived_mono [OF d, of hist] order_less_le_trans by (metis poll_status.simps(1))
  ultimately show ?case by blast
next
  case (Suc k)
  let ?h = "hist @ [Rd32 SPI_STATUS_REG (word_at hw hist SPI_STATUS_REG)]"
  have o: "owes ?h t n" using Suc.prems by (simp add: owes_def)
  show ?case
  proof (cases "n < arrived hist")
    case True
    then have "wait_rx hw hist = Some ?h"
      using status_bit [OF d, of hist] Suc.prems by (subst wait_rx.simps) (simp add: read32_def Let_def owes_def)
    moreover have "n < arrived ?h" using True arrived_mono [OF d, of hist] order_less_le_trans by blast
    ultimately show ?thesis using o by blast
  next
    case False
    then have "wait_rx hw hist = wait_rx hw ?h"
      using status_bit [OF d, of hist] Suc.prems by (subst wait_rx.simps) (simp add: read32_def Let_def owes_def)
    then show ?thesis using Suc.IH [OF o] Suc.prems by simp
  qed
qed

lemma wait_rx_ready:
  assumes "spi_device hw arrived resp" "owes hist t n" "n < length t"
  shows "\<exists>hist'. wait_rx hw hist = Some hist' \<and> owes hist' t n \<and> n < arrived hist'"
proof -
  obtain k where "arrived (poll_status hw k hist) = length (spi_sent hist)" using arrives [OF assms(1)] by blast
  then show ?thesis using wait_rx_polls [OF assms(1,2), of k] assms by (simp add: owes_def)
qed

lemma ucast_byte [simp]: "ucast (ucast (b :: i8) :: i32) = b"
  by (simp add: ucast_up_ucast_id is_up)

text \<open>Waiting for an answer and reading it.\<close>

lemma wait_and_read:
  assumes d: "spi_device hw arrived resp" and o: "owes hist t n" and n: "n < length t"
  shows "\<exists>h1. wait_rx hw hist = Some h1
    \<and> (\<exists>h2. read32 hw SPI_RECEIVE_REG h1 = (ucast (resp (take (Suc n) t)), h2) \<and> owes h2 t (Suc n))"
proof -
  obtain h1 where h1: "wait_rx hw hist = Some h1" "owes h1 t n" "n < arrived h1" using wait_rx_ready [OF assms] by blast
  then have "word_at hw h1 SPI_RECEIVE_REG = ucast (resp (take (Suc n) t))"
    using receive_byte [OF d, of h1] by (simp add: owes_def)
  then show ?thesis using h1 by (simp add: read32_def owes_def)
qed

lemma write32_sent: "spi_sent (write32 a v hist) = spi_sent hist @ (if a = SPI_TRANSMIT_REG then [ucast v] else [])"
  "spi_read (write32 a v hist) = spi_read hist"
  by (simp_all add: write32_def)

lemma spi_txrx_exchange:
  assumes d: "spi_device hw arrived resp" and i: "idle hist t"
  shows "\<exists>hist'. spi_txrx hw b hist = Some (resp (t @ [b]), hist') \<and> idle hist' (t @ [b])"
proof -
  let ?h = "write32 SPI_CONTROL_REG 0x106 (write32 SPI_TRANSMIT_REG (ucast b) (write32 SPI_SLAVE_SELECT_REG 0xFFFFFFFE hist))"
  have h: "owes ?h (t @ [b]) (length t)"
    using i by (simp add: write32_sent idle_def owes_def)
  obtain h1 h2 where w: "wait_rx hw ?h = Some h1"
    and r: "read32 hw SPI_RECEIVE_REG h1 = (ucast (resp (t @ [b])), h2)" and o2: "owes h2 (t @ [b]) (Suc (length t))"
    using wait_and_read [OF d h] by auto
  have st: "word_at hw h2 SPI_STATUS_REG AND 1 = 1"
    using status_bit [OF d, of h2] arrived_sent [OF d, of h2] o2 by (simp add: owes_def)
  show ?thesis
    unfolding spi_txrx_def Let_def w r bind.bind_lunit split
    using o2 st by (simp add: read32_def idle_def owes_def write32_sent)
qed

section \<open>Exchanging several bytes\<close>

text \<open>The answers to the bytes \<open>bs\<close> sent after \<open>t\<close>.\<close>

fun replies :: "(i8 list \<Rightarrow> i8) \<Rightarrow> i8 list \<Rightarrow> i8 list \<Rightarrow> i8 list" where
  "replies resp t [] = []"
| "replies resp t (b # bs) = resp (t @ [b]) # replies resp (t @ [b]) bs"

lemma length_replies [simp]: "length (replies resp t bs) = length bs"
  by (induction bs arbitrary: t) auto

lemma fold_transmit:
  "owes hist t n \<Longrightarrow> owes (fold (\<lambda>b. write32 SPI_TRANSMIT_REG (ucast b)) bs hist) (t @ bs) n"
proof (induction bs arbitrary: hist t)
  case (Cons b bs)
  have "owes (write32 SPI_TRANSMIT_REG (ucast b) hist) (t @ [b]) n" using Cons.prems by (simp add: owes_def write32_sent)
  from Cons.IH [OF this] show ?case by simp
qed simp

lemma spi_receive_replies:
  assumes d: "spi_device hw arrived resp"
  shows "owes hist (t @ bs) (length t)
    \<Longrightarrow> \<exists>hist'. spi_receive hw (length bs) hist = Some (replies resp t bs, hist') \<and> owes hist' (t @ bs) (length (t @ bs))"
proof (induction bs arbitrary: t hist)
  case (Cons b bs)
  obtain h1 h2 where w: "wait_rx hw hist = Some h1" and r: "read32 hw SPI_RECEIVE_REG h1 = (ucast (resp (t @ [b])), h2)"
    and o: "owes h2 ((t @ [b]) @ bs) (length (t @ [b]))"
    using wait_and_read [OF d Cons.prems] by auto
  from Cons.IH [OF o] obtain h3 where "spi_receive hw (length bs) h2 = Some (replies resp (t @ [b]) bs, h3)"
    "owes h3 ((t @ [b]) @ bs) (length ((t @ [b]) @ bs))" by blast
  then show ?case using w r by simp
qed simp

lemma spi_write_bytes_exchange:
  assumes d: "spi_device hw arrived resp" and i: "idle hist t" and bs: "bs \<noteq> []" "length bs \<le> 256"
  shows "\<exists>hist'. spi_write_bytes hw bs hist = Some ((0, replies resp t bs), hist') \<and> idle hist' (t @ bs)"
proof -
  let ?h = "write32 SPI_CONTROL_REG 0x106 (fold (\<lambda>b. write32 SPI_TRANSMIT_REG (ucast b)) bs (write32 SPI_SLAVE_SELECT_REG 0xFFFFFFFE hist))"
  have "owes (write32 SPI_SLAVE_SELECT_REG 0xFFFFFFFE hist) t (length t)" using i by (simp add: idle_def owes_def write32_sent)
  then have h: "owes ?h (t @ bs) (length t)" using fold_transmit [of _ t "length t" bs] by (simp add: owes_def write32_sent)
  obtain h1 where w: "wait_rx hw ?h = Some h1" and o: "owes h1 (t @ bs) (length t)"
    using wait_rx_ready [OF d h] bs(1) by auto
  obtain h2 where r: "spi_receive hw (length bs) h1 = Some (replies resp t bs, h2)" and o2: "owes h2 (t @ bs) (length (t @ bs))"
    using spi_receive_replies [OF d o] by blast
  show ?thesis
    unfolding spi_write_bytes_def Let_def
    using o2 bs by (simp add: w r idle_def owes_def write32_sent)
qed

lemma send_all_exchange:
  assumes d: "spi_device hw arrived resp"
  shows "idle hist t \<Longrightarrow> \<exists>hist'. send_all hw bs hist = Some hist' \<and> idle hist' (t @ bs)"
proof (induction bs arbitrary: hist t)
  case (Cons b bs)
  obtain h1 where "spi_txrx hw b hist = Some (resp (t @ [b]), h1)" and i: "idle h1 (t @ [b])"
    using spi_txrx_exchange [OF d Cons.prems] by blast
  then show ?case using Cons.IH [OF i] by simp
qed simp

text \<open>
  Most of the time the boot ROM sends 0xFF and listens: \<open>heard resp t k\<close> is the card's answer to the
  \<open>k\<close>-th of these bytes, counted from 0, after \<open>t\<close> was sent.
\<close>

definition heard :: "(i8 list \<Rightarrow> i8) \<Rightarrow> i8 list \<Rightarrow> nat \<Rightarrow> i8" where
  "heard resp t k = resp (t @ replicate (Suc k) 0xFF)"

abbreviation listened :: "history \<Rightarrow> i8 list \<Rightarrow> nat \<Rightarrow> bool" where
  "listened hist t k \<equiv> idle hist (t @ replicate k 0xFF)"

lemma sd_dummy_heard:
  assumes "spi_device hw arrived resp" "listened hist t k"
  shows "\<exists>hist'. sd_dummy hw hist = Some (heard resp t k, hist') \<and> listened hist' t (Suc k)"
  using spi_txrx_exchange [OF assms, where b = "0xFF"] unfolding sd_dummy_def heard_def by (simp add: replicate_append_same)

lemma replies_heard:
  "replies resp (t @ replicate k 0xFF) (replicate n 0xFF) = map (heard resp t) [k..<k + n]"
proof (induction n arbitrary: k)
  case (Suc n)
  have "[k..<k + Suc n] = k # [Suc k..<Suc k + n]" by (simp add: upt_rec)
  then show ?case using Suc.IH [of "Suc k"] by (simp add: heard_def replicate_append_same)
qed simp

lemma spi_write_bytes_heard:
  assumes "spi_device hw arrived resp" "listened hist t k" "0 < n" "n \<le> 256"
  shows "\<exists>hist'. spi_write_bytes hw (replicate n 0xFF) hist = Some ((0, map (heard resp t) [k..<k + n]), hist')
    \<and> listened hist' t (k + n)"
  using spi_write_bytes_exchange [OF assms(1,2), where bs = "replicate n 0xFF"] assms(3,4)
  by (simp add: replies_heard replicate_add)

end
