(* ===== verification/BootCrc.thy ===== *)
theory BootCrc
  imports BootSd
begin

unbundle bit_operations_syntax

text \<open>
  The checksum of the boot ROM's SD reader is CRC-16 of the polynomial 0x11021 with zero start value, as
  the comment in \<open>sd.c\<close> has it, and what it detects.
\<close>

section \<open>Additive functions on words\<close>

definition xor_additive :: "('a :: len word \<Rightarrow> 'b :: len word) \<Rightarrow> bool" where
  "xor_additive f = (\<forall>x y. f (x XOR y) = f x XOR f y)"

lemma xor_additive_0: "xor_additive f \<Longrightarrow> f 0 = 0"
  unfolding xor_additive_def by (metis bit.xor_self)

lemma take_bit_split: "take_bit (Suc n) v = take_bit n v XOR (if bit v n then push_bit n 1 else 0)"
  for v :: "'a :: len word"
  by (rule bit_word_eqI) (auto simp: bit_simps less_Suc_eq)

lemma xor_additive_eqI:
  fixes f g :: "'a :: len word \<Rightarrow> 'b :: len word"
  assumes f: "xor_additive f" and g: "xor_additive g" and b: "\<And>n. n < LENGTH('a) \<Longrightarrow> f (push_bit n 1) = g (push_bit n 1)"
  shows "f v = g v"
proof -
  have "f (take_bit n v) = g (take_bit n v)" if "n \<le> LENGTH('a)" for n
    using that
  proof (induction n)
    case 0
    then show ?case using xor_additive_0 [OF f] xor_additive_0 [OF g] by simp
  next
    case (Suc n)
    have "f (take_bit n v XOR u) = g (take_bit n v XOR u)" if "f u = g u" for u
      using f g that Suc unfolding xor_additive_def by simp
    then show ?case using b [of n] Suc xor_additive_0 [OF f] xor_additive_0 [OF g] unfolding take_bit_split by simp
  qed
  from this [of "LENGTH('a)"] show ?thesis by simp
qed

section \<open>The polynomial division\<close>

text \<open>One step of the division by 0x11021, most significant bit first, and one byte of it.\<close>

definition shift_1021 :: "i16 \<Rightarrow> i16" where
  "shift_1021 c = push_bit 1 c XOR (if bit c 15 then 0x1021 else 0)"

definition divide_byte :: "i16 \<Rightarrow> i8 \<Rightarrow> i16" where
  "divide_byte crc data = (shift_1021 ^^ 8) (crc XOR push_bit 8 (ucast data))"

definition block_crc :: "i8 list \<Rightarrow> i16" where
  "block_crc bs = fold (\<lambda>b crc. crc16_ccitt crc b) bs 0"

lemma xor_swap: "(a XOR b) XOR (c XOR d) = (a XOR c) XOR (b XOR d)" for a b c d :: "'a :: len word"
  by (simp add: ac_simps)

lemma shift_1021_xor: "shift_1021 (x XOR y) = shift_1021 x XOR shift_1021 y"
  unfolding shift_1021_def by (simp add: bit_xor_iff push_bit_xor ac_simps)

lemma shift_1021_funpow_xor: "(shift_1021 ^^ n) (x XOR y) = (shift_1021 ^^ n) x XOR (shift_1021 ^^ n) y"
  by (induction n) (simp_all add: shift_1021_xor)

lemma ucast_xor: "ucast (x XOR y) = (ucast x XOR ucast y :: 'b :: len word)" for x y :: "'a :: len word"
  by (rule bit_word_eqI) (auto simp: bit_simps)

lemma ucast_and: "ucast (x AND y) = (ucast x AND ucast y :: 'b :: len word)" for x y :: "'a :: len word"
  by (rule bit_word_eqI) (auto simp: bit_simps)

lemma or_disjoint_xor: "ucast (ucast (drop_bit 8 c) :: i8) OR push_bit 8 c = ucast (ucast (drop_bit 8 c) :: i8) XOR push_bit 8 c" for c :: i16
  by (rule bit_word_eqI) (auto simp: bit_simps dest: bit_imp_le_length)

text \<open>The assignments of the C function, one by one.\<close>

definition swap_bytes :: "i16 \<Rightarrow> i16" where
  "swap_bytes c = ucast (ucast (drop_bit 8 c) :: i8) OR push_bit 8 c"

definition mix4 :: "i16 \<Rightarrow> i16" where
  "mix4 c = c XOR (ucast (ucast (drop_bit 4 c) :: i8) AND 0xF)"

definition mix12 :: "i16 \<Rightarrow> i16" where
  "mix12 c = c XOR push_bit 12 c"

definition mix5 :: "i16 \<Rightarrow> i16" where
  "mix5 c = c XOR push_bit 5 (c AND 0xFF)"

lemma crc16_ccitt_steps: "crc16_ccitt crc data = mix5 (mix12 (mix4 (swap_bytes crc XOR ucast data)))"
  by (simp add: crc16_ccitt_def Let_def swap_bytes_def mix4_def mix12_def mix5_def)

lemma swap_bytes_xor: "swap_bytes (x XOR y) = swap_bytes x XOR swap_bytes y"
  unfolding swap_bytes_def or_disjoint_xor by (simp add: ucast_xor drop_bit_xor push_bit_xor xor_swap)

lemma and_xor: "(x XOR y) AND m = (x AND m) XOR (y AND m)" for x y m :: "'a :: len word"
  by (rule bit_word_eqI) (auto simp: bit_simps)

lemma mix_xor: "mix4 (x XOR y) = mix4 x XOR mix4 y" "mix12 (x XOR y) = mix12 x XOR mix12 y" "mix5 (x XOR y) = mix5 x XOR mix5 y"
  unfolding mix4_def mix12_def mix5_def by (simp_all only: ucast_xor drop_bit_xor push_bit_xor and_xor xor_swap)

lemma crc16_ccitt_xor: "crc16_ccitt (c XOR d) (a XOR b) = crc16_ccitt c a XOR crc16_ccitt d b"
  unfolding crc16_ccitt_steps swap_bytes_xor ucast_xor
  by (subst xor_swap) (simp only: mix_xor)

lemma crc16_ccitt_feed: "crc16_ccitt crc data = crc16_ccitt (crc XOR push_bit 8 (ucast data)) 0"
proof -
  have "swap_bytes (push_bit 8 (ucast data)) = ucast data"
    unfolding swap_bytes_def by (rule bit_word_eqI) (auto simp: bit_simps dest: bit_imp_le_length)
  then show ?thesis unfolding crc16_ccitt_steps by (simp add: swap_bytes_xor)
qed

lemma shift_1021_8:
  "(shift_1021 ^^ 8) c = shift_1021 (shift_1021 (shift_1021 (shift_1021 (shift_1021 (shift_1021 (shift_1021 (shift_1021 c)))))))"
  by (simp add: eval_nat_numeral)

text \<open>The sixteen single bits, divided and stepped.\<close>

lemma crc16_ccitt_bits:
  "crc16_ccitt 1 0 = 0x100"
  "crc16_ccitt 2 0 = 0x200"
  "crc16_ccitt 4 0 = 0x400"
  "crc16_ccitt 8 0 = 0x800"
  "crc16_ccitt 16 0 = 0x1000"
  "crc16_ccitt 32 0 = 0x2000"
  "crc16_ccitt 64 0 = 0x4000"
  "crc16_ccitt 128 0 = 0x8000"
  "crc16_ccitt 256 0 = 0x1021"
  "crc16_ccitt 512 0 = 0x2042"
  "crc16_ccitt 1024 0 = 0x4084"
  "crc16_ccitt 2048 0 = 0x8108"
  "crc16_ccitt 4096 0 = 0x1231"
  "crc16_ccitt 8192 0 = 0x2462"
  "crc16_ccitt 16384 0 = 0x48C4"
  "crc16_ccitt 32768 0 = 0x9188"
  by (simp_all add: crc16_ccitt_def Let_def)

lemma divided_bits:
  "(shift_1021 ^^ 8) 1 = 0x100"
  "(shift_1021 ^^ 8) 2 = 0x200"
  "(shift_1021 ^^ 8) 4 = 0x400"
  "(shift_1021 ^^ 8) 8 = 0x800"
  "(shift_1021 ^^ 8) 16 = 0x1000"
  "(shift_1021 ^^ 8) 32 = 0x2000"
  "(shift_1021 ^^ 8) 64 = 0x4000"
  "(shift_1021 ^^ 8) 128 = 0x8000"
  "(shift_1021 ^^ 8) 256 = 0x1021"
  "(shift_1021 ^^ 8) 512 = 0x2042"
  "(shift_1021 ^^ 8) 1024 = 0x4084"
  "(shift_1021 ^^ 8) 2048 = 0x8108"
  "(shift_1021 ^^ 8) 4096 = 0x1231"
  "(shift_1021 ^^ 8) 8192 = 0x2462"
  "(shift_1021 ^^ 8) 16384 = 0x48C4"
  "(shift_1021 ^^ 8) 32768 = 0x9188"
  unfolding shift_1021_8 by (simp_all add: shift_1021_def)

lemma less_16_cases: "n < LENGTH(16) \<Longrightarrow> n = 0 \<or> n = 1 \<or> n = 2 \<or> n = 3 \<or> n = 4 \<or> n = 5 \<or> n = 6 \<or> n = 7
    \<or> n = 8 \<or> n = 9 \<or> n = 10 \<or> n = 11 \<or> n = 12 \<or> n = 13 \<or> n = 14 \<or> n = 15"
  by simp presburger

lemma crc16_ccitt_basis:
  assumes "n < LENGTH(16)"
  shows "crc16_ccitt (push_bit n 1) 0 = (shift_1021 ^^ 8) (push_bit n 1)"
  using less_16_cases [OF assms] by (elim disjE) (simp_all add: push_bit_eq_mult crc16_ccitt_bits divided_bits)

text \<open>
  The checksum step of the SD reader is one byte of the polynomial division it abbreviates.
\<close>

theorem crc16_ccitt_divides: "crc16_ccitt crc data = divide_byte crc data"
proof -
  have "crc16_ccitt v 0 = (shift_1021 ^^ 8) v" for v
  proof (rule xor_additive_eqI [where f = "\<lambda>v. crc16_ccitt v 0" and g = "shift_1021 ^^ 8"])
    show "xor_additive (\<lambda>v. crc16_ccitt v 0)" using crc16_ccitt_xor [of _ _ 0 0] by (simp add: xor_additive_def)
    show "xor_additive (shift_1021 ^^ 8)" by (simp add: xor_additive_def shift_1021_funpow_xor)
    show "crc16_ccitt (push_bit n 1) 0 = (shift_1021 ^^ 8) (push_bit n 1)" if "n < LENGTH(16)" for n
      using that by (rule crc16_ccitt_basis)
  qed
  then show ?thesis unfolding divide_byte_def using crc16_ccitt_feed by metis
qed

section \<open>The division bit by bit\<close>

definition feed :: "bool \<Rightarrow> i16 \<Rightarrow> i16" where
  "feed b c = shift_1021 (c XOR (if b then 0x8000 else 0))"

definition byte_bits :: "i8 \<Rightarrow> bool list" where
  "byte_bits b = map (bit b) [7, 6, 5, 4, 3, 2, 1, 0]"

definition bytes_bits :: "i8 list \<Rightarrow> bool list" where
  "bytes_bits bs = concat (map byte_bits bs)"

lemma length_bytes_bits [simp]: "length (bytes_bits bs) = 8 * length bs"
  by (induction bs) (simp_all add: bytes_bits_def byte_bits_def)

lemma shift_1021_top: "\<not> bit c 15 \<Longrightarrow> shift_1021 c = push_bit 1 c"
  by (simp add: shift_1021_def)

lemma feed_byte_part:
  "n \<le> 8 \<Longrightarrow> fold feed (map (bit d) (rev [0..<n])) c = (shift_1021 ^^ n) (c XOR push_bit (16 - n) (ucast (take_bit n (d :: i8))))"
proof (induction n arbitrary: c)
  case (Suc n)
  let ?r = "push_bit (15 - n) (ucast (take_bit n d)) :: i16"
  have split: "push_bit (15 - n) (ucast (take_bit (Suc n) d)) = (if bit d n then 0x8000 else 0) XOR ?r"
  proof -
    have one: "push_bit (15 - n) (ucast (push_bit n 1 :: i8)) = (0x8000 :: i16)"
    proof -
      have "ucast (push_bit n 1 :: i8) = (push_bit n 1 :: i16)"
        using Suc.prems by (intro bit_word_eqI) (auto simp: bit_simps bit_1_iff)
      then show ?thesis using Suc.prems by (simp add: push_bit_eq_mult flip: power_add)
    qed
    show ?thesis unfolding take_bit_split ucast_xor push_bit_xor by (cases "bit d n") (simp_all only: if_True if_False one, simp_all add: ac_simps)
  qed
  have "shift_1021 ?r = push_bit (16 - n) (ucast (take_bit n d))"
  proof -
    have b: "\<not> bit ?r 15" using Suc.prems by (auto simp: bit_simps)
    have e: "1 + (15 - n) = 16 - n" using Suc.prems by simp
    show ?thesis unfolding shift_1021_top [OF b] push_bit_push_bit e ..
  qed
  then have "feed (bit d n) c XOR push_bit (16 - n) (ucast (take_bit n d)) = shift_1021 (c XOR push_bit (15 - n) (ucast (take_bit (Suc n) d)))"
    unfolding feed_def split by (simp only: shift_1021_xor ac_simps)
  then show ?case using Suc.IH [of "feed (bit d n) c"] Suc.prems by (simp add: funpow_swap1)
qed simp

lemma divide_byte_feed: "divide_byte c d = fold feed (byte_bits d) c"
proof -
  have "take_bit 8 d = d" using take_bit_length_eq [of d] by simp
  moreover have "rev [0..<8] = [7, 6, 5, 4, 3, 2, 1, 0 :: nat]" by code_simp
  ultimately show ?thesis using feed_byte_part [of 8 d c] by (simp add: divide_byte_def byte_bits_def)
qed

lemma fold_crc_bits: "fold (\<lambda>b crc. crc16_ccitt crc b) bs c = fold feed (bytes_bits bs) c"
  by (induction bs arbitrary: c) (simp_all add: bytes_bits_def crc16_ccitt_divides divide_byte_feed)

section \<open>What the check detects\<close>

abbreviation difference :: "bool list \<Rightarrow> bool list \<Rightarrow> bool list" where
  "difference \<equiv> map2 (\<noteq>)"

lemma feed_xor: "feed (a \<noteq> b) (c XOR d) = feed a c XOR feed b d"
  unfolding feed_def by (cases a; cases b) (simp_all add: shift_1021_xor ac_simps)

lemma fold_feed_difference:
  "length xs = length ys \<Longrightarrow> fold feed (difference xs ys) (c XOR d) = fold feed xs c XOR fold feed ys d"
proof (induction xs ys arbitrary: c d rule: list_induct2)
  case (Cons x xs y ys)
  then show ?case using feed_xor [of x y c d] by simp
qed simp

lemma shift_1021_eq_0 [simp]: "shift_1021 c = 0 \<longleftrightarrow> c = 0"
proof
  assume s: "shift_1021 c = 0"
  have "\<not> bit (push_bit 1 c) 0" by (simp only: bit_push_bit_iff) simp
  then have "bit (shift_1021 c) 0 = bit c 15" unfolding shift_1021_def by (simp add: bit_xor_iff)
  then have b: "\<not> bit c 15" using s by simp
  then have "push_bit 1 c = 0" using s shift_1021_top by simp
  then have "\<not> bit (push_bit 1 c) (Suc n)" for n by (simp only:) simp
  then have "\<not> bit c n" if "n < 15" for n using that by (auto simp only: bit_push_bit_iff) (simp add: bit_simps)
  then show "c = 0" using b by (intro bit_word_eqI) (auto simp: less_Suc_eq numeral_eq_Suc)
qed (simp add: shift_1021_def)

lemma shift_1021_funpow_eq_0 [simp]: "(shift_1021 ^^ n) c = 0 \<longleftrightarrow> c = 0"
  by (induction n) simp_all

lemma fold_feed_zeros: "fold feed (replicate n False) c = (shift_1021 ^^ n) c"
  by (induction n arbitrary: c) (simp_all add: feed_def funpow_swap1)

text \<open>
  Double errors: the remainder of a single bit does not come back to itself within a block. The walk
  along \<open>2 ^ k\<close> steps is checked in pieces of 512.
\<close>

fun avoids :: "nat \<Rightarrow> i16 \<Rightarrow> bool \<times> i16" where
  "avoids 0 c = (c \<noteq> 0x8000, shift_1021 c)"
| "avoids (Suc k) c = (case avoids k c of (ok, c) \<Rightarrow> if ok then avoids k c else (False, c))"

lemma funpow_split: "n \<le> m \<Longrightarrow> (f ^^ m) c = (f ^^ (m - n)) ((f ^^ n) c)"
  by (metis comp_apply funpow_add le_add_diff_inverse2)

lemma avoids_walk:
  "avoids k c = (True, d) \<Longrightarrow> d = (shift_1021 ^^ 2 ^ k) c \<and> (\<forall>m < 2 ^ k. (shift_1021 ^^ m) c \<noteq> 0x8000)"
proof (induction k arbitrary: c d)
  case (Suc k)
  then obtain e where e: "avoids k c = (True, e)" "avoids k e = (True, d)" by (auto split: prod.splits if_splits)
  have "(shift_1021 ^^ m) c \<noteq> 0x8000" if "m < 2 ^ Suc k" for m
  proof (cases "m < 2 ^ k")
    case False
    then have "(shift_1021 ^^ m) c = (shift_1021 ^^ (m - 2 ^ k)) e"
      using Suc.IH [OF e(1)] funpow_split [of "2 ^ k" m shift_1021 c] by simp
    then show ?thesis using Suc.IH [OF e(2)] that False by simp
  qed (use Suc.IH [OF e(1)] in blast)
  moreover have "d = (shift_1021 ^^ (2 ^ k + 2 ^ k)) c"
    using Suc.IH [OF e(1)] Suc.IH [OF e(2)] unfolding funpow_add by simp
  ultimately show ?case by (simp add: mult_2)
qed simp

lemma avoids_0: "avoids 9 0x1021 = (True, 0x78B3)" by code_simp
lemma avoids_1: "avoids 9 0x78B3 = (True, 0x36FB)" by code_simp
lemma avoids_2: "avoids 9 0x36FB = (True, 0xB353)" by code_simp
lemma avoids_3: "avoids 9 0xB353 = (True, 0x3F68)" by code_simp
lemma avoids_4: "avoids 9 0x3F68 = (True, 0x8B9B)" by code_simp
lemma avoids_5: "avoids 9 0x8B9B = (True, 0xBFE4)" by code_simp
lemma avoids_6: "avoids 9 0xBFE4 = (True, 0x80EB)" by code_simp
lemma avoids_7: "avoids 9 0x80EB = (True, 0x90C2)" by code_simp
lemma avoids_8: "avoids 5 0x90C2 = (True, 0x8E08)" by code_simp

lemma walk_append:
  assumes "(shift_1021 ^^ n) c = d" "\<And>m. m < n \<Longrightarrow> (shift_1021 ^^ m) c \<noteq> 0x8000" "\<And>m. m < k \<Longrightarrow> (shift_1021 ^^ m) d \<noteq> 0x8000"
  shows "m < n + k \<Longrightarrow> (shift_1021 ^^ m) c \<noteq> 0x8000"
proof (cases "m < n")
  case False
  assume "m < n + k"
  then have "(shift_1021 ^^ (m - n)) d \<noteq> 0x8000" using assms(3) False by simp
  moreover have "(shift_1021 ^^ m) c = (shift_1021 ^^ (m - n)) d"
    using assms(1) False funpow_split [of n m shift_1021 c] by simp
  ultimately show ?thesis by simp
qed (use assms(2) in blast)

lemma walk_step:
  assumes "(shift_1021 ^^ n) c = d \<and> (\<forall>m < n. (shift_1021 ^^ m) c \<noteq> 0x8000)" "avoids k d = (True, e)"
  shows "(shift_1021 ^^ (n + 2 ^ k)) c = e \<and> (\<forall>m < n + 2 ^ k. (shift_1021 ^^ m) c \<noteq> 0x8000)"
proof -
  have "(shift_1021 ^^ (n + 2 ^ k)) c = (shift_1021 ^^ 2 ^ k) ((shift_1021 ^^ n) c)"
    by (metis add.commute comp_apply funpow_add)
  then show ?thesis using walk_append [of n c d "2 ^ k"] avoids_walk [OF assms(2)] assms(1) by blast
qed

lemma no_return: "m < 4128 \<Longrightarrow> (shift_1021 ^^ m) 0x1021 \<noteq> 0x8000"
proof -
  have "(shift_1021 ^^ 0) 0x1021 = 0x1021 \<and> (\<forall>m < 0. (shift_1021 ^^ m) 0x1021 \<noteq> 0x8000)" by simp
  from walk_step [OF walk_step [OF walk_step [OF walk_step [OF walk_step [OF walk_step [OF walk_step [OF walk_step [OF walk_step
    [OF this avoids_0] avoids_1] avoids_2] avoids_3] avoids_4] avoids_5] avoids_6] avoids_7] avoids_8]
  show "m < 4128 \<Longrightarrow> (shift_1021 ^^ m) 0x1021 \<noteq> 0x8000" by simp
qed

section \<open>Errors that are detected\<close>

text \<open>An error is the difference of two strings of bits; it is detected if its remainder is not zero.\<close>

definition weight :: "bool list \<Rightarrow> nat" where
  "weight e = length (filter id e)"

definition detected :: "bool list \<Rightarrow> bool" where
  "detected e = (fold feed e 0 \<noteq> 0)"

lemma weight_simps [simp]: "weight [] = 0" "weight (b # e) = (if b then Suc (weight e) else weight e)" "weight (e @ f) = weight e + weight f"
  "weight (replicate n False) = 0"
  by (simp_all add: weight_def)

lemma weight_0: "weight e = 0 \<longleftrightarrow> e = replicate (length e) False"
  by (induction e) auto

lemma weight_Suc: "weight e = Suc n \<Longrightarrow> \<exists>i f. e = replicate i False @ True # f \<and> weight f = n"
proof (induction e)
  case (Cons b e)
  show ?case
  proof (cases b)
    case True
    then show ?thesis using Cons.prems by (intro exI [of _ 0]) simp
  next
    case False
    then obtain i f where "e = replicate i False @ True # f" "weight f = n" using Cons by auto
    then show ?thesis using False by (intro exI [of _ "Suc i"]) simp
  qed
qed simp

lemma shift_1021_top_bit: "shift_1021 0x8000 = 0x1021"
  by (simp add: shift_1021_def)

lemma feed_False [simp]: "feed False = shift_1021"
  by (simp add: feed_def fun_eq_iff)

lemma xor_eq_0: "x XOR y = 0 \<longleftrightarrow> x = y" for x y :: "'a :: len word"
  by (metis xor.assoc xor.right_neutral xor.left_neutral xor_self_eq)

lemma shift_1021_funpow_0 [simp]: "(shift_1021 ^^ i) 0 = 0"
  by simp

lemma detected_zeros [simp]: "detected (replicate i False @ e) = detected e"
  unfolding detected_def fold_append comp_def fold_feed_zeros by (simp only: shift_1021_funpow_0)

lemma detected_double: "weight e = 2 \<Longrightarrow> length e \<le> 4128 \<Longrightarrow> detected e"
proof -
  assume "weight e = 2" and l: "length e \<le> 4128"
  then obtain i f where e: "e = replicate i False @ True # f" "weight f = 1" using weight_Suc [of e 1] by auto
  then obtain k g where f: "f = replicate k False @ True # g" "weight g = 0" using weight_Suc [of f 0] by auto
  then have g: "g = replicate (length g) False" using weight_0 by blast
  have "(shift_1021 ^^ k) 0x1021 \<noteq> 0x8000" using no_return [of k] l e(1) f(1) by simp
  moreover have "fold feed (True # f) 0 = (shift_1021 ^^ length g) (shift_1021 ((shift_1021 ^^ k) 0x1021 XOR 0x8000))"
    unfolding f by (subst g) (simp add: feed_def shift_1021_top_bit)
  ultimately have "detected (True # f)" unfolding detected_def by (simp add: xor_eq_0)
  then show ?thesis unfolding e by simp
qed

text \<open>Odd errors: the parity of the remainder is the parity of what was fed.\<close>

definition parity :: "i16 \<Rightarrow> bool" where
  "parity c = odd (weight (map (bit c) [0..<16]))"

lemma odd_weight_difference: "odd (weight (map (\<lambda>n. f n \<noteq> g n) ns)) = (odd (weight (map f ns)) \<noteq> odd (weight (map g ns)))"
  by (induction ns) auto

lemma parity_xor: "parity (x XOR y) = (parity x \<noteq> parity y)"
  unfolding parity_def bit_xor_iff by (rule odd_weight_difference)

lemma parity_push: "parity (push_bit 1 c) = (parity c \<noteq> bit c 15)"
proof -
  have l: "[0..<16] = 0 # map Suc [0..<15]" and r: "[0..<16] = [0..<15] @ [15]" by (simp_all add: upt_rec eval_nat_numeral)
  have "map (\<lambda>n. bit (push_bit 1 c) (Suc n)) [0..<15] = map (bit c) [0..<15]"
    by (rule map_cong) (simp_all only: bit_push_bit_iff, simp)
  then have "weight (map (bit (push_bit 1 c)) [0..<16]) = weight (map (bit c) [0..<15])"
    unfolding l list.map map_map comp_def by (simp only: bit_push_bit_iff weight_simps) simp
  then show ?thesis unfolding parity_def r by auto
qed

lemma parity_shift: "parity (shift_1021 c) = parity c"
proof -
  have "parity 0x1021" "\<not> parity 0" by code_simp+
  then show ?thesis unfolding shift_1021_def parity_xor parity_push by simp
qed

lemma parity_feed: "parity (feed b c) = (parity c \<noteq> b)"
proof -
  have "parity 0x8000" "\<not> parity 0" by code_simp+
  then show ?thesis unfolding feed_def parity_shift parity_xor by simp
qed

lemma parity_fold: "parity (fold feed e c) = (parity c \<noteq> odd (weight e))"
  by (induction e arbitrary: c) (auto simp: parity_feed)

lemma detected_odd: "odd (weight e) \<Longrightarrow> detected e"
proof -
  have "\<not> parity 0" by code_simp
  then show "odd (weight e) \<Longrightarrow> detected e" using parity_fold [of e 0] unfolding detected_def by auto
qed

text \<open>Bursts: the first sixteen bits, read as a word, are what is divided.\<close>

fun bits_word :: "bool list \<Rightarrow> i16" where
  "bits_word [] = 0"
| "bits_word (b # bs) = (if b then 0x8000 else 0) XOR drop_bit 1 (bits_word bs)"

lemma bit_8000: "bit (0x8000 :: i16) m \<longleftrightarrow> m = 15"
proof -
  have "(0x8000 :: i16) = push_bit 15 1" by simp
  then show ?thesis by (simp only: bit_push_bit_iff) (auto simp: bit_1_iff)
qed

lemma not_bit_16: "16 \<le> m \<Longrightarrow> \<not> bit c m" for c :: i16
  using bit_imp_le_length [of c m] by auto

lemma bit_bits_word: "length bs \<le> 16 \<Longrightarrow> bit (bits_word bs) m \<longleftrightarrow> m < 16 \<and> 15 - m < length bs \<and> bs ! (15 - m)"
proof (induction bs arbitrary: m)
  case (Cons b bs)
  have e: "bit (bits_word (b # bs)) m \<longleftrightarrow> (b \<and> m = 15) \<noteq> bit (bits_word bs) (Suc m)"
    using bit_8000 by (cases b) (simp_all only: bits_word.simps if_True if_False bit_xor_iff bit_drop_bit_eq comp_def plus_1_eq_Suc, auto)
  have IH: "bit (bits_word bs) (Suc m) \<longleftrightarrow> Suc m < 16 \<and> 15 - Suc m < length bs \<and> bs ! (15 - Suc m)"
    using Cons by simp
  consider "m < 15" | "m = 15" | "15 < m" by linarith
  then show ?case
  proof cases
    case 1
    then obtain k where k: "15 - m = Suc k" "15 - Suc m = k" by (metis Suc_diff_Suc)
    then show ?thesis using 1 unfolding e IH by simp
  next
    case 2
    then show ?thesis unfolding e IH by simp
  next
    case 3
    then show ?thesis unfolding e IH by simp
  qed
qed simp

lemma push_drop_1: "\<not> bit x 0 \<Longrightarrow> push_bit 1 (drop_bit 1 x) = x" for x :: "'a :: len word"
proof (rule bit_word_eqI)
  fix n
  assume "\<not> bit x 0" "n < LENGTH('a)"
  then show "bit (push_bit 1 (drop_bit 1 x)) n = bit x n"
    by (cases n) (simp_all only: bit_push_bit_iff bit_drop_bit_eq comp_def, simp_all)
qed

lemma fold_feed_word: "length bs \<le> 16 \<Longrightarrow> fold feed bs c = (shift_1021 ^^ length bs) (c XOR bits_word bs)"
proof (induction bs arbitrary: c)
  case (Cons b bs)
  let ?h = "drop_bit 1 (bits_word bs)"
  have t: "\<not> bit ?h 15" using not_bit_16 [of 16 "bits_word bs"] by (simp add: bit_drop_bit_eq)
  have "\<not> bit (bits_word bs) 0" using bit_bits_word [of bs 0] Cons.prems by auto
  then have "push_bit 1 ?h = bits_word bs" by (rule push_drop_1)
  then have "shift_1021 ?h = bits_word bs" using shift_1021_top [OF t] by simp
  then have "feed b c XOR bits_word bs = shift_1021 (c XOR bits_word (b # bs))"
    unfolding feed_def bits_word.simps by (simp only: shift_1021_xor ac_simps)
  then show ?case using Cons.IH [of "feed b c"] Cons.prems by (simp add: funpow_swap1)
qed simp

lemma detected_burst:
  assumes "length w \<le> 16" "0 < weight w"
  shows "detected (replicate i False @ w @ replicate j False)"
proof -
  obtain n where n: "n < length w" "w ! n" using assms(2) by (auto simp: weight_def filter_empty_conv in_set_conv_nth)
  then have "bit (bits_word w) (15 - n)" using bit_bits_word [OF assms(1), of "15 - n"] assms(1) by simp
  then have "bits_word w \<noteq> 0" by auto
  then have "fold feed w 0 \<noteq> 0" using fold_feed_word [OF assms(1), of 0] by simp
  then have "detected (w @ replicate j False)"
    unfolding detected_def fold_append comp_def fold_feed_zeros by simp
  then show ?thesis by simp
qed

section \<open>The code words\<close>

text \<open>The two bytes after a block are what its checksum must be.\<close>

lemma shift_1021_byte: "n \<le> 8 \<Longrightarrow> (shift_1021 ^^ n) (ucast (b :: i8)) = push_bit n (ucast b)"
proof (induction n)
  case (Suc n)
  have "\<not> bit (push_bit n (ucast b) :: i16) 15"
    using Suc.prems bit_imp_le_length [of b "15 - n"] by (auto simp: bit_push_bit_iff bit_simps)
  from shift_1021_top [OF this] show ?case using Suc by (simp add: push_bit_push_bit del: push_bit_of_Suc_0)
qed simp

lemma block_crc_closed:
  "block_crc (d @ [hi, lo]) = 0 \<longleftrightarrow> block_crc d = push_bit 8 (ucast hi) OR ucast lo"
proof -
  have w: "push_bit 8 (ucast hi) OR ucast lo = (push_bit 8 (ucast hi) XOR ucast lo :: i16)"
    by (rule bit_word_eqI) (auto simp: bit_simps dest: bit_imp_le_length)
  have "block_crc (d @ [hi, lo]) = (shift_1021 ^^ 8) ((shift_1021 ^^ 8) (block_crc d XOR push_bit 8 (ucast hi)) XOR push_bit 8 (ucast lo))"
    unfolding block_crc_def by (simp add: crc16_ccitt_divides divide_byte_def)
  also have "\<dots> = (shift_1021 ^^ 8) ((shift_1021 ^^ 8) (block_crc d XOR (push_bit 8 (ucast hi) XOR ucast lo)))"
    by (simp only: shift_1021_byte [of 8 lo, simplified, symmetric] shift_1021_funpow_xor ac_simps)
  also have "\<dots> = 0 \<longleftrightarrow> block_crc d XOR (push_bit 8 (ucast hi) XOR ucast lo) = 0" by (simp only: shift_1021_funpow_eq_0)
  finally show ?thesis unfolding w xor_eq_0 .
qed

lemma byte_bits_inj: "byte_bits a = byte_bits b \<Longrightarrow> a = b"
proof (rule bit_word_eqI)
  fix n
  assume e: "byte_bits a = byte_bits b" and n: "n < LENGTH(8)"
  have "n = 0 \<or> n = 1 \<or> n = 2 \<or> n = 3 \<or> n = 4 \<or> n = 5 \<or> n = 6 \<or> n = 7" using n by simp presburger
  then show "bit a n = bit b n" using e by (auto simp: byte_bits_def)
qed

lemma bytes_bits_inj: "length xs = length ys \<Longrightarrow> bytes_bits xs = bytes_bits ys \<Longrightarrow> xs = ys"
proof (induction xs ys rule: list_induct2)
  case (Cons x xs y ys)
  have "length (byte_bits x) = length (byte_bits y)" by (simp add: byte_bits_def)
  then show ?case using Cons by (auto simp: bytes_bits_def dest: byte_bits_inj)
qed simp

lemma difference_weight_0: "length xs = length ys \<Longrightarrow> weight (difference xs ys) = 0 \<Longrightarrow> xs = ys"
  by (induction xs ys rule: list_induct2) (auto split: if_splits)

lemma block_crc_difference:
  assumes "length x = length y" "block_crc x = 0" "block_crc y = 0"
  shows "\<not> detected (difference (bytes_bits x) (bytes_bits y))"
  using fold_feed_difference [of "bytes_bits x" "bytes_bits y" 0 0] assms
  by (simp add: detected_def block_crc_def fold_crc_bits)

text \<open>
  C12: the check of \<open>sd_copy\<close>, a block and the two bytes of its checksum, has distance four: two
  different blocks of 512 bytes that both pass differ in at least four bits, and these do not lie within
  sixteen consecutive ones. So up to three wrong bits in a block, and any burst of up to sixteen, are found.
\<close>

theorem sd_check_distance:
  assumes "block_crc d = push_bit 8 (ucast hi) OR ucast lo" "block_crc d' = push_bit 8 (ucast hi') OR ucast lo'"
    and "length d = 512" "length d' = 512" "(d, hi, lo) \<noteq> (d', hi', lo')"
  shows "4 \<le> weight (difference (bytes_bits (d @ [hi, lo])) (bytes_bits (d' @ [hi', lo'])))
    \<and> \<not> (\<exists>i w j. difference (bytes_bits (d @ [hi, lo])) (bytes_bits (d' @ [hi', lo'])) = replicate i False @ w @ replicate j False
           \<and> length w \<le> 16)"
proof -
  let ?x = "d @ [hi, lo]" and ?y = "d' @ [hi', lo']"
  let ?e = "difference (bytes_bits ?x) (bytes_bits ?y)"
  have l: "length ?x = length ?y" "?x \<noteq> ?y" using assms(3-5) by auto
  have n: "\<not> detected ?e" using block_crc_difference [OF l(1)] assms(1,2) block_crc_closed by blast
  have "weight ?e \<noteq> 0" using difference_weight_0 [of "bytes_bits ?x" "bytes_bits ?y"] bytes_bits_inj [OF l(1)] l by auto
  moreover have "length ?e \<le> 4128" using assms(3,4) by simp
  ultimately have "even (weight ?e)" "weight ?e \<noteq> 2" "0 < weight ?e" using n detected_odd detected_double by blast+
  note w = this
  have "4 \<le> n" if "even n" "n \<noteq> 2" "0 < n" for n :: nat using that by presburger
  then have "4 \<le> weight ?e" using w by blast
  moreover have "\<not> (\<exists>i w j. ?e = replicate i False @ w @ replicate j False \<and> length w \<le> 16)"
    using n detected_burst w(3) by (metis add_0 add_0_right weight_simps(3,4))
  ultimately show ?thesis by blast
qed

lemma block_crc_leading_zeros: "block_crc (replicate n 0 @ bs) = block_crc bs"
proof -
  have z: "crc16_ccitt 0 0 = 0" by (simp add: crc16_ccitt_def)
  have "fold (\<lambda>b crc. crc16_ccitt crc b) (replicate n 0) 0 = 0" by (induction n) (simp_all add: z del: fold_replicate)
  then show ?thesis by (simp add: block_crc_def del: fold_replicate)
qed

text \<open>The polynomial itself shows that four is the exact distance.\<close>

lemma sd_check_distance_witness:
  "4 \<le> weight (difference (bytes_bits (replicate 512 0 @ [0, 0])) (bytes_bits ((replicate 511 0 @ [1]) @ [0x10, 0x21])))"
proof -
  have "block_crc (replicate 512 0) = push_bit 8 (ucast (0 :: i8)) OR ucast (0 :: i8)"
    using block_crc_leading_zeros [of 512 "[]"] by (simp add: block_crc_def)
  moreover have "block_crc (replicate 511 0 @ [1]) = push_bit 8 (ucast (0x10 :: i8)) OR ucast (0x21 :: i8)"
    unfolding block_crc_leading_zeros by (simp add: block_crc_def crc16_ccitt_def)
  ultimately show ?thesis
    using sd_check_distance [of "replicate 512 0" 0 0 "replicate 511 0 @ [1]" "0x10" "0x21"] by simp
qed

end
