(* ===== verification/BootRead.thy ===== *)
theory BootRead
  imports BootSpi BootCrc
begin

unbundle bit_operations_syntax

text \<open>
  Reading blocks from the card: what the card sends is a sequence of frames, and \<open>sd_copy\<close> takes the blocks out of
  them, up to the first one whose checksum is wrong.
\<close>

section \<open>Frames\<close>

text \<open>The bytes before the token, the block, and its checksum.\<close>

type_synonym frame = "i8 list \<times> i8 list \<times> i8 \<times> i8"

fun wire :: "frame \<Rightarrow> i8 list" where
  "wire (gap, d, hi, lo) = gap @ [0xFE] @ d @ [hi, lo]"

fun well_formed :: "frame \<Rightarrow> bool" where
  "well_formed (gap, d, hi, lo) = (0xFE \<notin> set gap \<and> length d = 512)"

fun received :: "frame list \<Rightarrow> int \<times> i8 list" where
  "received [] = (0, [])"
| "received ((gap, d, hi, lo) # fs) =
     (if block_crc d = push_bit 8 (ucast hi) OR ucast lo then (case received fs of (rc, ds) \<Rightarrow> (rc, d @ ds)) else (-2, d))"

text \<open>\<open>sends r k bs\<close>: the card's answers from the \<open>k\<close>-th on are \<open>bs\<close>.\<close>

definition sends :: "(nat \<Rightarrow> i8) \<Rightarrow> nat \<Rightarrow> i8 list \<Rightarrow> bool" where
  "sends r k bs = (map r [k..<k + length bs] = bs)"

lemma sends_Nil [simp]: "sends r k []"
  by (simp add: sends_def)

lemma sends_Cons [simp]: "sends r k (b # bs) \<longleftrightarrow> r k = b \<and> sends r (Suc k) bs"
  by (auto simp: sends_def upt_rec)

lemma sends_append [simp]: "sends r k (xs @ ys) \<longleftrightarrow> sends r k xs \<and> sends r (k + length xs) ys"
  by (induction xs arbitrary: k) auto

lemma sends_map: "length bs = n \<Longrightarrow> sends r k bs \<Longrightarrow> map r [k..<k + n] = bs"
  by (auto simp: sends_def)

section \<open>The loops of the reader\<close>

lemma wait_token_reads:
  assumes d: "spi_device hw arrived resp"
  shows "listened hist t k \<Longrightarrow> sends (heard resp t) k (gap @ [0xFE]) \<Longrightarrow> 0xFE \<notin> set gap
    \<Longrightarrow> \<exists>hist'. wait_token hw hist = Some hist' \<and> listened hist' t (Suc (k + length gap))"
proof (induction gap arbitrary: k hist)
  case Nil
  obtain h1 where "sd_dummy hw hist = Some (heard resp t k, h1)" "listened h1 t (Suc k)"
    using sd_dummy_heard [OF d Nil.prems(1)] by blast
  then show ?case using Nil.prems by (subst wait_token.simps) simp
next
  case (Cons g gap)
  obtain h1 where s: "sd_dummy hw hist = Some (heard resp t k, h1)" and l: "listened h1 t (Suc k)"
    using sd_dummy_heard [OF d Cons.prems(1)] by blast
  have "wait_token hw hist = wait_token hw h1" using s Cons.prems by (subst wait_token.simps) simp
  then show ?case using Cons.IH [OF l] Cons.prems by simp
qed

lemma cmd_wait_reads:
  assumes d: "spi_device hw arrived resp" and a: "a AND 0x80 = 0"
  shows "listened hist t k \<Longrightarrow> sends (heard resp t) k (busy @ [a]) \<Longrightarrow> list_all (\<lambda>b. b AND 0x80 \<noteq> 0) busy \<Longrightarrow> length busy < n
    \<Longrightarrow> \<exists>hist'. cmd_wait hw n r hist = Some (a, hist') \<and> listened hist' t (Suc (k + length busy))"
proof (induction busy arbitrary: k hist n r)
  case Nil
  obtain h1 where "sd_dummy hw hist = Some (heard resp t k, h1)" "listened h1 t (Suc k)"
    using sd_dummy_heard [OF d Nil.prems(1)] by blast
  moreover obtain m where "n = Suc m" using Nil.prems by (cases n) auto
  ultimately show ?case using Nil.prems a by simp
next
  case (Cons b busy)
  obtain h1 where s: "sd_dummy hw hist = Some (heard resp t k, h1)" and l: "listened h1 t (Suc k)"
    using sd_dummy_heard [OF d Cons.prems(1)] by blast
  obtain m where n: "n = Suc m" using Cons.prems by (cases n) auto
  show ?case using Cons.IH [OF l, of m b] Cons.prems s n by simp
qed

lemma cmd_wait_total:
  assumes d: "spi_device hw arrived resp"
  shows "listened hist t k \<Longrightarrow> \<exists>a hist' k'. cmd_wait hw n r hist = Some (a, hist') \<and> listened hist' t k'"
proof (induction n arbitrary: k hist r)
  case (Suc n)
  obtain h1 where s: "sd_dummy hw hist = Some (heard resp t k, h1)" and l: "listened h1 t (Suc k)"
    using sd_dummy_heard [OF d Suc.prems] by blast
  show ?case
  proof (cases "heard resp t k AND 0x80 = 0")
    case True
    then show ?thesis using s l by (intro exI [of _ "heard resp t k"] exI [of _ h1] exI [of _ "Suc k"]) simp
  next
    case False
    then show ?thesis using Suc.IH [OF l, of "heard resp t k"] s by simp
  qed
qed auto

text \<open>The command and its answer.\<close>

definition command :: "i8 \<Rightarrow> i32 \<Rightarrow> i8 \<Rightarrow> i8 list" where
  "command cmd arg crc =
     [0xFF, 0x40 OR cmd, ucast (drop_bit 24 arg), ucast (drop_bit 16 arg), ucast (drop_bit 8 arg), ucast arg, crc]"

lemma sd_cmd_reads:
  assumes d: "spi_device hw arrived resp" and "idle hist t" and a: "a AND 0x80 = 0"
    and "sends (heard resp (t @ command cmd arg crc)) 0 (busy @ [a])" "list_all (\<lambda>b. b AND 0x80 \<noteq> 0) busy" "length busy < 100"
  shows "\<exists>hist'. sd_cmd hw cmd arg crc hist = Some (a, hist') \<and> listened hist' (t @ command cmd arg crc) (Suc (length busy))"
proof -
  obtain h1 where s: "send_all hw (command cmd arg crc) hist = Some h1" and i: "listened h1 (t @ command cmd arg crc) 0"
    using send_all_exchange [OF d assms(2)] by fastforce
  show ?thesis
    using cmd_wait_reads [OF d a i assms(4-6), of 0] s unfolding sd_cmd_def command_def by simp
qed

lemma sd_cmd_total:
  assumes d: "spi_device hw arrived resp" and "idle hist t"
  shows "\<exists>a hist' t'. sd_cmd hw cmd arg crc hist = Some (a, hist') \<and> idle hist' t'"
proof -
  obtain h1 where s: "send_all hw (command cmd arg crc) hist = Some h1" and i: "listened h1 (t @ command cmd arg crc) 0"
    using send_all_exchange [OF d assms(2)] by fastforce
  show ?thesis
    using cmd_wait_total [OF d i, of 100 0] s unfolding sd_cmd_def command_def by fastforce
qed
text \<open>Writing behind a prefix.\<close>

lemma store_append:
  "store (xs @ ys) (length xs) bs = (if length bs \<le> length ys then Some (xs @ bs @ drop (length bs) ys) else None)"
  by (simp add: store_def)

lemma transfer_loop_reads:
  assumes d: "spi_device hw arrived resp"
  shows "listened hist t k \<Longrightarrow> sends (heard resp t) k bs \<Longrightarrow> length bs = 64 * n \<Longrightarrow> length bs \<le> length ys
    \<Longrightarrow> \<exists>hist'. transfer_loop hw n (xs @ ys) (length xs) crc hist
          = Some (xs @ bs @ drop (length bs) ys, fold (\<lambda>b crc. crc16_ccitt crc b) bs crc, hist')
        \<and> listened hist' t (k + length bs)"
proof (induction n arbitrary: k hist bs xs ys crc)
  case (Suc n)
  let ?a = "take 64 bs" and ?b = "drop 64 bs" and ?ys = "drop 64 ys"
  have bs: "bs = ?a @ ?b" "length ?a = 64" "length ?b = 64 * n" using Suc.prems by simp_all
  have sa: "sends (heard resp t) k ?a" and sb: "sends (heard resp t) (k + 64) ?b"
    using Suc.prems(2) bs sends_append [of _ k ?a ?b] by metis+
  obtain h1 where w: "spi_write_bytes hw (replicate 64 0xFF) hist = Some ((0, ?a), h1)" and l: "listened h1 t (k + 64)"
    using spi_write_bytes_heard [OF d Suc.prems(1), of 64] sends_map [OF bs(2) sa] by auto
  have st: "store (xs @ ys) (length xs) ?a = Some ((xs @ ?a) @ ?ys)"
    using Suc.prems bs(2) by (simp add: store_append)
  have tk: "take 64 (drop (length xs) ((xs @ ?a) @ ?ys)) = ?a" using bs(2) by simp
  have le: "length ?b \<le> length ?ys" using Suc.prems by simp
  obtain h2 where h2: "transfer_loop hw n ((xs @ ?a) @ ?ys) (length (xs @ ?a)) (fold (\<lambda>b crc. crc16_ccitt crc b) ?a crc) h1
      = Some ((xs @ ?a) @ ?b @ drop (length ?b) ?ys, fold (\<lambda>b crc. crc16_ccitt crc b) ?b (fold (\<lambda>b crc. crc16_ccitt crc b) ?a crc), h2)"
    and l2: "listened h2 t (k + 64 + length ?b)"
    using Suc.IH [OF l sb bs(3) le] by blast
  have e1: "length (xs @ ?a) = length xs + 64" using bs(2) by simp
  have e2: "fold f ?b (fold f ?a crc) = fold f bs crc" for f :: "i8 \<Rightarrow> i16 \<Rightarrow> i16"
    by (metis append_take_drop_id comp_apply fold_append)
  have e3: "(xs @ ?a) @ ?b @ drop (length ?b) ?ys = xs @ bs @ drop (length bs) ys"
  proof -
    have "drop (length ?b) ?ys = drop (length bs) ys" using bs(3) Suc.prems(3) by (simp add: add.commute)
    then show ?thesis by (metis append.assoc append_take_drop_id)
  qed
  have e4: "k + 64 + length ?b = k + length bs" using bs(3) Suc.prems(3) by simp
  have "transfer_loop hw (Suc n) (xs @ ys) (length xs) crc hist
      = transfer_loop hw n ((xs @ ?a) @ ?ys) (length xs + 64) (fold (\<lambda>b crc. crc16_ccitt crc b) ?a crc) h1"
    unfolding transfer_loop.simps w bind.bind_lunit split st tk ..
  moreover note h2 [unfolded e1 e2 e3]
  moreover note l2 [unfolded e4]
  ultimately show ?case by metis
qed simp

lemma block_loop_reads:
  assumes d: "spi_device hw arrived resp" and u: "answers hw 0x10000014"
  shows "idle hist (t @ replicate k 0xFF) \<Longrightarrow> sends (heard resp t) k (concat (map wire fs)) \<Longrightarrow> list_all well_formed fs
    \<Longrightarrow> 512 * length fs \<le> length ys
    \<Longrightarrow> \<exists>hist' t'. block_loop hw (length fs) i (xs @ ys) (length xs) hist
          = Some (fst (received fs), xs @ snd (received fs) @ drop (length (snd (received fs))) ys, hist') \<and> idle hist' t'"
proof (induction fs arbitrary: k hist i xs ys)
  case (Cons f fs)
  obtain gap b hi lo where f: "f = (gap, b, hi, lo)" by (cases f) auto
  then have wf: "0xFE \<notin> set gap" "length b = 512" and rest: "list_all well_formed fs" using Cons.prems(3) by simp_all
  let ?k1 = "Suc (k + length gap)" let ?k2 = "?k1 + length b"
  have s1: "sends (heard resp t) k (gap @ [0xFE])" and s2: "sends (heard resp t) ?k1 b"
    and s3: "heard resp t ?k2 = hi" "heard resp t (Suc ?k2) = lo"
    and s4: "sends (heard resp t) (Suc (Suc ?k2)) (concat (map wire fs))"
    using Cons.prems(2) by (simp_all add: f ac_simps)
  obtain h1 where h1: "wait_token hw hist = Some h1" and l1: "listened h1 t ?k1"
    using wait_token_reads [OF d Cons.prems(1) s1 wf(1)] by blast
  have lb: "length b = 64 * 8" "length b \<le> length ys" using wf Cons.prems(4) by simp_all
  obtain h2 where h2: "transfer_loop hw 8 (xs @ ys) (length xs) 0 h1 = Some (xs @ b @ drop (length b) ys, block_crc b, h2)"
    and l2: "listened h2 t ?k2"
    using transfer_loop_reads [OF d l1 s2 lb, of xs 0] unfolding block_crc_def by blast
  obtain h3 where h3: "sd_dummy hw h2 = Some (hi, h3)" and l3: "listened h3 t (Suc ?k2)"
    using sd_dummy_heard [OF d l2] s3 by auto
  obtain h4 where h4: "sd_dummy hw h3 = Some (lo, h4)" and l4: "listened h4 t (Suc (Suc ?k2))"
    using sd_dummy_heard [OF d l3] s3 by auto
  note steps = h1 h2 h3 h4 bind.bind_lunit split
  show ?case
  proof (cases "block_crc b = push_bit 8 (ucast hi) OR ucast lo")
    case False
    then show ?thesis using l4 by (auto simp: f steps Let_def)
  next
    case True
    obtain h5 where h5: "(if crem i 1000 = 0 then print_uart hw ''.'' h4 else Some h4) = Some h5" and l5: "listened h5 t (Suc (Suc ?k2))"
      using print_bytes_idle [OF u l4, of "map of_char ''.''"] l4 unfolding print_uart_def by (cases "crem i 1000 = 0") auto
    have le: "512 * length fs \<le> length (drop 512 ys)" using Cons.prems(4) by simp
    from Cons.IH [OF l5 s4 rest le, of "i - 1" "xs @ b"] wf(2) obtain h6 t6 where
      h6: "block_loop hw (length fs) (i - 1) ((xs @ b) @ drop 512 ys) (length xs + 512) h5
        = Some (fst (received fs), (xs @ b) @ snd (received fs) @ drop (length (snd (received fs))) (drop 512 ys), h6)"
      and l6: "idle h6 t6" by auto
    have "block_loop hw (length (f # fs)) i (xs @ ys) (length xs) hist
        = block_loop hw (length fs) (i - 1) ((xs @ b) @ drop 512 ys) (length xs + 512) h5"
      using True h5 wf(2) by (simp add: steps Let_def)
    then show ?thesis using h6 l6 True wf(2) by (auto simp: f add.commute split: prod.splits)
  qed
qed auto

section \<open>The reader\<close>

lemma sd_copy_idle:
  assumes "spi_device hw arrived resp" "answers hw 0x10000014" "idle hist t"
    and "sends (heard resp (t @ command 18 lba (cmd_crc lba))) 0 (busy @ [0] @ concat (map wire fs))"
    and "list_all (\<lambda>b. b AND 0x80 \<noteq> 0) busy" "length busy < 100"
    and "list_all well_formed fs" "length fs = nat (max 1 (sint sz))" "512 * length fs \<le> length dst"
  shows "\<exists>hist'. sd_copy hw dst lba sz hist = Some (fst (received fs), snd (received fs) @ drop (length (snd (received fs))) dst, hist')
    \<and> (\<exists>t'. idle hist' t')"
proof -
  let ?t = "t @ command 18 lba (cmd_crc lba)"
  have s: "sends (heard resp ?t) 0 (busy @ [0])" "sends (heard resp ?t) (Suc (length busy)) (concat (map wire fs))"
    using assms(4) by simp_all
  obtain h1 where h1: "sd_cmd hw 18 lba (cmd_crc lba) hist = Some (0, h1)" and l1: "listened h1 ?t (Suc (length busy))"
    using sd_cmd_reads [OF assms(1,3) _ s(1) assms(5,6)] by auto
  obtain h2 t2 where h2: "block_loop hw (nat (max 1 (sint sz))) (sint sz) dst 0 h1
      = Some (fst (received fs), snd (received fs) @ drop (length (snd (received fs))) dst, h2)" and l2: "idle h2 t2"
    using block_loop_reads [OF assms(1,2) l1 s(2) assms(7,9), of "sint sz" "[]"] assms(8) by auto
  obtain a h3 t3 where h3: "sd_cmd hw 12 0 0x01 h2 = Some (a, h3)" and l3: "idle h3 t3"
    using sd_cmd_total [OF assms(1) l2] by blast
  obtain h4 where h4: "sd_dummy hw h3 = Some (resp (t3 @ [0xFF]), h4)" and l4: "idle h4 (t3 @ [0xFF])"
    using spi_txrx_exchange [OF assms(1) l3] unfolding sd_dummy_def by blast
  show ?thesis unfolding sd_copy_def using l4 by (auto simp: h1 h2 h3 h4)
qed

text \<open>
  C13: if the card accepts the command and sends as many frames as blocks are asked for, and the
  destination has room for them, then \<open>sd_copy\<close> returns; it has stored the blocks in order and returns 0, or
  -2 at the first block with a wrong checksum, which is the last one stored.
\<close>

theorem sd_copy_reads:
  assumes "spi_device hw arrived resp" "answers hw 0x10000014" "idle hist t"
    and "sends (heard resp (t @ command 18 lba (cmd_crc lba))) 0 (busy @ [0] @ concat (map wire fs))"
    and "list_all (\<lambda>b. b AND 0x80 \<noteq> 0) busy" "length busy < 100"
    and "list_all well_formed fs" "length fs = nat (max 1 (sint sz))" "512 * length fs \<le> length dst"
  shows "\<exists>hist'. sd_copy hw dst lba sz hist = Some (fst (received fs), snd (received fs) @ drop (length (snd (received fs))) dst, hist')"
  using sd_copy_idle [OF assms] by blast

text \<open>A card that refuses the command: the destination is not touched.\<close>

lemma sd_copy_refused:
  assumes "spi_device hw arrived resp" "answers hw 0x10000014" "idle hist t"
    and "sends (heard resp (t @ command 18 lba (cmd_crc lba))) 0 (busy @ [a])" "a AND 0x80 = 0" "a \<noteq> 0"
    and "list_all (\<lambda>b. b AND 0x80 \<noteq> 0) busy" "length busy < 100"
  shows "\<exists>hist'. sd_copy hw dst lba sz hist = Some (-1, dst, hist')"
proof -
  obtain h1 where h1: "sd_cmd hw 18 lba (cmd_crc lba) hist = Some (a, h1)"
    and l1: "listened h1 (t @ command 18 lba (cmd_crc lba)) (Suc (length busy))"
    using sd_cmd_reads [OF assms(1,3,5,4,7,8)] by blast
  obtain h2 where h2: "sd_dummies hw 8 h1 = Some h2" and l2: "idle h2 ((t @ command 18 lba (cmd_crc lba)) @ replicate (Suc (length busy)) 0xFF @ replicate 8 0xFF)"
    using send_all_exchange [OF assms(1) l1, of "replicate 8 0xFF"] unfolding sd_dummies_def by auto
  obtain h3 where "print_uart hw (''could not read SD block'' @ crlf) h2 = Some h3"
    using print_bytes_idle [OF assms(2) l2] unfolding print_uart_def by blast
  then show ?thesis unfolding sd_copy_def using assms(6) h1 h2 by simp
qed

text \<open>The checksum byte of the command does not depend on the address: \<open>crc7\<close> combines its arguments with AND.\<close>

lemma cmd_crc_constant: "cmd_crc lba = 1"
  by (simp add: cmd_crc_def crc7_def)

section \<open>A card that sends a given sequence of bytes\<close>

definition card :: "nat \<Rightarrow> i8 list \<Rightarrow> i8 list \<Rightarrow> i8" where
  "card n s sent = (if n < length sent \<and> length sent - Suc n < length s then s ! (length sent - Suc n) else 0xFF)"

definition card_hardware :: "(i8 list \<Rightarrow> i8) \<Rightarrow> hardware" where
  "card_hardware resp = \<lparr>byte_at = (\<lambda>_ _. 0x20),
     word_at = (\<lambda>hist a. if a = SPI_STATUS_REG then (if spi_read hist < length (spi_sent hist) then 0 else 1)
                         else ucast (resp (take (Suc (spi_read hist)) (spi_sent hist))))\<rparr>"

lemma sent_poll: "spi_sent (poll_status hw k hist) = spi_sent hist"
  by (induction k arbitrary: hist) simp_all

lemma card_hardware_device: "spi_device (card_hardware resp) (\<lambda>hist. length (spi_sent hist)) resp"
  unfolding spi_device_def by (auto simp: sent_poll card_hardware_def regs_distinct(1) [THEN not_sym])

lemma card_hardware_answers: "answers (card_hardware resp) a"
  unfolding answers_def by (intro allI exI [of _ 0]) (simp add: card_hardware_def)

lemma card_sends: "sends (heard (card (length t) s) t) 0 s"
  by (auto simp: sends_def heard_def card_def intro: nth_equalityI)

lemma idle_Nil: "idle [] []"
  by (simp add: idle_def)

text \<open>One block, after a busy byte and some bytes before the token.\<close>

lemma sd_copy_reads_witness:
  "\<exists>hist'. sd_copy (card_hardware (card 7 ([0xFF, 0] @ wire ([0xFF, 0xFF], replicate 511 0 @ [1], 0x10, 0x21)))) (replicate 600 7) 1 1 []
     = Some (0, (replicate 511 0 @ [1]) @ replicate 88 7, hist')"
proof -
  let ?f = "([0xFF, 0xFF], replicate 511 0 @ [1], 0x10, 0x21) :: frame"
  let ?c = "command 18 1 (cmd_crc 1)"
  have "block_crc (replicate 511 0 @ [1]) = 0x1021"
    unfolding block_crc_leading_zeros by (simp add: block_crc_def crc16_ccitt_def)
  then have r: "received [?f] = (0, replicate 511 0 @ [1])" by simp
  have "length ?c = 7" by (simp add: command_def)
  then have s: "sends (heard (card 7 ([0xFF, 0] @ wire ?f)) ([] @ ?c)) 0 ([0xFF] @ [0] @ concat (map wire [?f]))"
    using card_sends [of ?c "[0xFF, 0] @ wire ?f"] by simp
  show ?thesis
    using sd_copy_reads [OF card_hardware_device card_hardware_answers idle_Nil s, of 1 "replicate 600 7"] unfolding r by simp
qed

end
