(* ===== verification/BootGpt.thy ===== *)
theory BootGpt
  imports BootRead
begin

unbundle bit_operations_syntax

text \<open>
  The boot ROM's program: initialising the card, reading the GUID partition table, and loading the first
  partition (\<open>gpt.c\<close>), with the \<open>main\<close> that the ROM runs (\<open>main.c\<close>).
\<close>

section \<open>Output\<close>

text \<open>One call of a printing function each.\<close>

datatype out = Str string | Addr i64 | Int32 i32 | Byte i8

fun put :: "hardware \<Rightarrow> out \<Rightarrow> history \<Rightarrow> history option" where
  "put hw (Str s) = print_uart hw s"
| "put hw (Addr a) = print_uart_addr hw a"
| "put hw (Int32 a) = print_uart_int hw a"
| "put hw (Byte b) = print_uart_byte hw b"

fun puts :: "hardware \<Rightarrow> out list \<Rightarrow> history \<Rightarrow> history option" where
  "puts hw [] hist = Some hist"
| "puts hw (x # xs) hist = Option.bind (put hw x hist) (puts hw xs)"

section \<open>The tables (\<open>gpt.h\<close>)\<close>

text \<open>A field of a packed little-endian structure, at its offset.\<close>

definition field :: "nat \<Rightarrow> nat \<Rightarrow> i8 list \<Rightarrow> 'a :: len word" where
  "field off n buf = foldr (\<lambda>b w. ucast b OR push_bit 8 w) (take n (drop off buf)) 0"

record gpt_pth =
  signature :: i64
  revision :: i32
  header_size :: i32
  crc_header :: i32
  reserved :: i32
  current_lba :: i64
  backup_lba :: i64
  first_usable_lba :: i64
  last_usable_lba :: i64
  disk_guid :: "i8 list"
  partition_entries_lba :: i64
  nr_partition_entries :: i32
  size_partition_entry :: i32
  crc_partition_entry :: i32

definition read_pth :: "i8 list \<Rightarrow> gpt_pth" where
  "read_pth buf = \<lparr>signature = field 0 8 buf, revision = field 8 4 buf, header_size = field 12 4 buf, crc_header = field 16 4 buf,
     reserved = field 20 4 buf, current_lba = field 24 8 buf, backup_lba = field 32 8 buf, first_usable_lba = field 40 8 buf,
     last_usable_lba = field 48 8 buf, disk_guid = take 16 (drop 56 buf), partition_entries_lba = field 72 8 buf,
     nr_partition_entries = field 80 4 buf, size_partition_entry = field 84 4 buf, crc_partition_entry = field 88 4 buf\<rparr>"

record partition_entries =
  partition_type_guid :: "i8 list"
  partition_guid :: "i8 list"
  first_lba :: i64
  last_lba :: i64
  attributes :: i64
  part_name :: "i8 list"

definition read_entry :: "i8 list \<Rightarrow> nat \<Rightarrow> partition_entries" where
  "read_entry buf p = \<lparr>partition_type_guid = take 16 (drop p buf), partition_guid = take 16 (drop (p + 16) buf),
     first_lba = field (p + 32) 8 buf, last_lba = field (p + 40) 8 buf, attributes = field (p + 48) 8 buf,
     part_name = take 72 (drop (p + 56) buf)\<rparr>"

section \<open>Finding and loading the boot partition (\<open>gpt.c\<close>)\<close>

definition tab :: char where
  "tab = CHR 0x09"

definition header_lines :: "gpt_pth \<Rightarrow> out list" where
  "header_lines h =
    [Str ''gpt partition table header:'',
     Str (crlf @ [tab] @ ''signature:'' @ [tab]), Addr (signature h),
     Str (crlf @ [tab] @ ''revision:'' @ [tab]), Int32 (revision h),
     Str (crlf @ [tab] @ ''size:'' @ [tab, tab]), Int32 (header_size h),
     Str (crlf @ [tab] @ ''crc_header:'' @ [tab]), Int32 (crc_header h),
     Str (crlf @ [tab] @ ''reserved:'' @ [tab]), Int32 (reserved h),
     Str (crlf @ [tab] @ ''current lba:'' @ [tab]), Addr (current_lba h),
     Str (crlf @ [tab] @ ''backup lda:'' @ [tab]), Addr (backup_lba h),
     Str (crlf @ [tab] @ ''partition entries lba:   '' @ [tab]), Addr (partition_entries_lba h),
     Str (crlf @ [tab] @ ''number partition entries:'' @ [tab]), Int32 (nr_partition_entries h),
     Str (crlf @ [tab] @ ''size partition entries:  '' @ [tab]), Int32 (size_partition_entry h),
     Str crlf]"

definition entry_lines :: "nat \<Rightarrow> partition_entries \<Rightarrow> out list" where
  "entry_lines i e =
    [Str ''gpt partition entry '', Byte (of_nat i),
     Str (crlf @ [tab] @ ''partition type guid:'' @ [tab])] @ map Byte (partition_type_guid e) @
    [Str (crlf @ [tab] @ ''partition guid:     '' @ [tab])] @ map Byte (partition_guid e) @
    [Str (crlf @ [tab] @ ''first lba:'' @ [tab]), Addr (first_lba e),
     Str (crlf @ [tab] @ ''last lba:'' @ [tab]), Addr (last_lba e),
     Str (crlf @ [tab] @ ''attributes:'' @ [tab]), Addr (attributes e),
     Str (crlf @ [tab] @ ''name:'' @ [tab])] @ map Byte (part_name e) @ [Str crlf]"

definition failure_lines :: "int \<Rightarrow> out list" where
  "failure_lines res = [Str (''SD card failed!'' @ crlf), Str ''sd copy return value: '', Addr (word_of_int res), Str crlf]"

text \<open>
  The two buffers on the stack have unknown contents at first, \<open>buf1\<close> and \<open>buf2\<close>; the parameter \<open>size\<close> of the
  C function is not used in its body. The result is the return code and the destination.
\<close>

definition gpt_find_boot_partition ::
    "hardware \<Rightarrow> i8 list \<Rightarrow> i8 list \<Rightarrow> i8 list \<Rightarrow> i32 \<Rightarrow> history \<Rightarrow> (int \<times> i8 list \<times> history) option" where
  "gpt_find_boot_partition hw buf1 buf2 dest sz hist = do {
     (ret, hist) \<leftarrow> init_sd hw hist;
     if ret \<noteq> 0 then do {
       hist \<leftarrow> puts hw [Str (''could not initialize sd... exiting'' @ crlf)] hist;
       Some (-1, dest, hist)
     } else do {
       hist \<leftarrow> puts hw [Str (''sd initialized!'' @ crlf)] hist;
       (res, lba1_buf, hist) \<leftarrow> sd_copy hw buf1 1 1 hist;
       if res \<noteq> 0 then do {
         hist \<leftarrow> puts hw (failure_lines res) hist;
         Some (-2, dest, hist)
       } else do {
         let lba1 = read_pth lba1_buf;
         hist \<leftarrow> puts hw (header_lines lba1) hist;
         (res, lba2_buf, hist) \<leftarrow> sd_copy hw buf2 (ucast (partition_entries_lba lba1)) 1 hist;
         if res \<noteq> 0 then do {
           hist \<leftarrow> puts hw (failure_lines res) hist;
           Some (-2, dest, hist)
         } else do {
           hist \<leftarrow> puts hw (concat (map (\<lambda>i. entry_lines i (read_entry lba2_buf (i * 128))) [0, 1, 2, 3])) hist;
           let boot = read_entry lba2_buf 0;
           hist \<leftarrow> puts hw [Str ''copying boot image ''] hist;
           (res, dest, hist) \<leftarrow> sd_copy hw dest (ucast (first_lba boot)) (ucast (last_lba boot - first_lba boot + 1)) hist;
           if res \<noteq> 0 then do {
             hist \<leftarrow> puts hw (failure_lines res) hist;
             Some (-2, dest, hist)
           } else do {
             hist \<leftarrow> puts hw [Str ('' done!'' @ crlf)] hist;
             Some (0, dest, hist)
           }
         }
       }
     }
   }"

text \<open>
  \<open>main\<close> up to the endless loop: the call of the function above is commented out in the source, so the
  boot ROM greets and stays where it is.
\<close>

definition boot_main :: "hardware \<Rightarrow> history \<Rightarrow> history option" where
  "boot_main hw hist = Option.bind (init_uart 32000000 115200 hist) (print_uart hw (''Hello World!'' @ crlf))"
section \<open>The console takes what is printed\<close>

lemma print_uart_idle:
  assumes "answers hw 0x10000014" "idle hist t"
  shows "\<exists>hist'. print_uart hw s hist = Some hist' \<and> idle hist' t"
  using print_bytes_idle [OF assms] unfolding print_uart_def by blast

lemma put_idle:
  assumes "answers hw 0x10000014" "idle hist t"
  shows "\<exists>hist'. put hw x hist = Some hist' \<and> idle hist' t"
  using print_bytes_idle [OF assms]
  by (cases x) (simp_all add: print_uart_def print_uart_addr_def print_uart_int_def print_uart_byte_def)

lemma puts_idle:
  "answers hw 0x10000014 \<Longrightarrow> idle hist t \<Longrightarrow> \<exists>hist'. puts hw xs hist = Some hist' \<and> idle hist' t"
proof (induction xs arbitrary: hist)
  case (Cons x xs)
  then obtain h1 where "put hw x hist = Some h1" "idle h1 t" using put_idle by blast
  then show ?case using Cons by simp
qed simp

lemma puts_fun: "puts hw [] = Some" "puts hw (x # xs) = (\<lambda>hist. Option.bind (put hw x hist) (puts hw xs))"
  by (simp_all add: fun_eq_iff)

lemma print_status_puts:
  "print_status hw cmd r hist = puts hw [Str ''SD command '', Str cmd, Str ('' '' @ [CHR 0x09] @ ''response : ''), Byte r, Str crlf] hist"
  by (simp add: print_status_def puts_fun)

lemma print_spi_status_puts:
  "print_spi_status hw hist = puts hw [Str ''status: 0x'', Addr (ucast (word_at hw hist SPI_STATUS_REG)), Str crlf]
     (hist @ [Rd32 SPI_STATUS_REG (word_at hw hist SPI_STATUS_REG)])"
  by (simp add: print_spi_status_def read32_def crlf_def puts_fun)

lemma print_spi_status_idle:
  assumes "answers hw 0x10000014" "idle hist t"
  shows "\<exists>hist'. print_spi_status hw hist = Some hist' \<and> idle hist' t"
proof -
  have "idle (hist @ [Rd32 SPI_STATUS_REG (word_at hw hist SPI_STATUS_REG)]) t" using assms(2) by (simp add: idle_def)
  then show ?thesis unfolding print_spi_status_puts using puts_idle [OF assms(1)] by blast
qed

lemma spi_init_idle:
  assumes u: "answers hw 0x10000014" and i: "idle hist t"
  shows "\<exists>hist'. spi_init hw hist = Some hist' \<and> idle hist' t"
proof -
  have w: "idle (write32 a v h) t" if "idle h t" "a \<noteq> SPI_TRANSMIT_REG" for a v h
    using that idle_write32 by blast
  have r: "SPI_RESET_REG \<noteq> SPI_TRANSMIT_REG" by (simp add: spi_regs)
  obtain h1 where h1: "print_uart hw (''init SPI'' @ [CHR 0x0D, CHR 0x0A]) hist = Some h1" "idle h1 t"
    using print_uart_idle [OF u i] by blast
  obtain h2 where h2: "print_spi_status hw (write32 SPI_CONTROL_REG 0x104 (write32 SPI_RESET_REG 0x0A h1)) = Some h2" "idle h2 t"
    using print_spi_status_idle [OF u w [OF w [OF h1(2) r] regs_distinct(4)]] by blast
  obtain h3 where h3: "print_spi_status hw (write32 SPI_CONTROL_REG 0x166 h2) = Some h3" "idle h3 t"
    using print_spi_status_idle [OF u w [OF h2(2) regs_distinct(4)]] by blast
  obtain h4 where "print_uart hw (''SPI initialized!'' @ [CHR 0x0D, CHR 0x0A]) (write32 SPI_CONTROL_REG 0x06 h3) = Some h4" "idle h4 t"
    using print_uart_idle [OF u w [OF h3(2) regs_distinct(4)]] by blast
  then show ?thesis unfolding spi_init_def Let_def using h1 h2 h3 by simp
qed

section \<open>Initialising the card\<close>

text \<open>A card that is ready at once: what it answers to the commands of \<open>init_sd\<close>, whatever was sent before.\<close>

definition ready :: "(i8 list \<Rightarrow> i8) \<Rightarrow> bool" where
  "ready resp = (\<forall>t. sends (heard resp (t @ command 0 0 0x95)) 0 [1]
     \<and> (\<exists>a b. sends (heard resp (t @ command 8 0x1AA 0x87)) 0 [1, a, b, 1, 0xAA])
     \<and> sends (heard resp (t @ command 41 0x40000000 0x77)) 0 [0])"

lemma sd_dummy_idle:
  assumes "spi_device hw arrived resp" "idle hist t"
  shows "\<exists>r hist' t'. sd_dummy hw hist = Some (r, hist') \<and> idle hist' t'"
  using spi_txrx_exchange [OF assms] unfolding sd_dummy_def by blast

lemma sd_dummies_heard:
  assumes d: "spi_device hw arrived resp"
    and l: "listened hist t k"
  shows "\<exists>hist'. sd_dummies hw n hist = Some hist' \<and> listened hist' t (k + n)"
  using send_all_exchange [OF d l, where bs = "replicate n 0xFF"] unfolding sd_dummies_def by (simp add: replicate_add)

lemma sd_cmd0_ready:
  assumes d: "spi_device hw arrived resp" and u: "answers hw 0x10000014" and i: "idle hist t" and r: "ready resp"
  shows "\<exists>hist' t'. sd_cmd0 hw hist = Some (True, hist') \<and> idle hist' t'"
proof -
  have s: "sends (heard resp (t @ command 0 0 0x95)) 0 ([] @ [1])" using r unfolding ready_def by simp
  obtain h1 where h1: "sd_cmd hw 0 0 0x95 hist = Some (1, h1)" and l1: "listened h1 (t @ command 0 0 0x95) 1"
    using sd_cmd_reads [OF d i _ s] by auto
  obtain h2 where h2: "sd_dummy hw h1 = Some (heard resp (t @ command 0 0 0x95) 1, h2)" and l2: "listened h2 (t @ command 0 0 0x95) (Suc 1)"
    using sd_dummy_heard [OF d l1] by blast
  obtain h3 where h3: "print_status hw ''cmd0'' 1 h2 = Some h3" and l3: "listened h3 (t @ command 0 0 0x95) (Suc 1)"
    unfolding print_status_puts using puts_idle [OF u l2] by blast
  have "cmd0_loop hw (Suc 9999) hist = Some (True, h3)" using h1 h2 h3 by (simp only: cmd0_loop.simps) simp
  then have "sd_cmd0 hw hist = Some (True, h3)" unfolding sd_cmd0_def by simp
  then show ?thesis using l3 by blast
qed

lemma sd_cmd8_ready:
  assumes d: "spi_device hw arrived resp" and i: "idle hist t" and r: "ready resp"
  shows "\<exists>hist' t'. sd_cmd8 hw hist = Some (True, hist') \<and> idle hist' t'"
proof -
  let ?t = "t @ command 8 0x1AA 0x87"
  obtain a b where ab: "sends (heard resp ?t) 0 [1, a, b, 1, 0xAA]" using r unfolding ready_def by blast
  then have s: "sends (heard resp ?t) 0 ([] @ [1])" and s2: "heard resp ?t 3 = 1" "heard resp ?t 4 = 0xAA"
    by (simp_all add: eval_nat_numeral)
  obtain h1 where h1: "sd_cmd hw 8 0x1AA 0x87 hist = Some (1, h1)" and l1: "listened h1 ?t 1"
    using sd_cmd_reads [OF d i _ s] by auto
  obtain h2 where h2: "sd_dummies hw 2 h1 = Some h2" and l2: "listened h2 ?t 3"
    using sd_dummies_heard [OF d l1, of 2] by (auto simp: numeral_3_eq_3)
  obtain h3 where h3: "sd_dummy hw h2 = Some (1, h3)" and l3: "listened h3 ?t 4"
    using sd_dummy_heard [OF d l2] s2 by (auto simp: eval_nat_numeral)
  obtain h4 where h4: "sd_dummy hw h3 = Some (0xAA, h4)" and l4: "listened h4 ?t 5"
    using sd_dummy_heard [OF d l3] s2 by (auto simp: eval_nat_numeral)
  obtain h5 where h5: "sd_dummies hw 2 h4 = Some h5" and l5: "listened h5 ?t (5 + 2)"
    using sd_dummies_heard [OF d l4, of 2] by blast
  have "sd_cmd8 hw hist = Some (True, h5)" unfolding sd_cmd8_def by (simp add: h1 h2 h3 h4 h5)
  then show ?thesis using l5 by blast
qed

lemma sd_acmd41_ready:
  assumes d: "spi_device hw arrived resp" and u: "answers hw 0x10000014" and i: "idle hist t" and r: "ready resp"
  shows "\<exists>hist' t'. sd_acmd41 hw hist = Some (True, hist') \<and> idle hist' t'"
proof -
  obtain a h1 t1 where h1: "sd_cmd hw 55 0 0x65 hist = Some (a, h1)" and l1: "idle h1 t1"
    using sd_cmd_total [OF d i] by blast
  obtain b h2 t2 where h2: "sd_dummy hw h1 = Some (b, h2)" and l2: "idle h2 t2" using sd_dummy_idle [OF d l1] by blast
  obtain h3 where h3: "print_status hw ''cmd55'' a h2 = Some h3" and l3: "idle h3 t2"
    unfolding print_status_puts using puts_idle [OF u l2] by blast
  let ?t = "t2 @ command 41 0x40000000 0x77"
  have s: "sends (heard resp ?t) 0 ([] @ [0])" using r unfolding ready_def by simp
  obtain h4 where h4: "sd_cmd hw 41 0x40000000 0x77 h3 = Some (0, h4)" and l4: "listened h4 ?t 1"
    using sd_cmd_reads [OF d l3 _ s] by auto
  obtain h5 where h5: "print_status hw ''cmd41'' 0 h4 = Some h5" and l5: "listened h5 ?t 1"
    unfolding print_status_puts using puts_idle [OF u l4] by blast
  obtain c h6 t6 where h6: "sd_dummy hw h5 = Some (c, h6)" and l6: "idle h6 t6" using sd_dummy_idle [OF d l5] by blast
  have "sd_cmd55 hw hist = Some (a = 1, h3)" unfolding sd_cmd55_def by (simp add: h1 h2 h3)
  then have "sd_acmd41 hw hist = Some (True, h6)" by (subst sd_acmd41.simps) (simp add: h4 h5 h6)
  then show ?thesis using l6 by blast
qed

lemma init_sd_ready:
  assumes d: "spi_device hw arrived resp" and u: "answers hw 0x10000014" and i: "idle hist t" and r: "ready resp"
  shows "\<exists>hist' t'. init_sd hw hist = Some (0, hist') \<and> idle hist' t'"
proof -
  obtain h1 where h1: "spi_init hw hist = Some h1" and l1: "idle h1 t" using spi_init_idle [OF u i] by blast
  obtain h2 where h2: "print_uart hw (''initializing SD... '' @ crlf) h1 = Some h2" and l2: "listened h2 t 0"
    using print_uart_idle [OF u l1] by fastforce
  obtain h3 where h3: "sd_dummies hw 10 h2 = Some h3" and l3: "listened h3 t (0 + 10)" using sd_dummies_heard [OF d l2] by blast
  obtain h4 t4 where h4: "sd_cmd0 hw h3 = Some (True, h4)" and l4: "idle h4 t4" using sd_cmd0_ready [OF d u l3 r] by blast
  obtain h5 t5 where h5: "sd_cmd8 hw h4 = Some (True, h5)" and l5: "idle h5 t5" using sd_cmd8_ready [OF d l4 r] by blast
  obtain h6 t6 where h6: "sd_acmd41 hw h5 = Some (True, h6)" and l6: "idle h6 t6" using sd_acmd41_ready [OF d u l5 r] by blast
  have "init_sd hw hist = Some (0, h6)" unfolding init_sd_def by (simp only: h1 h2 h3 h4 h5 h6 bind.bind_lunit split) simp
  then show ?thesis using l6 by blast
qed

section \<open>Loading the image\<close>

text \<open>A card with the contents \<open>mem\<close>, by block address, and \<open>n\<close> consecutive blocks of it.\<close>

definition image :: "(i32 \<Rightarrow> i8 list) \<Rightarrow> i32 \<Rightarrow> nat \<Rightarrow> i8 list" where
  "image mem lba n = concat (map (\<lambda>i. mem (lba + of_nat i)) [0..<n])"

definition serves :: "(i8 list \<Rightarrow> i8) \<Rightarrow> (i32 \<Rightarrow> i8 list) \<Rightarrow> bool" where
  "serves resp mem = (\<forall>t lba n. \<exists>busy fs.
     sends (heard resp (t @ command 18 lba (cmd_crc lba))) 0 (busy @ [0] @ concat (map wire fs))
     \<and> list_all (\<lambda>b. b AND 0x80 \<noteq> 0) busy \<and> length busy < 100
     \<and> list_all well_formed fs \<and> length fs = n \<and> received fs = (0, image mem lba n))"

lemma received_length: "list_all well_formed fs \<Longrightarrow> received fs = (0, ds) \<Longrightarrow> length ds = 512 * length fs"
proof (induction fs arbitrary: ds)
  case (Cons f fs)
  obtain gap d hi lo where f: "f = (gap, d, hi, lo)" by (cases f)
  obtain rc es where r: "received fs = (rc, es)" by fastforce
  have "rc = 0" "ds = d @ es"
    using Cons.prems(2) unfolding f received.simps r by (simp_all split: if_splits)
  then show ?case using Cons.IH [of es] Cons.prems(1) r f by simp
qed simp

lemma image_1 [simp]: "image mem lba 1 = mem lba" "image mem lba (Suc 0) = mem lba"
  by (simp_all add: image_def)

lemma serves_length:
  assumes "serves resp mem"
  shows "length (image mem lba n) = 512 * n"
proof -
  obtain fs where "list_all well_formed fs" "length fs = n" "received fs = (0, image mem lba n)"
    using assms unfolding serves_def by metis
  then show ?thesis using received_length by blast
qed

lemma sd_copy_image:
  assumes "spi_device hw arrived resp" "answers hw 0x10000014" "idle hist t" "serves resp mem"
    and "n = nat (max 1 (sint sz))" "512 * n \<le> length dst"
  shows "\<exists>hist' t'. sd_copy hw dst lba sz hist = Some (0, image mem lba n @ drop (512 * n) dst, hist') \<and> idle hist' t'"
proof -
  obtain busy fs where s: "sends (heard resp (t @ command 18 lba (cmd_crc lba))) 0 (busy @ [0] @ concat (map wire fs))"
    and b: "list_all (\<lambda>b. b AND 0x80 \<noteq> 0) busy" "length busy < 100"
    and f: "list_all well_formed fs" "length fs = n" and r: "received fs = (0, image mem lba n)"
    using assms(4) unfolding serves_def by metis
  have l: "length fs = nat (max 1 (sint sz))" "512 * length fs \<le> length dst" using f assms(5,6) by auto
  show ?thesis
    using sd_copy_idle [OF assms(1-3) s b f(1) l] unfolding r fst_conv snd_conv serves_length [OF assms(4)] by blast
qed

lemma sd_copy_one:
  assumes "spi_device hw arrived resp" "answers hw 0x10000014" "idle hist t" "serves resp mem" "length buf = 512"
  shows "\<exists>hist' t'. sd_copy hw buf lba 1 hist = Some (0, mem lba, hist') \<and> idle hist' t'"
  using sd_copy_image [OF assms(1-4), of 1 1 buf lba] assms(5) by simp

text \<open>
  C3: from a card that is ready and whose blocks are intact, the loader ends with code 0 and has put at the
  destination the blocks from the first to the last one of the first partition of the table that the header in block 1
  points to, if the destination has room; the addresses count modulo \<open>2 ^ 32\<close>, and at least one block is loaded.
\<close>

theorem gpt_loads_first_partition:
  assumes "spi_device hw arrived resp" "answers hw 0x10000014" "idle hist t" "ready resp" "serves resp mem"
    and "length buf1 = 512" "length buf2 = 512"
    and "boot = read_entry (mem (ucast (partition_entries_lba (read_pth (mem 1))))) 0"
    and "n = nat (max 1 (sint (ucast (last_lba boot - first_lba boot + 1) :: i32)))" "512 * n \<le> length dest"
  shows "\<exists>hist'. gpt_find_boot_partition hw buf1 buf2 dest sz hist
    = Some (0, image mem (ucast (first_lba boot)) n @ drop (512 * n) dest, hist')"
proof -
  note d = assms(1) and u = assms(2) and c = assms(5)
  let ?tab = "mem (ucast (partition_entries_lba (read_pth (mem 1))))"
  obtain h1 t1 where h1: "init_sd hw hist = Some (0, h1)" and l1: "idle h1 t1" using init_sd_ready [OF d u assms(3,4)] by blast
  obtain h2 where h2: "puts hw [Str (''sd initialized!'' @ crlf)] h1 = Some h2" and l2: "idle h2 t1" using puts_idle [OF u l1] by blast
  obtain h3 t3 where h3: "sd_copy hw buf1 1 1 h2 = Some (0, mem 1, h3)" and l3: "idle h3 t3"
    using sd_copy_one [OF d u l2 c assms(6)] by blast
  obtain h4 where h4: "puts hw (header_lines (read_pth (mem 1))) h3 = Some h4" and l4: "idle h4 t3" using puts_idle [OF u l3] by blast
  obtain h5 t5 where h5: "sd_copy hw buf2 (ucast (partition_entries_lba (read_pth (mem 1)))) 1 h4 = Some (0, ?tab, h5)"
    and l5: "idle h5 t5" using sd_copy_one [OF d u l4 c assms(7)] by blast
  obtain h6 where h6: "puts hw (concat (map (\<lambda>i. entry_lines i (read_entry ?tab (i * 128))) [0, 1, 2, 3])) h5 = Some h6"
    and l6: "idle h6 t5" using puts_idle [OF u l5] by blast
  obtain h7 where h7: "puts hw [Str ''copying boot image ''] h6 = Some h7" and l7: "idle h7 t5" using puts_idle [OF u l6] by blast
  obtain h8 t8 where h8: "sd_copy hw dest (ucast (first_lba boot)) (ucast (last_lba boot - first_lba boot + 1)) h7
      = Some (0, image mem (ucast (first_lba boot)) n @ drop (512 * n) dest, h8)" and l8: "idle h8 t8"
    using sd_copy_image [OF d u l7 c assms(9,10)] by blast
  obtain h9 where h9: "puts hw [Str ('' done!'' @ crlf)] h8 = Some h9" using puts_idle [OF u l8] by blast
  show ?thesis
    unfolding gpt_find_boot_partition_def Let_def
    by (simp only: h1 h2 h3 h4 h5 h6 h7 h8 h9 bind.bind_lunit split assms(8) [symmetric]) simp
qed

section \<open>A card full of zeros\<close>

text \<open>The card answers to the last command, which ends where the trailing bytes 0xFF begin.\<close>

definition reply :: "i8 \<Rightarrow> nat \<Rightarrow> i8" where
  "reply c k =
     (if c = 0x52 then (if k = 0 then 0 else if (k - 1) mod 515 = 0 then 0xFE else 0)
      else if c = 0x48 \<and> k < 5 then [1, 0, 0, 1, 0xAA] ! k
      else if c = 0x69 \<and> k = 0 then 0
      else if k = 0 then 1 else 0xFF)"

definition zero_card :: "i8 list \<Rightarrow> i8" where
  "zero_card sent =
     (let cmd = rev (dropWhile ((=) 0xFF) (rev sent))
      in reply (cmd ! (length cmd - 6)) (length sent - Suc (length cmd)))"

lemma heard_zero_card:
  assumes "crc \<noteq> 0xFF"
  shows "heard zero_card (t @ command cmd arg crc) k = reply (0x40 OR cmd) k"
proof -
  let ?u = "t @ command cmd arg crc"
  have "dropWhile ((=) 0xFF) (replicate n 0xFF @ crc # xs) = crc # xs" for n and xs :: "i8 list"
    using assms by (induction n) auto
  moreover have "rev (?u @ replicate (Suc k) 0xFF) = replicate (Suc k) 0xFF @ crc # rev (butlast ?u)"
    by (simp add: command_def butlast_append replicate_append_same)
  ultimately have "rev (dropWhile ((=) 0xFF) (rev (?u @ replicate (Suc k) 0xFF))) = ?u"
    by (simp only:) (simp add: command_def butlast_append)
  then show ?thesis unfolding heard_def zero_card_def Let_def by (simp add: command_def nth_append)
qed

lemma ready_zero_card: "ready zero_card"
  unfolding ready_def by (auto simp: heard_zero_card reply_def intro!: exI [of _ 0])

abbreviation zero_frame :: frame where
  "zero_frame \<equiv> ([], replicate 512 0, 0, 0)"

lemma zero_frame_wire: "wire zero_frame = 0xFE # replicate 514 0"
  by (simp add: eval_nat_numeral)

lemma sends_zero_frame: "sends (reply 0x52) (Suc (515 * m)) (wire zero_frame)"
  unfolding zero_frame_wire sends_def
proof (rule nth_equalityI)
  fix i
  assume "i < length (map (reply 0x52) [Suc (515 * m)..<Suc (515 * m) + length (0xFE # replicate 514 (0 :: i8))])"
  then have i: "i < 515" by simp
  have "(515 * m + i) mod 515 = i" using i by simp
  then show "map (reply 0x52) [Suc (515 * m)..<Suc (515 * m) + length (0xFE # replicate 514 (0 :: i8))] ! i = (0xFE # replicate 514 0) ! i"
    using i by (simp add: reply_def nth_Cons')
qed simp

lemma sends_zero_frames: "sends (reply 0x52) (Suc (515 * m)) (concat (map wire (replicate n zero_frame)))"
proof (induction n arbitrary: m)
  case (Suc n)
  have "length (wire zero_frame) = 515" unfolding zero_frame_wire by simp
  then show ?case
    using Suc.IH [of "Suc m"] sends_zero_frame [of m] by (simp only: replicate_Suc list.map concat.simps sends_append) (simp add: ac_simps)
qed simp

lemma block_crc_zeros: "block_crc (replicate n 0) = 0"
  using block_crc_leading_zeros [of n "[]"] by (simp add: block_crc_def)

lemma received_zeros: "received (replicate n zero_frame) = (0, image (\<lambda>_. replicate 512 0) lba n)"
proof (induction n)
  case (Suc n)
  have "image (\<lambda>_. replicate 512 0) lba (Suc n) = replicate 512 0 @ image (\<lambda>_. replicate 512 0) lba n"
    unfolding image_def by (simp add: map_replicate_const del: upt_Suc)
  then show ?case using Suc by (simp add: block_crc_zeros)
qed (simp add: image_def)

lemma serves_zero_card: "serves zero_card (\<lambda>_. replicate 512 0)"
proof -
  have "sends (heard zero_card (t @ command 18 lba (cmd_crc lba))) 0 ([] @ [0] @ concat (map wire (replicate n zero_frame)))" for t lba n
  proof -
    have "heard zero_card (t @ command 18 lba (cmd_crc lba)) = reply 0x52"
      by (rule ext) (simp add: cmd_crc_constant heard_zero_card)
    moreover have "reply 0x52 0 = 0" by (simp add: reply_def)
    ultimately show ?thesis
      using sends_zero_frames [of 0 n] by (simp only: append_Nil append_Cons sends_Cons mult_0_right simp_thms)
  qed
  then show ?thesis
    unfolding serves_def by (intro allI exI [of _ "[]"] exI [of _ "replicate n zero_frame" for n]) (auto simp: received_zeros list_all_iff)
qed

lemma field_zeros: "field off n (replicate m 0) = 0"
proof -
  have "foldr (\<lambda>b w. ucast b OR push_bit 8 w) (replicate k (0 :: i8)) (0 :: 'a :: len word) = 0" for k
    by (induction k) simp_all
  then show ?thesis by (simp add: field_def)
qed

lemma gpt_loads_first_partition_witness:
  "\<exists>hist'. gpt_find_boot_partition (card_hardware zero_card) (replicate 512 1) (replicate 512 2) (replicate 600 7) 0 []
     = Some (0, replicate 512 0 @ replicate 88 7, hist')"
  using gpt_loads_first_partition [OF card_hardware_device card_hardware_answers idle_Nil ready_zero_card serves_zero_card,
      of "replicate 512 1" "replicate 512 2" "read_entry (replicate 512 0) 0" 1 "replicate 600 7" 0]
  by (simp add: read_entry_def field_zeros)

end
