(* ===== verification/BootHex.thy ===== *)
theory BootHex
  imports BootIo
begin

unbundle bit_operations_syntax

text \<open>
  The numbers the boot ROM prints: reading the digits back gives the number.
\<close>

section \<open>Digits\<close>

definition digit_value :: "i8 \<Rightarrow> nat" where
  "digit_value d = (if d < 0x3A then unat d - 48 else unat d - 55)"

definition hex_value :: "i8 list \<Rightarrow> nat" where
  "hex_value ds = foldl (\<lambda>v d. 16 * v + digit_value d) 0 ds"

lemma table_values: "list_all (\<lambda>n. digit_value (bin_to_hex_table ! n) = n) [0..<16]"
  by code_simp

lemma unat_take_bit: "take_bit LENGTH('a) (unat w) = unat w" for w :: "'a :: len word"
  by (rule take_bit_nat_eq_self) simp

lemma unat_low: "unat (b AND 0xF) = unat b mod 16" for b :: i8
proof -
  have "b AND 0xF = take_bit 4 b" by (simp add: take_bit_eq_mask mask_eq_decr_exp)
  then have "unat (b AND 0xF) = take_bit 4 (unat b)" by (simp only: unsigned_take_bit_eq)
  then show ?thesis by (simp add: take_bit_eq_mod)
qed

lemma unat_high: "unat (drop_bit 4 b AND 0xF) = unat b div 16" for b :: i8
proof -
  have "unat (drop_bit 4 b) = drop_bit 4 (unat b)" by (simp only: unsigned_drop_bit_eq unat_take_bit)
  moreover have "unat b < 256" using unsigned_less [of b] by simp
  ultimately show ?thesis unfolding unat_low by (simp add: drop_bit_eq_div)
qed

lemma digit_nibble: "n < 16 \<Longrightarrow> digit_value (bin_to_hex_table ! n) = n"
  using table_values by (simp add: list_all_iff)

lemma foldl_bin_to_hex: "foldl (\<lambda>v d. 16 * v + digit_value d) v (bin_to_hex b) = 256 * v + unat b"
proof -
  have "unat b < 256" using unsigned_less [of b] by simp
  then show ?thesis unfolding bin_to_hex_def unat_high unfolding unat_low by (simp add: digit_nibble less_mult_imp_div_less)
qed

lemma foldl_bytes: "foldl (\<lambda>v d. 16 * v + digit_value d) v (concat (map bin_to_hex bs)) = foldl (\<lambda>v b. 256 * v + unat b) v bs"
  by (induction bs arbitrary: v) (simp_all add: foldl_bin_to_hex)

section \<open>Words\<close>

lemma byte_of_word: "unat (ucast (drop_bit (8 * i) a AND 0xFF) :: i8) = unat a div 256 ^ i mod 256" for a :: "'a :: len word"
proof -
  have e: "ucast (x AND 0xFF) = (ucast x :: i8)" for x :: "'a word"
    by (rule bit_word_eqI) (auto simp: bit_simps bit_numeral_rec numeral_eq_Suc less_Suc_eq dest: bit_imp_le_length)
  have "unat (ucast (drop_bit (8 * i) a) :: i8) = take_bit 8 (drop_bit (8 * i) (unat a))"
    by (simp only: unsigned_ucast_eq unsigned_drop_bit_eq unat_take_bit) simp
  then show ?thesis unfolding e by (simp add: take_bit_eq_mod drop_bit_eq_div power_mult)
qed

lemma foldl_places:
  "foldl (\<lambda>v i. 256 * v + x div 256 ^ i mod 256) v (rev [0..<n]) = v * 256 ^ n + x mod 256 ^ n" for x :: nat
proof (induction n arbitrary: v)
  case (Suc n)
  have "x mod 256 ^ Suc n = (x div 256 ^ n mod 256) * 256 ^ n + x mod 256 ^ n"
    using mod_mult2_eq [of x "256 ^ n" 256] by (simp add: mult.commute)
  then show ?case using Suc by (simp add: algebra_simps)
qed simp

lemma hex_value_word:
  fixes a :: "'a :: len word"
  assumes "LENGTH('a) = 8 * n"
  shows "hex_value (concat (map (\<lambda>i. bin_to_hex (ucast (drop_bit (8 * i) a AND 0xFF))) (rev [0..<n]))) = unat a"
proof -
  let ?b = "\<lambda>i. ucast (drop_bit (8 * i) a AND 0xFF) :: i8"
  have "hex_value (concat (map bin_to_hex (map ?b (rev [0..<n])))) = foldl (\<lambda>v i. 256 * v + unat (?b i)) 0 (rev [0..<n])"
    unfolding hex_value_def foldl_bytes foldl_map ..
  also have "\<dots> = unat a mod 256 ^ n" unfolding byte_of_word foldl_places by simp
  also have "\<dots> = unat a"
  proof -
    have "(256 :: nat) ^ n = 2 ^ LENGTH('a)" unfolding assms by (simp add: power_mult)
    then show ?thesis using unsigned_less [of a] by simp
  qed
  finally show ?thesis unfolding map_map comp_def .
qed

section \<open>What reaches the console\<close>

lemma wait_serial_bytes:
  assumes "byte_at hw (poll hw 0x10000014 k hist) 0x10000014 AND 0x20 \<noteq> 0"
  shows "\<exists>hist'. wait_serial hw hist = Some hist' \<and> bytes_to a hist' = bytes_to a hist"
  using assms
proof (induction k arbitrary: hist)
  case 0
  then show ?case by (subst wait_serial.simps) (simp add: is_transmit_empty_def read8_def Let_def)
next
  case (Suc k)
  then show ?case
    using Suc.IH [of "hist @ [Rd8 0x10000014 (byte_at hw hist 0x10000014)]"]
    by (subst wait_serial.simps) (simp add: is_transmit_empty_def read8_def Let_def)
qed

lemma print_bytes_sends:
  "answers hw 0x10000014 \<Longrightarrow> \<exists>hist'. print_bytes hw bs hist = Some hist' \<and> bytes_to 0x10000000 hist' = bytes_to 0x10000000 hist @ bs"
proof (induction bs arbitrary: hist)
  case (Cons b bs)
  obtain h1 where h1: "wait_serial hw hist = Some h1" "bytes_to 0x10000000 h1 = bytes_to 0x10000000 hist"
    using wait_serial_bytes Cons.prems unfolding answers_def by blast
  then show ?case using Cons.IH [OF Cons.prems, of "write8 0x10000000 b h1"] by (simp add: write_serial_def write8_def)
qed simp

text \<open>
  \<open>print_uart_addr\<close> returns as soon as the UART has taken all digits; it has sent sixteen of them, and read
  as a hexadecimal number they are the argument.
\<close>

theorem print_uart_addr_value:
  assumes "answers hw 0x10000014"
  shows "\<exists>hist' ds. print_uart_addr hw addr hist = Some hist' \<and> bytes_to 0x10000000 hist' = bytes_to 0x10000000 hist @ ds
    \<and> length ds = 16 \<and> hex_value ds = unat addr"
proof -
  let ?ds = "concat (map (\<lambda>i. bin_to_hex (ucast (drop_bit (8 * i) addr AND 0xFF))) [7, 6, 5, 4, 3, 2, 1, 0])"
  have "rev [0..<8] = [7, 6, 5, 4, 3, 2, 1, 0 :: nat]" by code_simp
  then have "hex_value ?ds = unat addr" using hex_value_word [of 8 addr] by simp
  moreover have "length ?ds = 16" by (simp add: bin_to_hex_def)
  ultimately show ?thesis using print_bytes_sends [OF assms, of ?ds hist] unfolding print_uart_addr_def by blast
qed

lemma print_uart_addr_value_witness:
  "\<exists>hist' ds. print_uart_addr \<lparr>byte_at = \<lambda>_ _. 0x20, word_at = \<lambda>_ _. 0\<rparr> 0x80000000 [] = Some hist'
     \<and> bytes_to 0x10000000 hist' = ds \<and> length ds = 16 \<and> hex_value ds = 0x80000000"
proof -
  have "answers \<lparr>byte_at = \<lambda>_ _. 0x20, word_at = \<lambda>_ _. 0\<rparr> 0x10000014"
    unfolding answers_def by (intro allI exI [of _ 0]) simp
  from print_uart_addr_value [OF this, of "0x80000000" "[]"] show ?thesis by simp
qed

end
