(* ===== verification/RtMem.thy ===== *)
theory RtMem
  imports Prelude "HOL-Library.List_Lexorder"
begin

unbundle bit_operations_syntax

text \<open>
  The memory and string functions of the run-time library of the core's tests
  (\<open>verif/tests/custom/common/syscalls.c\<close>), on a byte-addressed memory of 32-bit addresses. An access to an address that
  is not mapped has no result. \<open>char\<close> is unsigned on RISC-V.
\<close>

section \<open>Memory\<close>

type_synonym memory = "i32 \<Rightarrow> i8 option"

definition poke :: "memory \<Rightarrow> i32 \<Rightarrow> i8 \<Rightarrow> memory option" where
  "poke mem a v = (if mem a = None then None else Some (mem(a \<mapsto> v)))"

definition join4 :: "i8 \<Rightarrow> i8 \<Rightarrow> i8 \<Rightarrow> i8 \<Rightarrow> i32" where
  "join4 b0 b1 b2 b3 = ucast b0 OR push_bit 8 (ucast b1) OR push_bit 16 (ucast b2) OR push_bit 24 (ucast b3)"

definition peek_word :: "memory \<Rightarrow> i32 \<Rightarrow> i32 option" where
  "peek_word mem a = do {
     b0 \<leftarrow> mem a; b1 \<leftarrow> mem (a + 1); b2 \<leftarrow> mem (a + 2); b3 \<leftarrow> mem (a + 3);
     Some (join4 b0 b1 b2 b3)
   }"

definition poke_word :: "memory \<Rightarrow> i32 \<Rightarrow> i32 \<Rightarrow> memory option" where
  "poke_word mem a w = do {
     mem \<leftarrow> poke mem a (ucast w); mem \<leftarrow> poke mem (a + 1) (ucast (drop_bit 8 w));
     mem \<leftarrow> poke mem (a + 2) (ucast (drop_bit 16 w)); poke mem (a + 3) (ucast (drop_bit 24 w))
   }"

section \<open>Copying and filling\<close>

text \<open>\<open>while (d < end) *d++ = *s++\<close>, by bytes and by words.\<close>

partial_function (option) byte_copy :: "memory \<Rightarrow> i32 \<Rightarrow> i32 \<Rightarrow> i32 \<Rightarrow> memory option" where
  "byte_copy mem d s e =
     (if d < e then Option.bind (mem s) (\<lambda>v. Option.bind (poke mem d v) (\<lambda>mem. byte_copy mem (d + 1) (s + 1) e)) else Some mem)"

partial_function (option) word_copy :: "memory \<Rightarrow> i32 \<Rightarrow> i32 \<Rightarrow> i32 \<Rightarrow> memory option" where
  "word_copy mem d s e =
     (if d < e then Option.bind (peek_word mem s) (\<lambda>v. Option.bind (poke_word mem d v) (\<lambda>mem. word_copy mem (d + 4) (s + 4) e))
      else Some mem)"

definition memcpy :: "memory \<Rightarrow> i32 \<Rightarrow> i32 \<Rightarrow> i32 \<Rightarrow> memory option" where
  "memcpy mem dest src len =
     (if (dest OR src OR len) AND 3 = 0 then word_copy mem dest src (dest + len) else byte_copy mem dest src (dest + len))"

partial_function (option) fill_words :: "memory \<Rightarrow> i32 \<Rightarrow> i32 \<Rightarrow> i32 \<Rightarrow> memory option" where
  "fill_words mem d w e =
     (if d < e then Option.bind (poke_word mem d w) (\<lambda>mem. fill_words mem (d + 4) w e) else Some mem)"

partial_function (option) fill_bytes :: "memory \<Rightarrow> i32 \<Rightarrow> i8 \<Rightarrow> i32 \<Rightarrow> memory option" where
  "fill_bytes mem d b e =
     (if d < e then Option.bind (poke mem d b) (\<lambda>mem. fill_bytes mem (d + 1) b e) else Some mem)"

definition memset :: "memory \<Rightarrow> i32 \<Rightarrow> i32 \<Rightarrow> i32 \<Rightarrow> memory option" where
  "memset mem dest byte len =
     (if (dest OR len) AND 3 = 0 then
        (let word = byte AND 0xFF;
             word = word OR push_bit 8 word;
             word = word OR push_bit 16 word;
             word = word OR push_bit 16 (push_bit 16 word)
         in fill_words mem dest word (dest + len))
      else fill_bytes mem dest (ucast byte) (dest + len))"

section \<open>Strings\<close>

partial_function (option) scan_string :: "memory \<Rightarrow> i32 \<Rightarrow> i32 option" where
  "scan_string mem p = Option.bind (mem p) (\<lambda>c. if c \<noteq> 0 then scan_string mem (p + 1) else Some p)"

definition strlen :: "memory \<Rightarrow> i32 \<Rightarrow> i32 option" where
  "strlen mem s = map_option (\<lambda>p. p - s) (scan_string mem s)"

text \<open>\<open>while (n-- && *p) p++\<close>\<close>

partial_function (option) scan_bounded :: "memory \<Rightarrow> i32 \<Rightarrow> i32 \<Rightarrow> i32 option" where
  "scan_bounded mem n p =
     (if n \<noteq> 0 then Option.bind (mem p) (\<lambda>c. if c \<noteq> 0 then scan_bounded mem (n - 1) (p + 1) else Some p) else Some p)"

definition strnlen :: "memory \<Rightarrow> i32 \<Rightarrow> i32 \<Rightarrow> i32 option" where
  "strnlen mem s n = map_option (\<lambda>p. p - s) (scan_bounded mem n s)"

partial_function (option) strcmp :: "memory \<Rightarrow> i32 \<Rightarrow> i32 \<Rightarrow> int option" where
  "strcmp mem s1 s2 =
     Option.bind (mem s1) (\<lambda>c1. Option.bind (mem s2) (\<lambda>c2.
       if c1 \<noteq> 0 \<and> c1 = c2 then strcmp mem (s1 + 1) (s2 + 1) else Some (uint c1 - uint c2)))"

text \<open>The terminating zero is copied, too.\<close>

partial_function (option) copy_string :: "memory \<Rightarrow> i32 \<Rightarrow> i32 \<Rightarrow> memory option" where
  "copy_string mem d s =
     Option.bind (mem s) (\<lambda>c. Option.bind (poke mem d c) (\<lambda>mem. if c \<noteq> 0 then copy_string mem (d + 1) (s + 1) else Some mem))"

definition strcpy :: "memory \<Rightarrow> i32 \<Rightarrow> i32 \<Rightarrow> memory option" where
  "strcpy = copy_string"

text \<open>\<open>long\<close> has 32 bits; a result that does not fit is undefined behaviour in C.\<close>

definition long_range :: "int \<Rightarrow> int option" where
  "long_range x = (if - (2 ^ 31) \<le> x \<and> x < 2 ^ 31 then Some x else None)"

partial_function (option) skip_spaces :: "memory \<Rightarrow> i32 \<Rightarrow> i32 option" where
  "skip_spaces mem p = Option.bind (mem p) (\<lambda>c. if c = of_char CHR '' '' then skip_spaces mem (p + 1) else Some p)"

partial_function (option) atol_loop :: "memory \<Rightarrow> int \<Rightarrow> i32 \<Rightarrow> int option" where
  "atol_loop mem res p =
     Option.bind (mem p) (\<lambda>c. if c \<noteq> 0
       then Option.bind (long_range (res * 10)) (\<lambda>res. Option.bind (long_range (res + (uint c - 48))) (\<lambda>res. atol_loop mem res (p + 1)))
       else Some res)"

definition atol :: "memory \<Rightarrow> i32 \<Rightarrow> int option" where
  "atol mem str = do {
     p \<leftarrow> skip_spaces mem str;
     c \<leftarrow> mem p;
     let sign = (c = of_char CHR ''-'' \<or> c = of_char CHR ''+'');
     res \<leftarrow> atol_loop mem 0 (if sign then p + 1 else p);
     if c = of_char CHR ''-'' then long_range (- res) else Some res
   }"

section \<open>The word loops are the byte loops\<close>

definition aligned :: "i32 \<Rightarrow> bool" where
  "aligned a = (a AND 3 = 0)"

lemma aligned_unat: "aligned a \<longleftrightarrow> unat a mod 4 = 0"
proof -
  have "a AND 3 = take_bit 2 a" by (simp add: take_bit_eq_mask mask_eq_decr_exp)
  then have "unat (a AND 3) = take_bit 2 (unat a)" by (simp only: unsigned_take_bit_eq)
  then have "unat (a AND 3) = unat a mod 4" by (simp add: take_bit_eq_mod)
  then show ?thesis unfolding aligned_def by (metis unsigned_0 unsigned_eq_0_iff)
qed

lemma or_low_bits: "(a OR b) AND 3 = 0 \<longleftrightarrow> a AND 3 = 0 \<and> b AND 3 = 0" for a b :: i32
proof -
  have "(a OR b) AND 3 = (a AND 3) OR (b AND 3)" by (rule bit_word_eqI) (auto simp: bit_simps)
  moreover have "x OR y = 0 \<longleftrightarrow> x = 0 \<and> y = 0" for x y :: i32 by (metis or_eq_0_iff)
  ultimately show ?thesis by simp
qed

lemma unat_add_mod_4: "unat (a + b) mod 4 = (unat a + unat b) mod 4" for a b :: i32
proof -
  have "(x mod 2 ^ LENGTH(32)) mod 4 = x mod 4" for x :: nat by (rule mod_mod_cancel) (simp add: power_numeral_even)
  then show ?thesis unfolding unat_word_ariths(1) .
qed

lemma aligned_add: "aligned a \<Longrightarrow> aligned b \<Longrightarrow> aligned (a + b)"
  unfolding aligned_unat unat_add_mod_4 by presburger

lemma aligned_less: "aligned d \<Longrightarrow> aligned e \<Longrightarrow> d < e \<Longrightarrow> unat d + 4 \<le> unat e"
  unfolding aligned_unat word_less_nat_alt by presburger

lemma aligned_distinct: "aligned d \<Longrightarrow> aligned s \<Longrightarrow> i < 4 \<Longrightarrow> j < 4 \<Longrightarrow> i \<noteq> j \<Longrightarrow> d + word_of_nat i \<noteq> s + word_of_nat j"
proof
  assume d: "aligned d" and s: "aligned s" and ij: "i < 4" "j < 4" "i \<noteq> j" and e: "d + word_of_nat i = s + word_of_nat j"
  have "unat (a + word_of_nat k) mod 4 = k" if "aligned a" "k < 4" for a k
  proof -
    have "unat (word_of_nat k :: i32) = k" using that(2) by (simp add: unsigned_of_nat take_bit_nat_eq_self)
    then show ?thesis using that unfolding aligned_unat unat_add_mod_4 by presburger
  qed
  then show False using d s ij e by metis
qed

text \<open>Storing a word that was loaded.\<close>

lemma join4_bytes:
  "ucast (join4 b0 b1 b2 b3) = b0" "ucast (drop_bit 8 (join4 b0 b1 b2 b3)) = b1"
  "ucast (drop_bit 16 (join4 b0 b1 b2 b3)) = b2" "ucast (drop_bit 24 (join4 b0 b1 b2 b3)) = b3"
  unfolding join4_def by (rule bit_word_eqI; auto simp: bit_simps dest: bit_imp_le_length)+

lemma poke_Some: "poke mem a v = Some mem' \<longleftrightarrow> mem a \<noteq> None \<and> mem' = mem(a \<mapsto> v)"
  by (auto simp: poke_def)

definition copy_byte :: "i32 \<Rightarrow> i32 \<Rightarrow> memory \<Rightarrow> memory option" where
  "copy_byte d s mem = Option.bind (mem s) (poke mem d)"

lemma copy_word_bytes:
  assumes "aligned d" "aligned s"
  shows "Option.bind (peek_word mem s) (poke_word mem d)
    = Option.bind (copy_byte d s mem) (\<lambda>mem. Option.bind (copy_byte (d + 1) (s + 1) mem)
        (\<lambda>mem. Option.bind (copy_byte (d + 2) (s + 2) mem) (copy_byte (d + 3) (s + 3))))"
proof -
  have n: "s + 1 \<noteq> d" "s + 2 \<noteq> d" "s + 3 \<noteq> d" "s + 2 \<noteq> d + 1" "s + 3 \<noteq> d + 1" "s + 3 \<noteq> d + 2"
    using aligned_distinct [OF assms, of 0 1] aligned_distinct [OF assms, of 0 2] aligned_distinct [OF assms, of 0 3]
      aligned_distinct [OF assms, of 1 2] aligned_distinct [OF assms, of 1 3] aligned_distinct [OF assms, of 2 3] by force+
  show ?thesis
    unfolding peek_word_def poke_word_def copy_byte_def poke_def
    using n by (cases "mem s"; cases "mem (s + 1)"; cases "mem (s + 2)"; cases "mem (s + 3)") (simp_all add: join4_bytes split: bind_splits)
qed

lemma byte_copy_step: "d < e \<Longrightarrow> byte_copy mem d s e = Option.bind (copy_byte d s mem) (\<lambda>mem. byte_copy mem (d + 1) (s + 1) e)"
  by (subst byte_copy.simps) (simp add: copy_byte_def)

lemma plus_less: "unat d + n < unat e \<Longrightarrow> d + word_of_nat n < e" for d e :: i32
proof -
  assume a: "unat d + n < unat e"
  moreover have "unat e < 2 ^ 32" using unsigned_less [of e] by simp
  ultimately have "unat (d + word_of_nat n) = unat d + n"
    by (simp add: unat_word_ariths unsigned_of_nat take_bit_nat_eq_self)
  then show ?thesis using a by (simp add: word_less_nat_alt)
qed

lemma unat_plus: "unat d + n < 2 ^ 32 \<Longrightarrow> unat (d + word_of_nat n) = unat d + n" for d :: i32
  by (simp add: unat_word_ariths unsigned_of_nat take_bit_nat_eq_self)

lemma byte_copy_four:
  assumes "aligned d" "aligned s" "aligned e" "d < e"
  shows "byte_copy mem d s e
    = Option.bind (Option.bind (peek_word mem s) (poke_word mem d)) (\<lambda>mem. byte_copy mem (d + 4) (s + 4) e)"
proof -
  have l: "unat d + 4 \<le> unat e" using aligned_less assms by blast
  then have "d < e" "d + 1 < e" "d + 2 < e" "d + 3 < e"
    using plus_less [of d 0 e] plus_less [of d 1 e] plus_less [of d 2 e] plus_less [of d 3 e] by simp_all
  then have "byte_copy m d s e = Option.bind (copy_byte d s m) (\<lambda>m. byte_copy m (d + 1) (s + 1) e)"
    "byte_copy m (d + 1) (s + 1) e = Option.bind (copy_byte (d + 1) (s + 1) m) (\<lambda>m. byte_copy m (d + 2) (s + 2) e)"
    "byte_copy m (d + 2) (s + 2) e = Option.bind (copy_byte (d + 2) (s + 2) m) (\<lambda>m. byte_copy m (d + 3) (s + 3) e)"
    "byte_copy m (d + 3) (s + 3) e = Option.bind (copy_byte (d + 3) (s + 3) m) (\<lambda>m. byte_copy m (d + 4) (s + 4) e)" for m
    using byte_copy_step [of d e m s] byte_copy_step [of "d + 1" e m "s + 1"] byte_copy_step [of "d + 2" e m "s + 2"]
      byte_copy_step [of "d + 3" e m "s + 3"] by (simp_all add: add.assoc)
  then show ?thesis unfolding copy_word_bytes [OF assms(1,2)] by simp
qed

text \<open>Where it applies, the loop over words gives what the loop over bytes gives, faults included.\<close>

lemma word_copy_bytes:
  "aligned d \<Longrightarrow> aligned s \<Longrightarrow> aligned e \<Longrightarrow> word_copy mem d s e = byte_copy mem d s e"
proof (induction "unat e - unat d" arbitrary: mem d s rule: less_induct)
  case less
  show ?case
  proof (cases "d < e")
    case True
    have l: "unat d + 4 \<le> unat e" using aligned_less less.prems True by blast
    have "aligned 4" by (simp add: aligned_def)
    then have al: "aligned (d + 4)" "aligned (s + 4)" using less.prems aligned_add by blast+
    have "unat e < 2 ^ 32" using unsigned_less [of e] by simp
    then have "unat (d + 4) = unat d + 4" using l unat_plus [of d 4] by simp
    then have IH: "word_copy mem' (d + 4) (s + 4) e = byte_copy mem' (d + 4) (s + 4) e" for mem'
      using less.hyps [of "d + 4"] l al less.prems(3) by simp
    show ?thesis
      using byte_copy_four [OF less.prems True] IH by (subst word_copy.simps) (simp add: True)
  next
    case False
    then show ?thesis by (subst word_copy.simps, subst byte_copy.simps) simp
  qed
qed

lemma memcpy_bytes: "memcpy mem dest src len = byte_copy mem dest src (dest + len)"
proof (cases "(dest OR src OR len) AND 3 = 0")
  case True
  then have "aligned dest" "aligned src" "aligned len" unfolding or_low_bits aligned_def by blast+
  then show ?thesis using True word_copy_bytes aligned_add by (simp add: memcpy_def)
next
  case False
  then show ?thesis unfolding memcpy_def by presburger
qed

section \<open>What memcpy does\<close>

text \<open>
  \<open>loads mem p bs\<close>: the bytes \<open>bs\<close> lie at \<open>p\<close>. \<open>stores mem p bs\<close>: the memory after they have been stored there.
\<close>

fun loads :: "memory \<Rightarrow> i32 \<Rightarrow> i8 list \<Rightarrow> bool" where
  "loads mem p [] = True"
| "loads mem p (b # bs) = (mem p = Some b \<and> loads mem (p + 1) bs)"

fun stores :: "memory \<Rightarrow> i32 \<Rightarrow> i8 list \<Rightarrow> memory" where
  "stores mem p [] = mem"
| "stores mem p (b # bs) = stores (mem(p \<mapsto> b)) (p + 1) bs"

definition inside :: "i32 \<Rightarrow> i32 \<Rightarrow> nat \<Rightarrow> bool" where
  "inside a p n = (unat (a - p) < n)"

definition mapped :: "memory \<Rightarrow> i32 \<Rightarrow> nat \<Rightarrow> bool" where
  "mapped mem p n = (\<forall>a. inside a p n \<longrightarrow> mem a \<noteq> None)"

lemma unat_minus_1: "x \<noteq> 0 \<Longrightarrow> unat (x - 1) = unat x - 1" for x :: i32
  by (metis One_nat_def unat_minus_one)

lemma inside_Suc: "n < 2 ^ 32 \<Longrightarrow> inside a p (Suc n) \<longleftrightarrow> a = p \<or> inside a (p + 1) n"
proof (cases "a = p")
  case False
  then have z: "a - p \<noteq> 0" by simp
  then have "0 < unat (a - p)" by (simp add: unat_gt_0)
  moreover have "unat (a - (p + 1)) = unat (a - p) - 1" using unat_minus_1 [OF z] by (simp add: diff_diff_eq)
  ultimately show ?thesis using False by (auto simp: inside_def)
qed (simp add: inside_def)

lemma inside_start: "n < 2 ^ 32 \<Longrightarrow> \<not> inside p (p + 1) n"
  by (simp add: inside_def unsigned_minus_1_eq_mask mask_eq_exp_minus_1)

lemma stores_outside: "length bs \<le> 2 ^ 32 \<Longrightarrow> \<not> inside a p (length bs) \<Longrightarrow> stores mem p bs a = mem a"
  by (induction bs arbitrary: mem p) (simp_all add: inside_Suc)

lemma loads_stores: "length bs \<le> 2 ^ 32 \<Longrightarrow> loads (stores mem p bs) p bs"
proof (induction bs arbitrary: mem p)
  case (Cons b bs)
  then have "stores (mem(p \<mapsto> b)) (p + 1) bs p = Some b"
    using stores_outside [of bs p "p + 1" "mem(p \<mapsto> b)"] inside_start [of "length bs" p] by simp
  then show ?case using Cons by simp
qed simp

lemma stores_nth: "length bs < 2 ^ 32 \<Longrightarrow> stores mem p bs a = (if inside a p (length bs) then Some (bs ! unat (a - p)) else mem a)"
proof (induction bs arbitrary: p mem)
  case Nil
  then show ?case by (simp add: inside_def)
next
  case (Cons b bs)
  have e: "a - (p + 1) = a - p - 1" by simp
  have u: "unat (a - (p + 1)) = unat (a - p) - 1" if "a \<noteq> p" unfolding e using unat_minus_1 [of "a - p"] that by simp
  have pos: "0 < unat (a - p)" if "a \<noteq> p" using that by (simp add: unat_gt_0)
  have IH: "stores (mem(p \<mapsto> b)) (p + 1) bs a = (if inside a (p + 1) (length bs) then Some (bs ! unat (a - (p + 1))) else (mem(p \<mapsto> b)) a)"
    by (rule Cons.IH) (use Cons.prems in simp)
  have ins: "inside a p (length (b # bs)) \<longleftrightarrow> a = p \<or> inside a (p + 1) (length bs)" "\<not> inside p (p + 1) (length bs)"
    using inside_Suc [of "length bs" a p] inside_start [of "length bs" p] Cons.prems by simp_all
  show ?case
  proof (cases "a = p")
    case True
    then show ?thesis unfolding ins stores.simps IH using ins(2) by simp
  next
    case False
    then show ?thesis unfolding ins stores.simps IH using u pos by (simp add: nth_Cons')
  qed
qed

lemma stores_append: "stores mem p (xs @ ys) = stores (stores mem p xs) (p + word_of_nat (length xs)) ys"
  by (induction xs arbitrary: mem p) (simp_all add: ac_simps)

lemma loads_cong: "length bs < 2 ^ 32 \<Longrightarrow> (\<And>a. inside a p (length bs) \<Longrightarrow> mem a = mem' a) \<Longrightarrow> loads mem p bs = loads mem' p bs"
  by (induction bs arbitrary: p) (simp_all add: inside_Suc)

text \<open>The loop over bytes, when the source is read before it is overwritten.\<close>

lemma byte_copy_stores:
  "loads mem s bs \<Longrightarrow> mapped mem d (length bs) \<Longrightarrow> unat d + length bs < 2 ^ 32
    \<Longrightarrow> (\<And>a. inside a s (length bs) \<Longrightarrow> \<not> inside a d (length bs))
    \<Longrightarrow> byte_copy mem d s (d + word_of_nat (length bs)) = Some (stores mem d bs)"
proof (induction bs arbitrary: mem d s)
  case Nil
  then show ?case by (subst byte_copy.simps) simp
next
  case (Cons b bs)
  let ?n = "length bs" and ?m = "mem(d \<mapsto> b)"
  have n: "?n < 2 ^ 32" using Cons.prems(3) by simp
  have less: "d < d + word_of_nat (Suc ?n)" using plus_less [of d 0 "d + word_of_nat (Suc ?n)"] unat_plus [of d "Suc ?n"] Cons.prems(3) by simp
  have disj: "inside a (s + 1) ?n \<Longrightarrow> \<not> inside a (d + 1) ?n \<and> a \<noteq> d" for a
    using Cons.prems(4) [of a] n by (simp add: inside_Suc)
  have "loads ?m (s + 1) bs = loads mem (s + 1) bs" using disj n by (intro loads_cong) auto
  then have l: "loads ?m (s + 1) bs" using Cons.prems(1) by simp
  have m: "mapped ?m (d + 1) ?n" using Cons.prems(2) n by (auto simp: mapped_def inside_Suc)
  have d: "mem d \<noteq> None" using Cons.prems(2) n by (simp add: mapped_def inside_Suc)
  have u: "unat (d + 1) + ?n < 2 ^ 32" using unat_plus [of d 1] Cons.prems(3) by simp
  have "byte_copy ?m (d + 1) (s + 1) (d + 1 + word_of_nat ?n) = Some (stores ?m (d + 1) bs)"
    using Cons.IH [OF l m u] disj by blast
  then show ?case
    using less Cons.prems(1) d by (subst byte_copy.simps) (simp add: poke_def ac_simps)
qed

text \<open>
  C20: \<open>memcpy\<close> of a region that does not overlap its destination returns; the destination then holds the bytes
  of the source, and nothing else has changed, whether it was done by words or by bytes.
\<close>

theorem memcpy_copies:
  assumes "loads mem src bs" "mapped mem dest (length bs)" "unat dest + length bs < 2 ^ 32"
    and "\<And>a. inside a src (length bs) \<Longrightarrow> \<not> inside a dest (length bs)"
  shows "\<exists>mem'. memcpy mem dest src (word_of_nat (length bs)) = Some mem' \<and> loads mem' dest bs
    \<and> (\<forall>a. inside a dest (length bs) \<or> mem' a = mem a)"
  using byte_copy_stores [OF assms] loads_stores [of bs mem dest] stores_outside [of bs _ dest mem] assms(3)
  unfolding memcpy_bytes by fastforce

lemma memcpy_copies_witness:
  "\<exists>mem'. memcpy (\<lambda>a. Some (ucast a)) 0x100 0x80 4 = Some mem' \<and> loads mem' 0x100 [0x80, 0x81, 0x82, 0x83]
    \<and> (\<forall>a. inside a 0x100 4 \<or> mem' a = Some (ucast a))"
proof -
  let ?bs = "[0x80, 0x81, 0x82, 0x83] :: i8 list" and ?mem = "\<lambda>a. Some (ucast a) :: i8 option"
  have len: "length ?bs = 4" by simp
  have "loads ?mem 0x80 ?bs" by simp
  moreover have "mapped ?mem 0x100 (length ?bs)" by (simp add: mapped_def)
  moreover have "unat (0x100 :: i32) + length ?bs < 2 ^ 32" by simp
  moreover have "\<not> inside a 0x100 (length ?bs)" if "inside a 0x80 (length ?bs)" for a
    using that unfolding inside_def len unat_sub_if' by (simp split: if_splits)
  ultimately show ?thesis
    using memcpy_copies [of ?mem "0x80" ?bs "0x100"] unfolding len by simp
qed

section \<open>memset\<close>

lemma fill_bytes_step: "d < e \<Longrightarrow> fill_bytes mem d b e = Option.bind (poke mem d b) (\<lambda>mem. fill_bytes mem (d + 1) b e)"
  by (subst fill_bytes.simps) simp

lemma fill_bytes_four:
  assumes "aligned d" "aligned e" "d < e"
  shows "fill_bytes mem d b e = Option.bind (poke_word mem d (join4 b b b b)) (\<lambda>mem. fill_bytes mem (d + 4) b e)"
proof -
  have l: "unat d + 4 \<le> unat e" using aligned_less assms by blast
  then have "d < e" "d + 1 < e" "d + 2 < e" "d + 3 < e"
    using plus_less [of d 0 e] plus_less [of d 1 e] plus_less [of d 2 e] plus_less [of d 3 e] by simp_all
  then have "fill_bytes m d b e = Option.bind (poke m d b) (\<lambda>m. fill_bytes m (d + 1) b e)"
    "fill_bytes m (d + 1) b e = Option.bind (poke m (d + 1) b) (\<lambda>m. fill_bytes m (d + 2) b e)"
    "fill_bytes m (d + 2) b e = Option.bind (poke m (d + 2) b) (\<lambda>m. fill_bytes m (d + 3) b e)"
    "fill_bytes m (d + 3) b e = Option.bind (poke m (d + 3) b) (\<lambda>m. fill_bytes m (d + 4) b e)" for m
    using fill_bytes_step [of d e m b] fill_bytes_step [of "d + 1" e m b] fill_bytes_step [of "d + 2" e m b]
      fill_bytes_step [of "d + 3" e m b] by (simp_all add: add.assoc)
  then show ?thesis unfolding poke_word_def join4_bytes by simp
qed

lemma fill_words_bytes:
  "aligned d \<Longrightarrow> aligned e \<Longrightarrow> fill_words mem d (join4 b b b b) e = fill_bytes mem d b e"
proof (induction "unat e - unat d" arbitrary: mem d rule: less_induct)
  case less
  show ?case
  proof (cases "d < e")
    case True
    have l: "unat d + 4 \<le> unat e" using aligned_less less.prems True by blast
    have "aligned 4" by (simp add: aligned_def)
    then have al: "aligned (d + 4)" using less.prems aligned_add by blast
    have "unat e < 2 ^ 32" using unsigned_less [of e] by simp
    then have "unat (d + 4) = unat d + 4" using l unat_plus [of d 4] by simp
    then have IH: "fill_words mem' (d + 4) (join4 b b b b) e = fill_bytes mem' (d + 4) b e" for mem'
      using less.hyps [of "d + 4"] l al less.prems(2) by simp
    show ?thesis using fill_bytes_four [OF less.prems True] IH by (subst fill_words.simps) (simp add: True)
  next
    case False
    then show ?thesis by (subst fill_words.simps, subst fill_bytes.simps) simp
  qed
qed

lemma replicated_byte:
  "((byte AND 0xFF) OR push_bit 8 (byte AND 0xFF)) OR push_bit 16 ((byte AND 0xFF) OR push_bit 8 (byte AND 0xFF))
    = join4 (ucast byte) (ucast byte) (ucast byte) (ucast byte)" for byte :: i32
proof -
  have "byte AND 0xFF = ucast (ucast byte :: i8)"
    by (rule bit_word_eqI) (auto simp: bit_simps bit_numeral_rec numeral_eq_Suc less_Suc_eq)
  then show ?thesis unfolding join4_def by (simp add: push_bit_or or.assoc)
qed

lemma memset_bytes: "memset mem dest byte len = fill_bytes mem dest (ucast byte) (dest + len)"
proof (cases "(dest OR len) AND 3 = 0")
  case True
  have z: "push_bit 16 (push_bit 16 w) = 0" for w :: i32 by (rule bit_word_eqI) (auto simp: bit_simps)
  have "aligned dest" "aligned len" using True unfolding or_low_bits aligned_def by blast+
  then have "fill_words mem dest (join4 (ucast byte) (ucast byte) (ucast byte) (ucast byte)) (dest + len)
      = fill_bytes mem dest (ucast byte) (dest + len)" using aligned_add fill_words_bytes by blast
  then show ?thesis
    using True unfolding memset_def Let_def z or.right_neutral replicated_byte by presburger
next
  case False
  then show ?thesis unfolding memset_def by presburger
qed

lemma fill_bytes_stores:
  "mapped mem d n \<Longrightarrow> unat d + n < 2 ^ 32 \<Longrightarrow> fill_bytes mem d b (d + word_of_nat n) = Some (stores mem d (replicate n b))"
proof (induction n arbitrary: mem d)
  case 0
  then show ?case by (subst fill_bytes.simps) simp
next
  case (Suc n)
  let ?m = "mem(d \<mapsto> b)"
  have less: "d < d + word_of_nat (Suc n)" using plus_less [of d 0 "d + word_of_nat (Suc n)"] unat_plus [of d "Suc n"] Suc.prems(2) by simp
  have m: "mapped ?m (d + 1) n" and d: "mem d \<noteq> None" using Suc.prems by (auto simp: mapped_def inside_Suc)
  have u: "unat (d + 1) + n < 2 ^ 32" using unat_plus [of d 1] Suc.prems(2) by simp
  have "fill_bytes ?m (d + 1) b (d + 1 + word_of_nat n) = Some (stores ?m (d + 1) (replicate n b))"
    using Suc.IH [OF m u] .
  then show ?case using less d by (subst fill_bytes.simps) (simp add: poke_def ac_simps)
qed

text \<open>\<open>memset\<close> stores the low byte of its argument everywhere in the region, by words or by bytes.\<close>

lemma memset_fills:
  "mapped mem dest n \<Longrightarrow> unat dest + n < 2 ^ 32
    \<Longrightarrow> memset mem dest byte (word_of_nat n) = Some (stores mem dest (replicate n (ucast byte)))"
  unfolding memset_bytes by (rule fill_bytes_stores)

section \<open>Strings in memory\<close>

definition cstring :: "memory \<Rightarrow> i32 \<Rightarrow> i8 list \<Rightarrow> bool" where
  "cstring mem p s = (0 \<notin> set s \<and> loads mem p (s @ [0]))"

lemma cstring_simps: "cstring mem p [] \<longleftrightarrow> mem p = Some 0"
  "cstring mem p (c # s) \<longleftrightarrow> c \<noteq> 0 \<and> mem p = Some c \<and> cstring mem (p + 1) s"
  by (auto simp: cstring_def)

lemma scan_string_end: "cstring mem p s \<Longrightarrow> scan_string mem p = Some (p + word_of_nat (length s))"
  by (induction s arbitrary: p) (subst scan_string.simps; simp add: cstring_simps ac_simps)+

lemma strlen_length: "cstring mem p s \<Longrightarrow> strlen mem p = Some (word_of_nat (length s))"
  by (simp add: strlen_def scan_string_end)

lemma scan_bounded_end:
  "cstring mem p s \<Longrightarrow> scan_bounded mem n p = Some (p + word_of_nat (min (unat n) (length s)))"
proof (induction s arbitrary: p n)
  case Nil
  then show ?case by (subst scan_bounded.simps) (simp add: cstring_simps)
next
  case (Cons c s)
  show ?case
  proof (cases "n = 0")
    case True
    then show ?thesis by (subst scan_bounded.simps) simp
  next
    case False
    then have "unat n = Suc (unat (n - 1))" using unat_minus_1 [of n] by (simp add: unat_gt_0)
    then show ?thesis
      using Cons False by (subst scan_bounded.simps) (simp add: cstring_simps ac_simps min_def)
  qed
qed

text \<open>Also with the bound -1, which is larger than any string.\<close>

lemma strnlen_length: "cstring mem p s \<Longrightarrow> strnlen mem p n = Some (word_of_nat (min (unat n) (length s)))"
  by (simp add: strnlen_def scan_bounded_end)

text \<open>
  \<open>strcmp\<close> returns on all strings, with zero exactly for equal ones and otherwise with the sign of their
  lexicographic order by unsigned bytes.
\<close>

theorem strcmp_order:
  assumes "cstring mem p s" "cstring mem q t"
  shows "\<exists>r. strcmp mem p q = Some r \<and> (r = 0 \<longleftrightarrow> s = t) \<and> (r < 0 \<longleftrightarrow> s < t)"
  using assms
proof (induction s t arbitrary: p q rule: list_induct2')
  case (4 c s d t)
  have "c < d \<longleftrightarrow> uint c < uint d" "c = d \<longleftrightarrow> uint c = uint d" by (simp_all add: word_less_def word_uint_eq_iff)
  then show ?case using 4 by (subst strcmp.simps) (auto simp: cstring_simps)
qed (subst strcmp.simps; auto simp: cstring_simps word_greater_zero_iff uint_0_iff order_less_le)+

lemma strcmp_order_witness:
  "\<exists>r. strcmp (\<lambda>a. Some (if a = 0 then 0x61 else 0)) 0 5 = Some r \<and> (r = 0 \<longleftrightarrow> [0x61 :: i8] = []) \<and> (r < 0 \<longleftrightarrow> [0x61 :: i8] < [])"
  using strcmp_order [of "\<lambda>a. Some (if a = 0 then 0x61 else 0)" 0 "[0x61]" 5 "[]"] by (simp add: cstring_simps)

lemma copy_string_stores:
  "cstring mem s t \<Longrightarrow> mapped mem d (Suc (length t)) \<Longrightarrow> Suc (length t) < 2 ^ 32
    \<Longrightarrow> (\<And>a. inside a s (Suc (length t)) \<Longrightarrow> \<not> inside a d (Suc (length t)))
    \<Longrightarrow> copy_string mem d s = Some (stores mem d (t @ [0]))"
proof (induction t arbitrary: mem d s)
  case Nil
  then show ?case by (subst copy_string.simps) (auto simp: cstring_simps poke_def mapped_def inside_Suc)
next
  case (Cons c t)
  let ?n = "Suc (length t)" and ?m = "mem(d \<mapsto> c)"
  have n: "?n < 2 ^ 32" using Cons.prems(3) by simp
  have disj: "inside a (s + 1) ?n \<Longrightarrow> \<not> inside a (d + 1) ?n \<and> a \<noteq> d" for a
    using Cons.prems(4) [of a] n inside_Suc [of ?n a s] inside_Suc [of ?n a d] by auto
  have "loads ?m (s + 1) (t @ [0]) = loads mem (s + 1) (t @ [0])" using disj n by (intro loads_cong) auto
  then have l: "cstring ?m (s + 1) t" using Cons.prems(1) by (simp add: cstring_def)
  have md: "inside a d (Suc ?n) \<Longrightarrow> mem a \<noteq> None" for a using Cons.prems(2) by (simp add: mapped_def)
  have m: "mapped ?m (d + 1) ?n" unfolding mapped_def using md inside_Suc [OF n, of _ d] by auto
  have d: "mem d \<noteq> None" using md [of d] inside_Suc [OF n, of d d] by simp
  have "copy_string ?m (d + 1) (s + 1) = Some (stores ?m (d + 1) (t @ [0]))"
    using Cons.IH [OF l m n] disj by blast
  then show ?case
    using Cons.prems(1) d by (subst copy_string.simps) (simp add: poke_def cstring_simps)
qed

text \<open>\<open>strcpy\<close> stores the string and its terminator, if the destination does not overlap the source.\<close>

lemma strcpy_copies:
  assumes "cstring mem s t" "mapped mem d (Suc (length t))" "Suc (length t) < 2 ^ 32"
    and "\<And>a. inside a s (Suc (length t)) \<Longrightarrow> \<not> inside a d (Suc (length t))"
  shows "\<exists>mem'. strcpy mem d s = Some mem' \<and> cstring mem' d t \<and> (\<forall>a. inside a d (Suc (length t)) \<or> mem' a = mem a)"
  using copy_string_stores [OF assms] loads_stores [of "t @ [0]" mem d] stores_outside [of "t @ [0]" _ d mem] assms(1,3)
  unfolding strcpy_def cstring_def by fastforce

section \<open>Decimal numbers\<close>

definition is_digit :: "i8 \<Rightarrow> bool" where
  "is_digit c = (48 \<le> uint c \<and> uint c \<le> 57)"

definition decimal :: "i8 list \<Rightarrow> int" where
  "decimal s = foldl (\<lambda>v c. 10 * v + (uint c - 48)) 0 s"

lemma decimal_foldl_mono: "list_all is_digit s \<Longrightarrow> 0 \<le> v \<Longrightarrow> v \<le> foldl (\<lambda>v c. 10 * v + (uint c - 48)) v s"
proof (induction s arbitrary: v)
  case (Cons c s)
  then have "v \<le> 10 * v + (uint c - 48)" "0 \<le> 10 * v + (uint c - 48)" by (auto simp: is_digit_def)
  moreover have "10 * v + (uint c - 48) \<le> foldl (\<lambda>v c. 10 * v + (uint c - 48)) (10 * v + (uint c - 48)) s"
    using Cons.IH Cons.prems(1) calculation(2) by simp
  ultimately show ?case by (simp only: foldl.simps)
qed simp

lemma atol_loop_decimal:
  "cstring mem p s \<Longrightarrow> list_all is_digit s \<Longrightarrow> 0 \<le> v \<Longrightarrow> foldl (\<lambda>v c. 10 * v + (uint c - 48)) v s < 2 ^ 31
    \<Longrightarrow> atol_loop mem v p = Some (foldl (\<lambda>v c. 10 * v + (uint c - 48)) v s)"
proof (induction s arbitrary: p v)
  case Nil
  then show ?case by (subst atol_loop.simps) (simp add: cstring_simps)
next
  case (Cons c s)
  let ?v = "10 * v + (uint c - 48)"
  have c: "48 \<le> uint c" using Cons.prems(2) by (simp add: is_digit_def)
  have v: "0 \<le> ?v" "?v < 2 ^ 31" using c Cons.prems decimal_foldl_mono [of s ?v] by auto
  have "atol_loop mem ?v (p + 1) = Some (foldl (\<lambda>v c. 10 * v + (uint c - 48)) ?v s)"
    using Cons.IH [of "p + 1" ?v] Cons.prems v by (simp add: cstring_simps)
  then show ?case
    using v c Cons.prems by (subst atol_loop.simps) (simp add: cstring_simps long_range_def mult.commute)
qed

lemma skip_spaces_end:
  "cstring mem p (replicate n (of_char CHR '' '') @ s) \<Longrightarrow> (s = [] \<or> hd s \<noteq> of_char CHR '' '')
    \<Longrightarrow> \<exists>q. skip_spaces mem p = Some q \<and> cstring mem q s"
proof (induction n arbitrary: p)
  case 0
  then show ?case by (subst skip_spaces.simps) (cases s; auto simp: cstring_simps)
next
  case (Suc n)
  then show ?case by (subst skip_spaces.simps) (auto simp: cstring_simps)
qed

text \<open>\<open>atol\<close> of spaces, an optional sign and digits whose value fits.\<close>

lemma atol_decimal:
  assumes "cstring mem p (replicate n (of_char CHR '' '') @ s)" "s = sg @ ds" "sg \<in> {[], [of_char CHR ''-''], [of_char CHR ''+'']}"
    and "list_all is_digit ds" "decimal ds < 2 ^ 31" "ds \<noteq> []"
  shows "atol mem p = Some (if sg = [of_char CHR ''-''] then - decimal ds else decimal ds)"
proof -
  obtain d ds' where ds: "ds = d # ds'" using assms(6) by (cases ds) auto
  then have d: "48 \<le> uint d" "uint d \<le> 57" using assms(4) by (auto simp: is_digit_def)
  then have nd: "d \<noteq> of_char CHR '' ''" "d \<noteq> of_char CHR ''-''" "d \<noteq> of_char CHR ''+''" by auto
  have "s \<noteq> [] \<and> hd s \<noteq> of_char CHR '' ''" using assms(2,3) ds nd by auto
  then obtain q where q: "skip_spaces mem p = Some q" and c: "cstring mem q s" using skip_spaces_end [OF assms(1)] by blast
  have nn: "0 \<le> decimal ds" using decimal_foldl_mono [OF assms(4), of 0] by (simp add: decimal_def)
  have loop: "cstring mem r ds \<Longrightarrow> atol_loop mem 0 r = Some (decimal ds)" for r
    using atol_loop_decimal [of mem r ds 0] assms(4,5) by (simp add: decimal_def)
  have small: "long_range (- decimal ds) = Some (- decimal ds)" using nn assms(5) by (simp add: long_range_def)
  have mq: "mem q = Some d" if "sg = []" using c that assms(2) by (simp add: ds cstring_simps)
  have ms: "mem q = Some x \<and> cstring mem (q + 1) ds" if "sg = [x]" for x using c that assms(2) by (simp add: cstring_simps)
  note run = atol_def q bind.bind_lunit Let_def
  consider "sg = []" | "sg = [of_char CHR ''-'']" | "sg = [of_char CHR ''+'']" using assms(3) by blast
  then show ?thesis
  proof cases
    case 1
    then have "cstring mem q ds" using c assms(2) by simp
    then show ?thesis using 1 mq nd loop unfolding run by simp
  next
    case 2
    then show ?thesis using ms [OF 2] loop small unfolding run by simp
  next
    case 3
    then show ?thesis using ms [OF 3] loop unfolding run by simp
  qed
qed

end
