(* ===== verification/RtPrint.thy ===== *)
theory RtPrint
  imports RtMem
begin

unbundle bit_operations_syntax

text \<open>
  Formatted output of the run-time library (\<open>vprintfmt\<close> and what is built on it). Characters, as \<open>int\<close>, go to a function \<open>putch\<close> on
  a state \<open>'st\<close> of its own; \<open>memof\<close> gives the memory in which the format and the strings are read.
\<close>

section \<open>Numbers\<close>

fun put_all :: "(i32 \<Rightarrow> 'st \<Rightarrow> 'st option) \<Rightarrow> i8 list \<Rightarrow> 'st \<Rightarrow> 'st option" where
  "put_all putch [] st = Some st"
| "put_all putch (c # cs) st = Option.bind (putch (ucast c) st) (put_all putch cs)"

text \<open>The digits as they come into the array \<open>digs\<close> of 64 entries, of which the first argument are left.\<close>

fun digs :: "nat \<Rightarrow> nat \<Rightarrow> nat \<Rightarrow> nat list option" where
  "digs 0 b n = None"
| "digs (Suc r) b n =
     (if b = 0 then None else if n < b then Some [n mod b] else map_option ((#) (n mod b)) (digs r b (n div b)))"

definition digit_char :: "nat \<Rightarrow> i8" where
  "digit_char d = (if 10 \<le> d then word_of_nat (d + 87) else word_of_nat (d + 48))"

definition printnum :: "(i32 \<Rightarrow> 'st \<Rightarrow> 'st option) \<Rightarrow> i64 \<Rightarrow> nat \<Rightarrow> int \<Rightarrow> i8 \<Rightarrow> 'st \<Rightarrow> 'st option" where
  "printnum putch num base width padc st = do {
     ds \<leftarrow> digs 64 base (unat num);
     st \<leftarrow> put_all putch (replicate (nat (width - int (length ds))) padc) st;
     put_all putch (map digit_char (rev ds)) st
   }"

section \<open>Arguments\<close>

text \<open>An argument has the type with which it was passed; reading it at another one has no result.\<close>

datatype va = VInt i32 | VLong i32 | VLLong i64 | VPtr i32

fun va_int :: "va list \<Rightarrow> (i32 \<times> va list) option" where
  "va_int (VInt a # args) = Some (a, args)"
| "va_int args = None"

fun va_ptr :: "va list \<Rightarrow> (i32 \<times> va list) option" where
  "va_ptr (VPtr a # args) = Some (a, args)"
| "va_ptr args = None"

text \<open>A pointer can be read as an \<open>unsigned long\<close>, as \<open>%p\<close> does.\<close>

fun getuint :: "va list \<Rightarrow> nat \<Rightarrow> (i64 \<times> va list) option" where
  "getuint (VLLong a # args) lflag = (if 2 \<le> lflag then Some (a, args) else None)"
| "getuint (VLong a # args) lflag = (if lflag = 1 then Some (ucast a, args) else None)"
| "getuint (VPtr a # args) lflag = (if lflag = 1 then Some (ucast a, args) else None)"
| "getuint (VInt a # args) lflag = (if lflag = 0 then Some (ucast a, args) else None)"
| "getuint [] lflag = None"

fun getint :: "va list \<Rightarrow> nat \<Rightarrow> (i64 \<times> va list) option" where
  "getint (VLLong a # args) lflag = (if 2 \<le> lflag then Some (a, args) else None)"
| "getint (VLong a # args) lflag = (if lflag = 1 then Some (scast a, args) else None)"
| "getint (VInt a # args) lflag = (if lflag = 0 then Some (scast a, args) else None)"
| "getint args lflag = None"

section \<open>Conversions\<close>

text \<open>The width field: \<open>ch\<close> is the digit read last, the result stops before the first character that is none.\<close>

partial_function (option) number_field :: "memory \<Rightarrow> i32 \<Rightarrow> int \<Rightarrow> i8 \<Rightarrow> (int \<times> i32) option" where
  "number_field mem fmt precision ch =
     Option.bind (long_range (precision * 10 + uint ch)) (\<lambda>x.
       Option.bind (mem fmt) (\<lambda>c. if c < 48 \<or> 57 < c then Some (x - 48, fmt) else number_field mem (fmt + 1) (x - 48) c))"

text \<open>The characters of a string, at most \<open>precision\<close> of them if that is not negative; the width left over.\<close>

partial_function (option) chars_loop ::
    "('st \<Rightarrow> memory) \<Rightarrow> (i32 \<Rightarrow> 'st \<Rightarrow> 'st option) \<Rightarrow> i32 \<Rightarrow> int \<Rightarrow> int \<Rightarrow> 'st \<Rightarrow> (int \<times> 'st) option" where
  "chars_loop memof putch p precision width st =
     Option.bind (memof st p) (\<lambda>ch.
       if ch \<noteq> 0 \<and> (precision < 0 \<or> 0 \<le> precision - 1)
       then Option.bind (putch (ucast ch) st) (chars_loop memof putch (p + 1) (if precision < 0 then precision else precision - 1) (width - 1))
       else Some (width, st))"

text \<open>\<open>nil\<close> is the address of the text that is printed for a null pointer. The subtraction is one of unsigned numbers.\<close>

definition put_string ::
    "i32 \<Rightarrow> ('st \<Rightarrow> memory) \<Rightarrow> (i32 \<Rightarrow> 'st \<Rightarrow> 'st option) \<Rightarrow> i32 \<Rightarrow> i8 \<Rightarrow> int \<Rightarrow> int \<Rightarrow> 'st \<Rightarrow> 'st option" where
  "put_string nil memof putch p padc width precision st = do {
     let p = (if p = 0 then nil else p);
     (width, st) \<leftarrow> (if 0 < width \<and> padc \<noteq> of_char CHR ''-'' then do {
         n \<leftarrow> strnlen (memof st) p (word_of_int precision);
         let width = sint (word_of_int width - n);
         st \<leftarrow> put_all putch (replicate (nat width) padc) st;
         Some (min width 0, st)
       } else Some (width, st));
     (width, st) \<leftarrow> chars_loop memof putch p precision width st;
     put_all putch (replicate (nat width) (of_char CHR '' '')) st
   }"

text \<open>The minimum of \<open>long long\<close> cannot be negated.\<close>

definition put_signed :: "(i32 \<Rightarrow> 'st \<Rightarrow> 'st option) \<Rightarrow> i64 \<Rightarrow> int \<Rightarrow> i8 \<Rightarrow> 'st \<Rightarrow> 'st option" where
  "put_signed putch num width padc st =
     (if sint num < 0 then
        (if sint num = - (2 ^ 63) then None
         else Option.bind (put_all putch [of_char CHR ''-''] st) (printnum putch (- num) 10 width padc))
      else printnum putch num 10 width padc st)"

text \<open>The local variables of an escape sequence; \<open>altflag\<close> is not used.\<close>

record flags =
  padc :: i8
  width :: int
  precision :: int
  lflag :: nat

text \<open>The switch for the characters that end an escape sequence. \<open>last_fmt\<close> is where the sequence began.\<close>

definition convert ::
    "i32 \<Rightarrow> ('st \<Rightarrow> memory) \<Rightarrow> (i32 \<Rightarrow> 'st \<Rightarrow> 'st option) \<Rightarrow> i8 \<Rightarrow> i32 \<Rightarrow> i32 \<Rightarrow> va list \<Rightarrow> flags
      \<Rightarrow> 'st \<Rightarrow> (i32 \<times> va list \<times> 'st) option" where
  "convert nil memof putch ch last_fmt fmt args fl st =
     (if ch = of_char CHR ''c'' then do {
        (a, args) \<leftarrow> va_int args;
        st \<leftarrow> putch a st;
        Some (fmt, args, st)
      } else if ch = of_char CHR ''s'' then do {
        (p, args) \<leftarrow> va_ptr args;
        st \<leftarrow> put_string nil memof putch p (padc fl) (width fl) (precision fl) st;
        Some (fmt, args, st)
      } else if ch = of_char CHR ''d'' then do {
        (num, args) \<leftarrow> getint args (lflag fl);
        st \<leftarrow> put_signed putch num (width fl) (padc fl) st;
        Some (fmt, args, st)
      } else if ch = of_char CHR ''u'' then do {
        (num, args) \<leftarrow> getuint args (lflag fl);
        st \<leftarrow> printnum putch num 10 (width fl) (padc fl) st;
        Some (fmt, args, st)
      } else if ch = of_char CHR ''o'' then do {
        (num, args) \<leftarrow> getuint args (lflag fl);
        st \<leftarrow> printnum putch num 8 (width fl) (padc fl) st;
        Some (fmt, args, st)
      } else if ch = of_char CHR ''p'' then do {
        st \<leftarrow> put_all putch [of_char CHR ''0'', of_char CHR ''x''] st;
        (num, args) \<leftarrow> getuint args 1;
        st \<leftarrow> printnum putch num 16 (width fl) (padc fl) st;
        Some (fmt, args, st)
      } else if ch = of_char CHR ''x'' then do {
        (num, args) \<leftarrow> getuint args (lflag fl);
        st \<leftarrow> printnum putch num 16 (width fl) (padc fl) st;
        Some (fmt, args, st)
      } else if ch = of_char CHR ''%'' then do {
        st \<leftarrow> putch (ucast ch) st;
        Some (fmt, args, st)
      } else do {
        st \<leftarrow> put_all putch [of_char CHR ''%''] st;
        Some (last_fmt, args, st)
      })"

text \<open>The characters that modify a sequence, and the label \<open>process_precision\<close>.\<close>

definition is_modifier :: "i8 \<Rightarrow> bool" where
  "is_modifier ch = (ch \<in> set (map of_char ''-0*.#l'') \<or> 49 \<le> ch \<and> ch \<le> 57)"

definition process_precision :: "int \<Rightarrow> flags \<Rightarrow> flags" where
  "process_precision p fl = (if width fl < 0 then fl\<lparr>width := p, precision := -1\<rparr> else fl\<lparr>precision := p\<rparr>)"

definition modify :: "memory \<Rightarrow> i8 \<Rightarrow> i32 \<Rightarrow> va list \<Rightarrow> flags \<Rightarrow> (i32 \<times> va list \<times> flags) option" where
  "modify mem ch fmt args fl =
     (if ch = of_char CHR ''-'' \<or> ch = of_char CHR ''0'' then Some (fmt, args, fl\<lparr>padc := ch\<rparr>)
      else if 49 \<le> ch \<and> ch \<le> 57 then do {
        (p, fmt) \<leftarrow> number_field mem fmt 0 ch;
        Some (fmt, args, process_precision p fl)
      } else if ch = of_char CHR ''*'' then do {
        (a, args) \<leftarrow> va_int args;
        Some (fmt, args, process_precision (sint a) fl)
      } else if ch = of_char CHR ''.'' then Some (fmt, args, if width fl < 0 then fl\<lparr>width := 0\<rparr> else fl)
      else if ch = of_char CHR ''l'' then Some (fmt, args, fl\<lparr>lflag := lflag fl + 1\<rparr>)
      else Some (fmt, args, fl))"

partial_function (option) escape ::
    "i32 \<Rightarrow> ('st \<Rightarrow> memory) \<Rightarrow> (i32 \<Rightarrow> 'st \<Rightarrow> 'st option) \<Rightarrow> i32 \<Rightarrow> i32 \<Rightarrow> va list \<Rightarrow> flags
      \<Rightarrow> 'st \<Rightarrow> (i32 \<times> va list \<times> 'st) option" where
  "escape nil memof putch last_fmt fmt args fl st =
     Option.bind (memof st fmt) (\<lambda>ch.
       if is_modifier ch then
         Option.bind (modify (memof st) ch (fmt + 1) args fl)
           (\<lambda>r. escape nil memof putch last_fmt (fst r) (fst (snd r)) (snd (snd r)) st)
       else convert nil memof putch ch last_fmt (fmt + 1) args fl st)"

definition no_flags :: flags where
  "no_flags = \<lparr>padc = of_char CHR '' '', width = -1, precision = -1, lflag = 0\<rparr>"

partial_function (option) vprintfmt ::
    "i32 \<Rightarrow> ('st \<Rightarrow> memory) \<Rightarrow> (i32 \<Rightarrow> 'st \<Rightarrow> 'st option) \<Rightarrow> i32 \<Rightarrow> va list \<Rightarrow> 'st \<Rightarrow> 'st option" where
  "vprintfmt nil memof putch fmt args st =
     Option.bind (memof st fmt) (\<lambda>ch.
       if ch = of_char CHR ''%'' then
         Option.bind (escape nil memof putch (fmt + 1) (fmt + 1) args no_flags st)
           (\<lambda>r. vprintfmt nil memof putch (fst r) (fst (snd r)) (snd (snd r)))
       else if ch = 0 then Some st
       else Option.bind (putch (ucast ch) st) (vprintfmt nil memof putch (fmt + 1) args))"

section \<open>Output to memory\<close>

text \<open>The state is the memory and the pointer; the result is the number of characters.\<close>

definition sprintf_putch :: "i32 \<Rightarrow> memory \<times> i32 \<Rightarrow> (memory \<times> i32) option" where
  "sprintf_putch ch st = map_option (\<lambda>mem. (mem, snd st + 1)) (poke (fst st) (snd st) (ucast ch))"

definition sprintf :: "i32 \<Rightarrow> memory \<Rightarrow> i32 \<Rightarrow> i32 \<Rightarrow> va list \<Rightarrow> (int \<times> memory) option" where
  "sprintf nil mem str fmt args = do {
     (mem, p) \<leftarrow> vprintfmt nil fst sprintf_putch fmt args (mem, str);
     mem \<leftarrow> poke mem p 0;
     Some (sint (p - str), mem)
   }"

section \<open>Output to the host\<close>

text \<open>
  The state of the run-time system: the memory, the buffer of \<open>putchar\<close>, what was passed to the host by calls of \<open>write\<close>,
  and how often \<open>fromhost\<close> was read. The host is a parameter \<open>ack\<close>: whether a reading of \<open>fromhost\<close> is not zero.
\<close>

record rt =
  rt_mem :: memory
  rt_buf :: "i8 list"
  rt_calls :: "i8 list list"
  rt_polls :: nat

partial_function (option) wait_host :: "(nat \<Rightarrow> bool) \<Rightarrow> nat \<Rightarrow> nat option" where
  "wait_host ack n = (if ack n then Some (n + 1) else wait_host ack (n + 1))"

definition syscall_write :: "(nat \<Rightarrow> bool) \<Rightarrow> i8 list \<Rightarrow> rt \<Rightarrow> rt option" where
  "syscall_write ack bytes st =
     map_option (\<lambda>n. st\<lparr>rt_calls := rt_calls st @ [bytes], rt_polls := n\<rparr>) (wait_host ack (rt_polls st))"

definition putchar :: "(nat \<Rightarrow> bool) \<Rightarrow> i32 \<Rightarrow> rt \<Rightarrow> rt option" where
  "putchar ack ch st =
     (let buf = rt_buf st @ [ucast ch] in
      if ch = 10 \<or> length buf = 64 then map_option (\<lambda>st. st\<lparr>rt_buf := []\<rparr>) (syscall_write ack buf st)
      else Some (st\<lparr>rt_buf := buf\<rparr>))"

definition printf :: "(nat \<Rightarrow> bool) \<Rightarrow> i32 \<Rightarrow> i32 \<Rightarrow> va list \<Rightarrow> rt \<Rightarrow> rt option" where
  "printf ack nil fmt args st = vprintfmt nil rt_mem (putchar ack) fmt args st"

partial_function (option) rt_puts_loop :: "(nat \<Rightarrow> bool) \<Rightarrow> i32 \<Rightarrow> rt \<Rightarrow> rt option" where
  "rt_puts_loop ack p st =
     Option.bind (rt_mem st p) (\<lambda>c. if c \<noteq> 0 then Option.bind (putchar ack (ucast c) st) (rt_puts_loop ack (p + 1)) else putchar ack 10 st)"

definition rt_puts :: "(nat \<Rightarrow> bool) \<Rightarrow> i32 \<Rightarrow> rt \<Rightarrow> rt option" where
  "rt_puts = rt_puts_loop"

fun peeks :: "memory \<Rightarrow> i32 \<Rightarrow> nat \<Rightarrow> i8 list option" where
  "peeks mem p 0 = Some []"
| "peeks mem p (Suc n) = Option.bind (mem p) (\<lambda>b. map_option ((#) b) (peeks mem (p + 1) n))"

definition printstr :: "(nat \<Rightarrow> bool) \<Rightarrow> i32 \<Rightarrow> rt \<Rightarrow> rt option" where
  "printstr ack s st = do {
     n \<leftarrow> strlen (rt_mem st) s;
     bytes \<leftarrow> peeks (rt_mem st) s (unat n);
     syscall_write ack bytes st
   }"

text \<open>The text that \<open>printhex\<close> makes in its array, from the last_fmt digit to the first.\<close>

definition hex_text :: "i64 \<Rightarrow> i8 list" where
  "hex_text x = rev (map (\<lambda>i. digit_char (unat (drop_bit (4 * i) x AND 0xF))) [0..<16])"

definition printhex :: "(nat \<Rightarrow> bool) \<Rightarrow> i64 \<Rightarrow> rt \<Rightarrow> rt option" where
  "printhex ack x st = syscall_write ack (hex_text x) st"

text \<open>What is written to \<open>tohost\<close> to end the simulation; \<open>uintptr_t\<close> has 32 bits.\<close>

definition tohost_exit :: "i32 \<Rightarrow> i64" where
  "tohost_exit code = drop_bit 16 (push_bit 17 (ucast code)) OR 1"

end
