(* ===== verification/RtFormat.thy ===== *)
theory RtFormat
  imports RtPrint
begin

unbundle bit_operations_syntax

text \<open>
  What \<open>vprintfmt\<close> prints: formats are sequences of plain characters and directives, and each directive shows its
  argument. The locale \<open>sink\<close> is what is needed of the function that takes the characters; it is interpreted on the
  buffered output of \<open>putchar\<close> and on the memory of \<open>sprintf\<close>.
\<close>

section \<open>Numbers in positional notation\<close>

fun numeral_digits :: "nat \<Rightarrow> nat \<Rightarrow> nat list" where
  "numeral_digits b n = (if n < b \<or> b < 2 then [n] else numeral_digits b (n div b) @ [n mod b])"

declare numeral_digits.simps [simp del]

lemma numeral_digits_small: "n < b \<Longrightarrow> numeral_digits b n = [n]"
  by (simp add: numeral_digits.simps)

lemma numeral_digits_large: "b \<le> n \<Longrightarrow> 2 \<le> b \<Longrightarrow> numeral_digits b n = numeral_digits b (n div b) @ [n mod b]"
  by (subst numeral_digits.simps) simp

lemma numeral_digits_value: "2 \<le> b \<Longrightarrow> foldl (\<lambda>v d. b * v + d) 0 (numeral_digits b n) = n"
proof (induction b n rule: numeral_digits.induct)
  case (1 b n)
  show ?case
  proof (cases "n < b")
    case False
    then show ?thesis using 1 by (simp add: numeral_digits_large)
  qed (use 1 in \<open>simp add: numeral_digits_small\<close>)
qed

lemma numeral_digits_less: "2 \<le> b \<Longrightarrow> list_all (\<lambda>d. d < b) (numeral_digits b n)"
proof (induction b n rule: numeral_digits.induct)
  case (1 b n)
  show ?case
  proof (cases "n < b")
    case False
    then show ?thesis using 1 by (simp add: numeral_digits_large)
  qed (simp add: numeral_digits_small)
qed

text \<open>The array of the C function is long enough for a base of two or more.\<close>

lemma digits_numeral: "2 \<le> b \<Longrightarrow> n < 2 ^ r \<Longrightarrow> 0 < r \<Longrightarrow> digs r b n = Some (rev (numeral_digits b n))"
proof (induction r arbitrary: n)
  case (Suc r)
  show ?case
  proof (cases "n < b")
    case True
    then show ?thesis using Suc.prems by (simp add: numeral_digits_small)
  next
    case False
    have "n div b \<le> n div 2" using Suc.prems(1) by (simp add: div_le_mono2)
    also have "n div 2 < 2 ^ r" using Suc.prems(2) by (simp add: less_mult_imp_div_less mult.commute)
    finally have l: "n div b < 2 ^ r" .
    have "0 < r" using Suc.prems(1,2) False by (cases r) auto
    then show ?thesis using Suc.IH [OF Suc.prems(1) l] Suc.prems(1) False by (simp add: numeral_digits_large)
  qed
qed simp

definition show_number :: "nat \<Rightarrow> int \<Rightarrow> i8 \<Rightarrow> nat \<Rightarrow> i8 list" where
  "show_number b w pad n =
     (let ds = map digit_char (numeral_digits b n) in replicate (nat (w - int (length ds))) pad @ ds)"

section \<open>Formats\<close>

datatype conv = Char | String | Decimal | Unsigned | Octal | Hex | Pointer

fun conv_char :: "conv \<Rightarrow> i8" where
  "conv_char Char = of_char CHR ''c''"
| "conv_char String = of_char CHR ''s''"
| "conv_char Decimal = of_char CHR ''d''"
| "conv_char Unsigned = of_char CHR ''u''"
| "conv_char Octal = of_char CHR ''o''"
| "conv_char Hex = of_char CHR ''x''"
| "conv_char Pointer = of_char CHR ''p''"

text \<open>
  A directive: a flag, a width, a precision, the number of letters \<open>l\<close>, the conversion. A width or precision is missing, is
  written in digits, or is an asterisk and comes from the arguments.
\<close>

datatype pad_flag = No_flag | Zero_flag | Minus_flag

datatype field = Absent | Digits "i8 list" | Star

datatype piece = Plain i8 | Percent | Spec pad_flag field field nat conv

fun render_flag :: "pad_flag \<Rightarrow> i8 list" where
  "render_flag No_flag = []"
| "render_flag Zero_flag = [of_char CHR ''0'']"
| "render_flag Minus_flag = [of_char CHR ''-'']"

fun render_field :: "field \<Rightarrow> i8 list" where
  "render_field Absent = []"
| "render_field (Digits ds) = ds"
| "render_field Star = [of_char CHR ''*'']"

fun render :: "piece \<Rightarrow> i8 list" where
  "render (Plain c) = [c]"
| "render Percent = [of_char CHR ''%'', of_char CHR ''%'']"
| "render (Spec fl w p l cv) =
     [of_char CHR ''%''] @ render_flag fl @ render_field w @ (if p = Absent then [] else [of_char CHR ''.''] @ render_field p)
       @ replicate l (of_char CHR ''l'') @ [conv_char cv]"

text \<open>The value of a field; a number in the format does not begin with a zero, and is small.\<close>

definition good_number :: "i8 list \<Rightarrow> bool" where
  "good_number ds = (ds \<noteq> [] \<and> list_all is_digit ds \<and> hd ds \<noteq> of_char CHR ''0'' \<and> decimal ds + 48 < 2 ^ 31)"

fun field_value :: "field \<Rightarrow> va list \<Rightarrow> (int option \<times> va list) option" where
  "field_value Absent args = Some (None, args)"
| "field_value (Digits ds) args = (if good_number ds then Some (Some (decimal ds), args) else None)"
| "field_value Star (VInt a # args) = Some (Some (sint a), args)"
| "field_value Star args = None"

section \<open>What ISO C asks for\<close>

text \<open>
  The text of a conversion, from the description of \<open>fprintf\<close> in the C standard: a string is cut at the precision, unless that
  is negative; a number has its sign before the zeros, and inside the width; the text is padded with spaces to the width, on
  the left or on the right.
\<close>

definition min_width :: "int option \<Rightarrow> nat" where
  "min_width w = (case w of None \<Rightarrow> 0 | Some v \<Rightarrow> nat v)"

definition justify :: "bool \<Rightarrow> nat \<Rightarrow> i8 list \<Rightarrow> i8 list" where
  "justify left w s =
     (let spaces = replicate (w - length s) (of_char CHR '' '') in if left then s @ spaces else spaces @ s)"

definition iso_string :: "bool \<Rightarrow> nat \<Rightarrow> int option \<Rightarrow> i8 list \<Rightarrow> i8 list" where
  "iso_string left w p s =
     justify left w (case p of None \<Rightarrow> s | Some v \<Rightarrow> if v < 0 then s else take (nat v) s)"

definition iso_integer :: "bool \<Rightarrow> nat \<Rightarrow> nat \<Rightarrow> int \<Rightarrow> i8 list" where
  "iso_integer zeros w b n =
     (let sign = (if n < 0 then [of_char CHR ''-''] else []); ds = map digit_char (numeral_digits b (nat \<bar>n\<bar>))
      in if zeros then sign @ replicate (w - length (sign @ ds)) (of_char CHR ''0'') @ ds else justify False w (sign @ ds))"

fun conv_base :: "conv \<Rightarrow> nat" where
  "conv_base Octal = 8"
| "conv_base Hex = 16"
| "conv_base _ = 10"

text \<open>
  \<open>shown nil holds x args out args'\<close>: the piece \<open>x\<close> of a format is one for which the implementation follows the standard, takes
  its arguments from the front of \<open>args\<close>, leaves \<open>args'\<close>, and \<open>out\<close> is its text in the standard. Not among them: a number with the
  flag \<open>-\<close> or a precision, a negative number narrower than the width, a character with a width, a string with the flag
  \<open>0\<close>, a precision that is a point only or begins with \<open>0\<close>, a negative width from the arguments, the flag \<open>#\<close>. What the standard
  leaves open is as the code has it: \<open>%p\<close> is \<open>0x\<close> and the address, and a null pointer stands for the string at \<open>nil\<close>.
\<close>

inductive shown :: "i32 \<Rightarrow> (i32 \<Rightarrow> i8 list \<Rightarrow> bool) \<Rightarrow> piece \<Rightarrow> va list \<Rightarrow> i8 list \<Rightarrow> va list \<Rightarrow> bool" for nil holds where
  plain: "c \<noteq> 0 \<Longrightarrow> c \<noteq> of_char CHR ''%'' \<Longrightarrow> shown nil holds (Plain c) args [c] args"
| percent: "shown nil holds Percent args [of_char CHR ''%''] args"
| char: "shown nil holds (Spec No_flag Absent Absent 0 Char) (VInt (ucast c) # args) [c] args"
| string: "fl \<noteq> Zero_flag \<Longrightarrow> field_value w args = Some (wv, args1) \<Longrightarrow> (\<And>v. wv = Some v \<Longrightarrow> 0 \<le> v)
    \<Longrightarrow> field_value p args1 = Some (pv, VPtr q # args')
    \<Longrightarrow> holds (if q = 0 then nil else q) s \<Longrightarrow> 0 \<notin> set s \<Longrightarrow> length s < 2 ^ 31
    \<Longrightarrow> shown nil holds (Spec fl w p 0 String) args (iso_string (fl = Minus_flag) (min_width wv) pv s) args'"
| decimal: "fl \<noteq> Minus_flag \<Longrightarrow> field_value w args = Some (wv, args1) \<Longrightarrow> (\<And>v. wv = Some v \<Longrightarrow> 0 \<le> v)
    \<Longrightarrow> getint args1 l = Some (a, args') \<Longrightarrow> - (2 ^ 63) < sint a
    \<Longrightarrow> 0 \<le> sint a \<or> min_width wv \<le> length (numeral_digits 10 (nat \<bar>sint a\<bar>))
    \<Longrightarrow> shown nil holds (Spec fl w Absent l Decimal) args (iso_integer (fl = Zero_flag) (min_width wv) 10 (sint a)) args'"
| unsigned: "fl \<noteq> Minus_flag \<Longrightarrow> field_value w args = Some (wv, args1) \<Longrightarrow> (\<And>v. wv = Some v \<Longrightarrow> 0 \<le> v)
    \<Longrightarrow> getuint args1 l = Some (a, args') \<Longrightarrow> cv \<in> {Unsigned, Octal, Hex}
    \<Longrightarrow> shown nil holds (Spec fl w Absent l cv) args (iso_integer (fl = Zero_flag) (min_width wv) (conv_base cv) (uint a)) args'"
| pointer: "shown nil holds (Spec No_flag Absent Absent 0 Pointer) (VPtr q # args)
    (map of_char ''0x'' @ map digit_char (numeral_digits 16 (unat q))) args"

inductive all_shown :: "i32 \<Rightarrow> (i32 \<Rightarrow> i8 list \<Rightarrow> bool) \<Rightarrow> piece list \<Rightarrow> va list \<Rightarrow> i8 list \<Rightarrow> bool" for nil holds where
  Nil: "all_shown nil holds [] args []"
| Cons: "shown nil holds x args out args' \<Longrightarrow> all_shown nil holds xs args' outs \<Longrightarrow> all_shown nil holds (x # xs) args (out @ outs)"

text \<open>The variables of \<open>vprintfmt\<close> at the conversion.\<close>

fun pad_of :: "pad_flag \<Rightarrow> i8" where
  "pad_of No_flag = of_char CHR '' ''"
| "pad_of Zero_flag = of_char CHR ''0''"
| "pad_of Minus_flag = of_char CHR ''-''"

definition width_of :: "int option \<Rightarrow> field \<Rightarrow> int" where
  "width_of wv p = (case wv of None \<Rightarrow> if p = Absent then -1 else 0 | Some v \<Rightarrow> v)"

definition precision_of :: "int option \<Rightarrow> int" where
  "precision_of pv = (case pv of None \<Rightarrow> -1 | Some v \<Rightarrow> v)"

lemma field_value_bounds: "field_value f args = Some (Some v, args') \<Longrightarrow> - (2 ^ 31) \<le> v \<and> v < 2 ^ 31"
proof (induction f args rule: field_value.induct)
  case (2 ds args)
  then show ?case using decimal_foldl_mono [of ds 0] by (auto simp: good_number_def decimal_def split: if_splits)
next
  case (3 a args)
  then show ?case using sint_ge [of a] sint_lt [of a] by auto
qed auto

lemma width_of_bounds:
  assumes "field_value w args = Some (wv, args1)" "\<And>v. wv = Some v \<Longrightarrow> 0 \<le> v"
  shows "-1 \<le> width_of wv p" "width_of wv p < 2 ^ 31" "nat (width_of wv p) = min_width wv"
  using assms(1) assms(2) field_value_bounds [of w args _ args1]
  by (cases wv; force simp: width_of_def min_width_def)+

text \<open>Where the text of \<open>printnum\<close> is that of the standard.\<close>

lemma show_number_iso:
  assumes "0 \<le> n \<or> nat w \<le> length (numeral_digits b (nat \<bar>n\<bar>))" "fl \<noteq> Minus_flag"
  shows "(if n < 0 then [of_char CHR ''-''] else []) @ show_number b w (pad_of fl) (nat \<bar>n\<bar>)
    = iso_integer (fl = Zero_flag) (nat w) b n"
proof -
  have "nat (w - int k) = nat w - k" for k by simp
  then show ?thesis using assms by (cases fl) (auto simp: show_number_def iso_integer_def justify_def Let_def)
qed

section \<open>Taking characters\<close>

text \<open>
  \<open>putch\<close> appends to \<open>out\<close> as long as there is room, \<open>room st n\<close> for \<open>n\<close> more characters, and does not change the memory
  at the addresses \<open>ro\<close>.
\<close>

locale sink =
  fixes memof :: "'st \<Rightarrow> memory"
    and putch :: "i32 \<Rightarrow> 'st \<Rightarrow> 'st option"
    and out :: "'st \<Rightarrow> i8 list"
    and room :: "'st \<Rightarrow> nat \<Rightarrow> bool"
    and ro :: "i32 set"
  assumes putch_appends: "room st (Suc n) \<Longrightarrow> \<exists>st'. putch (ucast c) st = Some st' \<and> out st' = out st @ [c] \<and> room st' n
      \<and> (\<forall>a \<in> ro. memof st' a = memof st a)"
begin

definition reads :: "memory \<Rightarrow> 'st \<Rightarrow> bool" where
  "reads mem st = (\<forall>a \<in> ro. memof st a = mem a)"

text \<open>\<open>f\<close> succeeds on every state with room and appends \<open>cs\<close>.\<close>

definition emits :: "memory \<Rightarrow> ('st \<Rightarrow> 'st option) \<Rightarrow> i8 list \<Rightarrow> bool" where
  "emits mem f cs = (\<forall>st n. reads mem st \<longrightarrow> room st (length cs + n)
     \<longrightarrow> (\<exists>st'. f st = Some st' \<and> out st' = out st @ cs \<and> room st' n \<and> reads mem st'))"

lemma emitsD:
  "emits mem f cs \<Longrightarrow> reads mem st \<Longrightarrow> room st (length cs + n)
    \<Longrightarrow> \<exists>st'. f st = Some st' \<and> out st' = out st @ cs \<and> room st' n \<and> reads mem st'"
  unfolding emits_def by blast

lemma emits_putch: "emits mem (putch (ucast c)) [c]"
  unfolding emits_def reads_def using putch_appends by fastforce

lemma emits_none: "emits mem Some []"
  by (simp add: emits_def)

lemma emits_bind:
  assumes "emits mem f xs" "emits mem g ys"
  shows "emits mem (\<lambda>st. Option.bind (f st) g) (xs @ ys)"
  unfolding emits_def
proof (intro allI impI)
  fix st n
  assume r: "reads mem st" and l: "room st (length (xs @ ys) + n)"
  obtain st1 where 1: "f st = Some st1" "out st1 = out st @ xs" "room st1 (length ys + n)" "reads mem st1"
    using emitsD [OF assms(1) r, of "length ys + n"] l by (auto simp: add.assoc)
  then show "\<exists>st'. Option.bind (f st) g = Some st' \<and> out st' = out st @ xs @ ys \<and> room st' n \<and> reads mem st'"
    using assms(2) unfolding emits_def by fastforce
qed

lemma emits_cong: "(\<And>st. reads mem st \<Longrightarrow> f st = g st) \<Longrightarrow> emits mem g cs \<Longrightarrow> emits mem f cs"
  unfolding emits_def by simp

lemma emits_put_all: "emits mem (put_all putch cs) cs"
proof (induction cs)
  case Nil
  then show ?case using emits_none by (simp add: emits_def)
next
  case (Cons c cs)
  have "put_all putch (c # cs) = (\<lambda>st. Option.bind (putch (ucast c) st) (put_all putch cs))" by (simp add: fun_eq_iff)
  then show ?case using emits_bind [OF emits_putch Cons] by simp
qed

lemma emits_printnum:
  assumes "2 \<le> b"
  shows "emits mem (printnum putch num b w pad) (show_number b w pad (unat num))"
proof -
  have "unat num < 2 ^ 64" using unsigned_less [of num] by simp
  then have d: "digs 64 b (unat num) = Some (rev (numeral_digits b (unat num)))" using digits_numeral [OF assms] by simp
  show ?thesis
    using emits_bind [OF emits_put_all emits_put_all] unfolding printnum_def d show_number_def Let_def by simp
qed

end

section \<open>Text in memory\<close>

text \<open>The bytes \<open>s\<close> lie at \<open>p\<close>, at addresses that do not change.\<close>

fun text_at :: "memory \<Rightarrow> i32 set \<Rightarrow> i32 \<Rightarrow> i8 list \<Rightarrow> bool" where
  "text_at mem ro p [] = True"
| "text_at mem ro p (c # s) = (p \<in> ro \<and> mem p = Some c \<and> text_at mem ro (p + 1) s)"

lemma text_at_append: "text_at mem ro p (s @ t) \<longleftrightarrow> text_at mem ro p s \<and> text_at mem ro (p + word_of_nat (length s)) t"
  by (induction s arbitrary: p) (auto simp: ac_simps)

definition string_at :: "memory \<Rightarrow> i32 set \<Rightarrow> i32 \<Rightarrow> i8 list \<Rightarrow> bool" where
  "string_at mem ro p s = text_at mem ro p (s @ [0])"

lemma string_at_simps: "string_at mem ro p [] \<longleftrightarrow> p \<in> ro \<and> mem p = Some 0"
  "string_at mem ro p (c # s) \<longleftrightarrow> p \<in> ro \<and> mem p = Some c \<and> string_at mem ro (p + 1) s"
  by (auto simp: string_at_def)

text \<open>The part of a string that the precision allows.\<close>

definition cut :: "int \<Rightarrow> i8 list \<Rightarrow> i8 list" where
  "cut prec s = (if prec < 0 then s else take (nat prec) s)"

lemma cut_Nil [simp]: "cut prec [] = []"
  by (simp add: cut_def)

lemma length_cut: "length (cut prec s) \<le> length s"
  by (simp add: cut_def)

lemma cut_Cons: "prec \<noteq> 0 \<Longrightarrow> cut prec (c # s) = c # cut (if prec < 0 then prec else prec - 1) s"
  by (simp add: cut_def take_Cons' nat_diff_distrib)

context sink begin

lemma reads_at: "reads mem st \<Longrightarrow> p \<in> ro \<Longrightarrow> memof st p = mem p"
  by (simp add: reads_def)

lemma reads_loads: "reads mem st \<Longrightarrow> text_at mem ro p s \<Longrightarrow> loads (memof st) p s"
  by (induction s arbitrary: p) (auto simp: reads_at)

lemma chars_loop_all:
  "string_at mem ro p s \<Longrightarrow> 0 \<notin> set s \<Longrightarrow> reads mem st \<Longrightarrow> room st (length (cut prec s) + n)
    \<Longrightarrow> \<exists>st'. chars_loop memof putch p prec w st = Some (w - int (length (cut prec s)), st')
          \<and> out st' = out st @ cut prec s \<and> room st' n \<and> reads mem st'"
proof (induction s arbitrary: p prec w st)
  case Nil
  then show ?case by (subst chars_loop.simps) (simp add: string_at_simps reads_at)
next
  case (Cons c s)
  show ?case
  proof (cases "prec = 0")
    case True
    then show ?thesis using Cons.prems by (subst chars_loop.simps) (simp add: string_at_simps reads_at cut_def)
  next
    case False
    let ?prec = "if prec < 0 then prec else prec - 1"
    note c = cut_Cons [OF False, of c s]
    obtain st1 where 1: "putch (ucast c) st = Some st1" "out st1 = out st @ [c]" "room st1 (length (cut ?prec s) + n)" "reads mem st1"
      using emitsD [OF emits_putch Cons.prems(3), of c "length (cut ?prec s) + n"] Cons.prems(4) unfolding c by auto
    obtain st2 where "chars_loop memof putch (p + 1) ?prec (w - 1) st1 = Some (w - 1 - int (length (cut ?prec s)), st2)"
      "out st2 = out st1 @ cut ?prec s" "room st2 n" "reads mem st2"
      using Cons.IH [of "p + 1" st1 ?prec "w - 1"] Cons.prems 1 by (auto simp: string_at_simps)
    then show ?thesis
      unfolding c using Cons.prems 1 False by (subst chars_loop.simps) (simp add: string_at_simps reads_at, linarith)
  qed
qed

lemma strnlen_cut:
  assumes "cstring m p s" "length s < 2 ^ 31" "- (2 ^ 31) \<le> prec" "prec < 2 ^ 31"
  shows "strnlen m p (word_of_int prec) = Some (word_of_nat (length (cut prec s)))"
proof -
  have "min (unat (word_of_int prec :: i32)) (length s) = length (cut prec s)"
  proof (cases "prec < 0")
    case True
    then have "uint (word_of_int prec :: i32) = prec + 2 ^ 32"
      using assms(3) mod_add_self2 [of prec "2 ^ 32"] mod_pos_pos_trivial [of "prec + 2 ^ 32" "2 ^ 32"]
      by (simp add: unsigned_of_int take_bit_eq_mod)
    then have "length s \<le> unat (word_of_int prec :: i32)" using assms(2,3) unfolding unat_eq_nat_uint by simp
    then show ?thesis using True by (simp add: cut_def)
  next
    case False
    then have "unat (word_of_int prec :: i32) = nat prec"
      using assms(4) by (simp add: unat_eq_nat_uint unsigned_of_int take_bit_int_eq_self)
    then show ?thesis using False by (simp add: cut_def min_def)
  qed
  then show ?thesis using strnlen_length [OF assms(1), of "word_of_int prec"] by simp
qed

lemma emits_put_string:
  fixes prec :: int and s :: "i8 list"
  defines "t \<equiv> cut prec s"
  assumes p: "string_at mem ro (if p = 0 then nil else p) s" "0 \<notin> set s" "length s < 2 ^ 31"
    and w: "w < 2 ^ 31" "- (2 ^ 31) \<le> prec" "prec < 2 ^ 31"
  shows "emits mem (\<lambda>st. put_string nil memof putch p pad w prec st)
    (if pad = of_char CHR ''-'' then t @ replicate (nat (w - int (length t))) (of_char CHR '' '')
     else replicate (nat (w - int (length t))) pad @ t)"
  unfolding emits_def
proof (intro allI impI)
  fix st n
  let ?p = "if p = 0 then nil else p" and ?minus = "of_char CHR ''-'' :: i8" and ?space = "of_char CHR '' '' :: i8"
  let ?k = "nat (w - int (length t))"
  let ?cs = "if pad = ?minus then t @ replicate ?k ?space else replicate ?k pad @ t"
  assume r: "reads mem st" and l: "room st (length ?cs + n)"
  have cs: "cstring (memof st) ?p s" using reads_loads [OF r] p(1,2) by (simp add: cstring_def string_at_def)
  have tl: "length t < 2 ^ 31" using p(3) length_cut [of prec s] unfolding t_def by linarith
  show "\<exists>st'. put_string nil memof putch p pad w prec st = Some st' \<and> out st' = out st @ ?cs \<and> room st' n \<and> reads mem st'"
  proof (cases "0 < w \<and> pad \<noteq> ?minus")
    case True
    let ?pre = "replicate ?k pad"
    obtain st1 where 1: "put_all putch ?pre st = Some st1" "out st1 = out st @ ?pre" "room st1 (length t + n)" "reads mem st1"
      using emitsD [OF emits_put_all r, of ?pre "length t + n"] l True by (auto simp: add.assoc)
    have si: "sint (word_of_int w - word_of_nat (length t) :: i32) = w - int (length t)"
    proof -
      have e: "(word_of_int w - word_of_nat (length t) :: i32) = word_of_int (w - int (length t))" by (simp add: of_int_diff)
      show ?thesis unfolding e sint_sbintrunc' using True w(1) tl by (intro signed_take_bit_int_eq_self) simp_all
    qed
    obtain st3 where 3: "chars_loop memof putch ?p prec (min (w - int (length t)) 0) st1
        = Some (min (w - int (length t)) 0 - int (length t), st3)" "out st3 = out st1 @ t" "room st3 n" "reads mem st3"
      using chars_loop_all [OF p(1,2) 1(4) 1(3) [unfolded t_def]] unfolding t_def [symmetric] by blast
    have z: "nat (min (w - int (length t)) 0 - int (length t)) = 0" by simp
    show ?thesis unfolding put_string_def Let_def
      using True strnlen_cut [OF cs p(3) w(2,3)] si 1 3 z by (simp add: t_def [symmetric])
  next
    case False
    have "room st (length t + (?k + n))"
    proof (cases "pad = ?minus")
      case True
      then show ?thesis using l by (simp add: add.assoc)
    next
      case np: False
      then have "?k = 0" using False by simp
      then show ?thesis using l np by simp
    qed
    then obtain st3 where 3: "chars_loop memof putch ?p prec w st = Some (w - int (length t), st3)"
      "out st3 = out st @ t" "room st3 (?k + n)" "reads mem st3"
      using chars_loop_all [OF p(1,2) r] unfolding t_def [symmetric] by (metis t_def)
    obtain st4 where "put_all putch (replicate ?k ?space) st3 = Some st4" "out st4 = out st3 @ replicate ?k ?space" "room st4 n" "reads mem st4"
      using emitsD [OF emits_put_all 3(4), of "replicate ?k ?space" n] 3(3) by auto
    moreover have "pad \<noteq> ?minus \<Longrightarrow> ?k = 0" using False by simp
    ultimately show ?thesis unfolding put_string_def Let_def using False 3 by auto
  qed
qed

end

section \<open>Escape sequences\<close>

lemma good_number_Cons: "good_number (c # w) \<Longrightarrow> 49 \<le> c \<and> c \<le> 57 \<and> list_all is_digit w"
proof -
  assume a: "good_number (c # w)"
  then have "48 \<le> uint c" "uint c \<le> 57" "uint c \<noteq> uint (48 :: i8)" "list_all is_digit w"
    by (auto simp: good_number_def is_digit_def word_uint_eq_iff)
  then show ?thesis by (simp add: word_le_def)
qed

lemma number_field_decimal:
  "loads mem p (ds @ [c]) \<Longrightarrow> list_all is_digit ds \<Longrightarrow> \<not> is_digit c \<Longrightarrow> 0 \<le> v
    \<Longrightarrow> foldl (\<lambda>v c. 10 * v + (uint c - 48)) (10 * v + (uint ch - 48)) ds + 48 < 2 ^ 31 \<Longrightarrow> is_digit ch
    \<Longrightarrow> number_field mem p v ch = Some (foldl (\<lambda>v c. 10 * v + (uint c - 48)) (10 * v + (uint ch - 48)) ds, p + word_of_nat (length ds))"
proof (induction ds arbitrary: p v ch)
  case Nil
  have n: "c < 48 \<or> 57 < c" using Nil.prems(3) by (auto simp: is_digit_def word_less_def)
  have "long_range (v * 10 + uint ch) = Some (v * 10 + uint ch)"
    using Nil.prems(4,5,6) by (simp add: long_range_def is_digit_def)
  then show ?case using Nil.prems(1) n by (subst number_field.simps) simp
next
  case (Cons d ds)
  let ?v = "10 * v + (uint ch - 48)"
  have v: "0 \<le> ?v" using Cons.prems(4,6) by (simp add: is_digit_def)
  have d: "is_digit d" "\<not> (d < 48 \<or> 57 < d)" using Cons.prems(2) by (auto simp: is_digit_def word_less_def)
  have "0 \<le> 10 * ?v + (uint d - 48)" using v d(1) unfolding is_digit_def by simp
  then have "10 * ?v + (uint d - 48) \<le> foldl (\<lambda>v c. 10 * v + (uint c - 48)) (10 * ?v + (uint d - 48)) ds"
    using decimal_foldl_mono Cons.prems(2) by simp
  then have "?v + 48 < 2 ^ 31" using Cons.prems(5) v d(1) unfolding is_digit_def by simp
  then have r: "long_range (v * 10 + uint ch) = Some (v * 10 + uint ch)" using v by (simp add: long_range_def)
  have "number_field mem (p + 1) ?v d
      = Some (foldl (\<lambda>v c. 10 * v + (uint c - 48)) (10 * ?v + (uint d - 48)) ds, p + 1 + word_of_nat (length ds))"
    using Cons.IH [of "p + 1" ?v d] Cons.prems v d by simp
  moreover have "number_field mem p v ch = number_field mem (p + 1) ?v d"
  proof -
    have e: "?v = v * 10 + uint ch - 48" by simp
    show ?thesis unfolding e using Cons.prems(1) d(2) r by (subst number_field.simps) simp
  qed
  ultimately show ?case by (simp add: add.assoc)
qed

context sink begin

definition yields :: "memory \<Rightarrow> ('st \<Rightarrow> (i32 \<times> va list \<times> 'st) option) \<Rightarrow> i8 list \<Rightarrow> i32 \<Rightarrow> va list \<Rightarrow> bool" where
  "yields mem f cs fmt args = (\<forall>st n. reads mem st \<longrightarrow> room st (length cs + n)
     \<longrightarrow> (\<exists>st'. f st = Some (fmt, args, st') \<and> out st' = out st @ cs \<and> room st' n \<and> reads mem st'))"

lemma yields_emits: "emits mem g cs \<Longrightarrow> yields mem (\<lambda>st. Option.bind (g st) (\<lambda>st. Some (fmt, args, st))) cs fmt args"
  unfolding yields_def using emitsD by fastforce

lemma uint_word_of_int_64: "uint (word_of_int k :: i64) = take_bit 64 k"
  by (simp add: unsigned_of_int)

lemma emits_put_signed:
  assumes "- (2 ^ 63) < sint a"
  shows "emits mem (put_signed putch a w pad) ((if sint a < 0 then [of_char CHR ''-''] else []) @ show_number 10 w pad (nat \<bar>sint a\<bar>))"
proof (cases "sint a < 0")
  case True
  have "unat (- a) = nat (- sint a)"
  proof -
    have "- a = word_of_int (- sint a)" by simp
    then have "uint (- a) = take_bit 64 (- sint a)" using uint_word_of_int_64 by metis
    also have "\<dots> = - sint a" using True assms by (intro take_bit_int_eq_self) simp_all
    finally show ?thesis by (simp add: unat_eq_nat_uint)
  qed
  then show ?thesis
    using emits_bind [OF emits_put_all emits_printnum, of 10 mem "[of_char CHR ''-'']" "- a" w pad] True assms
    unfolding put_signed_def by (simp add: emits_def)
next
  case False
  have "unat a = nat (sint a)"
  proof -
    have "a = word_of_int (sint a)" by simp
    then have "uint a = take_bit 64 (sint a)" using uint_word_of_int_64 by metis
    also have "\<dots> = sint a" using False sint_lt [of a] by (intro take_bit_int_eq_self) simp_all
    finally show ?thesis by (simp add: unat_eq_nat_uint)
  qed
  then show ?thesis using emits_printnum [of 10 mem a w pad] False unfolding put_signed_def by (simp add: emits_def)
qed

lemma emits_show_iso:
  assumes "0 \<le> sint a \<or> nat w \<le> length (numeral_digits 10 (nat \<bar>sint a\<bar>))" "fl \<noteq> Minus_flag" "- (2 ^ 63) < sint a"
  shows "emits mem (put_signed putch a w (pad_of fl)) (iso_integer (fl = Zero_flag) (nat w) 10 (sint a))"
  using emits_put_signed [OF assms(3), of mem w "pad_of fl"] unfolding show_number_iso [OF assms(1,2)] .

lemma emits_unsigned_iso:
  assumes "2 \<le> b" "fl \<noteq> Minus_flag"
  shows "emits mem (printnum putch a b w (pad_of fl)) (iso_integer (fl = Zero_flag) (nat w) b (uint a))"
proof -
  have u: "nat \<bar>uint a\<bar> = unat a" by simp
  have "0 \<le> uint a \<or> nat w \<le> length (numeral_digits b (nat \<bar>uint a\<bar>))" by simp
  from show_number_iso [OF this assms(2)] have "show_number b w (pad_of fl) (unat a) = iso_integer (fl = Zero_flag) (nat w) b (uint a)"
    unfolding u by simp
  then show ?thesis using emits_printnum [OF assms(1), of mem a w "pad_of fl"] by (simp only:)
qed

lemma convert_shown:
  assumes s: "shown nil (string_at mem ro) (Spec fl w p l cv) args cs args'"
    and w: "field_value w args = Some (wv, args1)" and p: "field_value p args1 = Some (pv, args2)"
  shows "yields mem (\<lambda>st. convert nil memof putch (conv_char cv) last_fmt fmt args2
    \<lparr>padc = pad_of fl, width = width_of wv p, precision = precision_of pv, lflag = l\<rparr> st) cs fmt args'"
  using s
proof cases
  case (char c)
  have e: "args2 = VInt (ucast c) # args'" using char w p by simp
  show ?thesis using yields_emits [OF emits_putch, of mem c fmt args'] char unfolding e by (simp add: convert_def)
next
  case (string wv' args1' pv' q s)
  then have e: "wv' = wv" "args1' = args1" "pv' = pv" "args2 = VPtr q # args'" using w p by simp_all
  note b = width_of_bounds [OF string(5,6), of p]
  have pb: "- (2 ^ 31) \<le> precision_of pv" "precision_of pv < 2 ^ 31"
    using p field_value_bounds [of p args1] by (auto simp: precision_of_def split: option.split)
  have t: "cut (precision_of pv) s = (case pv of None \<Rightarrow> s | Some v \<Rightarrow> if v < 0 then s else take (nat v) s)"
    by (simp add: cut_def precision_of_def split: option.split)
  have n: "nat (v - int k) = nat v - k" for v k by simp
  have "fl = No_flag \<or> fl = Minus_flag" using string(4) by (cases fl) auto
  then have "(if pad_of fl = of_char CHR ''-'' then cut (precision_of pv) s @ replicate (nat (width_of wv p - int (length (cut (precision_of pv) s)))) (of_char CHR '' '')
      else replicate (nat (width_of wv p - int (length (cut (precision_of pv) s)))) (pad_of fl) @ cut (precision_of pv) s)
      = iso_string (fl = Minus_flag) (min_width wv) pv s"
    using b(3) unfolding e iso_string_def justify_def t n Let_def by auto
  then show ?thesis
    using yields_emits [OF emits_put_string [OF string(8-10) _ pb], of "width_of wv p" "pad_of fl" fmt args'] b(2) string(1-3)
    unfolding e by (simp add: convert_def)
next
  case (decimal wv' args1' a)
  then have e: "wv' = wv" "args1' = args1" "args2 = args1" using w p by simp_all
  note b = width_of_bounds [OF decimal(5,6), of p]
  show ?thesis
    using yields_emits [OF emits_show_iso [of a "width_of wv p" fl], of mem fmt args'] decimal b
    unfolding e by (simp add: convert_def)
next
  case (unsigned wv' args1' a)
  then have e: "wv' = wv" "args1' = args1" "args2 = args1" using w p by simp_all
  note b = width_of_bounds [OF unsigned(4,5), of p]
  have "2 \<le> conv_base cv" using unsigned(7) by auto
  from yields_emits [OF emits_unsigned_iso [OF this unsigned(3)], of mem a "width_of wv p" fmt args']
  show ?thesis using unsigned b unfolding e by (auto simp: convert_def)
next
  case (pointer q)
  have e: "args2 = VPtr q # args'" "wv = None" "pv = None" using pointer w p by simp_all
  have "unat q < 2 ^ 32" using unsigned_less [of q] by simp
  then have "take_bit 64 (unat q) = unat q" by (intro take_bit_nat_eq_self) simp
  then have u: "unat (ucast q :: i64) = unat q" by (simp add: unsigned_ucast_eq)
  have "emits mem (printnum putch (ucast q) 16 (-1) (of_char CHR '' '')) (map digit_char (numeral_digits 16 (unat q)))"
    using emits_printnum [of 16 mem "ucast q" "-1" "of_char CHR '' ''"] by (simp add: show_number_def u)
  from yields_emits [OF emits_bind [OF emits_put_all this], of "map of_char ''0x''" fmt args']
  show ?thesis using pointer unfolding e by (simp add: convert_def width_of_def precision_of_def)
qed

end

text \<open>Reading the modifiers.\<close>

lemma modifier_long: "is_modifier (of_char CHR ''l'')"
  "modify mem (of_char CHR ''l'') fmt args fl = Some (fmt, args, fl\<lparr>lflag := lflag fl + 1\<rparr>)"
  by (simp_all add: is_modifier_def modify_def)

lemma modifier_zero: "is_modifier (of_char CHR ''0'')"
  "modify mem (of_char CHR ''0'') fmt args fl = Some (fmt, args, fl\<lparr>padc := of_char CHR ''0''\<rparr>)"
  by (simp_all add: is_modifier_def modify_def)

lemma conv_char_no_modifier: "\<not> is_modifier (conv_char cv)" "conv_char cv \<noteq> of_char CHR ''l''" "\<not> is_digit (conv_char cv)"
  by (cases cv; simp add: is_modifier_def is_digit_def)+

context sink begin

lemma escape_modifier:
  "memof st fmt = Some ch \<Longrightarrow> is_modifier ch \<Longrightarrow> modify (memof st) ch (fmt + 1) args fl = Some (fmt', args', fl')
    \<Longrightarrow> escape nil memof putch last_fmt fmt args fl st = escape nil memof putch last_fmt fmt' args' fl' st"
  by (subst escape.simps) simp

lemma escape_longs:
  "loads (memof st) fmt (replicate l (of_char CHR ''l'')) \<Longrightarrow>
    escape nil memof putch last_fmt fmt args fl st
      = escape nil memof putch last_fmt (fmt + word_of_nat l) args (fl\<lparr>lflag := lflag fl + l\<rparr>) st"
proof (induction l arbitrary: fmt fl)
  case (Suc l)
  have "escape nil memof putch last_fmt fmt args fl st
      = escape nil memof putch last_fmt (fmt + 1) args (fl\<lparr>lflag := lflag fl + 1\<rparr>) st"
  proof -
    have "memof st fmt = Some (of_char CHR ''l'')" using Suc.prems by (simp only: replicate_Suc loads.simps)
    from escape_modifier [OF this modifier_long] show ?thesis .
  qed
  then show ?case using Suc.IH [of "fmt + 1" "fl\<lparr>lflag := lflag fl + 1\<rparr>"] Suc.prems by (simp add: add.assoc)
qed simp

text \<open>A width or a precision.\<close>

lemma escape_field:
  assumes l: "loads (memof st) fmt (render_field f @ [c])" and c: "\<not> is_digit c" and v: "field_value f args = Some (v, args')"
  shows "escape nil memof putch last_fmt fmt args fl st
    = escape nil memof putch last_fmt (fmt + word_of_nat (length (render_field f))) args'
        (case v of None \<Rightarrow> fl | Some x \<Rightarrow> process_precision x fl) st"
proof (cases f)
  case Absent
  then show ?thesis using v by simp
next
  case Star
  then obtain a where "args = VInt a # args'" "v = Some (sint a)" using v by (cases args; cases "hd args") auto
  then show ?thesis
    using escape_modifier [of st fmt "of_char CHR ''*''" args fl] l Star by (simp add: is_modifier_def modify_def)
next
  case (Digits w)
  then have g: "good_number w" "v = Some (decimal w)" "args' = args" using v by (simp_all split: if_splits)
  then obtain d ds where w: "w = d # ds" by (cases w) (auto simp: good_number_def)
  have d: "49 \<le> d \<and> d \<le> 57" "list_all is_digit ds" "is_digit d" "decimal w + 48 < 2 ^ 31"
    using good_number_Cons [of d ds] g(1) unfolding w good_number_def by auto
  have v: "decimal w = foldl (\<lambda>v c. 10 * v + (uint c - 48)) (10 * 0 + (uint d - 48)) ds" by (simp add: decimal_def w)
  have "number_field (memof st) (fmt + 1) 0 d = Some (decimal w, fmt + 1 + word_of_nat (length ds))"
  proof -
    have "loads (memof st) (fmt + 1) (ds @ [c])" using l by (simp add: Digits w)
    from number_field_decimal [OF this d(2) c, of 0 d] show ?thesis using d(3,4) unfolding v by simp
  qed
  moreover have "d \<noteq> of_char CHR ''-''" "d \<noteq> of_char CHR ''0''" using d(1) by auto
  ultimately have "modify (memof st) d (fmt + 1) args fl = Some (fmt + 1 + word_of_nat (length ds), args, process_precision (decimal w) fl)"
    using d(1) by (simp add: modify_def)
  then show ?thesis
    using escape_modifier [of st fmt d args fl] l d(1) by (simp add: g(2,3) Digits w is_modifier_def add.assoc)
qed

lemma escape_pad_flag:
  assumes "loads (memof st) fmt (render_flag f)"
  shows "escape nil memof putch last_fmt fmt args no_flags st
    = escape nil memof putch last_fmt (fmt + word_of_nat (length (render_flag f))) args (no_flags\<lparr>padc := pad_of f\<rparr>) st"
  using escape_modifier [of st fmt "hd (render_flag f)" args no_flags "fmt + 1" args "no_flags\<lparr>padc := pad_of f\<rparr>"] assms
  by (cases f) (simp_all add: is_modifier_def modify_def, simp add: no_flags_def)

lemma loads_append: "loads m p (s @ t) \<longleftrightarrow> loads m p s \<and> loads m (p + word_of_nat (length s)) t"
  by (induction s arbitrary: p) (auto simp: ac_simps)

text \<open>The point makes the width zero if there is none.\<close>

lemma escape_precision:
  assumes l: "loads (memof st) fmt ((if p = Absent then [] else [of_char CHR ''.''] @ render_field p) @ [c])"
    and c: "\<not> is_digit c" and p: "field_value p args = Some (pv, args')"
    and fl: "fl = \<lparr>padc = pad, width = (case wv of None \<Rightarrow> -1 | Some v \<Rightarrow> v), precision = -1, lflag = 0\<rparr>" "\<And>v. wv = Some v \<Longrightarrow> 0 \<le> v"
  shows "escape nil memof putch last_fmt fmt args fl st
    = escape nil memof putch last_fmt (fmt + word_of_nat (length (if p = Absent then [] else [of_char CHR ''.''] @ render_field p))) args'
        \<lparr>padc = pad, width = width_of wv p, precision = precision_of pv, lflag = 0\<rparr> st"
proof (cases "p = Absent")
  case True
  then show ?thesis using p fl by (simp add: width_of_def precision_of_def)
next
  case False
  let ?f = "\<lparr>padc = pad, width = width_of wv p, precision = -1, lflag = 0\<rparr>"
  have m: "modify (memof st) (of_char CHR ''.'') (fmt + 1) args fl = Some (fmt + 1, args, ?f)"
    using fl False by (auto simp: modify_def width_of_def split: option.split)
  have "escape nil memof putch last_fmt fmt args fl st = escape nil memof putch last_fmt (fmt + 1) args ?f st"
    using l False by (intro escape_modifier [OF _ _ m]) (simp_all add: is_modifier_def)
  also have "\<dots> = escape nil memof putch last_fmt (fmt + 1 + word_of_nat (length (render_field p))) args'
        (case pv of None \<Rightarrow> ?f | Some x \<Rightarrow> process_precision x ?f) st"
    using l False by (intro escape_field [OF _ c p]) simp
  also have "(case pv of None \<Rightarrow> ?f | Some x \<Rightarrow> process_precision x ?f)
      = \<lparr>padc = pad, width = width_of wv p, precision = precision_of pv, lflag = 0\<rparr>"
    using fl(2) False by (auto simp: process_precision_def width_of_def precision_of_def split: option.split)
  finally show ?thesis using False by (simp add: add.assoc)
qed

lemma escape_flags:
  fixes f :: pad_flag and w p :: field and l :: nat and cv :: conv
  defines "u \<equiv> render_flag f @ render_field w @ (if p = Absent then [] else [of_char CHR ''.''] @ render_field p)
      @ replicate l (of_char CHR ''l'') @ [conv_char cv]"
  assumes t: "loads (memof st) fmt u"
    and w: "field_value w args = Some (wv, args1)" "\<And>v. wv = Some v \<Longrightarrow> 0 \<le> v" and p: "field_value p args1 = Some (pv, args2)"
  shows "escape nil memof putch last_fmt fmt args no_flags st
    = convert nil memof putch (conv_char cv) last_fmt (fmt + word_of_nat (length u)) args2
        \<lparr>padc = pad_of f, width = width_of wv p, precision = precision_of pv, lflag = l\<rparr> st"
proof -
  let ?ps = "if p = Absent then [] else [of_char CHR ''.''] @ render_field p" and ?ls = "replicate l (of_char CHR ''l'') @ [conv_char cv]"
  let ?p1 = "fmt + word_of_nat (length (render_flag f))" let ?p2 = "?p1 + word_of_nat (length (render_field w))"
  let ?p3 = "?p2 + word_of_nat (length ?ps)" let ?p4 = "?p3 + word_of_nat l"
  let ?f1 = "no_flags\<lparr>padc := pad_of f\<rparr>" and ?f2 = "\<lparr>padc = pad_of f, width = (case wv of None \<Rightarrow> -1 | Some v \<Rightarrow> v), precision = -1, lflag = 0\<rparr>"
  let ?f3 = "\<lparr>padc = pad_of f, width = width_of wv p, precision = precision_of pv, lflag = 0\<rparr>"
  have nd: "\<not> is_digit (hd ?ls)" "\<not> is_digit (hd (?ps @ ?ls))"
    using conv_char_no_modifier by (cases l; simp add: is_digit_def)+
  have m: "loads (memof st) fmt (render_flag f)" "loads (memof st) ?p1 (render_field w @ [hd (?ps @ ?ls)])"
      "loads (memof st) ?p2 (?ps @ [hd ?ls])" "loads (memof st) ?p3 ?ls"
    using t unfolding u_def by (cases l; auto simp: loads_append)+
  have ls: "loads (memof st) ?p3 (replicate l (of_char CHR ''l''))" "memof st ?p4 = Some (conv_char cv)"
    using m(4) unfolding loads_append by simp_all
  have "escape nil memof putch last_fmt fmt args no_flags st = escape nil memof putch last_fmt ?p1 args ?f1 st"
    by (rule escape_pad_flag [OF m(1)])
  also have "\<dots> = escape nil memof putch last_fmt ?p2 args1 (case wv of None \<Rightarrow> ?f1 | Some x \<Rightarrow> process_precision x ?f1) st"
    by (rule escape_field [OF m(2) nd(2) w(1)])
  also have "(case wv of None \<Rightarrow> ?f1 | Some x \<Rightarrow> process_precision x ?f1) = ?f2"
    by (simp add: no_flags_def process_precision_def split: option.split)
  also have "escape nil memof putch last_fmt ?p2 args1 ?f2 st = escape nil memof putch last_fmt ?p3 args2 ?f3 st"
    by (rule escape_precision [OF m(3) nd(1) p refl w(2)])
  also have "\<dots> = escape nil memof putch last_fmt ?p4 args2 (?f3\<lparr>lflag := l\<rparr>) st"
    using escape_longs [OF ls(1), of nil last_fmt args2 ?f3] by simp
  also have "\<dots> = convert nil memof putch (conv_char cv) last_fmt (?p4 + 1) args2 (?f3\<lparr>lflag := l\<rparr>) st"
    using ls(2) conv_char_no_modifier(1) by (subst escape.simps) simp
  also have "?p4 + 1 = fmt + word_of_nat (length u)" by (simp add: u_def ac_simps)
  finally show ?thesis by simp
qed

end

section \<open>Whole formats\<close>

context sink begin

lemma emits_yields_bind:
  assumes "yields mem f xs fmt args" "emits mem (g fmt args) ys"
  shows "emits mem (\<lambda>st. Option.bind (f st) (\<lambda>r. g (fst r) (fst (snd r)) (snd (snd r)))) (xs @ ys)"
  unfolding emits_def
proof (intro allI impI)
  fix st n
  assume r: "reads mem st" and l: "room st (length (xs @ ys) + n)"
  have "room st (length xs + (length ys + n))" using l by (simp add: add.assoc)
  then obtain st1 where 1: "f st = Some (fmt, args, st1)" "out st1 = out st @ xs" "room st1 (length ys + n)" "reads mem st1"
    using assms(1) r unfolding yields_def by blast
  then show "\<exists>st'. Option.bind (f st) (\<lambda>r. g (fst r) (fst (snd r)) (snd (snd r))) = Some st' \<and> out st' = out st @ xs @ ys
      \<and> room st' n \<and> reads mem st'"
    using emitsD [OF assms(2) 1(4,3)] by auto
qed

lemma yields_cong: "(\<And>st. reads mem st \<Longrightarrow> f st = g st) \<Longrightarrow> yields mem g cs fmt args \<Longrightarrow> yields mem f cs fmt args"
  unfolding yields_def by simp

lemma escape_percent:
  assumes "reads mem st" "p \<in> ro" "mem p = Some (of_char CHR ''%'')"
  shows "escape nil memof putch last_fmt p args fl st = Option.bind (putch (ucast (of_char CHR ''%'' :: i8)) st) (\<lambda>st. Some (p + 1, args, st))"
proof -
  have "\<not> is_modifier (of_char CHR ''%'')" by (simp add: is_modifier_def)
  then show ?thesis using reads_at [OF assms(1,2)] assms(3) by (subst escape.simps) (simp add: convert_def)
qed

lemma escape_shown:
  assumes s: "shown nil (string_at mem ro) x args cs args'" and x: "render x = of_char CHR ''%'' # u"
    and t: "text_at mem ro p u"
  shows "yields mem (escape nil memof putch p p args no_flags) cs (p + word_of_nat (length u)) args'"
proof (cases x)
  case (Plain c)
  then show ?thesis using s x by (auto elim: shown.cases)
next
  case Percent
  then have "u = [of_char CHR ''%'']" "cs = [of_char CHR ''%'']" "args' = args" using s x by (auto elim: shown.cases)
  moreover have "yields mem (escape nil memof putch p p args no_flags) [of_char CHR ''%''] (p + 1) args"
    using yields_cong [OF escape_percent yields_emits [OF emits_putch]] t calculation(1) by simp
  ultimately show ?thesis by simp
next
  case (Spec f w p' l cv)
  obtain wv args1 pv args2 where f: "field_value w args = Some (wv, args1)" "\<And>v. wv = Some v \<Longrightarrow> 0 \<le> v" "field_value p' args1 = Some (pv, args2)"
    using s unfolding Spec by cases auto
  have u: "u = render_flag f @ render_field w @ (if p' = Absent then [] else [of_char CHR ''.''] @ render_field p')
      @ replicate l (of_char CHR ''l'') @ [conv_char cv]" using x Spec by simp
  have "escape nil memof putch p p args no_flags st = convert nil memof putch (conv_char cv) p (p + word_of_nat (length u)) args2
      \<lparr>padc = pad_of f, width = width_of wv p', precision = precision_of pv, lflag = l\<rparr> st" if "reads mem st" for st
    unfolding u by (rule escape_flags [OF reads_loads [OF that t, unfolded u] f])
  then show ?thesis using convert_shown [OF s [unfolded Spec] f(1,3)] by (rule yields_cong)
qed

lemma vprintfmt_emits:
  "all_shown nil (string_at mem ro) xs args cs \<Longrightarrow> text_at mem ro fmt (concat (map render xs) @ [0])
    \<Longrightarrow> emits mem (vprintfmt nil memof putch fmt args) cs"
proof (induction arbitrary: fmt rule: all_shown.induct)
  case (Nil args)
  have "vprintfmt nil memof putch fmt args st = Some st" if "reads mem st" for st
    using reads_at [OF that] Nil by (subst vprintfmt.simps) simp
  then show ?case using emits_none by (rule emits_cong)
next
  case (Cons x args cs args' xs cs')
  let ?g = "vprintfmt nil memof putch"
  have rest: "emits mem (?g (fmt + word_of_nat (length (render x))) args') cs'"
    using Cons.IH Cons.prems text_at_append by auto
  show ?case
  proof (cases "\<exists>c. x = Plain c")
    case True
    then obtain c where Plain: "x = Plain c" by blast
    then have c: "c \<noteq> 0" "c \<noteq> of_char CHR ''%''" "cs = [c]" "args' = args" using Cons.hyps(1) by (auto elim: shown.cases)
    have "?g fmt args st = Option.bind (putch (ucast c) st) (?g (fmt + 1) args)" if "reads mem st" for st
      using reads_at [OF that] Cons.prems Plain c by (subst vprintfmt.simps) simp
    moreover have "emits mem (\<lambda>st. Option.bind (putch (ucast c) st) (?g (fmt + 1) args)) (cs @ cs')"
      using emits_bind [OF emits_putch rest, of c] Plain c by simp
    ultimately show ?thesis by (rule emits_cong)
  next
    case False
    then obtain u where u: "render x = of_char CHR ''%'' # u" by (cases x) auto
    have t: "text_at mem ro (fmt + 1) u" "fmt \<in> ro" "mem fmt = Some (of_char CHR ''%'')" using Cons.prems by (simp_all add: u text_at_append)
    have y: "yields mem (escape nil memof putch (fmt + 1) (fmt + 1) args no_flags) cs (fmt + word_of_nat (length (render x))) args'"
      using escape_shown [OF Cons.hyps(1) u t(1)] by (simp add: u ac_simps)
    have "?g fmt args st = Option.bind (escape nil memof putch (fmt + 1) (fmt + 1) args no_flags st)
        (\<lambda>r. ?g (fst r) (fst (snd r)) (snd (snd r)))" if "reads mem st" for st
      using reads_at [OF that] t by (subst vprintfmt.simps) simp
    then show ?thesis using emits_yields_bind [where g = ?g, OF y rest] by (rule emits_cong)
  qed
qed

end

end
