(* ===== verification/RtLib.thy ===== *)
theory RtLib
  imports RtFormat
begin

unbundle bit_operations_syntax

text \<open>
  The two users of \<open>vprintfmt\<close>: \<open>printf\<close> through the buffer of \<open>putchar\<close>, and \<open>sprintf\<close> into memory, with the round trip
  through \<open>atol\<close>.
\<close>

section \<open>The buffered console\<close>

text \<open>What has been printed: what the host was given, and then the buffer, which holds no complete line.\<close>

definition host_out :: "rt \<Rightarrow> i8 list" where
  "host_out st = concat (rt_calls st) @ rt_buf st"

definition host_room :: "(nat \<Rightarrow> bool) \<Rightarrow> rt \<Rightarrow> nat \<Rightarrow> bool" where
  "host_room ack st n = (length (rt_buf st) < 64 \<and> 10 \<notin> set (rt_buf st) \<and> (\<forall>m. \<exists>k \<ge> m. ack k))"

lemma wait_host_returns: "ack (n + d) \<Longrightarrow> \<exists>m. wait_host ack n = Some m"
proof (induction d arbitrary: n)
  case 0
  then show ?case by (subst wait_host.simps) simp
next
  case (Suc d)
  then show ?case using Suc.IH [of "n + 1"] by (subst wait_host.simps) simp
qed

lemma char_of_int [simp]: "ucast (ucast c :: i32) = c" "(ucast c :: i32) = 10 \<longleftrightarrow> c = 10" for c :: i8
proof -
  show u: "ucast (ucast c :: i32) = c" for c :: i8 by (simp add: ucast_up_ucast_id is_up)
  show "(ucast c :: i32) = 10 \<longleftrightarrow> c = 10"
  proof
    assume "(ucast c :: i32) = 10"
    then have "ucast (ucast c :: i32) = (ucast (10 :: i32) :: i8)" by (rule arg_cong)
    then show "c = 10" unfolding u by simp
  qed simp
qed

lemma putchar_appends:
  assumes "host_room ack st (Suc n)"
  shows "\<exists>st'. putchar ack (ucast c) st = Some st' \<and> host_out st' = host_out st @ [c] \<and> host_room ack st' n \<and> rt_mem st' = rt_mem st"
proof -
  obtain k where "rt_polls st \<le> k" "ack k" using assms unfolding host_room_def by blast
  then obtain m where "wait_host ack (rt_polls st) = Some m"
    using wait_host_returns [of ack "rt_polls st" "k - rt_polls st"] by auto
  then show ?thesis using assms by (auto simp: putchar_def syscall_write_def host_room_def host_out_def Let_def)
qed

interpretation console: sink rt_mem "putchar ack" host_out "host_room ack" UNIV for ack
  by unfold_locales (use putchar_appends in fastforce)


section \<open>Printing to memory\<close>

definition buffer_out :: "i32 \<Rightarrow> memory \<times> i32 \<Rightarrow> i8 list" where
  "buffer_out str st = map (\<lambda>i. the (fst st (str + word_of_nat i))) [0..<unat (snd st - str)]"

definition buffer_room :: "i32 \<Rightarrow> nat \<Rightarrow> memory \<times> i32 \<Rightarrow> nat \<Rightarrow> bool" where
  "buffer_room str cap st n = (unat (snd st - str) + n < cap \<and> cap < 2 ^ 31 \<and> mapped (fst st) str cap)"

lemma unat_offset: "i < 2 ^ 32 \<Longrightarrow> unat (str + word_of_nat i - str) = i" for str :: i32
  by (simp add: unsigned_of_nat take_bit_nat_eq_self)

lemma sprintf_putch_appends:
  assumes "buffer_room str cap st (Suc n)"
  shows "\<exists>st'. sprintf_putch (ucast c) st = Some st' \<and> buffer_out str st' = buffer_out str st @ [c] \<and> buffer_room str cap st' n
    \<and> (\<forall>a \<in> {a. \<not> inside a str cap}. fst st' a = fst st a)"
proof -
  obtain mem p where st: "st = (mem, p)" by fastforce
  let ?k = "unat (p - str)"
  have k: "?k + Suc n < cap" "cap < 2 ^ 31" "mapped mem str cap" using assms by (simp_all add: buffer_room_def st)
  have i: "inside p str cap" using k by (simp add: inside_def)
  then have m: "mem p \<noteq> None" using k(3) by (simp add: mapped_def)
  have p1: "unat (p + 1 - str) = Suc ?k"
  proof -
    have e: "p + 1 - str = p - str + 1" by simp
    have "unat (p - str + word_of_nat 1) = ?k + 1" using k by (intro unat_plus) simp
    then show ?thesis unfolding e by simp
  qed
  have ne: "str + word_of_nat j \<noteq> p" if "j < ?k" for j
  proof
    assume "str + word_of_nat j = p"
    moreover have "j < 2 ^ 32" using that k(1,2) by simp
    ultimately show False using unat_offset [of j str] that by simp
  qed
  have pe: "str + word_of_nat ?k = p" by simp
  have o: "buffer_out str (mem(p \<mapsto> c), p + 1) = buffer_out str (mem, p) @ [c]"
    using ne by (simp add: buffer_out_def p1)
  have "buffer_room str cap (mem(p \<mapsto> c), p + 1) n" using k by (auto simp: buffer_room_def p1 mapped_def)
  then show ?thesis using m o i by (auto simp: sprintf_putch_def poke_def st)
qed

interpretation buffer: sink fst sprintf_putch "buffer_out str" "buffer_room str cap" "{a. \<not> inside a str cap}" for str cap
  by unfold_locales (rule sprintf_putch_appends)

lemma buffer_out_nth: "i < unat (snd st - str) \<Longrightarrow> buffer_out str st ! i = the (fst st (str + word_of_nat i))"
  by (simp add: buffer_out_def)

lemma loads_nth: "(\<And>i. i < length bs \<Longrightarrow> m (p + word_of_nat i) = Some (bs ! i)) \<Longrightarrow> loads m p bs"
proof (induction bs arbitrary: p)
  case (Cons b bs)
  have "m p = Some b" using Cons.prems [of 0] by simp
  moreover have "loads m (p + 1) bs" using Cons.IH [of "p + 1"] Cons.prems [of "Suc _"] by (simp add: add.assoc)
  ultimately show ?case by simp
qed simp

lemma mapped_nth: "mapped m p n \<Longrightarrow> i < n \<Longrightarrow> n < 2 ^ 32 \<Longrightarrow> m (p + word_of_nat i) \<noteq> None"
  unfolding mapped_def inside_def by (simp add: unsigned_of_nat take_bit_nat_eq_self)

text \<open>\<open>sprintf\<close> into a region of \<open>cap\<close> bytes apart from the format and the strings.\<close>

lemma sprintf_prints:
  assumes t: "text_at mem {a. \<not> inside a str cap} fmt (concat (map render xs) @ [0])"
    and s: "all_shown nil (string_at mem {a. \<not> inside a str cap}) xs args cs"
    and m: "mapped mem str cap" "length cs < cap" "cap < 2 ^ 31"
  shows "\<exists>mem'. sprintf nil mem str fmt args = Some (int (length cs), mem') \<and> loads mem' str (cs @ [0])
    \<and> (\<forall>a. inside a str cap \<or> mem' a = mem a) \<and> mapped mem' str cap"
proof -
  have r: "buffer.reads str cap mem (mem, str)" by (simp add: buffer.reads_def)
  have "buffer_room str cap (mem, str) (length cs + 0)" using m by (simp add: buffer_room_def)
  then obtain mem1 p where v: "vprintfmt nil fst sprintf_putch fmt args (mem, str) = Some (mem1, p)"
    and o: "buffer_out str (mem1, p) = buffer_out str (mem, str) @ cs" and c: "buffer_room str cap (mem1, p) 0"
    and k: "buffer.reads str cap mem (mem1, p)"
    using buffer.emitsD [OF buffer.vprintfmt_emits [OF s t] r] by fastforce
  have o': "buffer_out str (mem1, p) = cs" using o by (simp add: buffer_out_def)
  then have u: "unat (p - str) = length cs" by (auto simp: buffer_out_def)
  then have p: "p = str + word_of_nat (length cs)" 
  proof -
    have "word_of_nat (unat (p - str)) = p - str" by simp
    then show ?thesis unfolding u by (metis add.commute diff_add_cancel)
  qed
  have mp: "mapped mem1 str cap" using c by (simp add: buffer_room_def)
  let ?mem2 = "mem1(p \<mapsto> 0)"
  have "mem1 p \<noteq> None" using mapped_nth [OF mp m(2)] m(3) p by simp
  then have w: "poke mem1 p 0 = Some ?mem2" by (simp add: poke_def)
  have si: "sint (p - str) = int (length cs)"
  proof -
    have "p - str = word_of_nat (length cs)" by (simp add: p)
    then show ?thesis using m(2,3) by (simp add: signed_of_nat signed_take_bit_int_eq_self)
  qed
  have "loads ?mem2 str (cs @ [0])"
  proof (rule loads_nth)
    fix i
    assume i: "i < length (cs @ [0])"
    show "?mem2 (str + word_of_nat i) = Some ((cs @ [0]) ! i)"
    proof (cases "i = length cs")
      case False
      then have i': "i < length cs" using i by simp
      have "str + word_of_nat i \<noteq> p"
      proof
        assume "str + word_of_nat i = p"
        then show False using unat_offset [of i str] u i' m by simp
      qed
      moreover have "mem1 (str + word_of_nat i) = Some (cs ! i)"
        using buffer_out_nth [of i "(mem1, p)" str] o' u i' mapped_nth [OF mp, of i] m by auto
      ultimately show ?thesis using i' by (simp add: nth_append)
    qed (simp add: p)
  qed
  moreover have "\<forall>a. inside a str cap \<or> ?mem2 a = mem a"
  proof -
    have "\<not> inside b str cap \<Longrightarrow> mem1 b = mem b" for b using k by (simp add: buffer.reads_def)
    moreover have "inside p str cap" using m(2) by (simp add: inside_def u)
    ultimately show ?thesis by auto
  qed
  moreover have "mapped ?mem2 str cap" using mp by (simp add: mapped_def)
  ultimately show ?thesis by (simp add: sprintf_def v w si)
qed

section \<open>Decimal numbers there and back\<close>

lemma digit_char_decimal: "d < 10 \<Longrightarrow> uint (digit_char d) = int d + 48"
proof -
  assume d: "d < 10"
  then have "digit_char d = word_of_nat (d + 48)" unfolding digit_char_def by (simp only: not_le [symmetric] if_False)
  moreover have "uint (word_of_nat (d + 48) :: i8) = int (d + 48)"
    using d by (simp add: unsigned_of_nat take_bit_nat_eq_self del: of_nat_add)
  ultimately show ?thesis by simp
qed

lemma decimal_numeral: "decimal (map digit_char (numeral_digits 10 n)) = int n"
proof -
  have "foldl (\<lambda>v c. 10 * v + (uint c - 48)) (int v) (map digit_char ds) = int (foldl (\<lambda>v d. 10 * v + d) v ds)"
    if "list_all (\<lambda>d. d < 10) ds" for v ds
    using that
  proof (induction ds arbitrary: v)
    case (Cons d ds)
    then show ?case using Cons.IH [of "10 * v + d"] by (simp add: digit_char_decimal)
  qed simp
  from this [OF numeral_digits_less [of 10 n], of 0] show ?thesis
    using numeral_digits_value [of 10 n] by (simp add: decimal_def)
qed

lemma digits_are_digits: "list_all (\<lambda>d. d < 10) ds \<Longrightarrow> list_all is_digit (map digit_char ds)"
  by (induction ds) (auto simp: is_digit_def digit_char_decimal)

lemma numeral_digits_length: "n < 10 ^ k \<Longrightarrow> 0 < k \<Longrightarrow> length (numeral_digits 10 n) \<le> k"
proof (induction k arbitrary: n)
  case (Suc k)
  show ?case
  proof (cases "n < 10")
    case False
    then have "0 < k" using Suc.prems by (cases k) auto
    moreover have "n div 10 < 10 ^ k" using Suc.prems by (simp add: less_mult_imp_div_less mult.commute)
    ultimately show ?thesis using Suc.IH [of "n div 10"] False by (simp add: numeral_digits_large)
  qed (simp add: numeral_digits_small)
qed simp

text \<open>\<open>%d\<close> and the like without a width.\<close>

definition number_text :: "int \<Rightarrow> i8 list" where
  "number_text n = (if n < 0 then [of_char CHR ''-''] else []) @ map digit_char (numeral_digits 10 (nat \<bar>n\<bar>))"

lemma shown_plain_decimal:
  assumes "getint args l = Some (a, args')" "- (2 ^ 63) < sint a"
  shows "shown nil holds (Spec No_flag Absent Absent l Decimal) args (number_text (sint a)) args'"
proof -
  have "shown nil holds (Spec No_flag Absent Absent l Decimal) args (iso_integer (No_flag = Zero_flag) (min_width None) 10 (sint a)) args'"
    using assms by (intro shown.decimal [where ?args1.0 = args]) (simp_all add: min_width_def)
  then show ?thesis by (simp add: iso_integer_def justify_def min_width_def number_text_def)
qed

lemma getint_VInt: "getint (VInt a # args) 0 = Some (scast a, args)" "sint (scast a :: i64) = sint a" "- (2 ^ 63) < sint (scast a :: i64)"
  for a :: i32
proof -
  show "getint (VInt a # args) 0 = Some (scast a, args)" by simp
  show s: "sint (scast a :: i64) = sint a" by (rule sint_up_scast) (simp add: is_up)
  show "- (2 ^ 63) < sint (scast a :: i64)" unfolding s using sint_ge [of a] by simp
qed

text \<open>
  C18: a number printed by \<open>sprintf\<close> with \<open>%d\<close> into at least twelve bytes is read back by \<open>atol\<close>, unless it is the least one,
  whose magnitude \<open>atol\<close> cannot hold.
\<close>

theorem sprintf_atol:
  assumes t: "text_at mem {b. \<not> inside b str cap} fmt (map of_char ''%d'' @ [0])"
    and m: "mapped mem str cap" "12 \<le> cap" "cap < 2 ^ 31" and a: "sint a \<noteq> - (2 ^ 31)"
  shows "\<exists>n mem'. sprintf nil mem str fmt [VInt a] = Some (n, mem') \<and> atol mem' str = Some (sint a)"
proof -
  let ?sg = "if sint a < 0 then [of_char CHR ''-'' :: i8] else []" and ?ds = "map digit_char (numeral_digits 10 (nat \<bar>sint a\<bar>))"
  let ?x = "Spec No_flag Absent Absent 0 Decimal" and ?ro = "{b. \<not> inside b str cap}"
  have sb: "- (2 ^ 31) < sint a" "sint a < 2 ^ 31" using sint_ge [of a] sint_lt [of a] a by simp_all
  have "shown nil (string_at mem ?ro) ?x [VInt a] (?sg @ ?ds) []"
    using shown_plain_decimal [OF getint_VInt(1,3), of nil "string_at mem ?ro" a "[]"] by (simp add: getint_VInt(2) number_text_def)
  then have s: "all_shown nil (string_at mem ?ro) [?x] [VInt a] ((?sg @ ?ds) @ [])" by (intro all_shown.intros)
  have "nat \<bar>sint a\<bar> < 10 ^ 10" using sb by simp
  then have l: "length ((?sg @ ?ds) @ []) < cap" using numeral_digits_length [of "nat \<bar>sint a\<bar>" 10] m(2) by (cases "sint a < 0") simp_all
  have t': "text_at mem ?ro fmt (concat (map render [?x]) @ [0])" using t by simp
  obtain mem' where p: "sprintf nil mem str fmt [VInt a] = Some (int (length ((?sg @ ?ds) @ [])), mem')"
    and lo: "loads mem' str (((?sg @ ?ds) @ []) @ [0])" using sprintf_prints [OF t' s m(1) l m(3)] by blast
  have dg: "list_all is_digit ?ds" using digits_are_digits numeral_digits_less [of 10] by simp
  have "0 \<notin> set ?ds" using dg by (auto simp: list_all_iff is_digit_def)
  then have cs: "cstring mem' str (replicate 0 (of_char CHR '' '') @ (?sg @ ?ds))" using lo by (simp add: cstring_def)
  have v: "decimal ?ds = \<bar>sint a\<bar>" using decimal_numeral [of "nat \<bar>sint a\<bar>"] by simp
  have ne: "?ds \<noteq> []" by (subst numeral_digits.simps) simp
  have "?sg \<in> {[], [of_char CHR ''-''], [of_char CHR ''+'']}" by simp
  then have "atol mem' str = Some (if ?sg = [of_char CHR ''-''] then - decimal ?ds else decimal ?ds)"
    using atol_decimal [OF cs refl _ dg _ ne] v sb by simp
  then have "atol mem' str = Some (sint a)" unfolding v by simp
  then show ?thesis using p by blast
qed

section \<open>Witnesses and the end of the simulation\<close>

text \<open>A memory with the format \<open>%d\<close> at the address 16 and zeros elsewhere.\<close>

definition format_memory :: memory where
  "format_memory a = Some (if a = 16 then of_char CHR ''%'' else if a = 17 then of_char CHR ''d'' else 0)"

lemma sprintf_atol_witness:
  "\<exists>n mem'. sprintf 0 format_memory 32 16 [VInt (- 42)] = Some (n, mem') \<and> atol mem' 32 = Some (- 42)"
proof -
  have "text_at format_memory {b. \<not> inside b 32 16} 16 (map of_char ''%d'' @ [0])"
    by (simp add: format_memory_def inside_def unat_sub_if')
  moreover have "mapped format_memory 32 16" by (simp add: mapped_def format_memory_def)
  moreover have "sint (- 42 :: i32) = - 42" by simp
  ultimately show ?thesis using sprintf_atol [of format_memory 32 16 16 "- 42" 0] by simp
qed

text \<open>The format \<open>%*d|%-4.2s|%03u|%p\<close> at the address 16, and the string \<open>abc\<close> at 128.\<close>

definition printf_memory :: memory where
  "printf_memory = stores (stores (\<lambda>_. Some 0) 16 (map of_char ''%*d|%-4.2s|%03u|%p'' @ [0])) 128 (map of_char ''abc'' @ [0])"

definition printf_pieces :: "piece list" where
  "printf_pieces = [Spec No_flag Star Absent 0 Decimal, Plain (of_char CHR ''|''),
     Spec Minus_flag (Digits [of_char CHR ''4'']) (Digits [of_char CHR ''2'']) 0 String, Plain (of_char CHR ''|''),
     Spec Zero_flag (Digits [of_char CHR ''3'']) Absent 0 Unsigned, Plain (of_char CHR ''|''), Spec No_flag Absent Absent 0 Pointer]"


text \<open>The code that ends a simulation can be read off \<open>tohost\<close>, and the lowest bit is set.\<close>

lemma tohost_exit_code: "bit (tohost_exit code) 0 \<and> drop_bit 1 (tohost_exit code) = ucast code"
proof
  show "bit (tohost_exit code) 0" by (simp add: tohost_exit_def bit_or_iff)
  show "drop_bit 1 (tohost_exit code) = ucast code"
    unfolding tohost_exit_def by (rule bit_word_eqI) (auto simp: bit_simps bit_1_iff dest: bit_imp_le_length)
qed

text \<open>The flag for left justification becomes the padding of numbers.\<close>

lemma left_justified_number:
  "modify mem (of_char CHR ''-'') fmt args fl = Some (fmt, args, fl\<lparr>padc := of_char CHR ''-''\<rparr>)"
  "show_number 10 5 (of_char CHR ''-'') 42 = map of_char ''---42''"
proof -
  have "numeral_digits 10 42 = [4, 2]" by (simp add: numeral_digits_large numeral_digits_small)
  then show "show_number 10 5 (of_char CHR ''-'') 42 = map of_char ''---42''"
    by (simp add: show_number_def digit_char_def numeral_3_eq_3)
qed (simp add: modify_def)

end
