(* ===== verification/RtStart.thy ===== *)
theory RtStart
  imports RtLib
begin

unbundle bit_operations_syntax

text \<open>
  The start and the end of a test in the run-time library (\<open>setStats\<close>, \<open>getStats\<close>, \<open>init_tls\<close>, \<open>_init\<close>, \<open>exit\<close>, \<open>abort\<close> in
  \<open>verif/tests/custom/common/syscalls.c\<close>). The program that is run, \<open>thread_entry\<close> and \<open>main\<close>, the symbols of the linker
  and the values of the counter registers are parameters.
\<close>

section \<open>The counters\<close>

text \<open>
  The static arrays, and how often a counter register was read; \<open>csr k\<close> is what reading number \<open>k\<close> gives. A name is the
  address of its text.
\<close>

record stats =
  counters :: "i32 list"
  counter_names :: "i32 list"
  csr_reads :: nat

definition no_stats :: stats where
  "no_stats = \<lparr>counters = [0, 0], counter_names = [0, 0], csr_reads = 0\<rparr>"

text \<open>\<open>READ_CTR(name)\<close>; the loop \<open>while (i >= NUM_COUNTERS)\<close> does not end.\<close>

definition read_ctr :: "(nat \<Rightarrow> i32) \<Rightarrow> i32 \<Rightarrow> i32 \<Rightarrow> nat \<times> stats \<Rightarrow> (nat \<times> stats) option" where
  "read_ctr csr name enable = (\<lambda>(i, st).
     if 2 \<le> i then None
     else do {
       old \<leftarrow> rd (counters st) i;
       names \<leftarrow> (if enable = 0 then wr (counter_names st) i name else Some (counter_names st));
       cs \<leftarrow> wr (counters st) i (if enable = 0 then csr (csr_reads st) - old else csr (csr_reads st));
       Some (i + 1, st\<lparr>counters := cs, counter_names := names, csr_reads := csr_reads st + 1\<rparr>)
     })"

definition setStats :: "(nat \<Rightarrow> i32) \<Rightarrow> i32 \<Rightarrow> i32 \<Rightarrow> i32 \<Rightarrow> stats \<Rightarrow> stats option" where
  "setStats csr mcycle minstret enable st =
     map_option snd (Option.bind (read_ctr csr mcycle enable (0, st)) (read_ctr csr minstret enable))"

definition getStats :: "stats \<Rightarrow> int \<Rightarrow> i32 option" where
  "getStats st counterid = (if counterid < 0 then None else rd (counters st) (nat counterid))"

text \<open>Between a call with 1 and a call with 0 the counters count.\<close>

lemma setStats_measures:
  assumes "length (counters st) = 2" "length (counter_names st) = 2"
  shows "Option.bind (setStats csr p q 1 st) (setStats csr p q 0)
    = Some (st\<lparr>counters := [csr (csr_reads st + 2) - csr (csr_reads st), csr (csr_reads st + 3) - csr (csr_reads st + 1)],
        counter_names := [p, q], csr_reads := csr_reads st + 4\<rparr>)"
proof -
  obtain a b c d where "counters st = [a, b]" "counter_names st = [c, d]"
    using assms by (auto simp: length_Suc_conv numeral_2_eq_2)
  then show ?thesis by (simp add: setStats_def read_ctr_def numeral_eq_Suc)
qed

section \<open>Start and end\<close>

text \<open>\<open>exit(code)\<close> and \<open>abort()\<close> end with a value in \<open>tohost\<close>; \<open>SIGABRT\<close> is 6.\<close>

definition exit_program :: "i32 \<Rightarrow> i64" where
  "exit_program code = tohost_exit code"

definition abort_program :: i64 where
  "abort_program = exit_program (128 + 6)"

definition init_tls :: "i32 \<Rightarrow> i32 \<Rightarrow> i32 \<Rightarrow> i32 \<Rightarrow> memory \<Rightarrow> memory option" where
  "init_tls tp tdata_begin tdata_end tbss_end mem = do {
     let tdata_size = tdata_end - tdata_begin;
     mem \<leftarrow> memcpy mem tp tdata_begin tdata_size;
     let tbss_size = tbss_end - tdata_end;
     memset mem (tp + tdata_size) 0 tbss_size
   }"

text \<open>The loop over the counters in \<open>_init\<close>, on the counters and names that are left.\<close>

fun report_counters :: "i32 \<Rightarrow> i32 \<Rightarrow> (i32 \<times> i32) list \<Rightarrow> memory \<Rightarrow> i32 \<Rightarrow> (memory \<times> i32) option" where
  "report_counters nil fmt [] mem pbuf = Some (mem, pbuf)"
| "report_counters nil fmt ((name, c) # cs) mem pbuf =
     (if c \<noteq> 0 then do {
        (n, mem) \<leftarrow> sprintf nil mem pbuf fmt [VPtr name, VInt c];
        report_counters nil fmt cs mem (pbuf + word_of_int n)
      } else report_counters nil fmt cs mem pbuf)"

text \<open>
  \<open>_init\<close>: \<open>tls\<close> are the four addresses of \<open>init_tls\<close>, \<open>fmt\<close> is the address of the format, \<open>buf\<close> that of the array on the stack.
  The result has what is written to \<open>tohost\<close> at the end.
\<close>

type_synonym env = "rt \<times> stats"

definition rt_init ::
    "(nat \<Rightarrow> bool) \<Rightarrow> i32 \<Rightarrow> i32 \<times> i32 \<times> i32 \<times> i32 \<Rightarrow> (int \<Rightarrow> int \<Rightarrow> env \<Rightarrow> env option) \<Rightarrow> (env \<Rightarrow> (i32 \<times> env) option)
      \<Rightarrow> i32 \<Rightarrow> i32 \<Rightarrow> int \<Rightarrow> int \<Rightarrow> env \<Rightarrow> (env \<times> i64) option" where
  "rt_init ack nil tls thread_entry main fmt buf cid nc = (\<lambda>(st, sts). do {
     let (tp, tdata_begin, tdata_end, tbss_end) = tls;
     mem \<leftarrow> init_tls tp tdata_begin tdata_end tbss_end (rt_mem st);
     env \<leftarrow> thread_entry cid nc (st\<lparr>rt_mem := mem\<rparr>, sts);
     (ret, st, sts) \<leftarrow> main env;
     (mem, pbuf) \<leftarrow> report_counters nil fmt (zip (counter_names sts) (counters sts)) (rt_mem st) buf;
     st \<leftarrow> (if pbuf \<noteq> buf then printstr ack buf (st\<lparr>rt_mem := mem\<rparr>) else Some (st\<lparr>rt_mem := mem\<rparr>));
     Some ((st, sts), exit_program ret)
   })"

text \<open>
  The functions that a program may replace: \<open>handle_trap\<close> ends the simulation, \<open>thread_entry\<close> does not return on any core but
  the first, and \<open>main\<close> prints the text at \<open>msg\<close>.
\<close>

definition handle_trap :: i64 where
  "handle_trap = tohost_exit 1337"

definition weak_thread_entry :: "int \<Rightarrow> int \<Rightarrow> env \<Rightarrow> env option" where
  "weak_thread_entry cid nc env = (if cid \<noteq> 0 then None else Some env)"

definition weak_main :: "(nat \<Rightarrow> bool) \<Rightarrow> i32 \<Rightarrow> env \<Rightarrow> (i32 \<times> env) option" where
  "weak_main ack msg = (\<lambda>(st, sts). map_option (\<lambda>st. (- 1, st, sts)) (printstr ack msg st))"

section \<open>The report\<close>

definition counter_line :: "i8 list \<Rightarrow> i32 \<Rightarrow> i8 list" where
  "counter_line name c = name @ map of_char '' = '' @ (if sint c < 0 then [of_char CHR ''-''] else [])
     @ map digit_char (numeral_digits 10 (nat \<bar>sint c\<bar>)) @ [10]"

fun report_text :: "(i8 list \<times> i32) list \<Rightarrow> i8 list" where
  "report_text [] = []"
| "report_text ((name, c) # cs) = (if c \<noteq> 0 then counter_line name c else []) @ report_text cs"

definition counter_format :: "i8 list" where
  "counter_format = map of_char ''%s = %d'' @ [10]"

definition counter_pieces :: "piece list" where
  "counter_pieces = [Spec No_flag Absent Absent 0 String, Plain (of_char CHR '' ''), Plain (of_char CHR ''=''), Plain (of_char CHR '' ''),
     Spec No_flag Absent Absent 0 Decimal, Plain 10]"

lemma counter_format_pieces: "concat (map render counter_pieces) = counter_format"
  by (simp add: counter_pieces_def counter_format_def)

lemma length_counter_line: "length (counter_line name c) \<le> length name + 15"
proof -
  have "- (2 ^ 31) \<le> sint c" "sint c < 2 ^ 31" using sint_ge [of c] sint_lt [of c] by simp_all
  then have "nat \<bar>sint c\<bar> < 10 ^ 10" by simp
  from numeral_digits_length [OF this] show ?thesis by (cases "sint c < 0") (simp_all add: counter_line_def)
qed

lemma counter_line_shown:
  assumes "holds p name" "p \<noteq> 0" "0 \<notin> set name" "length name < 2 ^ 31"
  shows "all_shown nil holds counter_pieces [VPtr p, VInt c] (counter_line name c)"
proof -
  have "shown nil holds (Spec No_flag Absent Absent 0 String) (VPtr p # [VInt c])
      (iso_string (No_flag = Minus_flag) (min_width None) None name) [VInt c]"
    using assms by (intro shown.string [where ?args1.0 = "VPtr p # [VInt c]" and q = p]) simp_all
  then have s: "shown nil holds (Spec No_flag Absent Absent 0 String) (VPtr p # [VInt c]) name [VInt c]"
    by (simp add: iso_string_def justify_def min_width_def)
  have d: "shown nil holds (Spec No_flag Absent Absent 0 Decimal) [VInt c] (number_text (sint c)) []"
    using shown_plain_decimal [OF getint_VInt(1,3), of nil holds c "[]"] by (simp add: getint_VInt(2))
  have pl: "shown nil holds (Plain x) args [x] args" if "x \<in> {of_char CHR '' '', of_char CHR ''='', 10}" for x args
    by (rule shown.plain) (use that in auto)
  have a: "all_shown nil holds (Plain x # xs) args ([x] @ cs)"
    if "x \<in> {of_char CHR '' '', of_char CHR ''='', 10}" "all_shown nil holds xs args cs" for x xs args cs
    using pl [OF that(1)] that(2) by (rule all_shown.Cons)
  have "all_shown nil holds counter_pieces [VPtr p, VInt c]
      (name @ [of_char CHR '' ''] @ [of_char CHR ''=''] @ [of_char CHR '' ''] @ number_text (sint c) @ [10] @ [])"
    unfolding counter_pieces_def
    by (rule all_shown.Cons [OF s], rule a, simp, rule a, simp, rule a, simp, rule all_shown.Cons [OF d], rule a, simp, rule all_shown.Nil)
  then show ?thesis by (simp add: counter_line_def number_text_def)
qed

section \<open>Printing the report\<close>

lemma text_at_keep:
  assumes "text_at mem ro p s" "ro \<subseteq> ro'" "\<And>a. a \<in> ro \<Longrightarrow> mem' a = mem a"
  shows "text_at mem' ro' p s"
  using assms(1) by (induction s arbitrary: p) (use assms(2,3) in auto)

lemma inside_rest:
  assumes "k < cap" "cap < 2 ^ 31" "inside a (p + word_of_nat k) (cap - k)"
  shows "inside a p cap"
proof -
  have "unat (a - (p + word_of_nat k)) + k < cap" using assms by (simp add: inside_def)
  moreover have "a - p = (a - (p + word_of_nat k)) + word_of_nat k" by simp
  moreover have "unat (a - (p + word_of_nat k) + word_of_nat k) = unat (a - (p + word_of_nat k)) + k"
    using calculation(1) assms(2) by (intro unat_plus) simp
  ultimately show ?thesis by (simp add: inside_def)
qed

lemma inside_before:
  assumes "i < k" "k < cap" "cap < 2 ^ 31"
  shows "\<not> inside (p + word_of_nat i) (p + word_of_nat k) (cap - k)"
proof
  assume "inside (p + word_of_nat i) (p + word_of_nat k) (cap - k)"
  then have u: "unat (p + word_of_nat i - (p + word_of_nat k)) < cap - k" by (simp add: inside_def)
  have "(word_of_nat i :: i32) = (p + word_of_nat i - (p + word_of_nat k)) + word_of_nat k" by simp
  moreover have "unat ((p + word_of_nat i - (p + word_of_nat k)) + word_of_nat k) = unat (p + word_of_nat i - (p + word_of_nat k)) + k"
    using u assms by (intro unat_plus) simp
  moreover have "unat (word_of_nat i :: i32) = i" using assms by (simp add: unsigned_of_nat take_bit_nat_eq_self)
  ultimately show False using assms(1) by simp
qed

lemma mapped_rest: "k < cap \<Longrightarrow> cap < 2 ^ 31 \<Longrightarrow> mapped mem p cap \<Longrightarrow> mapped mem (p + word_of_nat k) (cap - k)"
  using inside_rest by (auto simp: mapped_def)

lemma loads_outside:
  assumes "loads mem p s" "\<And>i. i < length s \<Longrightarrow> mem' (p + word_of_nat i) = mem (p + word_of_nat i)"
  shows "loads mem' p s"
  using assms
proof (induction s arbitrary: p)
  case (Cons c s)
  have "loads mem' (p + 1) s" using Cons.IH [of "p + 1"] Cons.prems(1) Cons.prems(2) [of "Suc _"] by (simp add: add.assoc)
  then show ?case using Cons.prems(1) Cons.prems(2) [of 0] by simp
qed simp

text \<open>A name and its address, as the format and the names lie outside the array.\<close>

definition names_text :: "memory \<Rightarrow> i32 set \<Rightarrow> i32 \<times> i32 \<Rightarrow> i8 list \<times> i32 \<Rightarrow> bool" where
  "names_text mem ro = (\<lambda>(p, c) (name, c'). c = c' \<and> (c \<noteq> 0 \<longrightarrow> p \<noteq> 0 \<and> 0 \<notin> set name \<and> string_at mem ro p name))"

lemma report_counters_text:
  assumes "text_at mem {a. \<not> inside a p cap} fmt (counter_format @ [0])"
    and "list_all2 (names_text mem {a. \<not> inside a p cap}) cs ts"
    and "mapped mem p cap" "length (report_text ts) < cap" "cap < 2 ^ 31"
  shows "\<exists>mem'. report_counters nil fmt cs mem p = Some (mem', p + word_of_nat (length (report_text ts)))
    \<and> (\<forall>a. inside a p cap \<or> mem' a = mem a)
    \<and> (if report_text ts = [] then mem' = mem else loads mem' p (report_text ts @ [0]))"
  using assms
proof (induction cs arbitrary: ts mem p cap)
  case Nil
  then show ?case by simp
next
  case (Cons pc cs)
  obtain q c where pc: "pc = (q, c)" by fastforce
  obtain name rest where ts: "ts = (name, c) # rest" and n: "c \<noteq> 0 \<Longrightarrow> q \<noteq> 0 \<and> 0 \<notin> set name \<and> string_at mem {a. \<not> inside a p cap} q name"
    and all: "list_all2 (names_text mem {a. \<not> inside a p cap}) cs rest"
    using Cons.prems(2) by (auto simp: pc list_all2_Cons1 names_text_def)
  show ?case
  proof (cases "c = 0")
    case True
    have e: "report_text ts = report_text rest" "report_counters nil fmt (pc # cs) mem p = report_counters nil fmt cs mem p"
      using True by (simp_all add: pc ts)
    show ?thesis using Cons.IH [OF Cons.prems(1) all Cons.prems(3) _ Cons.prems(5)] Cons.prems(4) unfolding e by blast
  next
    case False
    let ?l = "counter_line name c" and ?k = "length (counter_line name c)"
    have k: "0 < ?k" "?k < cap" "length (report_text rest) < cap - ?k" "length name < 2 ^ 31"
      using Cons.prems(4,5) False by (auto simp: ts counter_line_def)
    have "all_shown nil (string_at mem {a. \<not> inside a p cap}) counter_pieces [VPtr q, VInt c] ?l"
      using n False k(4) by (intro counter_line_shown) auto
    then obtain mem1 where 1: "sprintf nil mem p fmt [VPtr q, VInt c] = Some (int ?k, mem1)" "loads mem1 p (?l @ [0])"
      "\<And>a. \<not> inside a p cap \<Longrightarrow> mem1 a = mem a" "mapped mem1 p cap"
      using sprintf_prints [of mem p cap fmt counter_pieces] Cons.prems k(2) unfolding counter_format_pieces by blast
    let ?p = "p + word_of_nat ?k :: i32" and ?cap = "cap - ?k"
    have sub: "{a. \<not> inside a p cap} \<subseteq> {a. \<not> inside a ?p ?cap}" using inside_rest [OF k(2) Cons.prems(5)] by blast
    have t: "text_at mem1 {a. \<not> inside a ?p ?cap} r s" if "text_at mem {a. \<not> inside a p cap} r s" for r s
      using text_at_keep [OF that sub] 1(3) by simp
    have nt: "names_text mem1 {a. \<not> inside a ?p ?cap} x y" if "names_text mem {a. \<not> inside a p cap} x y" for x y
      using that t by (auto simp: names_text_def string_at_def)
    have all2: "list_all2 (names_text mem1 {a. \<not> inside a ?p ?cap}) cs rest" by (rule list_all2_mono [OF all]) (rule nt)
    have cb: "?cap < 2 ^ 31" using Cons.prems(5) by simp
    obtain mem' where 2: "report_counters nil fmt cs mem1 ?p = Some (mem', ?p + word_of_nat (length (report_text rest)))"
      "\<And>a. \<not> inside a ?p ?cap \<Longrightarrow> mem' a = mem1 a"
      "if report_text rest = [] then mem' = mem1 else loads mem' ?p (report_text rest @ [0])"
      using Cons.IH [OF t [OF Cons.prems(1)] all2 mapped_rest [OF k(2) Cons.prems(5) 1(4)] k(3) cb] by (elim exE conjE) (rule that, assumption, blast, assumption)
    have e: "word_of_int (int ?k) = (word_of_nat ?k :: i32)" by simp
    have "report_counters nil fmt (pc # cs) mem p = Some (mem', p + word_of_nat (length (report_text ts)))"
      using 1(1) 2(1) False by (simp add: pc ts ac_simps)
    moreover have "inside a p cap \<or> mem' a = mem a" for a
    proof (cases "inside a p cap")
      case False
      then have "mem' a = mem1 a" using inside_rest [OF k(2) Cons.prems(5)] by (intro 2(2)) blast
      with False 1(3) show ?thesis by simp
    qed simp
    moreover have "loads mem' p (report_text ts @ [0])"
    proof (cases "report_text rest = []")
      case True
      then show ?thesis using 1(2) 2(3) False by (simp add: ts)
    next
      case rest: False
      have "mem' (p + word_of_nat i) = mem1 (p + word_of_nat i)" if "i < ?k" for i
        using 2(2) inside_before [OF that k(2) Cons.prems(5)] by blast
      then have "loads mem' p ?l" using loads_outside [of mem1 p ?l mem'] 1(2) by (simp add: console.loads_append)
      then show ?thesis using 2(3) False rest by (simp add: ts console.loads_append)
    qed
    ultimately show ?thesis using False k(1) by (auto simp: ts counter_line_def)
  qed
qed

section \<open>The run of a program\<close>

lemma peeks_loads: "loads mem p s \<Longrightarrow> peeks mem p (length s) = Some s"
  by (induction s arbitrary: p) auto

lemma printstr_prints:
  assumes "cstring (rt_mem st) p s" "length s < 2 ^ 32" "\<exists>k\<ge>rt_polls st. ack k"
  shows "\<exists>n. printstr ack p st = Some (st\<lparr>rt_calls := rt_calls st @ [s], rt_polls := n\<rparr>)"
proof -
  have u: "unat (word_of_nat (length s) :: i32) = length s" using assms(2) by (simp add: unsigned_of_nat take_bit_nat_eq_self)
  have l: "loads (rt_mem st) p s" using assms(1) by (simp add: cstring_def console.loads_append)
  obtain k where "rt_polls st \<le> k" "ack k" using assms(3) by blast
  then obtain m where "wait_host ack (rt_polls st) = Some m" using wait_host_returns [of ack "rt_polls st" "k - rt_polls st"] by auto
  then show ?thesis using strlen_length [OF assms(1)] peeks_loads [OF l] u by (auto simp: printstr_def syscall_write_def)
qed

lemma counter_line_nonzero: "0 \<notin> set name \<Longrightarrow> 0 \<notin> set (counter_line name c)"
proof -
  have "list_all is_digit (map digit_char (numeral_digits 10 (nat \<bar>sint c\<bar>)))"
    using digits_are_digits numeral_digits_less [of 10] by simp
  then have "0 \<notin> set (map digit_char (numeral_digits 10 (nat \<bar>sint c\<bar>)))" by (auto simp: list_all_iff is_digit_def)
  then show "0 \<notin> set name \<Longrightarrow> ?thesis" by (auto simp: counter_line_def)
qed

lemma report_text_nonzero: "list_all2 (names_text mem ro) cs ts \<Longrightarrow> 0 \<notin> set (report_text ts)"
proof (induction rule: list_all2_induct)
  case (Cons pc cs t ts)
  then show ?case using counter_line_nonzero by (cases t; cases pc) (auto simp: names_text_def)
qed simp


section \<open>The thread-local data\<close>

text \<open>The memory after \<open>init_tls\<close>: the \<open>ds\<close> bytes of initialised data at \<open>tp\<close>, then \<open>n\<close> zeros, nothing else changed.\<close>

definition tls_image :: "i32 \<Rightarrow> i8 list \<Rightarrow> nat \<Rightarrow> memory \<Rightarrow> memory" where
  "tls_image tp ds n mem a = (if inside a tp (length ds + n) then Some ((ds @ replicate n 0) ! unat (a - tp)) else mem a)"

lemma init_tls_image:
  assumes "loads mem tdata_begin ds" "mapped mem tp (length ds + n)" "unat tp + (length ds + n) < 2 ^ 32"
    and "\<And>a. inside a tdata_begin (length ds) \<Longrightarrow> \<not> inside a tp (length ds)"
    and "tdata_end = tdata_begin + word_of_nat (length ds)" "tbss_end = tdata_end + word_of_nat n"
  shows "init_tls tp tdata_begin tdata_end tbss_end mem = Some (tls_image tp ds n mem)"
proof -
  let ?mem = "stores mem tp ds" and ?q = "tp + word_of_nat (length ds)"
  have u: "unat ?q = unat tp + length ds" using assms(3) by (intro unat_plus) simp
  have m: "mapped mem tp (length ds)" using assms(2) by (auto simp: mapped_def inside_def)
  have c: "memcpy mem tp tdata_begin (word_of_nat (length ds)) = Some ?mem"
    using byte_copy_stores [OF assms(1) m _ assms(4)] assms(3) by (simp add: memcpy_bytes)
  have "mapped ?mem ?q n"
    unfolding mapped_def
  proof (intro allI impI)
    fix a assume a: "inside a ?q n"
    have "a - tp = (a - ?q) + word_of_nat (length ds)" by simp
    moreover have "unat ((a - ?q) + word_of_nat (length ds)) = unat (a - ?q) + length ds"
      using a assms(3) by (intro unat_plus) (simp add: inside_def)
    ultimately have "inside a tp (length ds + n)" using a by (simp add: inside_def)
    then have "mem a \<noteq> None" using assms(2) by (simp add: mapped_def)
    then show "?mem a \<noteq> None" using stores_nth [of ds mem tp a] assms(3) by simp
  qed
  then have "memset ?mem ?q 0 (word_of_nat n) = Some (stores ?mem ?q (replicate n 0))"
    using memset_fills [of ?mem ?q n 0] u assms(3) by simp
  moreover have "stores ?mem ?q (replicate n 0) = tls_image tp ds n mem"
    unfolding stores_append [symmetric] using assms(3) by (simp add: fun_eq_iff tls_image_def stores_nth)
  ultimately show ?thesis using c assms(5,6) by (simp add: init_tls_def)
qed

text \<open>What ends the simulation has the code above its lowest bit, which is set.\<close>

lemma exit_program_value: "exit_program code = word_of_int (2 * uint code + 1)"
proof -
  let ?x = "tohost_exit code"
  have "bit (uint ?x) 0" using tohost_exit_code [of code] by (simp only: bit_uint_iff) simp
  then have "odd (uint ?x)" by (simp add: bit_0)
  then have "uint ?x = 2 * (uint ?x div 2) + 1" by presburger
  also have "uint ?x div 2 = uint (drop_bit 1 ?x)" by (simp add: drop_bit_Suc uint_div)
  also have "\<dots> = uint code" using tohost_exit_code [of code] by (simp add: uint_up_ucast is_up)
  finally have "word_of_int (uint ?x) = (word_of_int (2 * uint code + 1) :: i64)" by (rule arg_cong)
  then show ?thesis by (simp only: exit_program_def word_of_int_uint)
qed

text \<open>
  C35: A run from \<open>_init\<close> to the end. At the thread pointer, which is to have room for them apart from their image, the
  program finds the bytes \<open>ds\<close> of the initialised thread-local data, followed by \<open>n\<close> zeros for the others, and otherwise the
  memory as it was (\<open>tls_image\<close>). When \<open>main\<close> returns, the counters that are not zero are printed to the host in one call, a
  line for each, if any is not, and the simulation ends with \<open>2 * ret + 1\<close> in \<open>tohost\<close>, \<open>ret\<close> the result of \<open>main\<close>. Only
  the array of the report is written, which holds it for names of at most sixteen characters. What \<open>putchar\<close> has in its
  buffer stays there.
\<close>

theorem rt_init_runs:
  assumes "loads (rt_mem st) tdata_begin ds" "mapped (rt_mem st) tp (length ds + n)" "unat tp + (length ds + n) < 2 ^ 32"
    and "\<And>a. inside a tdata_begin (length ds) \<Longrightarrow> \<not> inside a tp (length ds)"
    and "tdata_end = tdata_begin + word_of_nat (length ds)" "tbss_end = tdata_end + word_of_nat n"
    and env: "thread_entry cid nc (st\<lparr>rt_mem := tls_image tp ds n (rt_mem st)\<rparr>, sts) = Some env"
      "main env = Some (ret, st1, sts1)"
    and f: "text_at (rt_mem st1) {a. \<not> inside a buf 64} fmt (counter_format @ [0])"
    and names: "list_all2 (names_text (rt_mem st1) {a. \<not> inside a buf 64}) (zip (counter_names sts1) (counters sts1)) ts"
    and ts: "length ts \<le> 2" "\<forall>(name, c)\<in>set ts. length name \<le> 16"
    and buf: "mapped (rt_mem st1) buf 64" and ack: "\<forall>m. \<exists>k\<ge>m. ack k"
  shows "\<exists>st2. rt_init ack nil (tp, tdata_begin, tdata_end, tbss_end) thread_entry main fmt buf cid nc (st, sts)
      = Some ((st2, sts1), word_of_int (2 * uint ret + 1))
    \<and> rt_calls st2 = rt_calls st1 @ (if report_text ts = [] then [] else [report_text ts]) \<and> rt_buf st2 = rt_buf st1
    \<and> (\<forall>a. inside a buf 64 \<or> rt_mem st2 a = rt_mem st1 a)"
proof -
  have len: "length (report_text ts) \<le> length ts * 31"
    using ts(2)
  proof (induction ts)
    case (Cons t ts)
    then show ?case using length_counter_line [of "fst t" "snd t"] by (cases t) auto
  qed simp
  then have l: "length (report_text ts) < 64" using ts(1) by simp
  obtain mem2 where r: "report_counters nil fmt (zip (counter_names sts1) (counters sts1)) (rt_mem st1) buf
      = Some (mem2, buf + word_of_nat (length (report_text ts)))"
    "\<forall>a. inside a buf 64 \<or> mem2 a = rt_mem st1 a"
    "if report_text ts = [] then mem2 = rt_mem st1 else loads mem2 buf (report_text ts @ [0])"
    using report_counters_text [OF f names buf l] by auto
  have run: "rt_init ack nil (tp, tdata_begin, tdata_end, tbss_end) thread_entry main fmt buf cid nc (st, sts)
      = Option.bind (if word_of_nat (length (report_text ts)) \<noteq> (0 :: i32) then printstr ack buf (st1\<lparr>rt_mem := mem2\<rparr>) else Some (st1\<lparr>rt_mem := mem2\<rparr>))
          (\<lambda>st2. Some ((st2, sts1), word_of_int (2 * uint ret + 1)))"
    using init_tls_image [OF assms(1-6)] env r(1) by (simp add: rt_init_def exit_program_value)
  show ?thesis
  proof (cases "report_text ts = []")
    case True
    then show ?thesis using run r(2) by simp
  next
    case False
    have nz: "word_of_nat (length (report_text ts)) \<noteq> (0 :: i32)"
    proof
      assume "word_of_nat (length (report_text ts)) = (0 :: i32)"
      then have "unat (word_of_nat (length (report_text ts)) :: i32) = 0" by simp
      then show False using l False by (simp add: unsigned_of_nat take_bit_nat_eq_self)
    qed
    have z: "0 \<notin> set (report_text ts)"
      by (rule report_text_nonzero [OF names])
    then have "cstring (rt_mem (st1\<lparr>rt_mem := mem2\<rparr>)) buf (report_text ts)" using r(3) False by (simp add: cstring_def)
    then obtain n where "printstr ack buf (st1\<lparr>rt_mem := mem2\<rparr>) = Some (st1\<lparr>rt_mem := mem2, rt_calls := rt_calls st1 @ [report_text ts], rt_polls := n\<rparr>)"
      using printstr_prints [of "st1\<lparr>rt_mem := mem2\<rparr>" buf "report_text ts" ack] l ack by auto
    then show ?thesis using run nz r(2) False by simp
  qed
qed


section \<open>A run\<close>

text \<open>
  The format at the address 256, the names at 512 and 528, two bytes of initialised thread-local data at 640. The program
  counts 5 cycles, sets the other counter to zero, and returns its first thread-local byte, 3.
\<close>

definition byte_string :: "i8 list \<Rightarrow> i32 \<Rightarrow> memory \<Rightarrow> memory" where
  "byte_string s p mem = stores mem p (s @ [0])"

definition run_memory :: memory where
  "run_memory = stores (byte_string counter_format 256 (byte_string (map of_char ''mcycle'') 512
     (byte_string (map of_char ''minstret'') 528 (\<lambda>_. Some 0)))) 640 [3, 9]"

definition run_rt :: rt where
  "run_rt = \<lparr>rt_mem = run_memory, rt_buf = [], rt_calls = [], rt_polls = 0\<rparr>"

definition run_stats :: stats where
  "run_stats = \<lparr>counters = [5, 0], counter_names = [512, 528], csr_reads = 4\<rparr>"

definition run_main :: "env \<Rightarrow> (i32 \<times> env) option" where
  "run_main env = map_option (\<lambda>b. (ucast b, fst env, run_stats)) (rt_mem (fst env) 2048)"

lemmas run_memory_simps = tls_image_def run_rt_def run_memory_def byte_string_def counter_format_def inside_def unat_sub_if'

lemma rt_init_runs_witness:
  "\<exists>st2. rt_init (\<lambda>_. True) 0 (2048, 640, 642, 644) (\<lambda>cid nc. Some) run_main 256 1024 0 1 (run_rt, no_stats)
     = Some ((st2, run_stats), 7) \<and> rt_calls st2 = [map of_char ''mcycle = 5'' @ [10]]"
proof -
  let ?ro = "{a. \<not> inside a 1024 64}" and ?ts = "[(map of_char ''mcycle'', 5 :: i32), (map of_char ''minstret'', 0)]"
  let ?st = "run_rt\<lparr>rt_mem := tls_image 2048 [3, 9] 2 (rt_mem run_rt)\<rparr>" and ?ds = "[3, 9] :: i8 list"
  have len: "length ?ds = 2" by simp
  have tls: "loads (rt_mem run_rt) 640 ?ds" "mapped (rt_mem run_rt) 2048 (length ?ds + 2)"
    by (simp_all add: run_memory_simps mapped_def)
  have apart: "\<not> inside a 2048 (length ?ds)" if "inside a 640 (length ?ds)" for a
    using that unfolding inside_def len unat_sub_if' by (simp split: if_splits)
  have "rt_mem ?st 2048 = Some 3" by (simp add: tls_image_def inside_def)
  then have main: "run_main (?st, no_stats) = Some (3, ?st, run_stats)" by (simp add: run_main_def)
  have f: "text_at (rt_mem ?st) ?ro 256 (counter_format @ [0])"
    by (simp add: run_memory_simps)
  have n: "list_all2 (names_text (rt_mem ?st) ?ro) (zip (counter_names run_stats) (counters run_stats)) ?ts"
    by (simp add: run_memory_simps run_stats_def names_text_def string_at_def)
  have m: "mapped (rt_mem ?st) 1024 64"
    by (simp add: mapped_def run_memory_simps)
  have t: "report_text ?ts = map of_char ''mcycle = 5'' @ [10]"
    by (simp add: counter_line_def numeral_digits_small digit_char_def)
  have c: "rt_calls ?st = []" by (simp add: run_rt_def)
  have ack: "\<forall>m :: nat. \<exists>k\<ge>m. (\<lambda>_. True) k" by auto
  note run = rt_init_runs [where ack = "\<lambda>_. True" and nil = 0 and cid = 0 and nc = 1 and thread_entry = "\<lambda>cid nc. Some"
      and main = run_main and st = run_rt and sts = no_stats and ret = 3 and env = "(?st, no_stats)" and ds = ?ds and n = 2
      and tp = 2048 and tdata_begin = 640 and tdata_end = 642 and tbss_end = 644 and ?st1.0 = ?st and ?sts1.0 = run_stats
      and ts = ?ts and fmt = 256 and buf = 1024, OF tls _ apart _ _ _ main f n _ _ m ack]
  show ?thesis using run unfolding t c by auto
qed

end
