(* ===== verification/RtUtil.thy ===== *)
theory RtUtil
  imports RtMem
begin

unbundle bit_operations_syntax

text \<open>
  The comparison of results in the core's tests (\<open>verify\<close>, \<open>verifyDouble\<close> in \<open>verif/tests/custom/common/util.h\<close>),
  with the loop that takes two elements at a time, and \<open>insn_len\<close>. The result of a comparison is shown to be one more than the
  index of the first difference.
\<close>

section \<open>Comparing arrays\<close>

text \<open>
  The loop \<open>for (i = 0; i < n/2*2; i+=2)\<close>; the first argument is the number of its iterations left. The inner option is
  empty if the loop ends without a \<open>return\<close>.
\<close>

fun verify_loop :: "i32 list \<Rightarrow> i32 list \<Rightarrow> nat \<Rightarrow> nat \<Rightarrow> int option option" where
  "verify_loop test ver 0 i = Some None"
| "verify_loop test ver (Suc k) i = do {
     t0 \<leftarrow> rd test i; t1 \<leftarrow> rd test (i + 1);
     v0 \<leftarrow> rd ver i; v1 \<leftarrow> rd ver (i + 1);
     if t0 \<noteq> v0 then Some (Some (int i + 1))
     else if t1 \<noteq> v1 then Some (Some (int i + 2))
     else verify_loop test ver k (i + 2)
   }"

definition rd_int :: "'a list \<Rightarrow> int \<Rightarrow> 'a option" where
  "rd_int xs i = (if i < 0 then None else rd xs (nat i))"

definition verify :: "int \<Rightarrow> i32 list \<Rightarrow> i32 list \<Rightarrow> int option" where
  "verify n test ver = do {
     found \<leftarrow> verify_loop test ver (nat (cdiv n 2)) 0;
     (case found of
        Some r \<Rightarrow> Some r
      | None \<Rightarrow>
          if crem n 2 \<noteq> 0 then do {
            t \<leftarrow> rd_int test (n - 1); v \<leftarrow> rd_int ver (n - 1);
            Some (if t \<noteq> v then n else 0)
          } else Some 0)
   }"

text \<open>The comparison of \<open>double\<close> values is the argument \<open>feq\<close>.\<close>

fun verify_double_loop :: "('a \<Rightarrow> 'a \<Rightarrow> bool) \<Rightarrow> 'a list \<Rightarrow> 'a list \<Rightarrow> nat \<Rightarrow> nat \<Rightarrow> int option option" where
  "verify_double_loop feq test ver 0 i = Some None"
| "verify_double_loop feq test ver (Suc k) i = do {
     t0 \<leftarrow> rd test i; t1 \<leftarrow> rd test (i + 1);
     v0 \<leftarrow> rd ver i; v1 \<leftarrow> rd ver (i + 1);
     let eq1 = feq t0 v0; eq2 = feq t1 v1 in
       if \<not> (eq1 \<and> eq2) then Some (Some (int i + 1 + (if eq1 then 1 else 0)))
       else verify_double_loop feq test ver k (i + 2)
   }"

definition verifyDouble :: "('a \<Rightarrow> 'a \<Rightarrow> bool) \<Rightarrow> int \<Rightarrow> 'a list \<Rightarrow> 'a list \<Rightarrow> int option" where
  "verifyDouble feq n test ver = do {
     found \<leftarrow> verify_double_loop feq test ver (nat (cdiv n 2)) 0;
     (case found of
        Some r \<Rightarrow> Some r
      | None \<Rightarrow>
          if crem n 2 \<noteq> 0 then do {
            t \<leftarrow> rd_int test (n - 1); v \<leftarrow> rd_int ver (n - 1);
            Some (if \<not> feq t v then n else 0)
          } else Some 0)
   }"

text \<open>The first index below \<open>n\<close> at which the arrays differ, counted from one; zero if there is none.\<close>

definition first_difference :: "('a \<Rightarrow> 'a \<Rightarrow> bool) \<Rightarrow> nat \<Rightarrow> 'a list \<Rightarrow> 'a list \<Rightarrow> int" where
  "first_difference feq n test ver =
     (case List.find (\<lambda>i. \<not> feq (test ! i) (ver ! i)) [0..<n] of None \<Rightarrow> 0 | Some i \<Rightarrow> int i + 1)"

lemma verify_loop_double: "verify_loop test ver k i = verify_double_loop (=) test ver k i"
proof (induction k arbitrary: i)
  case (Suc k)
  then show ?case
    by (cases "rd test i"; cases "rd test (i + 1)"; cases "rd ver i"; cases "rd ver (i + 1)") (simp_all add: Let_def)
qed simp

lemma verify_is_double: "verify n test ver = verifyDouble (=) n test ver"
  by (simp add: verify_def verifyDouble_def verify_loop_double)

lemma verify_double_loop_find:
  "i + 2 * k \<le> length test \<Longrightarrow> i + 2 * k \<le> length ver \<Longrightarrow> verify_double_loop feq test ver k i
    = Some (map_option (\<lambda>j. int j + 1) (List.find (\<lambda>j. \<not> feq (test ! j) (ver ! j)) [i..<i + 2 * k]))"
proof (induction k arbitrary: i)
  case (Suc k)
  have u: "[i..<i + 2 * Suc k] = i # (i + 1) # [i + 2..<i + 2 + 2 * k]"
    by (simp add: upt_conv_Cons)
  show ?case using Suc.prems Suc.IH [of "i + 2"] unfolding u by (auto simp: Let_def)
qed simp

lemma find_snoc: "List.find P (xs @ [x]) = (case List.find P xs of None \<Rightarrow> (if P x then Some x else None) | Some y \<Rightarrow> Some y)"
  by (induction xs) simp_all

theorem verifyDouble_first:
  assumes "n \<le> length test" "n \<le> length ver"
  shows "verifyDouble feq (int n) test ver = Some (first_difference feq n test ver)"
proof -
  let ?P = "\<lambda>j. \<not> feq (test ! j) (ver ! j)"
  have c: "nat (cdiv (int n) 2) = n div 2" "crem (int n) 2 = int (n mod 2)"
    by (simp_all add: crem_def flip: zdiv_int) (simp add: zmod_int minus_div_mult_eq_mod flip: zdiv_int)
  have l: "verify_double_loop feq test ver (n div 2) 0 = Some (map_option (\<lambda>j. int j + 1) (List.find ?P [0..<2 * (n div 2)]))"
    using verify_double_loop_find [of 0 "n div 2" test ver feq] assms by simp
  show ?thesis
  proof (cases "even n")
    case True
    then have "2 * (n div 2) = n" "n mod 2 = 0" by auto
    then show ?thesis using l c by (auto simp: verifyDouble_def first_difference_def split: option.split)
  next
    case False
    then have n: "n = Suc (2 * (n div 2))" "n mod 2 = 1" by presburger+
    have u: "[0..<n] = [0..<2 * (n div 2)] @ [2 * (n div 2)]" by (subst n(1)) simp
    have r: "rd_int test (int n - 1) = Some (test ! (2 * (n div 2)))" "rd_int ver (int n - 1) = Some (ver ! (2 * (n div 2)))"
    proof -
      have "nat (int n - 1) = 2 * (n div 2)" "\<not> int n - 1 < 0" using n(1) by linarith+
      then show "rd_int test (int n - 1) = Some (test ! (2 * (n div 2)))" "rd_int ver (int n - 1) = Some (ver ! (2 * (n div 2)))"
        using assms n(1) by (simp_all add: rd_int_def)
    qed
    show ?thesis using l c n(2) r
      by (auto simp: verifyDouble_def first_difference_def u find_snoc split: option.split) (use n(1) in linarith)
  qed
qed

text \<open>The integer version, and what the reference function says.\<close>

lemma verify_first:
  "n \<le> length test \<Longrightarrow> n \<le> length ver \<Longrightarrow> verify (int n) test ver = Some (first_difference (=) n test ver)"
  unfolding verify_is_double by (rule verifyDouble_first)

lemma first_difference_0: "first_difference feq n test ver = 0 \<longleftrightarrow> (\<forall>i<n. feq (test ! i) (ver ! i))"
proof (cases "List.find (\<lambda>i. \<not> feq (test ! i) (ver ! i)) [0..<n]")
  case None
  then have "\<forall>i<n. feq (test ! i) (ver ! i)" by (auto simp: find_None_iff)
  then show ?thesis by (simp add: first_difference_def None)
next
  case (Some j)
  then have "\<exists>i<n. \<not> feq (test ! i) (ver ! i)" by (auto simp: find_Some_iff)
  then show ?thesis by (auto simp: first_difference_def Some)
qed

text \<open>A negative odd length reads before the arrays.\<close>

lemma verify_negative: "verify (- 3) test ver = None"
proof -
  have "nat (cdiv (- 3) 2) = 0" "crem (- 3) 2 \<noteq> 0" by (simp_all add: cdiv_def crem_def)
  then show ?thesis by (simp add: verify_def rd_int_def)
qed

section \<open>The length of an instruction\<close>

text \<open>The lowest two bits of an instruction are both set exactly if it is not compressed, but the code tests if one of them is.\<close>

definition insn_len :: "memory \<Rightarrow> i32 \<Rightarrow> i32 option" where
  "insn_len mem pc = do {
     lo \<leftarrow> mem pc; hi \<leftarrow> mem (pc + 1);
     Some (if (ucast lo OR push_bit 8 (ucast hi) :: i16) AND 3 \<noteq> 0 then 4 else 2)
   }"

text \<open>For the compressed instruction \<open>c.nop\<close>, 0x0001, the length is given as four.\<close>

lemma insn_len_compressed: "insn_len (\<lambda>a. if a = 0 then Some 1 else Some 0) 0 = Some 4"
  by (simp add: insn_len_def)

end
