(* ===== verification/RtBarrier.thy ===== *)
theory RtBarrier
  imports Prelude
begin

text \<open>
  The barrier of the core's tests (\<open>barrier\<close> in \<open>verif/tests/custom/common/util.h\<close>), with the atomic extension. The cores
  run interleaved; every access to a shared variable is a step of its own, in program order, on a sequentially consistent
  memory. The main results are that no core returns from a call before every core has made its own, and that
  all cores return once each of them has called and been given four turns, in any order.
\<close>

section \<open>The code\<close>

text \<open>
  Where a core is: outside \<open>barrier\<close>, before the atomic addition, before \<open>count = 0\<close>, before
  \<open>sense = threadsense\<close>, or in the loop. \<open>calls\<close> and \<open>returns\<close> count the calls of
  \<open>barrier\<close> that the core has begun and ended; the code has no such variables.
\<close>

datatype barrier_pc = Outside | Adding | Clearing | Releasing | Spinning

record core =
  threadsense :: i32
  pc :: barrier_pc
  calls :: nat
  returns :: nat

record barrier =
  sense :: i32
  count :: i32
  core_of :: "nat \<Rightarrow> core"

definition set_core :: "nat \<Rightarrow> core \<Rightarrow> barrier \<Rightarrow> barrier" where
  "set_core i c s = s\<lparr>core_of := (core_of s)(i := c)\<rparr>"

definition barrier_step :: "i32 \<Rightarrow> nat \<Rightarrow> barrier \<Rightarrow> barrier" where
  "barrier_step ncores i s = (let c = core_of s i in
     case pc c of
       Outside \<Rightarrow> set_core i (c\<lparr>threadsense := if threadsense c = 0 then 1 else 0, pc := Adding, calls := calls c + 1\<rparr>) s
     | Adding \<Rightarrow> set_core i (c\<lparr>pc := if count s = ncores - 1 then Clearing else Spinning\<rparr>) (s\<lparr>count := count s + 1\<rparr>)
     | Clearing \<Rightarrow> set_core i (c\<lparr>pc := Releasing\<rparr>) (s\<lparr>count := 0\<rparr>)
     | Releasing \<Rightarrow> set_core i (c\<lparr>pc := Outside, returns := returns c + 1\<rparr>) (s\<lparr>sense := threadsense c\<rparr>)
     | Spinning \<Rightarrow>
         if sense s \<noteq> threadsense c then s else set_core i (c\<lparr>pc := Outside, returns := returns c + 1\<rparr>) s)"

definition barrier_boot :: barrier where
  "barrier_boot = \<lparr>sense = 0, count = 0, core_of = (\<lambda>_. \<lparr>threadsense = 0, pc = Outside, calls = 0, returns = 0\<rparr>)\<rparr>"

inductive barrier_reach :: "i32 \<Rightarrow> barrier \<Rightarrow> bool" for ncores where
  boot: "barrier_reach ncores barrier_boot"
| step: "barrier_reach ncores s \<Longrightarrow> i < unat ncores \<Longrightarrow> barrier_reach ncores (barrier_step ncores i s)"

text \<open>A turn of a core that does not call \<open>barrier\<close> again.\<close>

definition barrier_turn :: "i32 \<Rightarrow> nat \<Rightarrow> barrier \<Rightarrow> barrier" where
  "barrier_turn ncores i s = (if pc (core_of s i) = Outside then s else barrier_step ncores i s)"

section \<open>The invariant\<close>

text \<open>
  In round \<open>r\<close>, the number of the completed rounds, a core outside has returned \<open>r\<close> times. A core in the loop may still have
  to notice the end of the round before. \<open>arrived\<close> are the cores that have added to the count in this round; one of them is the
  last exactly if all have, and \<open>count\<close> is their number until the last one clears it.
\<close>

definition core_ok :: "nat \<Rightarrow> core \<Rightarrow> bool" where
  "core_ok r c \<longleftrightarrow> threadsense c = of_nat (calls c mod 2) \<and> calls c = returns c + (if pc c = Outside then 0 else 1)
     \<and> (returns c = r \<or> pc c = Spinning \<and> returns c + 1 = r)"

definition arrived :: "i32 \<Rightarrow> nat \<Rightarrow> barrier \<Rightarrow> nat set" where
  "arrived ncores r s =
     {i. i < unat ncores \<and> pc (core_of s i) \<in> {Clearing, Releasing, Spinning} \<and> returns (core_of s i) = r}"

definition is_last :: "barrier \<Rightarrow> nat \<Rightarrow> bool" where
  "is_last s i \<longleftrightarrow> pc (core_of s i) \<in> {Clearing, Releasing}"

definition barrier_inv :: "i32 \<Rightarrow> nat \<Rightarrow> barrier \<Rightarrow> bool" where
  "barrier_inv ncores r s \<longleftrightarrow> sense s = of_nat (r mod 2) \<and> (\<forall>i<unat ncores. core_ok r (core_of s i))
     \<and> ((\<exists>i<unat ncores. is_last s i) \<longleftrightarrow> card (arrived ncores r s) = unat ncores)
     \<and> (\<forall>i<unat ncores. \<forall>j<unat ncores. is_last s i \<longrightarrow> is_last s j \<longrightarrow> i = j)
     \<and> count s = (if \<exists>i<unat ncores. pc (core_of s i) = Releasing then 0 else of_nat (card (arrived ncores r s)))"

lemma arrived_le: "card (arrived n r s) \<le> unat n" and arrived_finite [simp]: "finite (arrived n r s)"
proof -
  have "arrived n r s \<subseteq> {..<unat n}" by (auto simp: arrived_def)
  from card_mono [OF _ this] finite_subset [OF this] show "card (arrived n r s) \<le> unat n" "finite (arrived n r s)" by simp_all
qed

lemma arrived_all: "card (arrived n r s) = unat n \<longleftrightarrow> arrived n r s = {..<unat n}"
proof -
  have "arrived n r s \<subseteq> {..<unat n}" by (auto simp: arrived_def)
  from card_subset_eq [OF _ this] show ?thesis by (metis card_lessThan finite_lessThan)
qed

lemma last_all_arrived: "barrier_inv n r s \<Longrightarrow> i < unat n \<Longrightarrow> is_last s i \<Longrightarrow> j < unat n \<Longrightarrow>
    pc (core_of s j) \<in> {Clearing, Releasing, Spinning} \<and> returns (core_of s j) = r"
proof -
  assume a: "barrier_inv n r s" "i < unat n" "is_last s i" "j < unat n"
  then have "arrived n r s = {..<unat n}" unfolding barrier_inv_def arrived_all by blast
  with a(4) have "j \<in> arrived n r s" by simp
  then show ?thesis by (simp add: arrived_def)
qed

lemma set_core_simps [simp]:
  "sense (set_core i c s) = sense s" "count (set_core i c s) = count s"
  "core_of (set_core i c s) j = (if j = i then c else core_of s j)"
  by (simp_all add: set_core_def)

lemma of_nat_mod_2_eq: "(of_nat (a mod 2) :: i32) = of_nat (b mod 2) \<longleftrightarrow> a mod 2 = b mod 2"
  by (cases "even a"; cases "even b") (auto simp: even_iff_mod_2_eq_zero odd_iff_mod_2_eq_one)

lemma flip_parity: "(if (of_nat (a mod 2) :: i32) = 0 then 1 else 0 :: i32) = of_nat (Suc a mod 2)"
  by (cases "even a") (auto simp: even_iff_mod_2_eq_zero odd_iff_mod_2_eq_one mod_Suc)

lemma boot_inv: "0 < n \<Longrightarrow> barrier_inv n 0 barrier_boot"
  by (auto simp: barrier_inv_def barrier_boot_def core_ok_def arrived_def is_last_def unat_gt_0 word_gt_0)

text \<open>The steps that leave the round and the cores that have arrived as they are.\<close>

lemma arrived_same:
  assumes "pc c \<notin> {Clearing, Releasing, Spinning} \<or> returns c \<noteq> r"
    and "i \<notin> arrived n r s"
  shows "arrived n r (set_core i c s) = arrived n r s"
  using assms by (auto simp: arrived_def)

lemma quiet_inv:
  assumes inv: "barrier_inv n r s" and i: "i < unat n" "i \<notin> arrived n r s" "core_ok r c" "pc c \<in> {Outside, Adding}"
  shows "barrier_inv n r (set_core i c s)"
proof -
  have a: "arrived n r (set_core i c s) = arrived n r s" using assms by (intro arrived_same) auto
  have nl: "\<not> is_last s j" if "j < unat n" for j
    using last_all_arrived [OF inv that _ i(1)] i(1,2) by (auto simp: arrived_def)
  then have n: "\<not> is_last (set_core i c s) j" "pc (core_of (set_core i c s) j) \<noteq> Releasing" "pc (core_of s j) \<noteq> Releasing"
    if "j < unat n" for j
    using that i(4) by (auto simp: is_last_def)
  have "card (arrived n r s) \<noteq> unat n" "count s = of_nat (card (arrived n r s))" "sense s = of_nat (r mod 2)"
    using inv nl n(3) by (auto simp: barrier_inv_def)
  moreover have "core_ok r (core_of (set_core i c s) j)" if "j < unat n" for j
    using that inv i(3) by (simp add: barrier_inv_def)
  ultimately show ?thesis using n i(4) unfolding barrier_inv_def a by auto
qed

lemma adding_inv:
  assumes inv: "barrier_inv n r s" and i: "i < unat n" "pc (core_of s i) = Adding"
  shows "barrier_inv n r (barrier_step n i s)"
proof -
  let ?s = "barrier_step n i s" and ?A = "arrived n r s"
  have nl: "\<not> is_last s j" if "j < unat n" for j
    using last_all_arrived [OF inv that _ i(1)] i(2) by auto
  have c: "core_ok r (core_of s i)" "count s = of_nat (card ?A)" "sense s = of_nat (r mod 2)"
    using inv nl i(1) by (auto simp: barrier_inv_def is_last_def)
  have A: "i \<notin> ?A" "arrived n r ?s = insert i ?A"
    using i c(1) by (auto simp: arrived_def barrier_step_def core_ok_def)
  have lt: "card ?A < unat n" using arrived_le [of n r s] A(1) i(1) arrived_all [of n r s] by force
  have n0: "unat (n - 1) = unat n - 1" using i(1) by (intro unat_minus_one) auto
  have cc: "count s = n - 1 \<longleftrightarrow> Suc (card ?A) = unat n"
  proof -
    have "count s = n - 1 \<longleftrightarrow> unat (count s) = unat (n - 1)" by (rule word_unat_eq_iff)
    also have "unat (count s) = card ?A"
    proof -
      have "unat n < 2 ^ 32" by (rule order_less_le_trans [OF unsigned_less]) simp
      then show ?thesis using c(2) lt by (simp add: unat_of_nat)
    qed
    finally show ?thesis using n0 i(1) by linarith
  qed
  have l: "is_last ?s j \<longleftrightarrow> j = i \<and> Suc (card ?A) = unat n" if "j < unat n" for j
    using nl [OF that] i(2) cc by (auto simp: is_last_def barrier_step_def)
  have ok: "core_ok r (core_of ?s j)" if "j < unat n" for j
    using inv that i(2) c(1) by (auto simp: barrier_inv_def barrier_step_def core_ok_def)
  have rel: "pc (core_of ?s j) \<noteq> Releasing" if "j < unat n" for j
    using nl [OF that] i(2) by (auto simp: is_last_def barrier_step_def)
  have cnt: "count ?s = of_nat (card (arrived n r ?s))" "sense ?s = of_nat (r mod 2)"
    using c i(2) A by (simp_all add: barrier_step_def)
  show ?thesis
    unfolding barrier_inv_def using l ok rel cnt A i(1) by auto
qed

lemma last_unique: "barrier_inv n r s \<Longrightarrow> i < unat n \<Longrightarrow> j < unat n \<Longrightarrow> is_last s i \<Longrightarrow> is_last s j \<Longrightarrow> i = j"
  by (simp add: barrier_inv_def)

lemma clearing_inv:
  assumes inv: "barrier_inv n r s" and i: "i < unat n" "pc (core_of s i) = Clearing"
  shows "barrier_inv n r (barrier_step n i s)"
proof -
  let ?s = "barrier_step n i s"
  have li: "is_last s i" using i(2) by (simp add: is_last_def)
  have A: "arrived n r ?s = arrived n r s" using i by (auto simp: arrived_def barrier_step_def)
  have l: "is_last ?s j \<longleftrightarrow> is_last s j" for j using i by (simp add: is_last_def barrier_step_def)
  have ok: "core_ok r (core_of ?s j)" if "j < unat n" for j
    using inv that i(2) by (auto simp: barrier_inv_def barrier_step_def core_ok_def)
  have "pc (core_of ?s i) = Releasing" "count ?s = 0" "sense ?s = sense s" using i(2) by (simp_all add: barrier_step_def)
  with inv i(1) ok show ?thesis unfolding barrier_inv_def A l by auto
qed

lemma releasing_inv:
  assumes inv: "barrier_inv n r s" and i: "i < unat n" "pc (core_of s i) = Releasing"
  shows "barrier_inv n (Suc r) (barrier_step n i s)"
proof -
  let ?s = "barrier_step n i s"
  have li: "is_last s i" using i(2) by (simp add: is_last_def)
  have all: "pc (core_of s j) = Spinning" "returns (core_of s j) = r" if "j < unat n" "j \<noteq> i" for j
    using last_all_arrived [OF inv i(1) li that(1)] last_unique [OF inv that(1) i(1) _ li] that(2)
    by (auto simp: is_last_def)
  have ci: "core_ok r (core_of s i)" "core_ok r (core_of s j)" "count s = 0" if "j < unat n" for j
    using inv i that by (auto simp: barrier_inv_def)
  have oi: "calls (core_of s i) = Suc r" "returns (core_of s i) = r" "threadsense (core_of s i) = of_nat (Suc r mod 2)"
    using ci(1) [OF i(1)] i(2) by (auto simp: core_ok_def)
  have ok: "core_ok (Suc r) (core_of ?s j)" if "j < unat n" for j
    using all [OF that] oi ci(2) [OF that] i(2) by (cases "j = i") (auto simp: barrier_step_def core_ok_def)
  have A: "arrived n (Suc r) ?s = {}"
  proof -
    have "returns (core_of ?s j) = r \<or> pc (core_of ?s j) = Outside" if "j < unat n" for j
      using all(2) [OF that] i(2) by (cases "j = i") (simp_all add: barrier_step_def Let_def)
    then show ?thesis by (fastforce simp: arrived_def)
  qed
  have l: "\<not> is_last ?s j" if "j < unat n" for j
    using all(1) [OF that] i(2) by (cases "j = i") (simp_all add: is_last_def barrier_step_def Let_def)
  have "sense ?s = of_nat (Suc r mod 2)" "count ?s = 0"
    using oi(3) ci(3) [OF i(1)] i(2) by (simp_all add: barrier_step_def Let_def)
  then show ?thesis using ok l i(1) unfolding barrier_inv_def A by auto
qed

lemma spinning_inv:
  assumes inv: "barrier_inv n r s" and i: "i < unat n" "pc (core_of s i) = Spinning"
  shows "barrier_inv n r (barrier_step n i s)"
proof (cases "sense s = threadsense (core_of s i)")
  case False
  then show ?thesis using inv i by (simp add: barrier_step_def Let_def)
next
  case True
  let ?c = "(core_of s i)\<lparr>pc := Outside, returns := returns (core_of s i) + 1\<rparr>"
  have c: "core_ok r (core_of s i)" "sense s = of_nat (r mod 2)" using inv i by (simp_all add: barrier_inv_def)
  then have "calls (core_of s i) mod 2 = r mod 2" using True of_nat_mod_2_eq by (auto simp: core_ok_def)
  then have r: "returns (core_of s i) + 1 = r" using c(1) i(2) by (auto simp: core_ok_def mod_Suc split: if_splits)
  then have "core_ok r ?c" "i \<notin> arrived n r s" using c(1) i(2) by (auto simp: core_ok_def arrived_def)
  with quiet_inv [OF inv i(1)] True i(2) show ?thesis by (simp add: barrier_step_def Let_def)
qed

lemma outside_inv:
  assumes inv: "barrier_inv n r s" and i: "i < unat n" "pc (core_of s i) = Outside"
  shows "barrier_inv n r (barrier_step n i s)"
proof -
  let ?c = "(core_of s i)\<lparr>threadsense := if threadsense (core_of s i) = 0 then 1 else 0, pc := Adding,
    calls := calls (core_of s i) + 1\<rparr>"
  have c: "core_ok r (core_of s i)" using inv i by (simp add: barrier_inv_def)
  then have "core_ok r ?c" "i \<notin> arrived n r s"
    using i(2) flip_parity [of "calls (core_of s i)"] by (auto simp: core_ok_def arrived_def)
  with quiet_inv [OF inv i(1)] i(2) show ?thesis by (simp add: barrier_step_def Let_def)
qed

lemma step_inv:
  "barrier_inv n r s \<Longrightarrow> i < unat n \<Longrightarrow> barrier_inv n (if pc (core_of s i) = Releasing then Suc r else r) (barrier_step n i s)"
  by (cases "pc (core_of s i)") (simp_all add: outside_inv adding_inv clearing_inv releasing_inv spinning_inv)

lemma reach_inv: "barrier_reach n s \<Longrightarrow> 0 < n \<Longrightarrow> \<exists>r. barrier_inv n r s"
  by (induction rule: barrier_reach.induct) (blast intro: boot_inv step_inv)+


section \<open>What a core sees\<close>

lemma calls_returns:
  assumes "barrier_inv n r s" "i < unat n"
  shows "returns (core_of s i) \<le> r" "r \<le> calls (core_of s i)" "calls (core_of s i) \<le> Suc r"
    "calls (core_of s i) = returns (core_of s i) + (if pc (core_of s i) = Outside then 0 else 1)"
  using assms by (auto simp: barrier_inv_def core_ok_def)

text \<open>
  A run of turns over cores, each of which takes one: what no turn brings about and a turn of the core removes is gone.
\<close>

lemma turns_clear:
  assumes keep: "\<And>i s. Q s \<Longrightarrow> i < n \<Longrightarrow> Q (turn i s)"
    and others: "\<And>i j s. Q s \<Longrightarrow> i < n \<Longrightarrow> j < n \<Longrightarrow> \<not> bad s i \<Longrightarrow> \<not> bad (turn j s) i"
    and own: "\<And>i s. Q s \<Longrightarrow> i < n \<Longrightarrow> \<not> bad (turn i s) i"
    and s: "Q s" and js: "set js \<subseteq> {..<n}"
  shows "Q (fold turn js s) \<and> (\<forall>i<n. i \<in> set js \<or> \<not> bad s i \<longrightarrow> \<not> bad (fold turn js s) i)"
  using s js
proof (induction js arbitrary: s)
  case Nil
  then show ?case by simp
next
  case (Cons j js)
  then have j: "j < n" by simp
  from Cons.IH [OF keep [OF Cons.prems(1) j]] Cons.prems(2) have
    "Q (fold turn js (turn j s))" "\<forall>i<n. i \<in> set js \<or> \<not> bad (turn j s) i \<longrightarrow> \<not> bad (fold turn js (turn j s)) i" by simp_all
  moreover have "\<not> bad (turn j s) i" if "i < n" "i = j \<or> \<not> bad s i" for i
    using that own [OF Cons.prems(1)] others [OF Cons.prems(1) _ j] by metis
  ultimately show ?case by auto
qed

lemma turn_inv: "barrier_inv n r s \<Longrightarrow> i < unat n \<Longrightarrow> \<exists>r. barrier_inv n r (barrier_turn n i s)"
  unfolding barrier_turn_def by (metis step_inv)

lemma turn_calls: "calls (core_of (barrier_turn n i s) j) = calls (core_of s j)"
  by (cases "pc (core_of s i)") (auto simp: barrier_turn_def barrier_step_def Let_def)

lemma turn_others: "j \<noteq> i \<Longrightarrow> core_of (barrier_turn n i s) j = core_of s j"
  by (cases "pc (core_of s i)") (simp_all add: barrier_turn_def barrier_step_def Let_def)

lemma turn_own:
  "pc (core_of (barrier_turn n i s) i) = (case pc (core_of s i) of
      Outside \<Rightarrow> Outside | Adding \<Rightarrow> (if count s = n - 1 then Clearing else Spinning) | Clearing \<Rightarrow> Releasing
    | Releasing \<Rightarrow> Outside | Spinning \<Rightarrow> (if sense s = threadsense (core_of s i) then Outside else Spinning))"
  by (cases "pc (core_of s i)") (simp_all add: barrier_turn_def barrier_step_def Let_def)

text \<open>All cores have called equally often, and none is at one of the places.\<close>

definition called :: "i32 \<Rightarrow> nat \<Rightarrow> barrier_pc set \<Rightarrow> barrier \<Rightarrow> bool" where
  "called n c gone s \<longleftrightarrow> (\<exists>r. barrier_inv n r s) \<and> (\<forall>i<unat n. calls (core_of s i) = c \<and> pc (core_of s i) \<notin> gone)"

lemma called_turns:
  assumes s: "called n c gone s"
    and gone: "\<And>i s. called n c gone s \<Longrightarrow> i < unat n \<Longrightarrow> pc (core_of (barrier_turn n i s) i) \<notin> insert p gone"
    and js: "set js = {..<unat n}"
  shows "called n c (insert p gone) (fold (barrier_turn n) js s)"
proof -
  have "called n c gone (fold (barrier_turn n) js s)
      \<and> (\<forall>i<unat n. i \<in> set js \<or> pc (core_of s i) \<noteq> p \<longrightarrow> \<not> pc (core_of (fold (barrier_turn n) js s) i) = p)"
  proof (rule turns_clear [where Q = "called n c gone" and bad = "\<lambda>s i. pc (core_of s i) = p"])
    fix i s
    assume a: "called n c gone s" "i < unat n"
    have o: "pc (core_of (barrier_turn n i s) j) \<notin> gone" if "j < unat n" for j
      using that a gone [OF a] by (cases "j = i") (simp_all add: turn_others called_def)
    then show "called n c gone (barrier_turn n i s)"
      using a turn_inv by (auto simp: called_def turn_calls)
    show "pc (core_of (barrier_turn n i s) i) \<noteq> p" using gone [OF a] by simp
  next
    fix i j s
    assume a: "called n c gone s" "i < unat n" "j < unat n" "pc (core_of s i) \<noteq> p"
    then show "pc (core_of (barrier_turn n j s) i) \<noteq> p"
      using gone [of s j] by (cases "i = j") (simp_all add: turn_others)
  qed (use s js in auto)
  then show ?thesis using js by (auto simp: called_def)
qed

text \<open>Once no core is on its way, all that are still in the loop may leave it.\<close>

lemma called_released:
  assumes s: "called n c {Adding, Clearing, Releasing} s" and i: "i < unat n" "pc (core_of s i) = Spinning"
  shows "sense s = threadsense (core_of s i)"
proof -
  obtain r where inv: "barrier_inv n r s" using s by (auto simp: called_def)
  have ok: "core_ok r (core_of s i)" "sense s = of_nat (r mod 2)" using inv i by (auto simp: barrier_inv_def)
  have c: "calls (core_of s j) = c" "pc (core_of s j) \<in> {Outside, Spinning}" if "j < unat n" for j
    using s that by (cases "pc (core_of s j)"; auto simp: called_def)+
  have "returns (core_of s i) \<noteq> r"
  proof
    assume r: "returns (core_of s i) = r"
    then have "c = Suc r" using ok(1) i c(1) [of i] by (simp add: core_ok_def)
    then have "j \<in> arrived n r s" if "j < unat n" for j
      using c [OF that] calls_returns [OF inv that] that by (auto simp: arrived_def split: if_splits)
    then have "card (arrived n r s) = unat n" unfolding arrived_all by (auto simp: arrived_def)
    then obtain j where "j < unat n" "is_last s j" using inv unfolding barrier_inv_def by blast
    with c(2) [of j] show False by (auto simp: is_last_def)
  qed
  then have "calls (core_of s i) = r" using ok(1) i(2) by (auto simp: core_ok_def)
  with ok show ?thesis by (simp add: core_ok_def)
qed

lemma called_finish:
  assumes "called n c {} s" "set js1 = {..<unat n}" "set js2 = {..<unat n}" "set js3 = {..<unat n}" "set js4 = {..<unat n}"
  shows "called n c {Spinning, Releasing, Clearing, Adding} (fold (barrier_turn n) (js1 @ js2 @ js3 @ js4) s)"
proof -
  let ?t = "fold (barrier_turn n)"
  have "called n c {Adding} (?t js1 s)"
    using assms(1) by (rule called_turns [OF _ _ assms(2)]) (auto simp: turn_own split: barrier_pc.split)
  then have "called n c {Clearing, Adding} (?t js2 (?t js1 s))"
    by (rule called_turns [OF _ _ assms(3)]) (auto simp: turn_own called_def split: barrier_pc.split)
  then have "called n c {Releasing, Clearing, Adding} (?t js3 (?t js2 (?t js1 s)))"
    by (rule called_turns [OF _ _ assms(4)]) (auto simp: turn_own called_def split: barrier_pc.split)
  then have "called n c {Spinning, Releasing, Clearing, Adding} (?t js4 (?t js3 (?t js2 (?t js1 s))))"
  proof (rule called_turns)
    fix i s
    assume a: "called n c {Releasing, Clearing, Adding} s" "i < unat n"
    then have "pc (core_of s i) \<in> {Outside, Spinning}" by (cases "pc (core_of s i)") (auto simp: called_def)
    then show "pc (core_of (barrier_turn n i s) i) \<notin> {Spinning, Releasing, Clearing, Adding}"
      using called_released [of n c s i] a by (auto simp: turn_own insert_commute)
  qed (rule assms(5))
  then show ?thesis by simp
qed

section \<open>Properties\<close>

text \<open>
  C5: The barrier is safe: with any number of cores and in any interleaving of their steps, no core has returned from
  its call number \<open>k\<close> before every core has begun its call number \<open>k\<close>, and no core is ahead of another by more than one call. The
  barrier can be used again at once.
\<close>

theorem barrier_safe:
  assumes "barrier_reach ncores s" "i < unat ncores" "j < unat ncores"
  shows "returns (core_of s i) \<le> calls (core_of s j) \<and> calls (core_of s i) \<le> calls (core_of s j) + 1"
proof -
  have "0 < ncores" using assms(2) by (metis not_less_zero unsigned_0 word_gt_0)
  then obtain r where "barrier_inv ncores r s" using reach_inv assms(1) by blast
  from calls_returns [OF this assms(2)] calls_returns [OF this assms(3)] show ?thesis by linarith
qed

text \<open>
  C22: The barrier does not block: when all cores have called it equally often, all these calls have returned after four rounds, one
  after the other, in each of which every core has at least one turn, in any order and with any number of turns.
\<close>

theorem barrier_returns:
  assumes "barrier_reach ncores s" "\<forall>i<unat ncores. calls (core_of s i) = c"
    and "length rounds = 4" "\<forall>js\<in>set rounds. set js = {..<unat ncores}" "i < unat ncores"
  shows "let c' = core_of (fold (barrier_turn ncores) (concat rounds) s) i in pc c' = Outside \<and> returns c' = c"
proof -
  have "0 < ncores" using assms(5) by (metis not_less_zero unsigned_0 word_gt_0)
  then have "called ncores c {} s" using reach_inv assms(1,2) by (auto simp: called_def)
  moreover obtain js1 js2 js3 js4 where r: "rounds = [js1, js2, js3, js4]"
    using assms(3) by (auto simp: numeral_eq_Suc length_Suc_conv)
  ultimately have fin: "called ncores c {Spinning, Releasing, Clearing, Adding} (fold (barrier_turn ncores) (concat rounds) s)"
    using called_finish [of ncores c s js1 js2 js3 js4] assms(4) by simp
  then have p: "pc (core_of (fold (barrier_turn ncores) (concat rounds) s) i) = Outside"
    using assms(5) by (cases "pc (core_of (fold (barrier_turn ncores) (concat rounds) s) i)") (auto simp: called_def)
  from fin obtain r where "barrier_inv ncores r (fold (barrier_turn ncores) (concat rounds) s)" by (auto simp: called_def)
  from calls_returns(4) [OF this assms(5)] p fin assms(5) show ?thesis by (simp add: called_def Let_def)
qed


section \<open>A run of three cores\<close>

text \<open>
  The second core calls first; the third comes last, releases the others and calls again before they notice it.
\<close>

definition barrier_schedule :: "nat list" where
  "barrier_schedule = [1, 0, 1, 2, 0, 0, 1, 2, 2, 2, 2, 2]"

definition barrier_example :: barrier where
  "barrier_example = fold (barrier_step 3) barrier_schedule barrier_boot"

lemma reach_fold: "barrier_reach n s \<Longrightarrow> set js \<subseteq> {..<unat n} \<Longrightarrow> barrier_reach n (fold (barrier_step n) js s)"
  by (induction js arbitrary: s) (auto intro: barrier_reach.step)

lemma barrier_example_reach: "barrier_reach 3 barrier_example"
  unfolding barrier_example_def by (rule reach_fold) (auto simp: barrier_schedule_def intro: barrier_reach.boot)

lemma barrier_example_state:
  "core_of barrier_example 0 = \<lparr>threadsense = 1, pc = Spinning, calls = 1, returns = 0\<rparr>"
  "core_of barrier_example 1 = \<lparr>threadsense = 1, pc = Spinning, calls = 1, returns = 0\<rparr>"
  "core_of barrier_example 2 = \<lparr>threadsense = 0, pc = Spinning, calls = 2, returns = 1\<rparr>"
  "sense barrier_example = 1" "count barrier_example = 1"
  by code_simp+

lemma barrier_safe_witness:
  "returns (core_of barrier_example 2) \<le> calls (core_of barrier_example 0)
     \<and> calls (core_of barrier_example 2) \<le> calls (core_of barrier_example 0) + 1
     \<and> returns (core_of barrier_example 2) = 1"
  using barrier_safe [OF barrier_example_reach, of 2 0] by (simp add: barrier_example_state)

definition barrier_called :: barrier where
  "barrier_called = fold (barrier_step 3) [2, 0, 1] barrier_boot"

lemma barrier_returns_witness:
  "let c' = core_of (fold (barrier_turn 3) (concat (replicate 4 [2, 1, 0, 2])) barrier_called) 1 in pc c' = Outside \<and> returns c' = 1"
proof (rule barrier_returns)
  show "barrier_reach 3 barrier_called"
    unfolding barrier_called_def by (rule reach_fold) (auto intro: barrier_reach.boot)
  have "i \<in> {0, 1, 2}" if "i < 3" for i :: nat using that by auto
  then show "\<forall>i<unat (3 :: i32). calls (core_of barrier_called i) = 1"
    by (auto simp: barrier_called_def barrier_boot_def barrier_step_def Let_def)
qed auto

end
