(* ===== verification/RtLfsr.thy ===== *)
theory RtLfsr
  imports Prelude
begin

unbundle bit_operations_syntax

text \<open>
  The pseudo-random generator of the core's tests (\<open>lfsr\<close> in \<open>verif/tests/custom/common/util.h\<close>), a linear feedback shift register on
  64-bit words. The main result is that it has the full period: from every state of 63 bits that is not zero it runs through
  all of them.
\<close>

definition lfsr :: "i64 \<Rightarrow> i64" where
  "lfsr x = (let b = (x XOR drop_bit 1 x) AND 1 in drop_bit 1 x OR push_bit 62 b)"

section \<open>The register as a linear map\<close>

definition state63 :: "i64 \<Rightarrow> bool" where
  "state63 x \<longleftrightarrow> \<not> bit x 63"

lemma lfsr_bits:
  "bit (lfsr x) k \<longleftrightarrow> k < 64 \<and> (bit x (Suc k) \<or> k = 62 \<and> bit x 0 \<noteq> bit x 1)"
proof -
  have "bit (lfsr x) k \<longleftrightarrow> k < 64 \<and> (bit x (Suc k) \<or> k = 62 \<and> bit (x XOR drop_bit 1 x) 0)"
    unfolding lfsr_def Let_def bit_or_iff bit_drop_bit_eq bit_push_bit_iff bit_and_iff bit_1_iff
    using bit_imp_le_length [of x "Suc k"] by auto
  then show ?thesis by (simp add: bit_xor_iff bit_drop_bit_eq)
qed

lemma state63_bit: "state63 x \<Longrightarrow> bit x k \<Longrightarrow> k \<le> 62"
  using bit_imp_le_length [of x k] by (cases "k = 63") (auto simp: state63_def)

lemma state63_lfsr [simp]: "state63 x \<Longrightarrow> state63 (lfsr x)"
  using state63_bit [of x 64] by (auto simp: state63_def lfsr_bits)

lemma state63_pow [simp]: "state63 x \<Longrightarrow> state63 ((lfsr ^^ n) x)"
  by (induction n) simp_all

lemma state63_xor [simp]: "state63 x \<Longrightarrow> state63 y \<Longrightarrow> state63 (x XOR y)"
  by (simp add: state63_def bit_xor_iff)

lemma state63_0 [simp]: "state63 0"
  by (simp add: state63_def)

lemma state63_less: "state63 x \<longleftrightarrow> x < 2 ^ 63"
proof -
  have "uint x < 2 ^ 64" by (rule order_less_le_trans [OF unsigned_less]) simp
  then have d: "uint x div 2 ^ 63 < 2" "0 \<le> uint x div 2 ^ 63" using unsigned_greater_eq [of x] by (simp_all add: div_less_iff_less_mult pos_imp_zdiv_nonneg_iff)
  have "bit x 63 \<longleftrightarrow> odd (uint x div 2 ^ 63)" using bit_uint_iff [of x 63] bit_iff_odd [of "uint x" 63] by simp
  also have "\<dots> \<longleftrightarrow> uint x div 2 ^ 63 = 1"
  proof -
    have "odd q \<longleftrightarrow> q = 1" if "q < 2" "0 \<le> q" for q :: int using that by presburger
    then show ?thesis using d by blast
  qed
  also have "\<dots> \<longleftrightarrow> \<not> uint x < 2 ^ 63" using d by (auto simp: zdiv_eq_0_iff)
  finally show ?thesis by (simp add: state63_def word_less_def)
qed

lemma lfsr_0 [simp]: "lfsr 0 = 0"
  by (simp add: lfsr_def)

lemma lfsr_xor: "state63 x \<Longrightarrow> state63 y \<Longrightarrow> lfsr (x XOR y) = lfsr x XOR lfsr y"
  by (rule bit_word_eqI) (auto simp: lfsr_bits bit_xor_iff dest: state63_bit)

lemma lfsr_inj: "state63 x \<Longrightarrow> lfsr x = 0 \<Longrightarrow> x = 0"
proof (rule bit_word_eqI)
  fix k
  assume x: "state63 x" "lfsr x = 0" and "k < LENGTH(64)"
  have b: "bit x (Suc j) = False" "j = 62 \<longrightarrow> bit x 0 = bit x 1" if "j < 64" for j
    using lfsr_bits [of x j] x(2) that by auto
  show "bit x k = bit 0 k"
    using b [of "k - 1"] b [of 62] b [of 0] x(1) \<open>k < LENGTH(64)\<close> by (cases k) (auto simp: state63_def)
qed

text \<open>Sixty-three steps are one step and none: the characteristic equation of the register.\<close>

lemma pow_bits:
  assumes x: "state63 x" and k: "k \<le> 62"
  shows "n \<le> 62 \<Longrightarrow> bit ((lfsr ^^ n) x) k \<longleftrightarrow>
    (if k + n \<le> 62 then bit x (k + n) else bit x (k + n - 63) \<noteq> bit x (k + n - 62))"
  using k
proof (induction n arbitrary: k)
  case 0
  then show ?case by simp
next
  case (Suc n)
  show ?case
  proof (cases "k = 62")
    case True
    have "\<not> bit ((lfsr ^^ n) x) 63" using state63_pow [OF x, of n] by (simp add: state63_def)
    then show ?thesis using Suc True Suc.IH [of 0] Suc.IH [of 1] by (auto simp: lfsr_bits)
  next
    case False
    then show ?thesis using Suc Suc.IH [of "Suc k"] by (simp add: lfsr_bits)
  qed
qed

lemma pow_63: "state63 x \<Longrightarrow> (lfsr ^^ 63) x = x XOR lfsr x"
proof (rule bit_word_eqI)
  fix k
  assume x: "state63 x" and k: "k < LENGTH(64)"
  have s: "(lfsr ^^ 63) x = lfsr ((lfsr ^^ 62) x)" by (simp add: numeral_eq_Suc)
  have p: "state63 ((lfsr ^^ 62) x)" using x by simp
  have z: "\<not> bit ((lfsr ^^ 62) x) 63" "\<not> bit ((lfsr ^^ 62) x) 64" "\<not> bit x 63" "\<not> bit x 64"
    using p x state63_bit [OF x, of 64] state63_bit [OF p, of 64] by (auto simp: state63_def)
  show "bit ((lfsr ^^ 63) x) k = bit (x XOR lfsr x) k"
    unfolding s using k z pow_bits [OF x, of "Suc k" 62] pow_bits [OF x, of 0 62] pow_bits [OF x, of 1 62]
    by (cases "k = 62"; cases "k = 63") (auto simp: lfsr_bits bit_xor_iff)
qed

section \<open>Polynomials in the step\<close>

text \<open>\<open>comb cs\<close> is the sum of the powers of the step whose coefficients are set.\<close>

fun comb :: "bool list \<Rightarrow> i64 \<Rightarrow> i64" where
  "comb [] x = 0"
| "comb (c # cs) x = (if c then x else 0) XOR comb cs (lfsr x)"

lemma comb_state [simp]: "state63 x \<Longrightarrow> state63 (comb cs x)"
  by (induction cs arbitrary: x) simp_all

lemma comb_xor: "state63 x \<Longrightarrow> state63 y \<Longrightarrow> comb cs (x XOR y) = comb cs x XOR comb cs y"
  by (induction cs arbitrary: x y) (simp_all add: lfsr_xor ac_simps)

lemma comb_0 [simp]: "comb cs 0 = 0"
  by (induction cs) simp_all

lemma comb_lfsr: "state63 x \<Longrightarrow> comb cs (lfsr x) = lfsr (comb cs x)"
  by (induction cs arbitrary: x) (simp_all add: lfsr_xor)

lemma comb_pow: "state63 x \<Longrightarrow> comb cs ((lfsr ^^ n) x) = (lfsr ^^ n) (comb cs x)"
  by (induction n) (simp_all add: comb_lfsr)

lemma comb_append: "state63 x \<Longrightarrow> comb (as @ bs) x = comb as x XOR comb bs ((lfsr ^^ length as) x)"
  by (induction as arbitrary: x) (simp_all add: ac_simps funpow_swap1)

text \<open>Squaring a polynomial, and reducing one by the characteristic equation.\<close>

fun square_poly :: "bool list \<Rightarrow> bool list" where
  "square_poly [] = []"
| "square_poly [c] = [c]"
| "square_poly (c # d # cs) = c # False # square_poly (d # cs)"

lemma square_poly_Cons: "comb (square_poly (c # cs)) x = comb (c # False # square_poly cs) x"
  by (cases cs) simp_all

lemma comb_square: "state63 x \<Longrightarrow> comb (square_poly cs) x = comb cs (comb cs x)"
proof (induction cs arbitrary: x)
  case (Cons c cs)
  have s: "lfsr (comb cs (lfsr x)) = comb cs (lfsr (lfsr x))" using Cons.prems by (simp add: comb_lfsr)
  show ?case unfolding square_poly_Cons using Cons by (simp add: comb_xor lfsr_xor s ac_simps)
qed simp

fun add_poly :: "bool list \<Rightarrow> bool list \<Rightarrow> bool list" where
  "add_poly [] bs = bs"
| "add_poly as [] = as"
| "add_poly (a # as) (b # bs) = (a \<noteq> b) # add_poly as bs"

lemma comb_add: "comb (add_poly as bs) x = comb as x XOR comb bs x"
  by (induction as bs arbitrary: x rule: add_poly.induct) (auto simp: ac_simps)

definition reduce_poly :: "bool list \<Rightarrow> bool list" where
  "reduce_poly cs = (let high = drop 63 cs in add_poly (take 63 cs) (add_poly high (False # high)))"

lemma comb_reduce: "state63 x \<Longrightarrow> comb (reduce_poly cs) x = comb cs x"
proof -
  assume x: "state63 x"
  let ?hi = "drop 63 cs"
  have red: "comb (reduce_poly cs) x = comb (take 63 cs) x XOR (comb ?hi x XOR comb ?hi (lfsr x))"
    by (simp only: reduce_poly_def Let_def comb_add comb.simps if_False xor.left_neutral)
  have "comb cs x = comb (take 63 cs) x XOR comb ?hi ((lfsr ^^ length (take 63 cs)) x)"
    using comb_append [OF x, of "take 63 cs" ?hi] by (simp only: append_take_drop_id)
  also have "comb ?hi ((lfsr ^^ length (take 63 cs)) x) = comb ?hi x XOR comb ?hi (lfsr x)"
  proof (cases "length cs \<le> 63")
    case True
    then show ?thesis by simp
  next
    case False
    then have "length (take 63 cs) = 63" by simp
    then show ?thesis using x by (simp only: pow_63 comb_xor state63_lfsr)
  qed
  finally show ?thesis using red by simp
qed

text \<open>The power of the step with a given exponent, its bits from the highest on.\<close>

fun pow_poly :: "bool list \<Rightarrow> bool list \<Rightarrow> bool list" where
  "pow_poly [] cs = cs"
| "pow_poly (b # bs) cs = pow_poly bs (let sq = reduce_poly (square_poly cs) in if b then reduce_poly (False # sq) else sq)"

fun from_bits :: "bool list \<Rightarrow> nat \<Rightarrow> nat" where
  "from_bits [] n = n"
| "from_bits (b # bs) n = from_bits bs (2 * n + (if b then 1 else 0))"

lemma comb_pow_poly:
  assumes "\<And>x. state63 x \<Longrightarrow> comb cs x = (lfsr ^^ n) x" "state63 x"
  shows "comb (pow_poly bs cs) x = (lfsr ^^ from_bits bs n) x"
  using assms
proof (induction bs arbitrary: cs n)
  case (Cons b bs)
  have "comb (let sq = reduce_poly (square_poly cs) in if b then reduce_poly (False # sq) else sq) y
      = (lfsr ^^ (2 * n + (if b then 1 else 0))) y" if y: "state63 y" for y
    using y Cons.prems(1) [OF y] Cons.prems(1) [of "lfsr y"]
    by (simp add: Let_def comb_reduce comb_square comb_lfsr Cons.prems(1) mult_2 funpow_add funpow_swap1)
  from Cons.IH [OF this Cons.prems(2)] show ?case by simp
qed simp

section \<open>The period divides the number of states\<close>

definition states :: nat where
  "states = 2 ^ 63 - 1"

lemma comb_falses: "comb (replicate n False) x = 0"
  by (induction n arbitrary: x) simp_all

lemma pow_poly_states: "pow_poly (replicate 63 True) [True] = True # replicate 62 False"
  by (simp add: numeral_eq_Suc reduce_poly_def Let_def)

lemma from_bits_True: "from_bits (replicate n True) m = 2 ^ n * (m + 1) - 1"
  by (induction n arbitrary: m) (simp_all add: algebra_simps)

lemma from_bits_states: "from_bits (replicate 63 True) 0 = states"
  by (simp only: from_bits_True states_def add_0_left mult_1_right)

lemma pow_states: "state63 x \<Longrightarrow> (lfsr ^^ states) x = x"
  using comb_pow_poly [of "[True]" 0 x "replicate 63 True"] pow_poly_states from_bits_states by (simp add: comb_falses)

lemma pow_states_dvd:
  assumes "state63 x" "states dvd k"
  shows "(lfsr ^^ k) x = x"
proof -
  obtain q where k: "k = states * q" using assms(2) by blast
  show ?thesis unfolding k using assms(1) by (induction q) (simp_all add: funpow_add pow_states)
qed

section \<open>No smaller exponent\<close>

text \<open>A power whose polynomial has a coefficient between the first and the last moves the state with the highest bit only.\<close>

definition moves :: "bool list \<Rightarrow> bool" where
  "moves cs \<longleftrightarrow> length cs = 63 \<and> True \<in> set (butlast (tl cs))"

definition one_bit :: "nat \<Rightarrow> i64" where
  "one_bit n = push_bit n 1"

lemma bit_one_bit: "bit (one_bit n) k \<longleftrightarrow> n < 64 \<and> k = n"
  by (auto simp: one_bit_def bit_exp_iff)

lemma comb_top:
  "length cs \<le> n \<Longrightarrow> n \<le> 62 \<Longrightarrow> bit (comb cs (one_bit n)) k \<longleftrightarrow> k \<le> n \<and> n - k < length cs \<and> cs ! (n - k)"
proof (induction cs arbitrary: n)
  case (Cons c cs)
  show ?case
  proof (cases cs)
    case Nil
    then show ?thesis using Cons.prems by (auto simp: bit_one_bit)
  next
    case (Cons d ds)
    define m where "m = n - 1"
    have m: "n = Suc m" "m \<noteq> 0" using Cons.prems Cons by (auto simp: m_def)
    have l: "lfsr (one_bit n) = one_bit m"
      using m Cons.prems(2) by (intro bit_word_eqI) (auto simp: lfsr_bits bit_one_bit)
    have "bit (comb (c # cs) (one_bit n)) k \<longleftrightarrow> (c \<and> k = n) \<noteq> bit (comb cs (one_bit m)) k"
      using Cons.prems(2) by (auto simp: l bit_xor_iff bit_one_bit)
    also have "bit (comb cs (one_bit m)) k \<longleftrightarrow> k \<le> m \<and> m - k < length cs \<and> cs ! (m - k)"
      using Cons.IH [of m] Cons.prems m by simp
    finally show ?thesis using m by (auto simp: nth_Cons' le_Suc_eq Suc_diff_le)
  qed
qed simp

lemma moves_top:
  assumes "moves cs"
  shows "comb cs (one_bit 62) \<noteq> one_bit 62"
proof -
  let ?e = "one_bit 62" and ?xs = "butlast cs"
  have e: "state63 ?e" by (simp add: state63_def bit_one_bit)
  have l: "length ?xs = 62" "cs = ?xs @ [last cs]"
    using assms by (simp add: moves_def) (metis append_butlast_last_id assms length_0_conv moves_def zero_neq_numeral)
  obtain j where j: "j < 61" "butlast (tl cs) ! j"
    using assms by (auto simp: moves_def in_set_conv_nth)
  then have x: "?xs ! Suc j" using l(1) by (cases cs) (auto simp: nth_butlast)
  have "comb cs ?e = comb ?xs ?e XOR comb [last cs] ((lfsr ^^ 62) ?e)"
    using comb_append [OF e, of ?xs "[last cs]"] l by simp
  then have "bit (comb cs ?e) (61 - j) \<longleftrightarrow> bit (comb ?xs ?e) (61 - j) \<noteq> (last cs \<and> bit ((lfsr ^^ 62) ?e) (61 - j))"
    by (auto simp: bit_xor_iff)
  moreover have "\<not> bit ((lfsr ^^ 62) ?e) (61 - j)"
    using pow_bits [OF e, of "61 - j" 62] j(1) by (auto simp: bit_one_bit)
  moreover have "bit (comb ?xs ?e) (61 - j)"
    using comb_top [of ?xs 62 "61 - j"] l(1) x j(1) by (simp add: Suc_diff_le)
  moreover have "\<not> bit ?e (61 - j)" by (auto simp: bit_one_bit)
  ultimately show ?thesis by metis
qed

lemmas poly_eval = numeral_eq_Suc reduce_poly_def moves_def Let_def

text \<open>The bits of the number of states divided by each of its prime factors.\<close>

definition bits_7 :: "bool list" where
  "bits_7 =
     [True, False, False, True, False, False, True, False, False, True, False, False, True, False, False,
     True, False, False, True, False, False, True, False, False, True, False, False, True, False, False,
     True, False, False, True, False, False, True, False, False, True, False, False, True, False, False,
     True, False, False, True, False, False, True, False, False, True, False, False, True, False, False,
     True]"

definition bits_73 :: "bool list" where
  "bits_73 =
     [True, True, True, False, False, False, False, False, False, True, True, True, False, False, False,
     False, False, False, True, True, True, False, False, False, False, False, False, True, True, True,
     False, False, False, False, False, False, True, True, True, False, False, False, False, False, False,
     True, True, True, False, False, False, False, False, False, True, True, True]"

definition bits_127 :: "bool list" where
  "bits_127 =
     [True, False, False, False, False, False, False, True, False, False, False, False, False, False, True,
     False, False, False, False, False, False, True, False, False, False, False, False, False, True, False,
     False, False, False, False, False, True, False, False, False, False, False, False, True, False, False,
     False, False, False, False, True, False, False, False, False, False, False, True]"

definition bits_337 :: "bool list" where
  "bits_337 =
     [True, True, False, False, False, False, True, False, False, True, True, True, True, False, False,
     False, False, False, False, False, False, True, True, False, False, False, False, True, False, False,
     True, True, True, True, False, False, False, False, False, False, False, False, True, True, False,
     False, False, False, True, False, False, True, True, True, True]"

definition bits_92737 :: "bool list" where
  "bits_92737 =
     [True, False, True, True, False, True, False, False, True, True, True, False, True, False, False, True,
     False, True, True, False, True, False, True, False, True, False, False, True, True, False, False, False,
     True, False, True, True, False, True, False, False, False, True, True, True, True, True, True]"

definition bits_649657 :: "bool list" where
  "bits_649657 =
     [True, True, False, False, True, True, True, False, True, False, False, True, True, False, False, True,
     False, False, False, False, True, False, True, True, True, False, False, False, True, False, True, True,
     False, False, True, True, False, True, True, True, False, True, True, True]"

lemmas bits_defs = bits_7_def bits_73_def bits_127_def bits_337_def bits_92737_def bits_649657_def

lemma from_bits_divided:
  "from_bits bits_7 0 = states div 7"
  "from_bits bits_73 0 = states div 73"
  "from_bits bits_127 0 = states div 127"
  "from_bits bits_337 0 = states div 337"
  "from_bits bits_92737 0 = states div 92737"
  "from_bits bits_649657 0 = states div 649657"
  by (simp_all add: bits_defs states_def)

lemma moves_divided:
  "moves (pow_poly bits_7 [True])"
  "moves (pow_poly bits_73 [True])"
  "moves (pow_poly bits_127 [True])"
  "moves (pow_poly bits_337 [True])"
  "moves (pow_poly bits_92737 [True])"
  "moves (pow_poly bits_649657 [True])"
  by (simp_all add: bits_defs poly_eval)

lemma divided_moves:
  assumes "d \<in> {7, 73, 127, 337, 92737, 649657}"
  shows "(lfsr ^^ (states div d)) (one_bit 62) \<noteq> one_bit 62"
proof -
  have e: "state63 (one_bit 62)" by (simp add: state63_def bit_one_bit)
  have "(lfsr ^^ from_bits bs 0) (one_bit 62) \<noteq> one_bit 62" if "moves (pow_poly bs [True])" for bs
    using comb_pow_poly [of "[True]" 0 "one_bit 62" bs] moves_top [OF that] e by simp
  from this [OF moves_divided(1)] this [OF moves_divided(2)] this [OF moves_divided(3)]
    this [OF moves_divided(4)] this [OF moves_divided(5)] this [OF moves_divided(6)] assms
  show ?thesis unfolding from_bits_divided by blast
qed

section \<open>The factors of the number of states\<close>

lemma trial_division:
  fixes g p :: nat
  assumes "list_all (\<lambda>d. p mod d \<noteq> 0) [2..<s]" "p < s * s" "g dvd p" and p: "0 < p"
  shows "g = 1 \<or> g = p"
proof -
  obtain h where h: "p = g * h" using assms(3) by blast
  have small: "x = 1 \<or> s \<le> x" if x: "x dvd p" for x
  proof (rule ccontr)
    assume "\<not> (x = 1 \<or> s \<le> x)"
    moreover have "x \<noteq> 0" using x p by auto
    ultimately have "x \<in> set [2..<s]" by auto
    then have "p mod x \<noteq> 0" using assms(1) unfolding list_all_iff by blast
    with x show False by auto
  qed
  have "g = 1 \<or> h = 1"
  proof (rule ccontr)
    assume "\<not> (g = 1 \<or> h = 1)"
    then have "s \<le> g" "s \<le> h" using small [of g] small [of h] h by auto
    then have "s * s \<le> p" unfolding h by (rule mult_le_mono)
    then show False using assms(2) by simp
  qed
  then show ?thesis using h by auto
qed

lemma states_factors: "states = 7 * (7 * (73 * (127 * (337 * (92737 * 649657)))))"
  by (simp add: states_def)

lemma factor_prime: "p \<in> {7, 73, 127, 337, 92737, 649657} \<Longrightarrow> g dvd p \<Longrightarrow> g = 1 \<or> g = p" for g p :: nat
proof -
  have t: "list_all (\<lambda>d. (7 :: nat) mod d \<noteq> 0) [2..<3]" "list_all (\<lambda>d. (73 :: nat) mod d \<noteq> 0) [2..<9]"
    "list_all (\<lambda>d. (127 :: nat) mod d \<noteq> 0) [2..<12]" "list_all (\<lambda>d. (337 :: nat) mod d \<noteq> 0) [2..<19]"
    "list_all (\<lambda>d. (92737 :: nat) mod d \<noteq> 0) [2..<305]" "list_all (\<lambda>d. (649657 :: nat) mod d \<noteq> 0) [2..<807]"
    by simp_all
  assume p: "p \<in> {7, 73, 127, 337, 92737, 649657}" and g: "g dvd p"
  from p consider "p = 7" | "p = 73" | "p = 127" | "p = 337" | "p = 92737" | "p = 649657" by blast
  then show ?thesis
    using t [THEN trial_division, of g] g by cases simp_all
qed

lemma factor_divides:
  assumes "d dvd states" "d \<noteq> states"
  shows "\<exists>p\<in>{7, 73, 127, 337, 92737, 649657}. d dvd states div p"
proof -
  obtain e where e: "states = d * e" using assms(1) by blast
  have "\<exists>p\<in>{7, 73, 127, 337, 92737, 649657}. p dvd e"
  proof (rule ccontr)
    assume n: "\<not> ?thesis"
    have c: "coprime e p" if "p \<in> {7, 73, 127, 337, 92737, 649657}" for p
      using factor_prime [OF that, of "gcd e p"] n that unfolding coprime_iff_gcd_eq_1 by (metis gcd_dvd1 gcd_dvd2)
    have "coprime e states"
      unfolding states_factors coprime_mult_right_iff using c [of 7] c [of 73] c [of 127] c [of 337] c [of 92737] c [of 649657] by simp
    then have "e = 1" unfolding e by simp
    with assms(2) e show False by simp
  qed
  then obtain p where p: "p \<in> {7, 73, 127, 337, 92737, 649657}" "p dvd e" by blast
  then obtain q where "e = p * q" by blast
  then have "states div p = d * q" using e p(1) by auto
  with p(1) show ?thesis by (intro bexI [of _ p]) simp_all
qed

section \<open>The period of one state and of all\<close>

lemma pow_multiple: "(f ^^ d) x = x \<Longrightarrow> (f ^^ (d * q)) x = x"
  by (induction q) (simp_all add: funpow_add)

lemma least_period_dvd:
  assumes "(f ^^ k) x = x" "0 < k"
  defines "d \<equiv> LEAST d. 0 < d \<and> (f ^^ d) x = x"
  shows "0 < d \<and> (f ^^ d) x = x" "(f ^^ m) x = x \<Longrightarrow> d dvd m"
proof -
  show d: "0 < d \<and> (f ^^ d) x = x" unfolding d_def by (rule LeastI [of _ k]) (use assms in simp)
  assume m: "(f ^^ m) x = x"
  have "(f ^^ (m mod d)) ((f ^^ (d * (m div d))) x) = x" using m by (simp flip: funpow_add comp_apply [of "f ^^ (m mod d)"])
  then have "(f ^^ (m mod d)) x = x" using pow_multiple [of d f x] d by simp
  then have "\<not> 0 < m mod d" using not_less_Least [of "m mod d" "\<lambda>d. 0 < d \<and> (f ^^ d) x = x"] d by (auto simp flip: d_def)
  then show "d dvd m" by (simp add: dvd_eq_mod_eq_0)
qed

lemma top_period: "(lfsr ^^ k) (one_bit 62) = one_bit 62 \<Longrightarrow> states dvd k"
proof -
  let ?P = "\<lambda>d. (lfsr ^^ d) (one_bit 62) = one_bit 62"
  define d where "d = (LEAST d. 0 < d \<and> ?P d)"
  have "?P states" by (rule pow_states) (simp add: state63_def bit_one_bit)
  moreover have "0 < states" by (simp add: states_def)
  ultimately have P: "?P states" "0 < states" by blast+
  note l = least_period_dvd [OF P, folded d_def]
  have "d = states"
  proof (rule ccontr)
    assume "d \<noteq> states"
    then obtain p where p: "p \<in> {7, 73, 127, 337, 92737, 649657}" "d dvd states div p"
      using factor_divides l(2) P(1) by blast
    then obtain q where "states div p = d * q" by blast
    then have "?P (states div p)" using pow_multiple l(1) by metis
    with divided_moves p(1) show False by blast
  qed
  then show "?P k \<Longrightarrow> states dvd k" using l(2) by blast
qed

text \<open>A state whose period is the number of states has them all in its orbit.\<close>

lemma card_state63: "card {x. state63 x \<and> x \<noteq> 0} = states"
proof -
  have "{x. state63 x \<and> x \<noteq> 0} = (of_nat :: nat \<Rightarrow> i64) ` {0<..<2 ^ 63}"
  proof (intro equalityI subsetI)
    fix x :: i64
    assume "x \<in> {x. state63 x \<and> x \<noteq> 0}"
    then have "unat x < 2 ^ 63" "0 < unat x" by (simp_all add: state63_less word_less_nat_alt unat_gt_0)
    then show "x \<in> of_nat ` {0<..<2 ^ 63}" by (intro image_eqI [of _ _ "unat x"]) simp_all
  next
    fix x :: i64
    assume "x \<in> of_nat ` {0<..<2 ^ 63}"
    then obtain n where n: "x = of_nat n" "0 < n" "n < 2 ^ 63" by auto
    then have "unat x = n" by (simp add: unat_of_nat)
    with n show "x \<in> {x. state63 x \<and> x \<noteq> 0}" by (auto simp: state63_less word_less_nat_alt)
  qed
  moreover have "inj_on (of_nat :: nat \<Rightarrow> i64) {0<..<2 ^ 63}"
    by (rule inj_onI) (simp add: word_of_nat_eq_iff take_bit_nat_eq_self)
  ultimately show ?thesis by (simp add: card_image states_def)
qed

lemma lfsr_nonzero: "state63 x \<Longrightarrow> x \<noteq> 0 \<Longrightarrow> (lfsr ^^ n) x \<noteq> 0"
  by (induction n) (auto dest: lfsr_inj [rotated])

lemma orbit_all:
  assumes x: "state63 x" "x \<noteq> 0" and period: "\<And>k. (lfsr ^^ k) x = x \<Longrightarrow> states dvd k"
  shows "(\<lambda>k. (lfsr ^^ k) x) ` {..<states} = {y. state63 y \<and> y \<noteq> 0}"
proof (rule card_subset_eq)
  have "inj_on (\<lambda>k. (lfsr ^^ k) x) {..<states}"
  proof (rule linorder_inj_onI)
    fix i j
    assume ij: "i < j" "i \<in> {..<states}" "j \<in> {..<states}"
    show "(lfsr ^^ i) x \<noteq> (lfsr ^^ j) x"
    proof
      assume eq: "(lfsr ^^ i) x = (lfsr ^^ j) x"
      have a: "states = (states - i) + i" "(states - i) + j = (j - i) + states" using ij by auto
      have "x = (lfsr ^^ ((states - i) + i)) x" using x(1) a(1) pow_states by simp
      also have "\<dots> = (lfsr ^^ ((states - i) + j)) x" using eq by (simp only: funpow_add comp_apply)
      also have "\<dots> = (lfsr ^^ (j - i)) x" unfolding a(2) using pow_states [OF x(1)] by (simp only: funpow_add comp_apply)
      finally have "states dvd j - i" by (intro period) simp
      with ij show False by (auto dest: dvd_imp_le)
    qed
  qed auto
  then show "card ((\<lambda>k. (lfsr ^^ k) x) ` {..<states}) = card {y. state63 y \<and> y \<noteq> 0}"
    by (simp add: card_image card_state63)
  show "(\<lambda>k. (lfsr ^^ k) x) ` {..<states} \<subseteq> {y. state63 y \<and> y \<noteq> 0}" using x by (auto simp: lfsr_nonzero)
qed simp

lemma state_period:
  assumes "state63 x" "x \<noteq> 0" "(lfsr ^^ k) x = x"
  shows "states dvd k"
proof -
  let ?e = "one_bit 62"
  have e: "state63 ?e" "?e \<noteq> 0"
    by (simp add: state63_def bit_one_bit) (simp add: one_bit_def)
  have "x \<in> (\<lambda>k. (lfsr ^^ k) ?e) ` {..<states}" using orbit_all [OF e top_period] assms(1,2) by blast
  then obtain i where i: "x = (lfsr ^^ i) ?e" "i < states" by auto
  have a: "(states - i) + (k + i) = k + states" "(states - i) + i = states" using i(2) by simp_all
  have "(lfsr ^^ k) ?e = (lfsr ^^ (k + states)) ?e" using pow_states [OF e(1)] by (simp only: funpow_add comp_apply)
  also have "\<dots> = (lfsr ^^ (states - i)) ((lfsr ^^ k) x)" unfolding i(1) a(1) [symmetric] by (simp only: funpow_add comp_apply)
  also have "\<dots> = (lfsr ^^ ((states - i) + i)) ?e" unfolding assms(3) unfolding i(1) by (simp only: funpow_add comp_apply)
  also have "\<dots> = ?e" unfolding a(2) by (rule pow_states [OF e(1)])
  finally show ?thesis by (rule top_period)
qed

text \<open>
  C21: The generator has the full period: from any state of 63 bits other than zero it comes back to it exactly after
  the multiples of \<open>2^63 - 1\<close> steps, and goes through all states of 63 bits other than zero before.
\<close>

theorem lfsr_full_period:
  assumes "0 < x" "x < 2 ^ 63"
  shows "((lfsr ^^ k) x = x \<longleftrightarrow> 2 ^ 63 - 1 dvd k) \<and> {(lfsr ^^ k) x | k. k < 2 ^ 63 - 1} = {y. 0 < y \<and> y < 2 ^ 63}"
proof -
  have x: "state63 x" "x \<noteq> 0" using assms by (auto simp: state63_less word_gt_0)
  have "(lfsr ^^ k) x = x \<longleftrightarrow> states dvd k" using state_period [OF x] pow_states_dvd [OF x(1)] by blast
  moreover have "{(lfsr ^^ k) x | k. k < states} = (\<lambda>k. (lfsr ^^ k) x) ` {..<states}" by auto
  moreover have "\<dots> = {y. 0 < y \<and> y < 2 ^ 63}"
    using orbit_all [OF x state_period [OF x]] by (auto simp: state63_less word_gt_0)
  ultimately show ?thesis unfolding states_def by simp
qed

lemma lfsr_full_period_witness: "lfsr 1 = 0x4000000000000000 \<and> (lfsr ^^ (2 ^ 63 - 1)) 1 = 1
     \<and> (\<exists>k<2 ^ 63 - 1. (lfsr ^^ k) 1 = 0x123456789ABCDEF)"
proof -
  have "(1 :: i64) < 2 ^ 63" by simp
  note p = lfsr_full_period [OF _ this]
  have "0x123456789ABCDEF \<in> {(lfsr ^^ k) 1 | k. k < 2 ^ 63 - 1}" using p by simp
  then show ?thesis using p [of "2 ^ 63 - 1"] by (auto simp: lfsr_def)
qed
end
