(* ===== verification/PitonIo.thy ===== *)
theory PitonIo
  imports BootHex RtFormat
begin

unbundle bit_operations_syntax

text \<open>
  The serial console of the OpenPiton boot ROM (\<open>corev_apu/openpiton/bootrom/linux/src/uart.c\<close>), on a 64-bit address space.
  The printing functions return the number of characters that they have printed; \<open>print_uart_dec\<close> is shown to print the decimal
  numeral of its argument.
\<close>

section \<open>Registers\<close>

text \<open>The accesses to the UART; \<open>status\<close> gives what a read returns, from the accesses before and the address.\<close>

datatype access64 = UartRd i64 i8 | UartWr i64 i8

type_synonym trace = "access64 list"
type_synonym status = "trace \<Rightarrow> i64 \<Rightarrow> i8"

definition UART_BASE :: i64 where "UART_BASE = 0xFFF0C2C000"
definition UART_THR :: i64 where "UART_THR = UART_BASE + 0"
definition UART_INTERRUPT_ENABLE :: i64 where "UART_INTERRUPT_ENABLE = UART_BASE + 1"
definition UART_LINE_CONTROL :: i64 where "UART_LINE_CONTROL = UART_BASE + 3"
definition UART_MODEM_CONTROL :: i64 where "UART_MODEM_CONTROL = UART_BASE + 4"
definition UART_LINE_STATUS :: i64 where "UART_LINE_STATUS = UART_BASE + 5"
definition UART_DLAB_LSB :: i64 where "UART_DLAB_LSB = UART_BASE + 0"
definition UART_DLAB_MSB :: i64 where "UART_DLAB_MSB = UART_BASE + 1"

definition write_reg_u8 :: "i64 \<Rightarrow> i8 \<Rightarrow> trace \<Rightarrow> trace" where
  "write_reg_u8 addr v tr = tr @ [UartWr addr v]"

definition read_reg_u8 :: "status \<Rightarrow> i64 \<Rightarrow> trace \<Rightarrow> i8 \<times> trace" where
  "read_reg_u8 hw addr tr = (hw tr addr, tr @ [UartRd addr (hw tr addr)])"

definition is_transmit_empty_pt :: "status \<Rightarrow> trace \<Rightarrow> i8 \<times> trace" where
  "is_transmit_empty_pt hw tr = (let r = read_reg_u8 hw UART_LINE_STATUS tr in (fst r AND 0x20, snd r))"

partial_function (option) wait_serial_pt :: "status \<Rightarrow> trace \<Rightarrow> trace option" where
  "wait_serial_pt hw tr =
     (let r = is_transmit_empty_pt hw tr in if fst r = 0 then wait_serial_pt hw (snd r) else Some (snd r))"

definition write_serial_pt :: "status \<Rightarrow> i8 \<Rightarrow> trace \<Rightarrow> trace option" where
  "write_serial_pt hw a tr = map_option (write_reg_u8 UART_THR a) (wait_serial_pt hw tr)"

text \<open>A division by zero is undefined behaviour.\<close>

definition init_uart_pt :: "i32 \<Rightarrow> i32 \<Rightarrow> trace \<Rightarrow> trace option" where
  "init_uart_pt freq baud tr =
     (if push_bit 4 baud = 0 then None
      else let divisor = freq div push_bit 4 baud in
        Some (write_reg_u8 UART_MODEM_CONTROL 0x20 (write_reg_u8 UART_LINE_CONTROL 0x03
          (write_reg_u8 UART_DLAB_MSB (ucast (drop_bit 8 divisor AND 0xFF)) (write_reg_u8 UART_DLAB_LSB (ucast divisor)
          (write_reg_u8 UART_LINE_CONTROL 0x80 (write_reg_u8 UART_INTERRUPT_ENABLE 0 tr)))))))"

section \<open>Printing\<close>

text \<open>The loop of \<open>print_uart\<close>, with the number of characters so far.\<close>

fun print_loop :: "status \<Rightarrow> i8 list \<Rightarrow> int \<Rightarrow> trace \<Rightarrow> (int \<times> trace) option" where
  "print_loop hw [] num tr = Some (num, tr)"
| "print_loop hw (c # cs) num tr = Option.bind (write_serial_pt hw c tr) (print_loop hw cs (num + 1))"

definition print_uart_pt :: "status \<Rightarrow> string \<Rightarrow> trace \<Rightarrow> (int \<times> trace) option" where
  "print_uart_pt hw str tr = print_loop hw (map of_char str) 0 tr"

definition hex_table_pt :: "i8 list" where
  "hex_table_pt = map of_char ''0123456789ABCDEF''"

definition bin_to_hex_pt :: "i8 \<Rightarrow> i8 list" where
  "bin_to_hex_pt inp = [hex_table_pt ! unat (drop_bit 4 inp AND 0xF), hex_table_pt ! unat (inp AND 0xF)]"

text \<open>
  The loop of \<open>print_uart_dec\<close>; the first argument is \<open>i + 1\<close>. After the first digit, \<open>digits\<close> is the number of the digits that
  are left, and all of them are printed.
\<close>

fun print_dec_loop :: "status \<Rightarrow> nat \<Rightarrow> i32 \<Rightarrow> i32 \<Rightarrow> i32 \<Rightarrow> int \<Rightarrow> trace \<Rightarrow> (int \<times> trace) option" where
  "print_dec_loop hw 0 k val digits num tr = Some (num, tr)"
| "print_dec_loop hw (Suc i) k val digits num tr =
     (let cur = val div k; val = val - cur * k; k = k div 10 in
      if cur \<noteq> 0 \<or> of_nat i < digits then
        Option.bind (write_serial_pt hw (hex_table_pt ! unat (cur AND 0xF)) tr) (print_dec_loop hw i k val (of_nat i) (num + 1))
      else print_dec_loop hw i k val digits num tr)"

definition print_uart_dec :: "status \<Rightarrow> i32 \<Rightarrow> i32 \<Rightarrow> trace \<Rightarrow> (int \<times> trace) option" where
  "print_uart_dec hw val digits tr = print_dec_loop hw 10 1000000000 val digits 0 tr"

text \<open>The bytes of a number, two digits each. A 32-bit number is widened, which changes none of its four bytes.\<close>

fun print_hex_loop :: "status \<Rightarrow> nat \<Rightarrow> i64 \<Rightarrow> trace \<Rightarrow> trace option" where
  "print_hex_loop hw 0 addr tr = Some tr"
| "print_hex_loop hw (Suc i) addr tr = do {
     let hex = bin_to_hex_pt (ucast (drop_bit (i * 8) addr AND 0xFF));
     tr \<leftarrow> write_serial_pt hw (hex ! 0) tr;
     tr \<leftarrow> write_serial_pt hw (hex ! 1) tr;
     print_hex_loop hw i addr tr
   }"

definition print_uart_int_pt :: "status \<Rightarrow> i32 \<Rightarrow> trace \<Rightarrow> (int \<times> trace) option" where
  "print_uart_int_pt hw addr tr = map_option (\<lambda>tr. (8, tr)) (print_hex_loop hw 4 (ucast addr) tr)"

definition print_uart_addr_pt :: "status \<Rightarrow> i64 \<Rightarrow> trace \<Rightarrow> (int \<times> trace) option" where
  "print_uart_addr_pt hw addr tr = map_option (\<lambda>tr. (16, tr)) (print_hex_loop hw 8 addr tr)"

definition print_uart_byte_pt :: "status \<Rightarrow> i8 \<Rightarrow> trace \<Rightarrow> (int \<times> trace) option" where
  "print_uart_byte_pt hw byte tr = do {
     let hex = bin_to_hex_pt byte;
     tr \<leftarrow> write_serial_pt hw (hex ! 0) tr;
     tr \<leftarrow> write_serial_pt hw (hex ! 1) tr;
     Some (2, tr)
   }"

section \<open>What is sent\<close>

fun sent :: "trace \<Rightarrow> i8 list" where
  "sent [] = []"
| "sent (UartRd a v # tr) = sent tr"
| "sent (UartWr a v # tr) = (if a = UART_THR then [v] else []) @ sent tr"

lemma sent_append [simp]: "sent (t1 @ t2) = sent t1 @ sent t2"
  by (induction t1 rule: sent.induct) simp_all

text \<open>The trace after \<open>k\<close> readings of the line status; a UART that takes characters shows an empty register at some point.\<close>

fun polled :: "status \<Rightarrow> nat \<Rightarrow> trace \<Rightarrow> trace" where
  "polled hw 0 tr = tr"
| "polled hw (Suc k) tr = polled hw k (tr @ [UartRd UART_LINE_STATUS (hw tr UART_LINE_STATUS)])"

definition takes :: "status \<Rightarrow> bool" where
  "takes hw = (\<forall>tr. \<exists>k. hw (polled hw k tr) UART_LINE_STATUS AND 0x20 \<noteq> 0)"

lemma wait_serial_pt_polled:
  "hw (polled hw k tr) UART_LINE_STATUS AND 0x20 \<noteq> 0 \<Longrightarrow> \<exists>tr'. wait_serial_pt hw tr = Some tr' \<and> sent tr' = sent tr"
proof (induction k arbitrary: tr)
  case 0
  then show ?case by (subst wait_serial_pt.simps) (simp add: is_transmit_empty_pt_def read_reg_u8_def Let_def)
next
  case (Suc k)
  then show ?case
    using Suc.IH [of "tr @ [UartRd UART_LINE_STATUS (hw tr UART_LINE_STATUS)]"]
    by (subst wait_serial_pt.simps) (simp add: is_transmit_empty_pt_def read_reg_u8_def Let_def)
qed

lemma write_serial_pt_sends:
  "takes hw \<Longrightarrow> \<exists>tr'. write_serial_pt hw c tr = Some tr' \<and> sent tr' = sent tr @ [c]"
  using wait_serial_pt_polled by (fastforce simp: takes_def write_serial_pt_def write_reg_u8_def)

lemma print_loop_sends:
  "takes hw \<Longrightarrow> \<exists>tr'. print_loop hw cs num tr = Some (num + int (length cs), tr') \<and> sent tr' = sent tr @ cs"
proof (induction cs arbitrary: num tr)
  case (Cons c cs)
  obtain t1 where "write_serial_pt hw c tr = Some t1" "sent t1 = sent tr @ [c]" using write_serial_pt_sends [OF Cons.prems] by blast
  then show ?case using Cons.IH [OF Cons.prems, of "num + 1" t1] by (auto simp: algebra_simps)
qed simp

lemma print_uart_pt_sends:
  "takes hw \<Longrightarrow> \<exists>tr'. print_uart_pt hw s tr = Some (int (length s), tr') \<and> sent tr' = sent tr @ map of_char s"
  using print_loop_sends [of hw "map of_char s" 0 tr] by (simp add: print_uart_pt_def)

lemma print_hex_loop_sends:
  "takes hw \<Longrightarrow> \<exists>tr'. print_hex_loop hw n addr tr = Some tr'
     \<and> sent tr' = sent tr @ concat (map (\<lambda>i. bin_to_hex_pt (ucast (drop_bit (8 * i) addr AND 0xFF))) (rev [0..<n]))"
proof (induction n arbitrary: tr)
  case (Suc n)
  let ?h = "bin_to_hex_pt (ucast (drop_bit (n * 8) addr AND 0xFF))"
  obtain t1 where 1: "write_serial_pt hw (?h ! 0) tr = Some t1" "sent t1 = sent tr @ [?h ! 0]"
    using write_serial_pt_sends [OF Suc.prems] by blast
  obtain t2 where 2: "write_serial_pt hw (?h ! 1) t1 = Some t2" "sent t2 = sent t1 @ [?h ! 1]"
    using write_serial_pt_sends [OF Suc.prems] by blast
  have h: "bin_to_hex_pt x = [bin_to_hex_pt x ! 0, bin_to_hex_pt x ! 1]" for x by (simp add: bin_to_hex_pt_def)
  show ?case using Suc.IH [OF Suc.prems, of t2] 1 2 h [of "ucast (drop_bit (8 * n) addr AND 0xFF)"]
    by (auto simp: mult.commute)
qed simp


section \<open>Decimal numbers\<close>

definition digits_of :: "nat \<Rightarrow> nat list" where
  "digits_of v = (if v = 0 then [] else numeral_digits 10 v)"

definition padded :: "nat \<Rightarrow> nat \<Rightarrow> nat list" where
  "padded n v = replicate (n - length (digits_of v)) 0 @ digits_of v"

lemma digits_of_0 [simp]: "digits_of 0 = []"
  by (simp add: digits_of_def)

lemma digits_of_rec: "v \<noteq> 0 \<Longrightarrow> digits_of v = digits_of (v div 10) @ [v mod 10]"
  by (cases "v < 10") (simp_all add: digits_of_def numeral_digits_small numeral_digits_large)

lemma length_digits_of: "length (digits_of v) \<le> n \<longleftrightarrow> v < 10 ^ n"
proof (induction n arbitrary: v)
  case 0
  then show ?case by (cases "v = 0") (simp_all add: digits_of_rec)
next
  case (Suc n)
  show ?case
    using Suc.IH [of "v div 10"] by (cases "v = 0") (simp_all add: digits_of_rec div_less_iff_less_mult mult.commute)
qed

lemma padded_Suc: "padded (Suc n) v = padded n (v div 10) @ [v mod 10]"
  by (cases "v = 0") (simp_all add: padded_def digits_of_rec [of v] replicate_append_same)

lemma padded_front: "v < 10 ^ Suc i \<Longrightarrow> padded (Suc i) v = v div 10 ^ i # padded i (v mod 10 ^ i)"
proof (induction i arbitrary: v)
  case 0
  then show ?case by (simp add: padded_Suc) (simp add: padded_def)
next
  case (Suc i)
  have "v mod 10 ^ Suc i div 10 = v div 10 mod 10 ^ i" "v mod 10 ^ Suc i mod 10 = v mod 10"
    by (simp_all add: mod_mult2_eq mod_mod_cancel)
  moreover have "v div 10 div 10 ^ i = v div 10 ^ Suc i" by (simp add: div_mult2_eq)
  ultimately show ?case
    using Suc.IH [of "v div 10"] Suc.prems padded_Suc [of "Suc i" v] padded_Suc [of i "v mod 10 ^ Suc i"]
    by (simp add: div_less_iff_less_mult mult.commute)
qed

text \<open>The digits that the loop prints.\<close>

fun dec_digits :: "nat \<Rightarrow> nat \<Rightarrow> nat \<Rightarrow> nat list" where
  "dec_digits 0 v d = []"
| "dec_digits (Suc i) v d =
     (if v div 10 ^ i \<noteq> 0 \<or> i < d then v div 10 ^ i # dec_digits i (v mod 10 ^ i) i else dec_digits i (v mod 10 ^ i) d)"

lemma dec_digits_all: "v < 10 ^ i \<Longrightarrow> i \<le> d \<Longrightarrow> dec_digits i v d = padded i v"
proof (induction i arbitrary: v d)
  case (Suc i)
  then show ?case using Suc.IH [of "v mod 10 ^ i" i] padded_front [OF Suc.prems(1)] by simp
qed (simp add: padded_def)

lemma dec_digits_padded: "v < 10 ^ n \<Longrightarrow> dec_digits n v d = padded (min n d) v"
proof (induction n)
  case (Suc i)
  show ?case
  proof (cases "v div 10 ^ i \<noteq> 0 \<or> i < d")
    case True
    then have e: "dec_digits (Suc i) v d = padded (Suc i) v"
      using dec_digits_all [of "v mod 10 ^ i" i i] padded_front [OF Suc.prems] by simp
    show ?thesis
    proof (cases "i < d")
      case True
      then have "min (Suc i) d = Suc i" by simp
      with e show ?thesis by (simp only:)
    next
      case False
      then have "\<not> v < 10 ^ i" using True by auto
      then have "\<not> length (digits_of v) \<le> i" using length_digits_of by blast
      then show ?thesis unfolding e using False by (simp add: padded_def)
    qed
  next
    case False
    then have "v < 10 ^ i" by (simp add: div_eq_0_iff)
    then show ?thesis using Suc.IH False by simp
  qed
qed (simp add: padded_def)

definition decimal_char :: "nat \<Rightarrow> i8" where
  "decimal_char d = of_nat (48 + d)"

lemma hex_table_decimal: "c < 10 \<Longrightarrow> hex_table_pt ! c = decimal_char c"
proof -
  have "list_all (\<lambda>c. hex_table_pt ! c = decimal_char c) [0..<10]" by code_simp
  then show "c < 10 \<Longrightarrow> hex_table_pt ! c = decimal_char c" by (simp add: list_all_iff)
qed

lemma print_dec_loop_sends:
  assumes "takes hw"
  shows "i \<le> 10 \<Longrightarrow> unat k = 10 ^ i div 10 \<Longrightarrow> unat val < 10 ^ i \<Longrightarrow>
    \<exists>tr'. print_dec_loop hw i k val digits num tr = Some (num + int (length (dec_digits i (unat val) (unat digits))), tr')
      \<and> sent tr' = sent tr @ map decimal_char (dec_digits i (unat val) (unat digits))"
proof (induction i arbitrary: k val digits num tr)
  case (Suc i)
  let ?cur = "val div k" and ?c = "unat val div 10 ^ i"
  have k: "unat k = 10 ^ i" using Suc.prems(2) by simp
  have c: "unat ?cur = ?c" by (simp add: unat_div k)
  have c10: "?c < 10" using Suc.prems(3) by (simp add: div_less_iff_less_mult)
  have v: "unat (val - ?cur * k) = unat val mod 10 ^ i"
    by (metis k unat_mod word_mod_div_equality add_diff_cancel_left' add.commute minus_div_mult_eq_mod minus_mult_div_eq_mod mult.commute)
  have k': "unat (k div 10) = 10 ^ i div 10" by (simp add: unat_div k)
  have i: "unat (of_nat i :: i32) = i" using Suc.prems(1) by (simp add: unsigned_of_nat take_bit_nat_eq_self)
  have z: "?cur \<noteq> 0 \<or> of_nat i < digits \<longleftrightarrow> ?c \<noteq> 0 \<or> i < unat digits"
    using c i by (simp add: word_less_nat_alt flip: unat_eq_zero)
  have n: "unat (?cur AND 0xF) = ?c"
  proof -
    have "?cur AND 0xF = take_bit 4 ?cur" by (simp add: take_bit_eq_mask mask_eq_decr_exp)
    then have "unat (?cur AND 0xF) = take_bit 4 (unat ?cur)" by (simp only: unsigned_take_bit_eq)
    then show ?thesis using c c10 by (simp add: take_bit_eq_mod)
  qed
  have m: "unat (val - ?cur * k) < 10 ^ i" by (simp add: v)
  show ?case
  proof (cases "?c \<noteq> 0 \<or> i < unat digits")
    case True
    obtain t1 where t1: "write_serial_pt hw (decimal_char ?c) tr = Some t1" "sent t1 = sent tr @ [decimal_char ?c]"
      using write_serial_pt_sends [OF assms] by blast
    show ?thesis
      using Suc.IH [of "k div 10" "val - ?cur * k" "of_nat i" "num + 1" t1] Suc.prems(1) True z n hex_table_decimal [OF c10] t1 k' m v i
      by (auto simp: Let_def)
  next
    case False
    then show ?thesis using Suc.IH [of "k div 10" "val - ?cur * k" digits num tr] Suc.prems(1) z k' m v by (auto simp: Let_def)
  qed
qed simp

text \<open>
  \<open>print_uart_dec\<close> returns when the UART takes characters. It has sent the decimal numeral of the number, with zeros before it
  up to the given number of digits, ten at most, and returns how many characters these are. With no minimum, nothing
  is sent for zero.
\<close>

theorem print_uart_dec_numeral:
  assumes "takes hw"
  shows "\<exists>tr'. print_uart_dec hw val digits tr = Some (int (length (padded (min 10 (unat digits)) (unat val))), tr')
    \<and> sent tr' = sent tr @ map decimal_char (padded (min 10 (unat digits)) (unat val))"
proof -
  have "unat val < 2 ^ 32" by (rule order_less_le_trans [OF unsigned_less]) simp
  then have v: "unat val < 10 ^ 10" by simp
  have k: "unat (1000000000 :: i32) = 10 ^ 10 div 10" by simp
  have "dec_digits 10 (unat val) (unat digits) = padded (min 10 (unat digits)) (unat val)" using dec_digits_padded [OF v] .
  then show ?thesis using print_dec_loop_sends [OF assms order_refl k v, of digits 0 tr] by (simp add: print_uart_dec_def)
qed

lemma print_uart_dec_numeral_witness:
  "\<exists>tr'. print_uart_dec (\<lambda>_ _. 0x20) 1205 6 [] = Some (6, tr') \<and> sent tr' = map of_char ''001205''"
proof -
  have "takes (\<lambda>_ _. 0x20)" unfolding takes_def by simp
  moreover have "padded 6 1205 = [0, 0, 1, 2, 0, 5]" by (simp add: padded_def digits_of_rec numeral_2_eq_2)
  ultimately show ?thesis using print_uart_dec_numeral [of "\<lambda>_ _. 0x20" 1205 6 "[]"] by (simp add: decimal_char_def)
qed

end
