(* ===== verification/PitonBoot.thy ===== *)
theory PitonBoot
  imports PitonIo BootGpt
begin

unbundle bit_operations_syntax

text \<open>
  The OpenPiton boot ROM (\<open>sd.c\<close>, \<open>gpt.c\<close>, \<open>main.c\<close> in \<open>corev_apu/openpiton/bootrom/linux/src\<close>): the SD card is mapped into
  memory, and the boot partition is copied from there with a progress report. The tables and their print-out are those of the FPGA's boot ROM, with
  the same text in both sources.
\<close>

section \<open>Copying (\<open>sd.c\<close>)\<close>

definition PITON_SD_BASE_ADDR :: i64 where
  "PITON_SD_BASE_ADDR = 0xf000000000"

definition init_sd_pt :: "status \<Rightarrow> trace \<Rightarrow> (int \<times> trace) option" where
  "init_sd_pt hw tr = map_option (\<lambda>(n, tr). (0, tr)) (print_uart_pt hw (''initializing SD... '' @ crlf) tr)"

text \<open>The report on block \<open>blk\<close>: the one before, of \<open>num_chars\<close> characters, is deleted; the products are of 32 bits.\<close>

fun backspaces :: "status \<Rightarrow> nat \<Rightarrow> trace \<Rightarrow> trace option" where
  "backspaces hw 0 tr = Some tr"
| "backspaces hw (Suc k) tr = do { (n, tr) \<leftarrow> print_uart_pt hw [CHR 0x08] tr; backspaces hw k tr }"

definition percent :: "i32 \<Rightarrow> i32 \<Rightarrow> i32" where
  "percent blk sz = blk * 100 div sz"

definition report_progress :: "status \<Rightarrow> i32 \<Rightarrow> i32 \<Rightarrow> i32 \<Rightarrow> trace \<Rightarrow> (i32 \<times> trace) option" where
  "report_progress hw num_chars blk sz tr = do {
     tr \<leftarrow> backspaces hw (unat num_chars) tr;
     (n1, tr) \<leftarrow> print_uart_pt hw ''copying block '' tr;
     (n2, tr) \<leftarrow> print_uart_dec hw blk 1 tr;
     (n3, tr) \<leftarrow> print_uart_pt hw '' of '' tr;
     (n4, tr) \<leftarrow> print_uart_dec hw sz 1 tr;
     (n5, tr) \<leftarrow> print_uart_pt hw '' blocks ('' tr;
     (n6, tr) \<leftarrow> print_uart_dec hw (percent blk sz) 1 tr;
     (n7, tr) \<leftarrow> print_uart_pt hw '' %)'' tr;
     Some (word_of_int (n1 + n2 + n3 + n4 + n5 + n6 + n7), tr)
   }"

text \<open>
  The copy of 64 words of 8 bytes, from the address \<open>addr\<close> of the memory \<open>mem\<close> to the position \<open>p\<close> of the destination; a
  store outside the destination is \<open>None\<close>.
\<close>

fun copy_words :: "(i64 \<Rightarrow> i8) \<Rightarrow> nat \<Rightarrow> i64 \<Rightarrow> i8 list \<Rightarrow> nat \<Rightarrow> i8 list option" where
  "copy_words mem 0 addr dst p = Some dst"
| "copy_words mem (Suc n) addr dst p = do {
     dst \<leftarrow> store dst p (map (\<lambda>j. mem (addr + of_nat j)) [0..<8]);
     copy_words mem n (addr + 8) dst (p + 8)
   }"

text \<open>The loop over the blocks; the first number is that of the blocks left.\<close>

fun copy_blocks ::
    "status \<Rightarrow> (i64 \<Rightarrow> i8) \<Rightarrow> nat \<Rightarrow> i32 \<Rightarrow> i32 \<Rightarrow> i32 \<Rightarrow> i64 \<Rightarrow> i8 list \<Rightarrow> nat \<Rightarrow> trace \<Rightarrow> (i8 list \<times> trace) option" where
  "copy_blocks hw mem 0 blk sz num_chars addr dst p tr = Some (dst, tr)"
| "copy_blocks hw mem (Suc n) blk sz num_chars addr dst p tr = do {
     (num_chars, tr) \<leftarrow> (if blk mod 100 = 0 then report_progress hw num_chars blk sz tr else Some (num_chars, tr));
     dst \<leftarrow> copy_words mem 64 addr dst p;
     copy_blocks hw mem n (blk + 1) sz num_chars (addr + 512) dst (p + 512) tr
   }"

definition sd_copy_pt :: "status \<Rightarrow> (i64 \<Rightarrow> i8) \<Rightarrow> i8 list \<Rightarrow> i32 \<Rightarrow> i32 \<Rightarrow> trace \<Rightarrow> (int \<times> i8 list \<times> trace) option" where
  "sd_copy_pt hw mem dst src_lba sz tr = do {
     let raw_addr = PITON_SD_BASE_ADDR + push_bit 9 (ucast src_lba);
     (dst, tr) \<leftarrow> copy_blocks hw mem (unat sz) 0 sz 0 raw_addr dst 0 tr;
     (n, tr) \<leftarrow> print_uart_pt hw crlf tr;
     Some (0, dst, tr)
   }"

section \<open>The loader (\<open>gpt.c\<close>) and \<open>main\<close>\<close>

fun put_pt :: "status \<Rightarrow> out \<Rightarrow> trace \<Rightarrow> trace option" where
  "put_pt hw (Str s) tr = map_option snd (print_uart_pt hw s tr)"
| "put_pt hw (Addr a) tr = map_option snd (print_uart_addr_pt hw a tr)"
| "put_pt hw (Int32 a) tr = map_option snd (print_uart_int_pt hw a tr)"
| "put_pt hw (Byte b) tr = map_option snd (print_uart_byte_pt hw b tr)"

fun puts_pt :: "status \<Rightarrow> out list \<Rightarrow> trace \<Rightarrow> trace option" where
  "puts_pt hw [] tr = Some tr"
| "puts_pt hw (x # xs) tr = Option.bind (put_pt hw x tr) (puts_pt hw xs)"

definition gpt_find_boot_partition_pt ::
    "status \<Rightarrow> (i64 \<Rightarrow> i8) \<Rightarrow> i8 list \<Rightarrow> i8 list \<Rightarrow> i8 list \<Rightarrow> i32 \<Rightarrow> trace \<Rightarrow> (int \<times> i8 list \<times> trace) option" where
  "gpt_find_boot_partition_pt hw mem buf1 buf2 dest sz tr = do {
     (ret, tr) \<leftarrow> init_sd_pt hw tr;
     if ret \<noteq> 0 then do {
       tr \<leftarrow> puts_pt hw [Str (''could not initialize sd... exiting'' @ crlf)] tr;
       Some (-1, dest, tr)
     } else do {
       tr \<leftarrow> puts_pt hw [Str (''sd initialized!'' @ crlf)] tr;
       (res, lba1_buf, tr) \<leftarrow> sd_copy_pt hw mem buf1 1 1 tr;
       if res \<noteq> 0 then do {
         tr \<leftarrow> puts_pt hw (failure_lines res) tr;
         Some (-2, dest, tr)
       } else do {
         let lba1 = read_pth lba1_buf;
         tr \<leftarrow> puts_pt hw (header_lines lba1) tr;
         (res, lba2_buf, tr) \<leftarrow> sd_copy_pt hw mem buf2 (ucast (partition_entries_lba lba1)) 1 tr;
         if res \<noteq> 0 then do {
           tr \<leftarrow> puts_pt hw (failure_lines res) tr;
           Some (-2, dest, tr)
         } else do {
           tr \<leftarrow> puts_pt hw (concat (map (\<lambda>i. entry_lines i (read_entry lba2_buf (i * 128))) [0, 1, 2, 3])) tr;
           let boot = read_entry lba2_buf 0;
           tr \<leftarrow> puts_pt hw [Str ''copying boot image '', Str crlf] tr;
           (res, dest, tr) \<leftarrow> sd_copy_pt hw mem dest (ucast (first_lba boot)) (ucast (last_lba boot - first_lba boot + 1)) tr;
           if res \<noteq> 0 then do {
             tr \<leftarrow> puts_pt hw (failure_lines res) tr;
             Some (-2, dest, tr)
           } else do {
             tr \<leftarrow> puts_pt hw [Str ('' done!'' @ crlf)] tr;
             Some (0, dest, tr)
           }
         }
       }
     }
   }"

text \<open>\<open>info\<close> is a text that the build generates, \<open>freq\<close> the frequency that it sets; the result of the loader is not used.\<close>

definition boot_main_pt :: "status \<Rightarrow> (i64 \<Rightarrow> i8) \<Rightarrow> i32 \<Rightarrow> string \<Rightarrow> i8 list \<Rightarrow> i8 list \<Rightarrow> i8 list \<Rightarrow> trace \<Rightarrow> (int \<times> i8 list \<times> trace) option" where
  "boot_main_pt hw mem freq info buf1 buf2 dest tr = do {
     tr \<leftarrow> init_uart_pt freq 115200 tr;
     tr \<leftarrow> puts_pt hw [Str info, Str (''sd initialized!'' @ crlf)] tr;
     (res, dest, tr) \<leftarrow> gpt_find_boot_partition_pt hw mem buf1 buf2 dest (2 * 16384) tr;
     Some (0, dest, tr)
   }"

section \<open>The progress report\<close>

text \<open>The percentage is right as long as a hundred times the block number fits; a card of 20 GiB has blocks for which it does not.\<close>

lemma percent_right: "unat blk * 100 < 2 ^ 32 \<Longrightarrow> unat (percent blk sz) = unat blk * 100 div unat sz"
proof -
  assume "unat blk * 100 < 2 ^ 32"
  then have "unat (blk * 100) = unat blk * 100" by (subst unat_mult_lem [THEN iffD1]) simp_all
  then show ?thesis by (simp add: percent_def unat_div)
qed

lemma percent_overflow: "percent 42949600 42949700 = 99 \<and> percent 42949700 42949701 = 0"
  by (simp add: percent_def)

lemma print_uart_dec_sends:
  "takes hw \<Longrightarrow> \<exists>n tr'. print_uart_dec hw val digits tr = Some (n, tr')"
proof -
  assume h: "takes hw"
  have "unat val < 2 ^ 32" by (rule order_less_le_trans [OF unsigned_less]) simp
  then have v: "unat val < 10 ^ 10" by simp
  have k: "unat (1000000000 :: i32) = 10 ^ 10 div 10" by simp
  show ?thesis using print_dec_loop_sends [OF h order_refl k v, of digits 0 tr] by (auto simp: print_uart_dec_def)
qed

lemma print_uart_pt_returns: "takes hw \<Longrightarrow> \<exists>tr'. print_uart_pt hw s tr = Some (int (length s), tr')"
  using print_uart_pt_sends by blast

lemma backspaces_returns: "takes hw \<Longrightarrow> \<exists>tr'. backspaces hw k tr = Some tr'"
proof (induction k arbitrary: tr)
  case (Suc k)
  obtain t1 where "print_uart_pt hw [CHR 0x08] tr = Some (int (length [CHR 0x08]), t1)"
    using print_uart_pt_returns [OF Suc.prems] by blast
  then show ?case using Suc by simp
qed simp

lemma report_progress_returns:
  assumes h: "takes hw"
  shows "\<exists>n tr'. report_progress hw num_chars blk sz tr = Some (n, tr')"
proof -
  obtain t0 where t0: "backspaces hw (unat num_chars) tr = Some t0" using backspaces_returns [OF h] by blast
  obtain n1 t1 where t1: "print_uart_pt hw ''copying block '' t0 = Some (n1, t1)" using print_uart_pt_returns [OF h] by blast
  obtain n2 t2 where t2: "print_uart_dec hw blk 1 t1 = Some (n2, t2)" using print_uart_dec_sends [OF h] by blast
  obtain n3 t3 where t3: "print_uart_pt hw '' of '' t2 = Some (n3, t3)" using print_uart_pt_returns [OF h] by blast
  obtain n4 t4 where t4: "print_uart_dec hw sz 1 t3 = Some (n4, t4)" using print_uart_dec_sends [OF h] by blast
  obtain n5 t5 where t5: "print_uart_pt hw '' blocks ('' t4 = Some (n5, t5)" using print_uart_pt_returns [OF h] by blast
  obtain n6 t6 where t6: "print_uart_dec hw (percent blk sz) 1 t5 = Some (n6, t6)" using print_uart_dec_sends [OF h] by blast
  obtain n7 t7 where t7: "print_uart_pt hw '' %)'' t6 = Some (n7, t7)" using print_uart_pt_returns [OF h] by blast
  show ?thesis unfolding report_progress_def by (simp only: t0 t1 t2 t3 t4 t5 t6 t7 bind.bind_lunit prod.case) (intro exI, rule refl)
qed

section \<open>What is copied\<close>

definition region :: "(i64 \<Rightarrow> i8) \<Rightarrow> i64 \<Rightarrow> nat \<Rightarrow> i8 list" where
  "region mem addr n = map (\<lambda>j. mem (addr + of_nat j)) [0..<n]"

lemma length_region [simp]: "length (region mem addr n) = n"
  by (simp add: region_def)

lemma region_add: "region mem addr (m + n) = region mem addr m @ region mem (addr + of_nat m) n"
proof -
  have u: "[0..<m + n] = [0..<m] @ map (\<lambda>j. j + m) [0..<n]"
    using upt_add_eq_append [of 0 m n] map_add_upt [of m n] by (simp add: add.commute)
  have a: "addr + of_nat (j + m) = addr + of_nat m + of_nat j" for j by simp
  show ?thesis unfolding region_def u map_append map_map comp_def a ..
qed

lemma region_0 [simp]: "region mem addr 0 = []"
  by (simp add: region_def)

lemma copy_words_region:
  "8 * n \<le> length ys \<Longrightarrow>
     copy_words mem n addr (xs @ ys) (length xs) = Some (xs @ region mem addr (8 * n) @ drop (8 * n) ys)"
proof (induction n arbitrary: addr xs ys)
  case (Suc n)
  let ?w = "region mem addr 8"
  have s: "store (xs @ ys) (length xs) (map (\<lambda>j. mem (addr + of_nat j)) [0..<8]) = Some ((xs @ ?w) @ drop 8 ys)"
    using Suc.prems unfolding region_def [symmetric] by (simp add: store_append)
  have "region mem addr (8 * Suc n) = ?w @ region mem (addr + 8) (8 * n)" using region_add [of mem addr 8 "8 * n"] by simp
  then show ?case using Suc.IH [of "drop 8 ys" "addr + 8" "xs @ ?w"] Suc.prems s by (simp del: upt_rec_numeral add: add.commute)
qed simp

lemma copy_blocks_region:
  assumes h: "takes hw"
  shows "512 * n \<le> length ys \<Longrightarrow> \<exists>tr'. copy_blocks hw mem n blk sz num_chars addr (xs @ ys) (length xs) tr
     = Some (xs @ region mem addr (512 * n) @ drop (512 * n) ys, tr')"
proof (induction n arbitrary: blk num_chars addr xs ys tr)
  case (Suc n)
  let ?b = "region mem addr 512"
  obtain nc t1 where r: "(if blk mod 100 = 0 then report_progress hw num_chars blk sz tr else Some (num_chars, tr)) = Some (nc, t1)"
    using report_progress_returns [OF h, of num_chars blk sz tr] by (cases "blk mod 100 = 0") auto
  have w: "copy_words mem 64 addr (xs @ ys) (length xs) = Some ((xs @ ?b) @ drop 512 ys)"
    using copy_words_region [of 64 ys] Suc.prems by simp
  have "region mem addr (512 * Suc n) = ?b @ region mem (addr + 512) (512 * n)" using region_add [of mem addr 512 "512 * n"] by simp
  then show ?case
    using Suc.IH [of "drop 512 ys" "blk + 1" nc "addr + 512" "xs @ ?b" t1] Suc.prems r w by (simp add: add.commute)
qed simp

text \<open>The bytes of the card from a block on.\<close>

definition card_bytes :: "(i64 \<Rightarrow> i8) \<Rightarrow> i32 \<Rightarrow> nat \<Rightarrow> i8 list" where
  "card_bytes mem lba n = region mem (PITON_SD_BASE_ADDR + push_bit 9 (ucast lba)) (512 * n)"

lemma length_card_bytes [simp]: "length (card_bytes mem lba n) = 512 * n"
  by (simp add: card_bytes_def)

lemma sd_copy_pt_copies:
  assumes h: "takes hw" and l: "512 * unat sz \<le> length dst"
  shows "\<exists>tr'. sd_copy_pt hw mem dst lba sz tr = Some (0, card_bytes mem lba (unat sz) @ drop (512 * unat sz) dst, tr')"
proof -
  obtain t1 where "copy_blocks hw mem (unat sz) 0 sz 0 (PITON_SD_BASE_ADDR + push_bit 9 (ucast lba)) ([] @ dst) (length []) tr
      = Some ([] @ card_bytes mem lba (unat sz) @ drop (512 * unat sz) dst, t1)"
    using copy_blocks_region [OF h l, of mem 0 sz 0 "PITON_SD_BASE_ADDR + push_bit 9 (ucast lba)" "[]" tr] unfolding card_bytes_def by auto
  then show ?thesis using print_uart_pt_returns [OF h, of crlf t1] by (auto simp: sd_copy_pt_def)
qed

section \<open>The loader\<close>

lemma print_hex_loop_returns: "takes hw \<Longrightarrow> \<exists>tr'. print_hex_loop hw n addr tr = Some tr'"
  using print_hex_loop_sends by blast

lemma put_pt_returns: "takes hw \<Longrightarrow> \<exists>tr'. put_pt hw x tr = Some tr'"
proof (cases x)
  case (Str s)
  assume "takes hw"
  then show ?thesis using print_uart_pt_returns [of hw s tr] Str by auto
next
  case (Addr a)
  assume "takes hw"
  then show ?thesis using print_hex_loop_returns [of hw 8 a tr] Addr by (auto simp: print_uart_addr_pt_def)
next
  case (Int32 a)
  assume "takes hw"
  then show ?thesis using print_hex_loop_returns [of hw 4 "ucast a" tr] Int32 by (auto simp: print_uart_int_pt_def)
next
  case (Byte b)
  assume h: "takes hw"
  obtain t1 where 1: "write_serial_pt hw (bin_to_hex_pt b ! 0) tr = Some t1" using write_serial_pt_sends [OF h] by blast
  obtain t2 where "write_serial_pt hw (bin_to_hex_pt b ! 1) t1 = Some t2" using write_serial_pt_sends [OF h] by blast
  with 1 show ?thesis using Byte by (simp add: print_uart_byte_pt_def)
qed

lemma puts_pt_returns: "takes hw \<Longrightarrow> \<exists>tr'. puts_pt hw xs tr = Some tr'"
proof (induction xs arbitrary: tr)
  case (Cons x xs)
  then obtain t1 where "put_pt hw x tr = Some t1" using put_pt_returns by blast
  then show ?case using Cons by simp
qed simp

text \<open>
  C17: When the UART takes characters, the loader of the OpenPiton boot ROM returns 0 with the first partition of the card's
  table at the destination: as many blocks as its first and last address say, taken modulo \<open>2^32\<close>, if the destination holds them.
  The table is read at the address that the header in block 1 gives.
\<close>

theorem gpt_pt_loads_first_partition:
  assumes "takes hw" "length buf1 = 512" "length buf2 = 512"
    and "boot = read_entry (card_bytes mem (ucast (partition_entries_lba (read_pth (card_bytes mem 1 1)))) 1) 0"
    and "n = unat (ucast (last_lba boot - first_lba boot + 1) :: i32)" "512 * n \<le> length dest"
  shows "\<exists>tr'. gpt_find_boot_partition_pt hw mem buf1 buf2 dest sz tr
    = Some (0, card_bytes mem (ucast (first_lba boot)) n @ drop (512 * n) dest, tr')"
proof -
  note h = assms(1)
  let ?h = "card_bytes mem 1 1"
  let ?lba = "ucast (partition_entries_lba (read_pth ?h)) :: i32"
  let ?e = "card_bytes mem ?lba 1"
  obtain t1 where 1: "init_sd_pt hw tr = Some (0, t1)"
    using print_uart_pt_returns [OF h, of "''initializing SD... '' @ crlf" tr] by (auto simp: init_sd_pt_def)
  obtain t2 where 2: "puts_pt hw [Str (''sd initialized!'' @ crlf)] t1 = Some t2" using puts_pt_returns [OF h] by blast
  obtain t3 where 3: "sd_copy_pt hw mem buf1 1 1 t2 = Some (0, ?h, t3)"
    using sd_copy_pt_copies [OF h, of 1 buf1 mem 1 t2] assms(2) by auto
  obtain t4 where 4: "puts_pt hw (header_lines (read_pth ?h)) t3 = Some t4" using puts_pt_returns [OF h] by blast
  obtain t5 where 5: "sd_copy_pt hw mem buf2 ?lba 1 t4 = Some (0, ?e, t5)"
    using sd_copy_pt_copies [OF h, of 1 buf2 mem ?lba t4] assms(3) by auto
  obtain t6 where 6: "puts_pt hw (concat (map (\<lambda>i. entry_lines i (read_entry ?e (i * 128))) [0, 1, 2, 3])) t5 = Some t6"
    using puts_pt_returns [OF h] by blast
  obtain t7 where 7: "puts_pt hw [Str ''copying boot image '', Str crlf] t6 = Some t7" using puts_pt_returns [OF h] by blast
  obtain t8 where 8: "sd_copy_pt hw mem dest (ucast (first_lba boot)) (ucast (last_lba boot - first_lba boot + 1)) t7
      = Some (0, card_bytes mem (ucast (first_lba boot)) n @ drop (512 * n) dest, t8)"
    using sd_copy_pt_copies [OF h, of "ucast (last_lba boot - first_lba boot + 1)" dest mem "ucast (first_lba boot)" t7] assms(5,6)
    by blast
  obtain t9 where 9: "puts_pt hw [Str ('' done!'' @ crlf)] t8 = Some t9" using puts_pt_returns [OF h] by blast
  have b: "boot = read_entry ?e 0" by (rule assms(4))
  show ?thesis
    unfolding gpt_find_boot_partition_pt_def Let_def
    by (simp only: 1 2 3 4 5 6 7 8 9 bind.bind_lunit prod.case b [symmetric]) simp
qed

lemma gpt_pt_loads_first_partition_witness:
  "\<exists>tr'. gpt_find_boot_partition_pt (\<lambda>_ _. 0x20) (\<lambda>_. 0) (replicate 512 1) (replicate 512 2) (replicate 600 7) 0 []
     = Some (0, replicate 512 0 @ replicate 88 7, tr')"
proof -
  have z: "card_bytes (\<lambda>_. 0) lba 1 = replicate 512 0" for lba by (simp add: card_bytes_def region_def map_replicate_const)
  have "takes (\<lambda>_ _. 0x20)" unfolding takes_def by simp
  from gpt_pt_loads_first_partition [OF this _ _ refl refl, of "replicate 512 1" "replicate 512 2" "\<lambda>_. 0" "replicate 600 7" 0 "[]"]
  show ?thesis by (simp only: z) (simp add: read_entry_def field_zeros z [unfolded One_nat_def])
qed

end
