(* ===== verification/Spec2Isabelle.thy ===== *)
theory Spec2Isabelle
  imports FFTMain Kfc CoreMain MnistInput Syscalls BootGpt BootHex RtStart RtUtil RtBarrier RtLfsr PitonBoot
begin

text \<open>
  A verification library for the software of the CVA6 soft-core repository: the C programs under
  \<open>sw/\<close> that run on the RV32 core, the FFT coprocessor they drive, the board support package below them,
  the boot ROMs of the FPGA and OpenPiton platforms and the run-time library of the core's own tests. The tool chain, the core itself
  and its peripherals are outside; what the programs need of them is a parameter.

  Conventions. A C integer of a fixed width is a word and wraps around; \<open>sint\<close> and \<open>uint\<close> read it.
  Where the code relies on an \<open>int\<close> that does not overflow the model computes with \<open>int\<close> and returns
  \<open>None\<close> on overflow. An array of known extent is a list; an access outside it, the dereference of
  \<open>NULL\<close> and a loop that does not end are the result \<open>None\<close>, so a theorem that a function returns
  \<open>Some\<close> says that it ends and is free of these faults. Loops are structural recursions,
  \<open>for_loop\<close>, or \<open>partial_function\<close> where they may not end; no fuel is used.

  The parts of the program.

  The FFT. \<open>sw/app/fft\<close> transforms 512 complex samples with a modified kissfft whose radix-4 stage runs on
  a coprocessor behind custom-3 instructions (\<open>core/cvxif_example\<close>). Theory \<open>Copro\<close> models the
  instruction table and decoder, the registers and ALU, and the C intrinsics
  (\<open>kissfft_lib/instr_copro.h\<close>); one instruction is one step on the record \<open>copro\<close>. \<open>FixedPoint\<close> gives the
  exact values and ranges of the rounding and Q15 operations. \<open>Radix4\<close> models the software-pipelined
  \<open>copro_radix4\<close> and shows that it computes every column's butterfly in place. \<open>KissFFT\<close> models
  \<open>kf_work\<close>, \<open>kiss_fft_alloc\<close>, \<open>kiss_fft_stride\<close> and \<open>kiss_fft\<close>, and shows that the recursion is the
  decimation-in-time transform for input stride 1, the only one the code transforms as documented; \<open>DFT\<close> shows that this transform is the discrete Fourier transform in
  exact arithmetic, \<open>ErrorBound\<close> bounds the error of the fixed-point one, and \<open>Twiddles\<close> certifies
  the table of roots of unity. \<open>FFTTables\<close> holds the tables of \<open>fft_int16_main.h\<close>, \<open>FFTEval\<close> an
  evaluator that the kernel can run, \<open>FFTRun\<close> its run on the tables, and \<open>FFTMain\<close> the application's
  \<open>main\<close> with the theorems about it: it prints SUCCESS, and any input of bounded magnitude is
  transformed with an error of at most 47 units. \<open>KissFactor\<close> models the factorisation and the search for
  fast lengths, \<open>Kfc\<close> the cache of configurations of \<open>kfc.c\<close>.

  CoreMark. \<open>sw/app/coremark\<close>. \<open>Crc\<close> models the CRC, the seeds and the type check of \<open>core_util.c\<close>, and shows that the
  CRC is the remainder of the message by its polynomial. \<open>StateMachine\<close> models \<open>core_state.c\<close>: the
  classifier is shown to accept exactly the grammar of numbers and to reject exactly what begins no number, the benchmark to end and to
  restore its memory, the generator to fill its block. \<open>Matrix\<close> models \<open>core_matrix.c\<close>: products, initialisation
  without overflow, restoration of the matrix. \<open>LinkedList\<close> models the list of \<open>core_list_join.c\<close> on
  a heap of links and data pointers (record \<open>lheap\<close>): \<open>chain h as\<close> says that the links lead through the
  heads \<open>as\<close>. The merge sort is refined to a sort of lists of addresses (\<open>asort\<close>); the locale \<open>cmp_total\<close>
  is what it needs of a comparison function to return a permutation, and \<open>key_cmp\<close> what makes it
  the stable sort by a key. Both are interpreted on the code's comparison functions: \<open>by_idx\<close> on
  \<open>cmp_idx\<close>, and in \<open>ListBench\<close> \<open>complex\<close> on \<open>cmp_complex\<close>, which runs the other two benchmarks.
  \<open>ListBench\<close> models \<open>core_bench_list\<close> and shows that it puts the links back and regenerates the data; \<open>ListInit\<close> shows what
  \<open>core_list_init\<close> builds; \<open>CoreMain\<close> models \<open>iterate\<close>, \<open>main\<close> and the port, and shows that the whole
  benchmark returns for the seeds of its performance and validation runs, and what its verdict means.

  MNIST. \<open>sw/app/mnist\<close> classifies an image with a network of four layers. \<open>Mnist\<close> models the arithmetic of
  \<open>NetworkPropagate.c\<close> (saturation, the convolution and the fully connected cells, the maximum), the arrays that share
  one block of memory (\<open>mem_info.h\<close>) included; the weights and biases of the generated headers are arguments.
  \<open>MnistConv\<close> shows that a convolution is the sum of products over its window, \<open>MnistMain\<close> that \<open>propagate\<close>
  computes the network on separate tensors although the arrays overlap, and \<open>MnistInput\<close> models the reader of
  images (\<open>cpp_utils.c\<close>) and \<open>main\<close>, with the round trip of an image and the behaviour on truncated ones.

  The board support package. \<open>Mmio\<close> gives the model of devices: the history of the accesses to them is the state, and a
  read returns what a record \<open>hardware\<close> says for that history, about which nothing is assumed unless a theorem says so.
  \<open>Plic\<close> models the functions of \<open>hal/plic.h\<close>, \<open>Uart\<close> the driver \<open>drivers/uart/uart.c\<close>. \<open>UartTx\<close> shows what is programmed
  for a baud rate and what the polled functions send; \<open>UartIrq\<close> has the invariant of a transmission by interrupts,
  over all sequences of interrupts and of calls of the driver that do not transmit themselves (\<open>reachable\<close>); \<open>UartRx\<close> is about receiving. \<open>Syscalls\<close> models
  \<open>hal/syscalls.c\<close> on top of the driver.

  The boot ROM. \<open>corev_apu/fpga/src/bootrom/src\<close>. \<open>BootIo\<close> models the console and the SPI master, \<open>BootSd\<close> the
  protocol of the SD card and the checksums, \<open>BootGpt\<close> the loader of the boot partition and \<open>main\<close>. \<open>BootSpi\<close> shows that the
  accesses to the SPI controller exchange bytes: \<open>spi_device hw arrived resp\<close> is what is assumed of the controller, with the
  card a function \<open>resp\<close> of the bytes sent. \<open>BootCrc\<close> shows that the checksum is the division by the polynomial 0x11021 and
  has distance four on the blocks of the card; \<open>BootRead\<close> that \<open>sd_copy\<close> takes the blocks out of the frames the
  card sends; \<open>BootGpt\<close> composes all of it: from a ready card the first partition is loaded. \<open>BootHex\<close> is about the
  numbers printed. The boot ROM for OpenPiton (\<open>corev_apu/openpiton/bootrom/linux/src\<close>) has a console of its own, in \<open>PitonIo\<close> with
  the decimal numbers it prints, and a card that is mapped into memory: \<open>PitonBoot\<close> models the copy with its progress
  report and the loader, which shares the tables of \<open>BootGpt\<close>, and shows what it loads.

  The run-time library of the core's tests. \<open>verif/tests/custom/common/syscalls.c\<close>. \<open>RtMem\<close> models the memory and string
  functions on a byte-addressed memory and shows what they do; the loops over words are shown equal to those over bytes.
  \<open>RtPrint\<close> models \<open>vprintfmt\<close> and the functions on top of it. \<open>RtFormat\<close> says what a format is and what text the C
  standard gives a directive (\<open>iso_string\<close>, \<open>iso_integer\<close>), for the directives on which the implementation follows it (\<open>shown\<close>), and
  proves that \<open>vprintfmt\<close> prints it on every \<open>sink\<close>, a locale for what takes the characters; \<open>RtLib\<close> interprets it on \<open>putchar\<close> and on \<open>sprintf\<close>, and has the round trip of numbers. \<open>RtStart\<close> models the counters
  (\<open>setStats\<close>) and the run of a program from \<open>_init\<close> (\<open>rt_init\<close>) to \<open>exit\<close>, with the thread-local data it finds (\<open>tls_image\<close>) and the report that \<open>sprintf\<close> puts into its array.

  The utilities of the tests. \<open>verif/tests/custom/common/util.h\<close>. \<open>RtUtil\<close> shows that the unrolled comparisons find the first
  difference. \<open>RtBarrier\<close> models the barrier as steps of interleaved cores (\<open>barrier_step\<close>) on a sequentially consistent memory:
  \<open>barrier_inv\<close> ties the shared variables to where the cores are, and gives safety and that all calls return after four rounds of turns.
  \<open>RtLfsr\<close> shows that the shift register has the full period: its step is a linear map whose powers are computed as
  polynomials, for the exponents that the prime factors of \<open>2^63 - 1\<close> give.

  Bounds and parameters. No function has fuel. Loops that wait for a device are partial functions, and the theorems
  state what the device must do for them to end. The number of points of the FFT, the sizes of the network and the
  512 bytes of a block are those of the source. The kernel evaluates the FFT on its test vector (\<open>FFTRun\<close>), which takes
  most of the time of a check, and 4128 steps of the checksum (\<open>BootCrc\<close>).

  Not modelled. The core and its peripherals in SystemVerilog, except the coprocessor; start-up code and trap
  handlers in assembly, and the weak handlers of \<open>riscv_hal_stubs.c\<close>, which return 0; the real and the
  multi-dimensional transforms of kissfft and its tools, which need types that the modified \<open>kiss_fft.h\<close> no longer
  declares and do not compile, and its tests; \<open>test_copro\<close> and the hello-world programs, which only print; the copies of
  CoreMark and of the system calls under \<open>verif\<close>; the effects of a weaker memory model on the barrier;
  the test bench in C++; Spike, SoftFloat
  and the other vendored or generated code; scripts.
\<close>

end
